(* ===== verification/Prelude.thy ===== *)
theory Prelude
  imports Main "HOL-Library.Word" "HOL-Library.Char_ord"
begin

text \<open>
  Shared vocabulary of the UniCenter development.

  Go strings are byte sequences, so a Go \<open>string\<close> is an Isabelle \<open>string\<close> whose
  characters are read as bytes (\<open>byte\<close>). A Go \<open>error\<close> result is an option (\<open>None\<close> is nil);
  a pair of value and error is a sum (\<open>Inl\<close> the error). The theory holds the early-return
  combinators of validators, the string routines of the Go standard library the sources
  call (Split, IndexByte, TrimSpace, Itoa), three-way comparators with their lexicographic
  lifting, and the lemma collections the component theories extend.
\<close>

named_theorems go_simps \<open>rewrite rules for the Go control-flow combinators\<close>
named_theorems cmp_laws \<open>laws of three-way comparators\<close>

type_synonym ('e, 'a) result = "'e + 'a"

section \<open>Early return\<close>

text \<open>The Go idiom \<open>if err := a; err != nil { return err }; b\<close>.\<close>
fun and_then :: "'e option \<Rightarrow> 'e option \<Rightarrow> 'e option" where
  "and_then (Some e) k = Some e"
| "and_then None k = k"

text \<open>The Go idiom \<open>if bad { return e }\<close>.\<close>
definition reject_if :: "bool \<Rightarrow> 'e \<Rightarrow> 'e option" where
  "reject_if b e = (if b then Some e else None)"

text \<open>A loop whose body returns the first error.\<close>
fun first_err :: "('a \<Rightarrow> 'e option) \<Rightarrow> 'a list \<Rightarrow> 'e option" where
  "first_err f [] = None"
| "first_err f (x # xs) = and_then (f x) (first_err f xs)"

lemma and_then_None [simp, go_simps]: "and_then a b = None \<longleftrightarrow> a = None \<and> b = None"
  by (cases a) auto

lemma and_then_Some: "and_then a b = Some e \<longleftrightarrow> a = Some e \<or> (a = None \<and> b = Some e)"
  by (cases a) auto

lemma and_then_assoc: "and_then (and_then a b) c = and_then a (and_then b c)"
  by (cases a) auto

lemma reject_if_None [simp, go_simps]: "reject_if b e = None \<longleftrightarrow> \<not> b"
  by (simp add: reject_if_def)

lemma reject_if_Some [simp, go_simps]: "reject_if b e = Some x \<longleftrightarrow> b \<and> x = e"
  by (auto simp: reject_if_def)

lemma reject_if_simps [simp]: "reject_if True e = Some e" "reject_if False e = None"
  by (simp_all add: reject_if_def)

lemma first_err_None [simp, go_simps]: "first_err f xs = None \<longleftrightarrow> (\<forall>x\<in>set xs. f x = None)"
  by (induction xs) auto

lemma first_err_Some: "first_err f xs = Some e \<Longrightarrow> \<exists>x\<in>set xs. f x = Some e"
  by (induction xs) (auto simp: and_then_Some)

section \<open>Bytes and strings\<close>

definition byte :: "char \<Rightarrow> nat" where
  "byte c = of_char c"

lemma byte_inject [simp]: "byte c = byte d \<longleftrightarrow> c = d"
  by (simp add: byte_def)

definition is_digit :: "char \<Rightarrow> bool" where
  "is_digit c \<longleftrightarrow> 48 \<le> byte c \<and> byte c \<le> 57"

definition is_lower :: "char \<Rightarrow> bool" where
  "is_lower c \<longleftrightarrow> 97 \<le> byte c \<and> byte c \<le> 122"

definition is_upper :: "char \<Rightarrow> bool" where
  "is_upper c \<longleftrightarrow> 65 \<le> byte c \<and> byte c \<le> 90"

text \<open>\<open>strings.Split(s, sep)\<close> for a one-byte separator.\<close>
fun split_on :: "char \<Rightarrow> string \<Rightarrow> string list" where
  "split_on c [] = [[]]"
| "split_on c (x # xs) =
     (if x = c then [] # split_on c xs
      else case split_on c xs of [] \<Rightarrow> [[x]] | y # ys \<Rightarrow> (x # y) # ys)"

fun join_with :: "char \<Rightarrow> string list \<Rightarrow> string" where
  "join_with c [] = []"
| "join_with c [x] = x"
| "join_with c (x # y # ys) = x @ c # join_with c (y # ys)"

text \<open>The two slices around the first occurrence of a byte (\<open>strings.IndexByte\<close>); None when absent.\<close>
fun cut_at :: "char \<Rightarrow> string \<Rightarrow> (string \<times> string) option" where
  "cut_at c [] = None"
| "cut_at c (x # xs) =
     (if x = c then Some ([], xs)
      else case cut_at c xs of None \<Rightarrow> None | Some (l, r) \<Rightarrow> Some (x # l, r))"

lemma split_on_nonempty [simp]: "split_on c s \<noteq> []"
  by (induction s) (auto split: list.splits)

lemma split_on_no_sep: "c \<notin> set s \<Longrightarrow> split_on c s = [s]"
  by (induction s) auto

lemma split_on_append: "c \<notin> set s \<Longrightarrow> split_on c (s @ c # t) = s # split_on c t"
  by (induction s) (auto split: list.splits)

lemma join_split [simp]: "join_with c (split_on c s) = s"
proof (induction s)
  case (Cons x xs)
  obtain y ys where s: "split_on c xs = y # ys"
    by (cases "split_on c xs") auto
  then have "join_with c (y # ys) = xs" using Cons by simp
  moreover have "join_with c ((x # y) # ys) = x # join_with c (y # ys)"
    by (cases ys) simp_all
  ultimately show ?case using s by simp
qed simp

lemma split_on_inject [simp]: "split_on c s = split_on c t \<longleftrightarrow> s = t"
  by (rule iffI, drule arg_cong [where f = "join_with c"]) simp_all

lemma cut_at_None: "cut_at c s = None \<longleftrightarrow> c \<notin> set s"
  by (induction s) (auto split: option.splits)

lemma cut_at_Some: "cut_at c s = Some (l, r) \<longleftrightarrow> s = l @ c # r \<and> c \<notin> set l"
proof (induction s arbitrary: l)
  case (Cons x xs)
  show ?case
  proof (cases "x = c")
    case True
    then show ?thesis by (cases l) auto
  next
    case False
    show ?thesis
    proof (cases "cut_at c xs")
      case None
      moreover have "c \<notin> set xs" using None by (simp add: cut_at_None)
      ultimately show ?thesis using False by (auto simp: Cons_eq_append_conv)
    next
      case (Some p)
      obtain l' r' where p: "p = (l', r')" by (cases p)
      show ?thesis
      proof (cases l)
        case Nil
        then show ?thesis using False Some p by auto
      next
        case (Cons y ys)
        then show ?thesis using False Some p Cons.IH [of ys] by auto
      qed
    qed
  qed
qed simp

lemma split_on_segments_no_sep: "seg \<in> set (split_on c s) \<Longrightarrow> c \<notin> set seg"
proof (induction s arbitrary: seg)
  case (Cons x xs)
  obtain y ys where s: "split_on c xs = y # ys" by (cases "split_on c xs") auto
  then show ?case using Cons.prems Cons.IH [of seg] Cons.IH [of y] by (auto split: if_splits)
qed simp

lemma split_on_chars: "seg \<in> set (split_on c s) \<Longrightarrow> set seg \<subseteq> set s"
proof (induction s arbitrary: seg)
  case (Cons x xs)
  obtain y ys where s: "split_on c xs = y # ys" by (cases "split_on c xs") auto
  then show ?case using Cons.prems Cons.IH [of seg] Cons.IH [of y] by (auto split: if_splits)
qed simp

subsection \<open>TrimSpace\<close>

text \<open>The UTF-8 encodings of the runes \<open>unicode.IsSpace\<close> accepts.\<close>
definition space_seqs :: "nat list list" where
  "space_seqs =
     [[9], [10], [11], [12], [13], [32], [194, 133], [194, 160], [225, 154, 128],
      [226, 128, 168], [226, 128, 169], [226, 128, 175], [226, 129, 159], [227, 128, 128]]
     @ map (\<lambda>n. [226, 128, n]) [128, 129, 130, 131, 132, 133, 134, 135, 136, 137, 138]"

text \<open>The length of a leading white-space rune of a byte sequence, 0 when there is none.\<close>
definition lead_space :: "nat list list \<Rightarrow> string \<Rightarrow> nat" where
  "lead_space seqs s =
     (case filter (\<lambda>q. take (length q) (map byte s) = q) seqs of [] \<Rightarrow> 0 | q # _ \<Rightarrow> length q)"

function strip_lead :: "nat list list \<Rightarrow> string \<Rightarrow> string" where
  "strip_lead seqs s =
     (if s = [] \<or> lead_space seqs s = 0 then s else strip_lead seqs (drop (lead_space seqs s) s))"
  by auto
termination
  by (relation "measure (\<lambda>(seqs, s). length s)") auto

declare strip_lead.simps [simp del]

definition trim_space :: "string \<Rightarrow> string" where
  "trim_space s = rev (strip_lead (map rev space_seqs) (rev (strip_lead space_seqs s)))"

subsection \<open>Decimal numerals\<close>

definition digit_char :: "nat \<Rightarrow> char" where
  "digit_char d = char_of (48 + d)"

fun nat_dec :: "nat \<Rightarrow> string" where
  "nat_dec n = (if n < 10 then [digit_char n] else nat_dec (n div 10) @ [digit_char (n mod 10)])"

declare nat_dec.simps [simp del]

text \<open>\<open>strconv.Itoa\<close>.\<close>
definition itoa :: "int \<Rightarrow> string" where
  "itoa i = (if i < 0 then CHR ''-'' # nat_dec (nat (- i)) else nat_dec (nat i))"

definition digits_val :: "string \<Rightarrow> nat" where
  "digits_val s = foldl (\<lambda>a c. a * 10 + (byte c - 48)) 0 s"

lemma byte_digit_char [simp]: "d < 10 \<Longrightarrow> byte (digit_char d) = 48 + d"
  by (simp add: byte_def digit_char_def take_bit_eq_mod)

lemma digits_val_snoc [simp]: "digits_val (s @ [c]) = digits_val s * 10 + (byte c - 48)"
  by (simp add: digits_val_def)

lemma digits_val_nat_dec [simp]: "digits_val (nat_dec n) = n"
proof (induction n rule: nat_dec.induct)
  case (1 n)
  show ?case
  proof (cases "n < 10")
    case True
    then show ?thesis by (simp add: nat_dec.simps [of n] digits_val_def)
  next
    case False
    then show ?thesis using 1 by (simp add: nat_dec.simps [of n])
  qed
qed

lemma nat_dec_digits: "c \<in> set (nat_dec n) \<Longrightarrow> is_digit c"
proof (induction n rule: nat_dec.induct)
  case (1 n)
  show ?case
    using 1 by (subst (asm) nat_dec.simps, auto simp: is_digit_def split: if_splits)
qed

lemma nat_dec_nonempty [simp]: "nat_dec n \<noteq> []"
  by (subst nat_dec.simps) auto

lemma nat_dec_head: "0 < n \<Longrightarrow> hd (nat_dec n) \<noteq> CHR ''0''"
proof (induction n rule: nat_dec.induct)
  case (1 n)
  show ?case
  proof (cases "n < 10")
    case True
    have "byte (CHR ''0'') = 48" by (simp add: byte_def)
    then have "digit_char n \<noteq> CHR ''0''" using 1 True byte_digit_char [of n] by force
    then show ?thesis using True by (simp add: nat_dec.simps [of n])
  next
    case False
    then have "0 < n div 10" by simp
    then show ?thesis using 1 False by (simp add: nat_dec.simps [of n])
  qed
qed

lemma nat_dec_no_leading_zero: "1 < length (nat_dec n) \<Longrightarrow> hd (nat_dec n) \<noteq> CHR ''0''"
proof -
  assume len: "1 < length (nat_dec n)"
  have "0 < n"
  proof (rule ccontr)
    assume "\<not> 0 < n"
    then have "nat_dec n = [digit_char 0]" by (simp add: nat_dec.simps)
    then show False using len by simp
  qed
  then show ?thesis by (rule nat_dec_head)
qed

lemma nat_dec_inject [simp]: "nat_dec m = nat_dec n \<longleftrightarrow> m = n"
  by (metis digits_val_nat_dec)

section \<open>Three-way comparators\<close>

text \<open>A Go comparison function returning -1, 0 or 1 is an \<open>int\<close>-valued function. The laws a
  sort, a binary search or a version check relies on are those of this interface.\<close>
locale comparator =
  fixes cmp :: "'a \<Rightarrow> 'a \<Rightarrow> int"
  assumes antisym: "cmp b a = - cmp a b"
    and zero: "cmp a b = 0 \<longleftrightarrow> a = b"
    and trans: "cmp a b < 0 \<Longrightarrow> cmp b c < 0 \<Longrightarrow> cmp a c < 0"
begin

lemma refl [simp]: "cmp a a = 0"
  by (simp add: zero)

lemma total: "cmp a b < 0 \<or> a = b \<or> cmp b a < 0"
  using antisym [of b a] zero [of a b] by linarith

lemma le_trans: "cmp a b \<le> 0 \<Longrightarrow> cmp b c \<le> 0 \<Longrightarrow> cmp a c \<le> 0"
proof -
  assume ab: "cmp a b \<le> 0" and bc: "cmp b c \<le> 0"
  show "cmp a c \<le> 0"
  proof (cases "a = b \<or> b = c")
    case True
    then show ?thesis using ab bc by auto
  next
    case False
    then have "cmp a b < 0" "cmp b c < 0" using ab bc zero by (simp_all add: order_less_le)
    then show ?thesis using trans by fastforce
  qed
qed

lemma le_antisym: "cmp a b \<le> 0 \<Longrightarrow> cmp b a \<le> 0 \<Longrightarrow> a = b"
  using antisym [of b a] zero [of a b] by linarith

lemma irrefl_less: "cmp a b < 0 \<Longrightarrow> \<not> cmp b a < 0"
  using antisym [of b a] by linarith

end

text \<open>The lexicographic lifting: the first differing position decides, a proper prefix is smaller.\<close>
fun lex_cmp :: "('a \<Rightarrow> 'a \<Rightarrow> int) \<Rightarrow> 'a list \<Rightarrow> 'a list \<Rightarrow> int" where
  "lex_cmp cmp [] [] = 0"
| "lex_cmp cmp [] (y # ys) = - 1"
| "lex_cmp cmp (x # xs) [] = 1"
| "lex_cmp cmp (x # xs) (y # ys) = (if cmp x y \<noteq> 0 then cmp x y else lex_cmp cmp xs ys)"

context comparator begin

lemma lex_antisym: "lex_cmp cmp ys xs = - lex_cmp cmp xs ys"
proof (induction xs arbitrary: ys)
  case Nil
  then show ?case by (cases ys) auto
next
  case (Cons x xs)
  then show ?case using antisym [of x] by (cases ys) auto
qed

lemma lex_zero: "lex_cmp cmp xs ys = 0 \<longleftrightarrow> xs = ys"
proof (induction xs arbitrary: ys)
  case Nil
  then show ?case by (cases ys) auto
next
  case (Cons x xs)
  then show ?case by (cases ys) (auto simp: zero)
qed

lemma lex_trans: "lex_cmp cmp xs ys < 0 \<Longrightarrow> lex_cmp cmp ys zs < 0 \<Longrightarrow> lex_cmp cmp xs zs < 0"
proof (induction xs arbitrary: ys zs)
  case Nil
  then show ?case by (cases ys; cases zs) auto
next
  case (Cons x xs)
  obtain y ys' where ys: "ys = y # ys'" using Cons.prems by (cases ys) auto
  obtain z zs' where zs: "zs = z # zs'" using Cons.prems ys by (cases zs) auto
  show ?case
  proof (cases "x = y \<or> y = z")
    case True
    then show ?thesis using Cons ys zs by (auto split: if_splits)
  next
    case False
    then have "cmp x y < 0" "cmp y z < 0"
      using Cons.prems ys zs zero by (auto split: if_splits)
    then have "cmp x z < 0" by (rule trans)
    then show ?thesis by (simp add: zs)
  qed
qed

lemma lex_comparator: "comparator (lex_cmp cmp)"
  by (unfold_locales; (rule lex_antisym lex_zero lex_trans; assumption?))

end

text \<open>Comparison of integers and of bytes, and Go's bytewise string comparison.\<close>
definition int_cmp :: "int \<Rightarrow> int \<Rightarrow> int" where
  "int_cmp a b = (if a \<noteq> b then (if a < b then -1 else 1) else 0)"

definition byte_cmp :: "char \<Rightarrow> char \<Rightarrow> int" where
  "byte_cmp a b = int_cmp (int (byte a)) (int (byte b))"

definition str_cmp :: "string \<Rightarrow> string \<Rightarrow> int" where
  "str_cmp = lex_cmp byte_cmp"

interpretation int_order: comparator int_cmp
  by unfold_locales (auto simp: int_cmp_def split: if_splits)

interpretation byte_order: comparator byte_cmp
  by unfold_locales (auto simp: byte_cmp_def int_cmp_def split: if_splits)

interpretation str_order: comparator str_cmp
  unfolding str_cmp_def by (rule byte_order.lex_comparator)

lemmas [cmp_laws] = int_order.antisym int_order.zero str_order.antisym str_order.zero

section \<open>Aligned time arithmetic\<close>

text \<open>\<open>t - t % step\<close> on non-negative unix seconds: the start of the bucket that holds t.\<close>
definition align_down :: "int \<Rightarrow> int \<Rightarrow> int" where
  "align_down t step = t - t mod step"

lemma align_down_le: "0 < step \<Longrightarrow> align_down t step \<le> t"
  by (simp add: align_down_def)

lemma align_down_gt: "0 < step \<Longrightarrow> t < align_down t step + step"
  using pos_mod_bound [of step t] by (simp add: align_down_def)

lemma align_down_dvd [simp]: "step dvd align_down t step"
  by (simp add: align_down_def)

lemma align_down_mono: "0 < step \<Longrightarrow> s \<le> t \<Longrightarrow> align_down s step \<le> align_down t step"
proof -
  assume "0 < step" "s \<le> t"
  then have "s div step * step \<le> t div step * step"
    by (intro mult_right_mono zdiv_mono1) auto
  then show ?thesis by (simp add: align_down_def minus_mod_eq_div_mult)
qed

lemma align_down_of_dvd [simp]: "step dvd t \<Longrightarrow> align_down t step = t"
  by (simp add: align_down_def)

lemma align_down_nonneg: "0 \<le> t \<Longrightarrow> 0 < step \<Longrightarrow> 0 \<le> align_down t step"
  using pos_mod_bound [of step t] by (simp add: align_down_def zmod_le_nonneg_dividend)

lemma align_down_greatest: "0 < step \<Longrightarrow> step dvd b \<Longrightarrow> b \<le> t \<Longrightarrow> b \<le> align_down t step"
  using align_down_mono [of step b t] by simp

lemma dvd_gap: "step dvd (a::int) \<Longrightarrow> step dvd b \<Longrightarrow> a < b \<Longrightarrow> a + step \<le> b"
  using zdvd_imp_le [of step "b - a"] by simp

text \<open>The Go loop \<open>for b := lo; b < hi; b += step\<close>.\<close>
function steps :: "int \<Rightarrow> int \<Rightarrow> int \<Rightarrow> int list" where
  "steps lo hi step = (if step \<le> 0 \<or> hi \<le> lo then [] else lo # steps (lo + step) hi step)"
  by auto
termination
  by (relation "measure (\<lambda>(lo, hi, step). nat (hi - lo))") auto

declare steps.simps [simp del]

lemma steps_empty [simp]: "hi \<le> lo \<Longrightarrow> steps lo hi step = []"
  by (simp add: steps.simps)

lemma steps_Cons: "0 < step \<Longrightarrow> lo < hi \<Longrightarrow> steps lo hi step = lo # steps (lo + step) hi step"
  by (simp add: steps.simps [of lo])

lemma steps_mem:
  "0 < step \<Longrightarrow> x \<in> set (steps lo hi step) \<longleftrightarrow> lo \<le> x \<and> x < hi \<and> step dvd x - lo"
proof (induction lo hi step rule: steps.induct)
  case (1 lo hi step)
  show ?case
  proof (cases "hi \<le> lo")
    case True
    then show ?thesis by auto
  next
    case False
    then have mem: "x \<in> set (steps lo hi step) \<longleftrightarrow> x = lo \<or> x \<in> set (steps (lo + step) hi step)"
      using 1 by (simp add: steps_Cons)
    have ih: "x \<in> set (steps (lo + step) hi step) \<longleftrightarrow> lo + step \<le> x \<and> x < hi \<and> step dvd x - (lo + step)"
      using 1 False by simp
    have "step dvd x - (lo + step) \<longleftrightarrow> step dvd x - lo"
      using dvd_diff_left_iff [of step step "x - lo"] by (simp add: diff_diff_eq)
    moreover have "lo < x \<Longrightarrow> step dvd x - lo \<Longrightarrow> lo + step \<le> x"
      using zdvd_imp_le [of step "x - lo"] by simp
    ultimately show ?thesis using mem ih False 1 by (auto simp: le_less)
  qed
qed

lemma steps_sorted: "sorted_wrt (<) (steps lo hi step)"
proof (induction lo hi step rule: steps.induct)
  case (1 lo hi step)
  show ?case
    using 1 steps_mem [of step _ "lo + step" hi] by (subst steps.simps) auto
qed

lemma steps_distinct: "distinct (steps lo hi step)"
  using steps_sorted [of lo hi step] by (simp add: strict_sorted_iff)

section \<open>int64\<close>

text \<open>The value an int64 operation leaves: the exact result, wrapped.\<close>
definition wrap64 :: "int \<Rightarrow> int" where
  "wrap64 n = signed_take_bit 63 n"

lemma wrap64_id: "- (2 ^ 63) \<le> n \<Longrightarrow> n < 2 ^ 63 \<Longrightarrow> wrap64 n = n"
  by (simp add: wrap64_def signed_take_bit_int_eq_self)

text \<open>Go's integer division truncates towards zero; for a non-negative dividend and a positive divisor
  it is \<open>div\<close>.\<close>
definition quot64 :: "int \<Rightarrow> int \<Rightarrow> int" where
  "quot64 a b = sgn a * sgn b * (\<bar>a\<bar> div \<bar>b\<bar>)"

lemma quot64_pos: "0 \<le> a \<Longrightarrow> 0 < b \<Longrightarrow> quot64 a b = a div b"
  by (cases "a = 0") (simp_all add: quot64_def)

end
