(* ===== verification/Store.thy ===== *)
theory Store
  imports Prelude
begin

text \<open>
  The outside world of the metrics services: Redis as an explicit store of strings, lists and sets,
  and a script that says what happens at each external call. A call can work, lose its request or
  lose its reply; between two calls other processes can run any of the atomic Lua scripts of
  \<open>src/uni_core/internal/pkg/agentmetrics/cursor.go\<close>. A property proved for every script therefore holds under
  every interleaving at the granularity of external calls, and under every loss.
\<close>

section \<open>Numbers in Redis\<close>

text \<open>\<open>strconv.ParseInt(v, 10, 64)\<close>: an optional sign, then digits, inside int64.\<close>
definition in_int64 :: "int \<Rightarrow> bool" where
  "in_int64 n \<longleftrightarrow> - (2 ^ 63) \<le> n \<and> n < 2 ^ 63"

definition parse_digits :: "string \<Rightarrow> int option" where
  "parse_digits s = (if s \<noteq> [] \<and> list_all is_digit s then Some (int (digits_val s)) else None)"

definition ParseInt :: "string \<Rightarrow> int option" where
  "ParseInt s =
     (let signed = (case s of
            [] \<Rightarrow> None
          | c # cs \<Rightarrow> if c = CHR ''-'' then map_option uminus (parse_digits cs)
                      else if c = CHR ''+'' then parse_digits cs else parse_digits s)
      in case signed of None \<Rightarrow> None | Some n \<Rightarrow> if in_int64 n then Some n else None)"

text \<open>Lua's \<open>tonumber\<close> on the decimal integers this code writes; a value that is not one makes the
  comparison of the script fail. Redis compares doubles, which are exact up to \<open>2 ^ 53\<close>, far beyond any timestamp.\<close>
definition tonumber :: "string \<Rightarrow> int option" where
  "tonumber = ParseInt"

section \<open>Lua scripts\<close>

text \<open>What happens to an external call. An error carries what the driver reports: \<open>MissingPartition\<close>
  is the database refusing a row no partition accepts.\<close>
datatype ext_err = Unavailable string | MissingPartition string

text \<open>The errors of the metrics services; the Go code wraps them with text and tells them apart with
  \<open>errors.Is\<close>, so the text is left out.\<close>
datatype svc_err =
    ErrExternal ext_err
  | ErrScript string
  | ErrResolution int
  | ErrParse string
  | ErrEncode
  | ErrNotFound
  | ErrResourceZero
  | ErrMetricPartitionMissing
  | ErrFlushPartial int int
  | ErrRollupPartial int int

datatype lua_value = LuaInt int | LuaString string

type_synonym kv_store = "string \<Rightarrow> string option"
type_synonym script = "kv_store \<Rightarrow> kv_store \<times> (svc_err, lua_value) result"

definition advanceCursorScript :: "string \<Rightarrow> string \<Rightarrow> string \<Rightarrow> script" where
  "advanceCursorScript k a1 a2 kv =
     (case kv k of
        None \<Rightarrow> (kv, Inr (LuaInt 0))
      | Some cur \<Rightarrow>
          if cur \<noteq> a1 then (kv, Inr (LuaInt 0))
          else (case (tonumber a2, tonumber cur) of
                  (Some n, Some c) \<Rightarrow>
                    if n \<le> c then (kv, Inr (LuaInt 0)) else (kv(k \<mapsto> a2), Inr (LuaInt 1))
                | _ \<Rightarrow> (kv, Inl (ErrScript ''attempt to compare nil''))))"

definition rewindCursorScript :: "string \<Rightarrow> string \<Rightarrow> script" where
  "rewindCursorScript k a1 kv =
     (case kv k of
        None \<Rightarrow> (kv(k \<mapsto> a1), Inr (LuaInt 1))
      | Some cur \<Rightarrow>
          (case (tonumber a1, tonumber cur) of
             (Some n, Some c) \<Rightarrow>
               if n < c then (kv(k \<mapsto> a1), Inr (LuaInt 1)) else (kv, Inr (LuaInt 0))
           | _ \<Rightarrow> (kv, Inl (ErrScript ''attempt to compare nil''))))"

definition clearRewindScript :: "string \<Rightarrow> string \<Rightarrow> script" where
  "clearRewindScript k a1 kv =
     (case kv k of
        None \<Rightarrow> (kv, Inr (LuaInt 0))
      | Some cur \<Rightarrow> if cur \<noteq> a1 then (kv, Inr (LuaInt 0)) else (kv(k := None), Inr (LuaInt 1)))"

definition initCursorScript :: "string \<Rightarrow> string \<Rightarrow> script" where
  "initCursorScript k a1 kv =
     (case kv k of
        Some cur \<Rightarrow> (kv, Inr (LuaString cur))
      | None \<Rightarrow> (kv(k \<mapsto> a1), Inr (LuaString a1)))"

section \<open>External calls\<close>

text \<open>An atomic operation of another process.\<close>
datatype foreign =
    FAdvance string string string
  | FRewind string string
  | FClear string string
  | FInit string string

fun foreign_run :: "foreign \<Rightarrow> kv_store \<Rightarrow> kv_store" where
  "foreign_run (FAdvance k e n) kv = fst (advanceCursorScript k e n kv)"
| "foreign_run (FRewind k t) kv = fst (rewindCursorScript k t kv)"
| "foreign_run (FClear k e) kv = fst (clearRewindScript k e kv)"
| "foreign_run (FInit k v) kv = fst (initCursorScript k v kv)"

datatype fault = Works | LostRequest ext_err | LostReply ext_err | Meanwhile foreign

record redis =
  rd_kv :: kv_store
  rd_sets :: "string \<Rightarrow> string list"
  rd_lists :: "string \<Rightarrow> string list"
  rd_faults :: "fault list"

text \<open>The other processes run before the next call does.\<close>
fun settle :: "fault list \<Rightarrow> kv_store \<Rightarrow> kv_store \<times> fault list" where
  "settle (Meanwhile op # fs) kv = settle fs (foreign_run op kv)"
| "settle fs kv = (kv, fs)"

text \<open>One external call: other processes run, then the call takes the next entry of the script; an
  empty script is a healthy, quiet connection.\<close>
definition ext_call ::
  "('z redis_scheme \<Rightarrow> 'z redis_scheme \<times> (svc_err, 'a) result) \<Rightarrow> 'z redis_scheme
   \<Rightarrow> 'z redis_scheme \<times> (svc_err, 'a) result" where
  "ext_call f w0 =
     (case settle (rd_faults w0) (rd_kv w0) of
        (kv, fs) \<Rightarrow>
          (let w = w0\<lparr>rd_kv := kv, rd_faults := tl fs\<rparr> in
           case fs of
             LostRequest e # _ \<Rightarrow> (w, Inl (ErrExternal e))
           | LostReply e # _ \<Rightarrow> (fst (f w), Inl (ErrExternal e))
           | _ \<Rightarrow> f w))"

text \<open>Sequencing with early return on an error.\<close>
definition bindS ::
  "('s \<Rightarrow> 's \<times> ('e, 'a) result) \<Rightarrow> ('a \<Rightarrow> 's \<Rightarrow> 's \<times> ('e, 'b) result) \<Rightarrow> 's \<Rightarrow> 's \<times> ('e, 'b) result" where
  "bindS m k w = (case m w of (w', Inl e) \<Rightarrow> (w', Inl e) | (w', Inr x) \<Rightarrow> k x w')"

definition returnS :: "'a \<Rightarrow> 's \<Rightarrow> 's \<times> ('e, 'a) result" where
  "returnS x w = (w, Inr x)"

definition failS :: "'e \<Rightarrow> 's \<Rightarrow> 's \<times> ('e, 'a) result" where
  "failS e w = (w, Inl e)"

text \<open>The result of a pure step inside a sequence of calls.\<close>
definition liftS :: "('e, 'a) result \<Rightarrow> 's \<Rightarrow> 's \<times> ('e, 'a) result" where
  "liftS r w = (w, r)"

definition eval_script :: "script \<Rightarrow> 'z redis_scheme \<Rightarrow> 'z redis_scheme \<times> (svc_err, lua_value) result" where
  "eval_script sc =
     ext_call (\<lambda>w. case sc (rd_kv w) of (kv, r) \<Rightarrow> (w\<lparr>rd_kv := kv\<rparr>, r))"

definition redis_get :: "string \<Rightarrow> 'z redis_scheme \<Rightarrow> 'z redis_scheme \<times> (svc_err, string option) result" where
  "redis_get k = ext_call (\<lambda>w. (w, Inr (rd_kv w k)))"

definition redis_smembers :: "string \<Rightarrow> 'z redis_scheme \<Rightarrow> 'z redis_scheme \<times> (svc_err, string list) result" where
  "redis_smembers k = ext_call (\<lambda>w. (w, Inr (rd_sets w k)))"

definition redis_scard :: "string \<Rightarrow> 'z redis_scheme \<Rightarrow> 'z redis_scheme \<times> (svc_err, int) result" where
  "redis_scard k = ext_call (\<lambda>w. (w, Inr (int (length (rd_sets w k)))))"

definition redis_sadd :: "string \<Rightarrow> string \<Rightarrow> 'z redis_scheme \<Rightarrow> 'z redis_scheme \<times> (svc_err, unit) result" where
  "redis_sadd k m =
     ext_call (\<lambda>w. (w\<lparr>rd_sets := (rd_sets w)(k := List.insert m (rd_sets w k))\<rparr>, Inr ()))"

definition redis_srem :: "string \<Rightarrow> string list \<Rightarrow> 'z redis_scheme \<Rightarrow> 'z redis_scheme \<times> (svc_err, unit) result" where
  "redis_srem k ms =
     ext_call (\<lambda>w. (w\<lparr>rd_sets := (rd_sets w)(k := filter (\<lambda>m. m \<notin> set ms) (rd_sets w k))\<rparr>, Inr ()))"

definition redis_lindex0 :: "string \<Rightarrow> 'z redis_scheme \<Rightarrow> 'z redis_scheme \<times> (svc_err, string option) result" where
  "redis_lindex0 k =
     ext_call (\<lambda>w. (w, Inr (case rd_lists w k of [] \<Rightarrow> None | x # _ \<Rightarrow> Some x)))"

text \<open>\<open>LRANGE k 0 stop\<close> for a non-negative stop.\<close>
definition redis_lrange0 :: "string \<Rightarrow> int \<Rightarrow> 'z redis_scheme \<Rightarrow> 'z redis_scheme \<times> (svc_err, string list) result" where
  "redis_lrange0 k stop = ext_call (\<lambda>w. (w, Inr (take (nat (stop + 1)) (rd_lists w k))))"

text \<open>\<open>LPUSH\<close> and \<open>LTRIM 0 (n - 1)\<close> in one transaction; a negative stop counts from the end.\<close>
definition redis_lpush_trim :: "string \<Rightarrow> string \<Rightarrow> int \<Rightarrow> 'z redis_scheme \<Rightarrow> 'z redis_scheme \<times> (svc_err, unit) result" where
  "redis_lpush_trim k v n =
     ext_call (\<lambda>w. (w\<lparr>rd_lists := (rd_lists w)(k := (let xs = v # rd_lists w k in
        if 1 \<le> n then take (nat n) xs else take (nat (int (length xs) + n)) xs))\<rparr>, Inr ()))"

text \<open>\<open>Cmd.Int64()\<close> of a script's reply.\<close>
fun lua_int64 :: "lua_value \<Rightarrow> (svc_err, int) result" where
  "lua_int64 (LuaInt n) = Inr n"
| "lua_int64 (LuaString s) = (case ParseInt s of Some n \<Rightarrow> Inr n | None \<Rightarrow> Inl (ErrParse s))"

section \<open>Lemmas\<close>

lemma bindS_simps [simp]:
  "bindS (returnS x) k = k x" "bindS (failS e) k = failS e"
  "bindS (liftS (Inr x)) k = k x" "bindS (liftS (Inl e)) k = failS e"
  by (simp_all add: bindS_def returnS_def failS_def liftS_def fun_eq_iff)

lemma bindS_assoc: "bindS (bindS m f) g = bindS m (\<lambda>x. bindS (f x) g)"
  by (auto simp: bindS_def fun_eq_iff split: prod.splits sum.splits)

lemma resultS_simps [simp]: "returnS x w = (w, Inr x)" "failS e w = (w, Inl e)" "liftS r w = (w, r)"
  by (simp_all add: returnS_def failS_def liftS_def)

lemma digits_val_nonneg_parse: "parse_digits (nat_dec n) = Some (int n)"
  using nat_dec_digits [of _ n] by (auto simp: parse_digits_def list_all_iff)

lemma nat_dec_hd: "is_digit (hd (nat_dec n))"
  using nat_dec_digits [of "hd (nat_dec n)" n] nat_dec_nonempty [of n] by (metis list.set_sel(1))

lemma is_digit_not_sign: "is_digit c \<Longrightarrow> c \<noteq> CHR ''-'' \<and> c \<noteq> CHR ''+''"
  by (auto simp: is_digit_def byte_def)

lemma ParseInt_itoa [simp]: "in_int64 n \<Longrightarrow> ParseInt (itoa n) = Some n"
proof -
  assume n: "in_int64 n"
  show ?thesis
  proof (cases "n < 0")
    case True
    then show ?thesis using n by (simp add: ParseInt_def itoa_def digits_val_nonneg_parse Let_def)
  next
    case False
    obtain c cs where cs: "nat_dec (nat n) = c # cs" by (cases "nat_dec (nat n)") auto
    then have "is_digit c" using nat_dec_hd [of "nat n"] by simp
    then show ?thesis
      using False n cs digits_val_nonneg_parse [of "nat n"] is_digit_not_sign [of c]
      by (simp add: ParseInt_def itoa_def Let_def)
  qed
qed

lemma itoa_inject_int64: "in_int64 m \<Longrightarrow> in_int64 n \<Longrightarrow> itoa m = itoa n \<longleftrightarrow> m = n"
  using ParseInt_itoa by fastforce

end
