(* ===== verification/CursorStore.thy ===== *)
theory CursorStore
  imports Store
begin

text \<open>
  The watermarks of the metrics pipeline: the methods of \<open>CursorStore\<close> in
  \<open>src/uni_core/internal/pkg/agentmetrics/cursor.go\<close> and the keys of \<open>resolution.go\<close>. The contract the
  pipeline relies on (forward only by compare-and-set, backward unconditionally) is the locale
  \<open>number_cell\<close>, interpreted on the Lua scripts; every method refines an operation of such a number under
  losses and interference.
\<close>

section \<open>Resolutions and keys\<close>

text \<open>\<open>type Resolution uint8\<close>: the two registered values are 0 and 1.\<close>
type_synonym Resolution = int

definition Resolution5m :: Resolution where "Resolution5m = 0"
definition Resolution1h :: Resolution where "Resolution1h = 1"

definition BucketSeconds :: "Resolution \<Rightarrow> int" where
  "BucketSeconds r = (if r = Resolution1h then 3600 else 300)"

definition resolution_string :: "Resolution \<Rightarrow> string" where
  "resolution_string r = (if r = Resolution1h then ''1h'' else ''5m'')"

definition cursorKeySuffixes :: "string list" where
  "cursorKeySuffixes = [''cursor_5m'', ''cursor_1h'']"

definition rewindMarkerSuffixes :: "string list" where
  "rewindMarkerSuffixes = [''rewind_5m'', ''rewind_1h'']"

definition historyKeyPrefix :: string where
  "historyKeyPrefix = ''agent:device:''"

definition CursorKey :: "int \<Rightarrow> Resolution \<Rightarrow> (svc_err, string) result" where
  "CursorKey deviceID r =
     (if int (length cursorKeySuffixes) \<le> r then Inl (ErrResolution r)
      else Inr (historyKeyPrefix @ itoa deviceID @ '':'' @ cursorKeySuffixes ! nat r))"

definition RepairSetKey :: "int \<Rightarrow> string" where
  "RepairSetKey deviceID = historyKeyPrefix @ itoa deviceID @ '':'' @ ''repair_1h''"

definition RewindMarkerKey :: "int \<Rightarrow> Resolution \<Rightarrow> (svc_err, string) result" where
  "RewindMarkerKey deviceID r =
     (if int (length rewindMarkerSuffixes) \<le> r then Inl (ErrResolution r)
      else Inr (historyKeyPrefix @ itoa deviceID @ '':'' @ rewindMarkerSuffixes ! nat r))"

definition parseCursorValue :: "lua_value \<Rightarrow> (svc_err, int) result" where
  "parseCursorValue raw =
     (case raw of
        LuaInt v \<Rightarrow> Inr v
      | LuaString v \<Rightarrow> (case ParseInt v of Some sec \<Rightarrow> Inr sec | None \<Rightarrow> Inl (ErrParse v)))"

section \<open>The cursor store\<close>

text \<open>A GET read as an int64: a missing key is no error.\<close>
definition get_int64 :: "string \<Rightarrow> 'z redis_scheme \<Rightarrow> 'z redis_scheme \<times> (svc_err, int option) result" where
  "get_int64 key =
     bindS (redis_get key) (\<lambda>v.
       case v of
         None \<Rightarrow> returnS None
       | Some s \<Rightarrow> (case ParseInt s of Some n \<Rightarrow> returnS (Some n) | None \<Rightarrow> failS (ErrParse s)))"

definition cs_Read :: "int \<Rightarrow> Resolution \<Rightarrow> 'z redis_scheme \<Rightarrow> 'z redis_scheme \<times> (svc_err, int option) result" where
  "cs_Read d r = bindS (liftS (CursorKey d r)) get_int64"

definition cs_Init :: "int \<Rightarrow> Resolution \<Rightarrow> int \<Rightarrow> 'z redis_scheme \<Rightarrow> 'z redis_scheme \<times> (svc_err, int) result" where
  "cs_Init d r sec =
     bindS (liftS (CursorKey d r)) (\<lambda>key.
     bindS (eval_script (initCursorScript key (itoa sec))) (\<lambda>raw. liftS (parseCursorValue raw)))"

definition cs_Advance ::
  "int \<Rightarrow> Resolution \<Rightarrow> int \<Rightarrow> int \<Rightarrow> 'z redis_scheme \<Rightarrow> 'z redis_scheme \<times> (svc_err, bool) result" where
  "cs_Advance d r expected nxt =
     bindS (liftS (CursorKey d r)) (\<lambda>key.
     bindS (eval_script (advanceCursorScript key (itoa expected) (itoa nxt))) (\<lambda>raw.
     bindS (liftS (lua_int64 raw)) (\<lambda>n. returnS (n = 1))))"

definition cs_Rewind :: "int \<Rightarrow> Resolution \<Rightarrow> int \<Rightarrow> 'z redis_scheme \<Rightarrow> 'z redis_scheme \<times> (svc_err, bool) result" where
  "cs_Rewind d r sec =
     bindS (liftS (CursorKey d r)) (\<lambda>key.
     bindS (eval_script (rewindCursorScript key (itoa sec))) (\<lambda>raw.
     bindS (liftS (lua_int64 raw)) (\<lambda>n. returnS (n = 1))))"

definition cs_MarkRewind :: "int \<Rightarrow> Resolution \<Rightarrow> int \<Rightarrow> 'z redis_scheme \<Rightarrow> 'z redis_scheme \<times> (svc_err, unit) result" where
  "cs_MarkRewind d r target =
     bindS (liftS (RewindMarkerKey d r)) (\<lambda>key.
     bindS (eval_script (rewindCursorScript key (itoa target))) (\<lambda>_. returnS ()))"

definition cs_PendingRewind :: "int \<Rightarrow> Resolution \<Rightarrow> 'z redis_scheme \<Rightarrow> 'z redis_scheme \<times> (svc_err, int option) result" where
  "cs_PendingRewind d r = bindS (liftS (RewindMarkerKey d r)) get_int64"

definition cs_ClearRewind :: "int \<Rightarrow> Resolution \<Rightarrow> int \<Rightarrow> 'z redis_scheme \<Rightarrow> 'z redis_scheme \<times> (svc_err, bool) result" where
  "cs_ClearRewind d r expected =
     bindS (liftS (RewindMarkerKey d r)) (\<lambda>key.
     bindS (eval_script (clearRewindScript key (itoa expected))) (\<lambda>raw.
     bindS (liftS (lua_int64 raw)) (\<lambda>n. returnS (n = 1))))"

section \<open>The contract of a number\<close>

text \<open>What the services rely on: a key is a number that may be missing, and the writes on it are atomic. A
  missing number is initialised once; an advance only moves the number its caller read, and only forward; a
  rewind only moves back and always wins; a clearing only removes the number its caller read.\<close>
datatype cell_op = CellInit int | CellAdvance int int | CellRewind int | CellClear int

fun cell_step :: "cell_op \<Rightarrow> int option \<Rightarrow> int option" where
  "cell_step (CellInit n) c = (case c of None \<Rightarrow> Some n | Some x \<Rightarrow> Some x)"
| "cell_step (CellAdvance e n) c = (if c = Some e \<and> e < n then Some n else c)"
| "cell_step (CellRewind t) c = (case c of None \<Rightarrow> Some t | Some x \<Rightarrow> Some (min t x))"
| "cell_step (CellClear e) c = (if c = Some e then None else c)"

fun op_numbers :: "cell_op \<Rightarrow> int list" where
  "op_numbers (CellInit n) = [n]"
| "op_numbers (CellAdvance e n) = [e, n]"
| "op_numbers (CellRewind t) = [t]"
| "op_numbers (CellClear e) = [e]"

text \<open>A store that keeps such a number; \<open>num\<close> are the numbers it can hold.\<close>
locale number_cell =
  fixes num :: "int \<Rightarrow> bool"
    and valid :: "'s \<Rightarrow> bool"
    and cell :: "'s \<Rightarrow> int option"
    and run :: "cell_op \<Rightarrow> 's \<Rightarrow> 's"
  assumes run_valid: "valid s \<Longrightarrow> list_all num (op_numbers op) \<Longrightarrow> valid (run op s)"
    and run_cell: "valid s \<Longrightarrow> list_all num (op_numbers op) \<Longrightarrow> cell (run op s) = cell_step op (cell s)"
begin

text \<open>Operations of the number, mixed with steps that leave it alone.\<close>
lemma runs:
  assumes "\<And>x s. valid s \<Longrightarrow> x \<in> set xs \<Longrightarrow>
      (case act x of None \<Rightarrow> valid (f x s) \<and> cell (f x s) = cell s
       | Some op \<Rightarrow> f x s = run op s \<and> list_all num (op_numbers op))"
    and "valid s"
  shows "valid (fold f xs s) \<and> cell (fold f xs s) = fold cell_step (List.map_filter act xs) (cell s)"
  using assms
proof (induction xs arbitrary: s)
  case (Cons x xs)
  have "valid (f x s) \<and> cell (f x s) = fold cell_step (List.map_filter act [x]) (cell s)"
    using Cons.prems(1) [OF Cons.prems(2), of x] Cons.prems(2) run_valid run_cell
    by (auto simp: map_filter_simps split: option.splits)
  then show ?case using Cons.IH [of "f x s"] Cons.prems(1) by (auto simp: map_filter_simps split: option.splits)
qed (simp add: map_filter_simps)

end

section \<open>The Lua scripts satisfy the contract\<close>

text \<open>A key holds a watermark when its value is the decimal form of an int64.\<close>
definition wm_valid :: "string \<Rightarrow> kv_store \<Rightarrow> bool" where
  "wm_valid k kv =
     (case kv k of None \<Rightarrow> False
      | Some s \<Rightarrow> (case ParseInt s of None \<Rightarrow> False | Some n \<Rightarrow> s = itoa n))"

definition wm_val :: "string \<Rightarrow> kv_store \<Rightarrow> int" where
  "wm_val k kv = (case kv k of None \<Rightarrow> 0 | Some s \<Rightarrow> (case ParseInt s of None \<Rightarrow> 0 | Some n \<Rightarrow> n))"

lemma ParseInt_in_int64: "ParseInt s = Some n \<Longrightarrow> in_int64 n"
  by (auto simp: ParseInt_def Let_def split: option.splits if_splits)

lemma wm_valid_iff: "wm_valid k kv \<longleftrightarrow> (\<exists>c. in_int64 c \<and> kv k = Some (itoa c))"
  by (auto simp: wm_valid_def dest: ParseInt_in_int64 split: option.splits)

lemma wm_valid_kv: "wm_valid k kv \<Longrightarrow> kv k = Some (itoa (wm_val k kv)) \<and> in_int64 (wm_val k kv)"
  by (auto simp: wm_valid_iff wm_val_def)

lemma wm_val_upd [simp]: "in_int64 n \<Longrightarrow> wm_val k (kv(k \<mapsto> itoa n)) = n"
  by (simp add: wm_val_def)

lemma wm_valid_upd [simp]: "in_int64 n \<Longrightarrow> wm_valid k (kv(k \<mapsto> itoa n))"
  by (auto simp: wm_valid_iff)

lemma wm_other [simp]:
  "k' \<noteq> k \<Longrightarrow> wm_val k (kv(k' := v)) = wm_val k kv" "k' \<noteq> k \<Longrightarrow> wm_valid k (kv(k' := v)) = wm_valid k kv"
  by (simp_all add: wm_val_def wm_valid_def)

lemma advance_script_valid:
  assumes "wm_valid k kv" "in_int64 e" "in_int64 n"
  shows "advanceCursorScript k (itoa e) (itoa n) kv =
     (if wm_val k kv = e \<and> e < n then (kv(k \<mapsto> itoa n), Inr (LuaInt 1)) else (kv, Inr (LuaInt 0)))"
  using wm_valid_kv [OF assms(1)] assms(2,3)
  by (auto simp: advanceCursorScript_def tonumber_def itoa_inject_int64)

lemma rewind_script_valid:
  assumes "wm_valid k kv" "in_int64 t"
  shows "rewindCursorScript k (itoa t) kv =
     (if t < wm_val k kv then (kv(k \<mapsto> itoa t), Inr (LuaInt 1)) else (kv, Inr (LuaInt 0)))"
  using wm_valid_kv [OF assms(1)] assms(2) by (simp add: rewindCursorScript_def tonumber_def)

text \<open>A key that is free or holds the decimal form of an int64, and the number it is.\<close>
definition num_cell :: "string \<Rightarrow> kv_store \<Rightarrow> bool" where
  "num_cell k kv \<longleftrightarrow> kv k = None \<or> wm_valid k kv"

definition cell_val :: "string \<Rightarrow> kv_store \<Rightarrow> int option" where
  "cell_val k kv = Option.bind (kv k) ParseInt"

fun script_of :: "string \<Rightarrow> cell_op \<Rightarrow> script" where
  "script_of k (CellInit n) = initCursorScript k (itoa n)"
| "script_of k (CellAdvance e n) = advanceCursorScript k (itoa e) (itoa n)"
| "script_of k (CellRewind t) = rewindCursorScript k (itoa t)"
| "script_of k (CellClear e) = clearRewindScript k (itoa e)"

text \<open>The reply of a script: the number for the initialisation, else whether it wrote.\<close>
definition script_reply :: "cell_op \<Rightarrow> int option \<Rightarrow> lua_value" where
  "script_reply op c =
     (case op of CellInit n \<Rightarrow> LuaString (itoa (case c of None \<Rightarrow> n | Some x \<Rightarrow> x))
      | _ \<Rightarrow> LuaInt (if cell_step op c = c then 0 else 1))"

lemma num_cell_cases:
  assumes "num_cell k kv"
  obtains "kv k = None" "cell_val k kv = None" | n where "kv k = Some (itoa n)" "in_int64 n" "cell_val k kv = Some n"
  using assms by (auto simp: num_cell_def wm_valid_iff cell_val_def)

lemma script_cell:
  assumes "num_cell k kv" "list_all in_int64 (op_numbers op)"
  shows "script_of k op kv = (kv(k := map_option itoa (cell_step op (cell_val k kv))), Inr (script_reply op (cell_val k kv)))"
  using assms(1)
proof (cases rule: num_cell_cases)
  case 1
  then have "kv(k := None) = kv" by auto
  then show ?thesis using 1
    by (cases op) (auto simp: initCursorScript_def advanceCursorScript_def rewindCursorScript_def clearRewindScript_def script_reply_def)
next
  case (2 n)
  then have "kv(k \<mapsto> itoa n) = kv" by auto
  then show ?thesis using 2 assms(2)
    by (cases op) (auto simp: initCursorScript_def advanceCursorScript_def rewindCursorScript_def clearRewindScript_def script_reply_def
        tonumber_def itoa_inject_int64 min_def)
qed

lemma cell_step_num:
  "pred_option in_int64 c \<Longrightarrow> list_all in_int64 (op_numbers op) \<Longrightarrow> pred_option in_int64 (cell_step op c)"
  by (cases op; cases c) (auto simp: min_def)

lemma cell_val_num: "num_cell k kv \<Longrightarrow> pred_option in_int64 (cell_val k kv)"
  by (auto elim: num_cell_cases)

lemma num_cell_upd:
  "pred_option in_int64 c \<Longrightarrow> num_cell k (kv(k := map_option itoa c)) \<and> cell_val k (kv(k := map_option itoa c)) = c"
  by (cases c) (auto simp: num_cell_def wm_valid_iff cell_val_def)

interpretation cursor: number_cell in_int64 "num_cell k" "cell_val k" "\<lambda>op kv. fst (script_of k op kv)" for k
  using num_cell_upd [OF cell_step_num [OF cell_val_num]] by unfold_locales (simp_all add: script_cell)

section \<open>Calls under interference\<close>

text \<open>Other processes only ever rewind the watermark k (to a number), or leave it alone.\<close>
fun rewinds_only :: "string \<Rightarrow> fault list \<Rightarrow> bool" where
  "rewinds_only k [] = True"
| "rewinds_only k (Meanwhile op # fs) =
     ((case op of
         FAdvance k' _ _ \<Rightarrow> k' \<noteq> k
       | FClear k' _ \<Rightarrow> k' \<noteq> k
       | FInit _ _ \<Rightarrow> True
       | FRewind k' t \<Rightarrow> k' = k \<longrightarrow> (case ParseInt t of None \<Rightarrow> False | Some n \<Rightarrow> t = itoa n)) \<and> rewinds_only k fs)"
| "rewinds_only k (_ # fs) = rewinds_only k fs"

lemma rewinds_only_append: "rewinds_only k (xs @ ys) \<longleftrightarrow> rewinds_only k xs \<and> rewinds_only k ys"
  by (induction k xs rule: rewinds_only.induct) auto

text \<open>The world w' is reached from w by calls that do not write the watermark themselves: the consumed
  part of the script is a prefix, and the watermark only fell, below every rewind consumed.\<close>
definition follows :: "string \<Rightarrow> 'z redis_scheme \<Rightarrow> 'z redis_scheme \<Rightarrow> bool" where
  "follows k w w' \<longleftrightarrow>
     (\<exists>pre. rd_faults w = pre @ rd_faults w' \<and>
        (wm_valid k (rd_kv w) \<and> rewinds_only k (rd_faults w) \<longrightarrow>
           wm_valid k (rd_kv w') \<and> wm_val k (rd_kv w') \<le> wm_val k (rd_kv w)
           \<and> (\<forall>t. in_int64 t \<and> Meanwhile (FRewind k (itoa t)) \<in> set pre \<longrightarrow> wm_val k (rd_kv w') \<le> t)))"

lemma follows_refl: "follows k w w"
  by (auto simp: follows_def)

lemma follows_trans:
  assumes "follows k u v" "follows k v w"
  shows "follows k u w"
proof -
  obtain p where p: "rd_faults u = p @ rd_faults v"
    "wm_valid k (rd_kv u) \<and> rewinds_only k (rd_faults u) \<longrightarrow>
       wm_valid k (rd_kv v) \<and> wm_val k (rd_kv v) \<le> wm_val k (rd_kv u)
       \<and> (\<forall>t. in_int64 t \<and> Meanwhile (FRewind k (itoa t)) \<in> set p \<longrightarrow> wm_val k (rd_kv v) \<le> t)"
    using assms(1) unfolding follows_def by blast
  obtain q where q: "rd_faults v = q @ rd_faults w"
    "wm_valid k (rd_kv v) \<and> rewinds_only k (rd_faults v) \<longrightarrow>
       wm_valid k (rd_kv w) \<and> wm_val k (rd_kv w) \<le> wm_val k (rd_kv v)
       \<and> (\<forall>t. in_int64 t \<and> Meanwhile (FRewind k (itoa t)) \<in> set q \<longrightarrow> wm_val k (rd_kv w) \<le> t)"
    using assms(2) unfolding follows_def by blast
  have "rewinds_only k (rd_faults u) \<Longrightarrow> rewinds_only k (rd_faults v)"
    using p(1) by (simp add: rewinds_only_append)
  then show ?thesis
    unfolding follows_def using p q by (intro exI [of _ "p @ q"]) fastforce
qed

lemma foreign_run_rewinds:
  assumes "wm_valid k kv" "rewinds_only k [Meanwhile op]"
  shows "wm_valid k (foreign_run op kv) \<and> wm_val k (foreign_run op kv) \<le> wm_val k kv
     \<and> (\<forall>t. in_int64 t \<and> op = FRewind k (itoa t) \<longrightarrow> wm_val k (foreign_run op kv) \<le> t)"
proof (cases op)
  case (FAdvance k' e n)
  then show ?thesis using assms
    by (auto simp: advanceCursorScript_def split: option.splits if_splits)
next
  case (FRewind k' t)
  show ?thesis
  proof (cases "k' = k")
    case True
    then obtain n where n: "in_int64 n" "t = itoa n"
      using assms(2) FRewind by (auto split: option.splits dest: ParseInt_in_int64)
    then show ?thesis
      using FRewind True rewind_script_valid [OF assms(1) n(1)] assms(1) by (auto simp: itoa_inject_int64)
  next
    case False
    then show ?thesis using assms FRewind
      by (auto simp: rewindCursorScript_def split: option.splits if_splits)
  qed
next
  case (FClear k' e)
  then show ?thesis using assms by (auto simp: clearRewindScript_def split: option.splits if_splits)
next
  case (FInit k' v)
  then show ?thesis using assms
    by (cases "k' = k") (auto simp: initCursorScript_def wm_valid_iff split: option.splits)
qed

lemma settle_follows:
  "settle fs kv = (kv', fs') \<Longrightarrow>
   \<exists>pre. fs = pre @ fs' \<and>
     (wm_valid k kv \<and> rewinds_only k fs \<longrightarrow> wm_valid k kv' \<and> wm_val k kv' \<le> wm_val k kv
        \<and> (\<forall>t. in_int64 t \<and> Meanwhile (FRewind k (itoa t)) \<in> set pre \<longrightarrow> wm_val k kv' \<le> t))"
proof (induction fs kv rule: settle.induct)
  case (1 op fs kv)
  obtain pre where pre: "fs = pre @ fs'"
    "wm_valid k (foreign_run op kv) \<and> rewinds_only k fs \<longrightarrow>
       wm_valid k kv' \<and> wm_val k kv' \<le> wm_val k (foreign_run op kv)
       \<and> (\<forall>t. in_int64 t \<and> Meanwhile (FRewind k (itoa t)) \<in> set pre \<longrightarrow> wm_val k kv' \<le> t)"
    using "1.IH" "1.prems" unfolding settle.simps by blast
  show ?case
  proof (intro exI [of _ "Meanwhile op # pre"] conjI impI)
    show "Meanwhile op # fs = (Meanwhile op # pre) @ fs'" using pre(1) by simp
    assume a: "wm_valid k kv \<and> rewinds_only k (Meanwhile op # fs)"
    then have o1: "rewinds_only k [Meanwhile op]" and o2: "rewinds_only k fs" by auto
    note f = foreign_run_rewinds [OF _ o1, of kv]
    show "wm_valid k kv'" "wm_val k kv' \<le> wm_val k kv" using pre(2) f a o2 by auto
    show "\<forall>t. in_int64 t \<and> Meanwhile (FRewind k (itoa t)) \<in> set (Meanwhile op # pre) \<longrightarrow> wm_val k kv' \<le> t"
      using pre(2) f a o2 by fastforce
  qed
qed auto

lemma settle_head: "snd (settle fs kv) \<noteq> Meanwhile op # r"
  by (induction fs kv rule: settle.induct) auto

lemma ext_call_follows:
  assumes "\<And>w. rd_kv (fst (f w)) = rd_kv w \<and> rd_faults (fst (f w)) = rd_faults w"
  shows "follows k w (fst (ext_call f w))"
proof -
  obtain kv fs where st: "settle (rd_faults w) (rd_kv w) = (kv, fs)" by fastforce
  then obtain pre where pre: "rd_faults w = pre @ fs"
     "wm_valid k (rd_kv w) \<and> rewinds_only k (rd_faults w) \<longrightarrow> wm_valid k kv \<and> wm_val k kv \<le> wm_val k (rd_kv w)
        \<and> (\<forall>t. in_int64 t \<and> Meanwhile (FRewind k (itoa t)) \<in> set pre \<longrightarrow> wm_val k kv \<le> t)"
    using settle_follows [OF st, of k] by blast
  have nm: "fs \<noteq> Meanwhile op # r" for op r
    using st settle_head [of "rd_faults w" "rd_kv w"] by simp
  have kv': "rd_kv (fst (ext_call f w)) = kv" and fs': "rd_faults (fst (ext_call f w)) = tl fs"
    using st assms by (auto simp: ext_call_def Let_def split: list.splits fault.splits)
  have "fs = take 1 fs @ tl fs" by (cases fs) auto
  moreover have "Meanwhile op \<notin> set (take 1 fs)" for op using nm by (cases fs) auto
  ultimately show ?thesis
    unfolding follows_def kv' fs' using pre by (intro exI [of _ "pre @ take 1 fs"]) auto
qed

lemma bindS_follows:
  assumes "\<And>w. follows k w (fst (m w))" "\<And>x w. follows k w (fst (f x w))"
  shows "follows k w (fst (bindS m f w))"
proof -
  obtain w' r where m: "m w = (w', r)" by (cases "m w")
  then have one: "follows k w w'" using assms(1) [of w] by simp
  show ?thesis
  proof (cases r)
    case (Inl e)
    then show ?thesis using one m by (simp add: bindS_def)
  next
    case (Inr x)
    then show ?thesis using follows_trans [OF one assms(2)] m by (simp add: bindS_def)
  qed
qed

section \<open>The methods refine the operations of a number\<close>

datatype cs_method = MRead | MInit int | MAdvance int int | MRewind int | MMarkRewind int | MPendingRewind | MClearRewind int
datatype cs_answer = ANumber "int option" | AFlag bool | ADone

definition map_answer :: "('a \<Rightarrow> cs_answer) \<Rightarrow> 's \<times> (svc_err, 'a) result \<Rightarrow> 's \<times> (svc_err, cs_answer) result" where
  "map_answer f x = (fst x, case snd x of Inl e \<Rightarrow> Inl e | Inr a \<Rightarrow> Inr (f a))"

fun cs_call :: "cs_method \<Rightarrow> int \<Rightarrow> Resolution \<Rightarrow> 'z redis_scheme \<Rightarrow> 'z redis_scheme \<times> (svc_err, cs_answer) result" where
  "cs_call MRead d r w = map_answer ANumber (cs_Read d r w)"
| "cs_call (MInit n) d r w = map_answer (\<lambda>x. ANumber (Some x)) (cs_Init d r n w)"
| "cs_call (MAdvance e n) d r w = map_answer AFlag (cs_Advance d r e n w)"
| "cs_call (MRewind t) d r w = map_answer AFlag (cs_Rewind d r t w)"
| "cs_call (MMarkRewind t) d r w = map_answer (\<lambda>_. ADone) (cs_MarkRewind d r t w)"
| "cs_call MPendingRewind d r w = map_answer ANumber (cs_PendingRewind d r w)"
| "cs_call (MClearRewind e) d r w = map_answer AFlag (cs_ClearRewind d r e w)"

fun method_op :: "cs_method \<Rightarrow> cell_op option" where
  "method_op (MInit n) = Some (CellInit n)"
| "method_op (MAdvance e n) = Some (CellAdvance e n)"
| "method_op (MRewind t) = Some (CellRewind t)"
| "method_op (MMarkRewind t) = Some (CellRewind t)"
| "method_op (MClearRewind e) = Some (CellClear e)"
| "method_op _ = None"

definition method_step :: "cs_method \<Rightarrow> int option \<Rightarrow> int option" where
  "method_step m c = (case method_op m of None \<Rightarrow> c | Some op \<Rightarrow> cell_step op c)"

fun method_answer :: "cs_method \<Rightarrow> int option \<Rightarrow> cs_answer" where
  "method_answer MRead c = ANumber c"
| "method_answer (MInit n) c = ANumber (Some (case c of None \<Rightarrow> n | Some x \<Rightarrow> x))"
| "method_answer (MAdvance e n) c = AFlag (c = Some e \<and> e < n)"
| "method_answer (MRewind t) c = AFlag (case c of None \<Rightarrow> True | Some x \<Rightarrow> t < x)"
| "method_answer (MMarkRewind t) c = ADone"
| "method_answer MPendingRewind c = ANumber c"
| "method_answer (MClearRewind e) c = AFlag (c = Some e)"

definition method_key :: "cs_method \<Rightarrow> int \<Rightarrow> Resolution \<Rightarrow> (svc_err, string) result" where
  "method_key m d r = (case m of MMarkRewind _ \<Rightarrow> RewindMarkerKey d r | MPendingRewind \<Rightarrow> RewindMarkerKey d r
     | MClearRewind _ \<Rightarrow> RewindMarkerKey d r | _ \<Rightarrow> CursorKey d r)"

text \<open>The same writes by other processes, on any key.\<close>
fun foreign_of :: "string \<times> cell_op \<Rightarrow> foreign" where
  "foreign_of (k, CellInit n) = FInit k (itoa n)"
| "foreign_of (k, CellAdvance e n) = FAdvance k (itoa e) (itoa n)"
| "foreign_of (k, CellRewind t) = FRewind k (itoa t)"
| "foreign_of (k, CellClear e) = FClear k (itoa e)"

text \<open>Those of them that are on the key.\<close>
definition on_key :: "string \<Rightarrow> string \<times> cell_op \<Rightarrow> cell_op option" where
  "on_key k x = (if fst x = k then Some (snd x) else None)"

definition no_foreign_head :: "fault list \<Rightarrow> bool" where
  "no_foreign_head fs = (case fs of Meanwhile _ # _ \<Rightarrow> False | _ \<Rightarrow> True)"

lemma foreign_script: "foreign_run (foreign_of x) kv = fst (script_of (fst x) (snd x) kv)"
  by (cases x; cases "snd x") auto

lemma script_other: "k' \<noteq> k \<Longrightarrow> fst (script_of k' op kv) k = kv k"
  by (cases op) (auto simp: initCursorScript_def advanceCursorScript_def rewindCursorScript_def clearRewindScript_def split: option.split)

lemma settle_others:
  "no_foreign_head fs \<Longrightarrow>
   settle (map (\<lambda>x. Meanwhile (foreign_of x)) others @ fs) kv = (fold (\<lambda>x kv. fst (script_of (fst x) (snd x) kv)) others kv, fs)"
proof (induction others arbitrary: kv)
  case Nil
  then show ?case by (cases "(fs, kv)" rule: settle.cases) (auto simp: no_foreign_head_def)
qed (simp add: foreign_script)

lemma fold_other:
  "k \<notin> fst ` set others \<Longrightarrow> fold (\<lambda>x kv. fst (script_of (fst x) (snd x) kv)) others kv k = kv k"
  by (induction others arbitrary: kv) (auto simp: script_other)

lemma settled_cell:
  assumes "num_cell k kv" "list_all (\<lambda>x. list_all in_int64 (op_numbers (snd x))) others"
  shows "num_cell k (fold (\<lambda>x kv. fst (script_of (fst x) (snd x) kv)) others kv)
    \<and> cell_val k (fold (\<lambda>x kv. fst (script_of (fst x) (snd x) kv)) others kv)
      = fold cell_step (List.map_filter (on_key k) others) (cell_val k kv)"
proof (rule cursor.runs [OF _ assms(1)])
  fix x kv
  assume "num_cell k kv" "x \<in> set others"
  then show "case on_key k x of
      None \<Rightarrow> num_cell k (fst (script_of (fst x) (snd x) kv)) \<and> cell_val k (fst (script_of (fst x) (snd x) kv)) = cell_val k kv
    | Some op \<Rightarrow> fst (script_of (fst x) (snd x) kv) = fst (script_of k op kv) \<and> list_all in_int64 (op_numbers op)"
    using assms(2) script_other [of "fst x" k "snd x" kv]
    by (auto simp: on_key_def list_all_iff num_cell_def wm_valid_def cell_val_def)
qed

text \<open>A call of a method, on the store the others left: the script of its operation, or a read.\<close>
lemma cs_call_settled:
  assumes k: "method_key m d r = Inr k" and n: "list_all in_int64 (case method_op m of None \<Rightarrow> [] | Some op \<Rightarrow> op_numbers op)"
    and s: "settle (rd_faults w) (rd_kv w) = (kv, fs)" "no_foreign_head fs" and v: "num_cell k kv"
  shows "cs_call m d r w =
    (case fs of
       LostRequest e # _ \<Rightarrow> (w\<lparr>rd_kv := kv, rd_faults := tl fs\<rparr>, Inl (ErrExternal e))
     | LostReply e # _ \<Rightarrow> (w\<lparr>rd_kv := kv(k := map_option itoa (method_step m (cell_val k kv))), rd_faults := tl fs\<rparr>, Inl (ErrExternal e))
     | _ \<Rightarrow> (w\<lparr>rd_kv := kv(k := map_option itoa (method_step m (cell_val k kv))), rd_faults := tl fs\<rparr>,
             Inr (method_answer m (cell_val k kv))))"
proof -
  have e: "eval_script (script_of k op) w =
    (case fs of
       LostRequest e # _ \<Rightarrow> (w\<lparr>rd_kv := kv, rd_faults := tl fs\<rparr>, Inl (ErrExternal e))
     | LostReply e # _ \<Rightarrow> (w\<lparr>rd_kv := kv(k := map_option itoa (cell_step op (cell_val k kv))), rd_faults := tl fs\<rparr>, Inl (ErrExternal e))
     | _ \<Rightarrow> (w\<lparr>rd_kv := kv(k := map_option itoa (cell_step op (cell_val k kv))), rd_faults := tl fs\<rparr>,
             Inr (script_reply op (cell_val k kv))))" if "list_all in_int64 (op_numbers op)" for op
    using script_cell [OF v that] s by (auto simp: eval_script_def ext_call_def Let_def split: list.split fault.split)
  have keep: "kv(k := map_option itoa (cell_val k kv)) = kv"
    using v by (rule num_cell_cases) (auto simp: fun_eq_iff)
  have g: "get_int64 k w =
    (case fs of
       LostRequest e # _ \<Rightarrow> (w\<lparr>rd_kv := kv, rd_faults := tl fs\<rparr>, Inl (ErrExternal e))
     | LostReply e # _ \<Rightarrow> (w\<lparr>rd_kv := kv, rd_faults := tl fs\<rparr>, Inl (ErrExternal e))
     | _ \<Rightarrow> (w\<lparr>rd_kv := kv, rd_faults := tl fs\<rparr>, Inr (cell_val k kv)))"
    using v
    by (rule num_cell_cases) (use s in \<open>auto simp: get_int64_def redis_get_def ext_call_def bindS_def Let_def split: list.split fault.split\<close>)
  have num: "pred_option in_int64 (cell_val k kv)" by (rule cell_val_num [OF v])
  show ?thesis
  proof (cases m)
    case MRead
    then show ?thesis using k g by (auto simp: cs_Read_def method_key_def map_answer_def method_step_def keep split: list.split fault.split)
  next
    case MPendingRewind
    then show ?thesis using k g by (auto simp: cs_PendingRewind_def method_key_def map_answer_def method_step_def keep split: list.split fault.split)
  next
    case (MInit x)
    then show ?thesis using k n e [of "CellInit x"] num
      by (auto simp: cs_Init_def method_key_def map_answer_def method_step_def bindS_def script_reply_def parseCursorValue_def
          split: list.split fault.split option.splits)
  next
    case (MAdvance x y)
    then show ?thesis using k n e [of "CellAdvance x y"]
      by (auto simp: cs_Advance_def method_key_def map_answer_def method_step_def bindS_def script_reply_def split: list.split fault.split)
  next
    case (MRewind x)
    then show ?thesis using k n e [of "CellRewind x"]
      by (auto simp: cs_Rewind_def method_key_def map_answer_def method_step_def bindS_def script_reply_def min_def split: list.split fault.split option.splits)
  next
    case (MMarkRewind x)
    then show ?thesis using k n e [of "CellRewind x"]
      by (auto simp: cs_MarkRewind_def method_key_def map_answer_def method_step_def bindS_def split: list.split fault.split)
  next
    case (MClearRewind x)
    then show ?thesis using k n e [of "CellClear x"]
      by (auto simp: cs_ClearRewind_def method_key_def map_answer_def method_step_def bindS_def script_reply_def split: list.split fault.split)
  qed
qed

section \<open>Properties\<close>

text \<open>C20: every method of the cursor store acts like an atomic operation on a number that may be missing. Whatever writes of other
  processes come first, the method then answers and changes the number exactly as its operation says: an advance only
  from the value the caller expects and only forward, a rewind only backward, an initialisation only of a missing number, a clearing
  only of the expected one. When the request is lost the number is unchanged, when the reply is lost the operation was
  carried out, and in both cases an error is returned. No other key, set or list is touched.\<close>
theorem cursor_refines_cell:
  assumes "method_key m d r = Inr k" "list_all in_int64 (case method_op m of None \<Rightarrow> [] | Some op \<Rightarrow> op_numbers op)"
    and "num_cell k (rd_kv w)" "rd_faults w = map (\<lambda>x. Meanwhile (foreign_of x)) others @ fs" "no_foreign_head fs"
    and "list_all (\<lambda>x. list_all in_int64 (op_numbers (snd x))) others"
    and "c = fold cell_step (List.map_filter (on_key k) others) (cell_val k (rd_kv w))"
  shows "(case cs_call m d r w of (w', res) \<Rightarrow>
     (case fs of
        LostRequest e # _ \<Rightarrow> res = Inl (ErrExternal e) \<and> cell_val k (rd_kv w') = c
      | LostReply e # _ \<Rightarrow> res = Inl (ErrExternal e) \<and> cell_val k (rd_kv w') = method_step m c
      | _ \<Rightarrow> res = Inr (method_answer m c) \<and> cell_val k (rd_kv w') = method_step m c)
     \<and> num_cell k (rd_kv w') \<and> rd_faults w' = tl fs \<and> rd_sets w' = rd_sets w \<and> rd_lists w' = rd_lists w
     \<and> (\<forall>k'. k' \<noteq> k \<and> k' \<notin> fst ` set others \<longrightarrow> rd_kv w' k' = rd_kv w k'))"
proof -
  let ?kv = "fold (\<lambda>x kv. fst (script_of (fst x) (snd x) kv)) others (rd_kv w)"
  have s: "settle (rd_faults w) (rd_kv w) = (?kv, fs)" using settle_others [OF assms(5)] assms(4) by simp
  have v: "num_cell k ?kv" "cell_val k ?kv = c" using settled_cell [OF assms(3,6)] assms(7) by simp_all
  have "pred_option in_int64 (method_step m c)"
    using cell_step_num [OF cell_val_num [OF v(1)]] cell_val_num [OF v(1)] assms(2) v(2) by (auto simp: method_step_def split: option.splits)
  note u = num_cell_upd [OF this, of k ?kv]
  have o: "?kv k' = rd_kv w k'" if "k' \<notin> fst ` set others" for k' using fold_other [OF that] .
  show ?thesis
    unfolding cs_call_settled [OF assms(1,2) s assms(5) v(1)] v(2)
    using u v o by (auto split: list.split fault.split)
qed

text \<open>A round that read 600 commits 1200 after an operator rewound to 300: the commit is refused.\<close>
lemma cursor_refines_cell_witness:
  "snd (cs_Advance 7 Resolution5m 600 1200 \<lparr>rd_kv = [''agent:device:7:cursor_5m'' \<mapsto> ''600''], rd_sets = (\<lambda>_. []), rd_lists = (\<lambda>_. []),
      rd_faults = [Meanwhile (FRewind ''agent:device:7:cursor_5m'' ''300'')]\<rparr>) = Inr False"
proof -
  let ?k = "''agent:device:7:cursor_5m''"
  let ?w = "\<lparr>rd_kv = [?k \<mapsto> itoa 600], rd_sets = (\<lambda>_. []), rd_lists = (\<lambda>_. []), rd_faults = [Meanwhile (FRewind ?k (itoa 300))]\<rparr> :: redis"
  have k: "method_key (MAdvance 600 1200) 7 Resolution5m = Inr ?k" by code_simp
  have i: "itoa 600 = ''600''" "itoa 300 = ''300''" by code_simp+
  have v: "num_cell ?k (rd_kv ?w)" by (auto simp: num_cell_def wm_valid_iff in_int64_def intro!: exI [of _ 600])
  have c: "Some 300 = fold cell_step (List.map_filter (on_key ?k) [(?k, CellRewind 300)]) (cell_val ?k (rd_kv ?w))"
    by (simp add: on_key_def map_filter_simps cell_val_def in_int64_def)
  have f: "rd_faults ?w = map (\<lambda>x. Meanwhile (foreign_of x)) [(?k, CellRewind 300)] @ []" by simp
  have n: "list_all in_int64 (case method_op (MAdvance 600 1200) of None \<Rightarrow> [] | Some op \<Rightarrow> op_numbers op)"
    "no_foreign_head []" "list_all (\<lambda>x. list_all in_int64 (op_numbers (snd x))) [(?k, CellRewind 300)]"
    by (simp_all add: in_int64_def no_foreign_head_def)
  have "snd (cs_call (MAdvance 600 1200) 7 Resolution5m ?w) = Inr (AFlag False)"
    using conjunct1 [OF cursor_refines_cell [OF k n(1) v f n(2,3) c, unfolded case_prod_beta]] by simp
  then show ?thesis unfolding i by (simp add: map_answer_def split: sum.splits)
qed

end
