(* ===== verification/Float64.thy ===== *)
theory Float64
  imports Complex_Main "HOL-Library.Log_Nat"
begin

text \<open>
  Go's \<open>float64\<close>: a finite value (a rational), an infinity or NaN, with the arithmetic of IEEE 754
  double precision: the exact result is rounded to the nearest multiple of a power of two with 53
  significant bits, ties to even, with gradual underflow and overflow to infinity. The sign of zero
  is not kept: no source modelled here divides by a zero or prints one. The theory also models
  \<open>src/uni_core/internal/pkg/util/round.go\<close> and shows the monotonicity its comment promises.
\<close>

datatype F64 = Fin rat | PInf | NInf | NaN

fun f_lt :: "F64 \<Rightarrow> F64 \<Rightarrow> bool" where
  "f_lt (Fin a) (Fin b) = (a < b)"
| "f_lt (Fin a) PInf = True"
| "f_lt NInf (Fin b) = True"
| "f_lt NInf PInf = True"
| "f_lt _ _ = False"

fun f_le :: "F64 \<Rightarrow> F64 \<Rightarrow> bool" where
  "f_le NaN _ = False"
| "f_le _ NaN = False"
| "f_le (Fin a) (Fin b) = (a \<le> b)"
| "f_le NInf _ = True"
| "f_le _ PInf = True"
| "f_le _ _ = False"

fun is_finite :: "F64 \<Rightarrow> bool" where
  "is_finite (Fin q) = True"
| "is_finite _ = False"

section \<open>Rounding\<close>

definition pow2 :: "int \<Rightarrow> rat" where
  "pow2 k = 2 powi k"

text \<open>The exponent e with \<open>2^e \<le> q < 2^(e+1)\<close>, for positive q.\<close>
definition ilog2 :: "rat \<Rightarrow> int" where
  "ilog2 q =
     (let (a, b) = quotient_of q; e = bitlen a - bitlen b in if pow2 e \<le> q then e else e - 1)"

definition round_half_even :: "rat \<Rightarrow> int" where
  "round_half_even q =
     (let f = \<lfloor>q\<rfloor>; d = q - of_int f in
      if d < 1 / 2 then f else if d > 1 / 2 then f + 1 else if even f then f else f + 1)"

text \<open>The exponent of the last kept bit.\<close>
definition ulp_exp :: "rat \<Rightarrow> int" where
  "ulp_exp q = max (ilog2 \<bar>q\<bar> - 52) (- 1074)"

definition rnd_val :: "rat \<Rightarrow> rat" where
  "rnd_val q =
     (if q = 0 then 0 else of_int (round_half_even (q / pow2 (ulp_exp q))) * pow2 (ulp_exp q))"

definition rnd :: "rat \<Rightarrow> F64" where
  "rnd q = (let v = rnd_val q in if pow2 1024 \<le> v then PInf else if v \<le> - pow2 1024 then NInf else Fin v)"

section \<open>Arithmetic\<close>

fun f_add :: "F64 \<Rightarrow> F64 \<Rightarrow> F64" where
  "f_add (Fin a) (Fin b) = rnd (a + b)"
| "f_add NaN _ = NaN"
| "f_add _ NaN = NaN"
| "f_add PInf NInf = NaN"
| "f_add NInf PInf = NaN"
| "f_add PInf _ = PInf"
| "f_add _ PInf = PInf"
| "f_add NInf _ = NInf"
| "f_add _ NInf = NInf"

definition f_inf :: "bool \<Rightarrow> F64" where
  "f_inf pos = (if pos then PInf else NInf)"

fun f_sgn :: "F64 \<Rightarrow> int" where
  "f_sgn (Fin a) = (if 0 < a then 1 else if a < 0 then -1 else 0)"
| "f_sgn PInf = 1"
| "f_sgn NInf = -1"
| "f_sgn NaN = 0"

definition f_mul :: "F64 \<Rightarrow> F64 \<Rightarrow> F64" where
  "f_mul x y =
     (case (x, y) of
        (Fin a, Fin b) \<Rightarrow> rnd (a * b)
      | _ \<Rightarrow> if f_sgn x * f_sgn y = 0 then NaN else f_inf (0 < f_sgn x * f_sgn y))"

definition f_div :: "F64 \<Rightarrow> F64 \<Rightarrow> F64" where
  "f_div x y =
     (case (x, y) of
        (Fin a, Fin b) \<Rightarrow> if b \<noteq> 0 then rnd (a / b) else if a = 0 then NaN else f_inf (0 < a)
      | (Fin a, PInf) \<Rightarrow> Fin 0
      | (Fin a, NInf) \<Rightarrow> Fin 0
      | (PInf, Fin b) \<Rightarrow> f_inf (0 \<le> b)
      | (NInf, Fin b) \<Rightarrow> f_inf (b < 0)
      | _ \<Rightarrow> NaN)"

text \<open>\<open>float64(i)\<close> for an integer.\<close>
definition f_of_int :: "int \<Rightarrow> F64" where
  "f_of_int i = rnd (of_int i)"

text \<open>\<open>int64(v)\<close>: truncation towards zero; outside the range of int64 (where Go leaves the result to the
  platform) the value amd64 gives.\<close>
fun f_to_int :: "F64 \<Rightarrow> int" where
  "f_to_int (Fin q) =
     (let t = (if 0 \<le> q then \<lfloor>q\<rfloor> else \<lceil>q\<rceil>) in
      if - (2 ^ 63) \<le> t \<and> t < 2 ^ 63 then t else - (2 ^ 63))"
| "f_to_int _ = - (2 ^ 63)"

text \<open>\<open>math.Round\<close>: nearest integer, halves away from zero.\<close>
definition round_away :: "rat \<Rightarrow> int" where
  "round_away q = (if 0 \<le> q then \<lfloor>q + 1 / 2\<rfloor> else \<lceil>q - 1 / 2\<rceil>)"

fun math_Round :: "F64 \<Rightarrow> F64" where
  "math_Round (Fin q) = Fin (of_int (round_away q))"
| "math_Round x = x"

definition Round2 :: "F64 \<Rightarrow> F64" where
  "Round2 v = f_div (math_Round (f_mul v (Fin 100))) (Fin 100)"

section \<open>Rounding is monotone\<close>

lemma pow2_pos [simp]: "0 < pow2 k"
  by (simp add: pow2_def)

lemma pow2_add: "pow2 (i + j) = pow2 i * pow2 j"
  by (simp add: pow2_def power_int_add)

lemma pow2_diff: "pow2 (i - j) = pow2 i / pow2 j"
  by (simp add: pow2_def power_int_diff)

lemma pow2_mono: "i \<le> j \<Longrightarrow> pow2 i \<le> pow2 j"
  by (simp add: pow2_def power_int_increasing)

lemma pow2_strict: "pow2 i < pow2 j \<Longrightarrow> i < j"
  using pow2_mono [of j i] by linarith

lemma pow2_of_nat: "0 \<le> k \<Longrightarrow> pow2 k = of_int (2 ^ nat k)"
  by (simp add: pow2_def power_int_def)

lemma half_even_mono: "a \<le> b \<Longrightarrow> round_half_even a \<le> round_half_even b"
proof -
  assume ab: "a \<le> b"
  show ?thesis
  proof (cases "\<lfloor>a\<rfloor> = \<lfloor>b\<rfloor>")
    case True
    then show ?thesis using ab by (simp add: round_half_even_def Let_def)
  next
    case False
    then have "\<lfloor>a\<rfloor> + 1 \<le> \<lfloor>b\<rfloor>" using floor_mono [OF ab] by linarith
    moreover have "round_half_even a \<le> \<lfloor>a\<rfloor> + 1" "\<lfloor>b\<rfloor> \<le> round_half_even b"
      by (simp_all add: round_half_even_def Let_def)
    ultimately show ?thesis by linarith
  qed
qed

lemma half_even_int [simp]: "round_half_even (of_int n) = n"
  by (simp add: round_half_even_def)

lemma half_even_neg: "round_half_even (- q) = - round_half_even q"
proof (cases "of_int \<lfloor>q\<rfloor> = q")
  case True
  then have q: "q = of_int \<lfloor>q\<rfloor>" by (rule sym)
  have "round_half_even (- of_int \<lfloor>q\<rfloor>) = - \<lfloor>q\<rfloor>"
    using half_even_int [of "- \<lfloor>q\<rfloor>"] by simp
  then show ?thesis using q half_even_int by metis
next
  case False
  have "\<lceil>q\<rceil> = \<lfloor>q\<rfloor> + 1"
    using False by (simp add: ceiling_altdef)
  then have f: "\<lfloor>- q\<rfloor> = - \<lfloor>q\<rfloor> - 1" by (simp add: floor_minus)
  show ?thesis
    unfolding round_half_even_def Let_def f by auto
qed

lemma quotient_of_pos:
  assumes "0 < q"
  obtains a b where "quotient_of q = (a, b)" "0 < a" "0 < b" "q = of_int a / of_int b"
proof -
  obtain a b where ab: "quotient_of q = (a, b)" by (cases "quotient_of q")
  then have b: "0 < b" and q: "q = of_int a / of_int b"
    using quotient_of_denom_pos quotient_of_div by blast+
  then have "0 < a" using assms by (simp add: zero_less_divide_iff)
  then show ?thesis using that ab b q by blast
qed

lemma bitlen_pow2_bounds:
  assumes "0 < a"
  shows "pow2 (bitlen a - 1) \<le> of_int a" and "of_int a < pow2 (bitlen a)"
proof -
  have l: "1 \<le> bitlen a" using assms bitlen_bounds [OF assms] bitlen_nonneg [of a]
    by (cases "bitlen a = 0") auto
  have "2 ^ nat (bitlen a - 1) \<le> a" "a < 2 ^ nat (bitlen a)"
    using bitlen_bounds [OF assms] by auto
  then have "(of_int (2 ^ nat (bitlen a - 1)) :: rat) \<le> of_int a" "(of_int a :: rat) < of_int (2 ^ nat (bitlen a))"
    by (simp_all only: of_int_le_iff of_int_less_iff)
  then show "pow2 (bitlen a - 1) \<le> of_int a" "of_int a < pow2 (bitlen a)"
    using l by (simp_all add: pow2_of_nat)
qed

lemma ilog2_bounds:
  assumes "0 < q"
  shows "pow2 (ilog2 q) \<le> q \<and> q < pow2 (ilog2 q + 1)"
proof -
  obtain a b where ab: "quotient_of q = (a, b)" "0 < a" "0 < b" "q = of_int a / of_int b"
    using quotient_of_pos [OF assms] .
  have b0: "(0::rat) < of_int b" using ab by simp
  note la = bitlen_pow2_bounds [OF ab(2)] and lb = bitlen_pow2_bounds [OF ab(3)]
  define e where "e = bitlen a - bitlen b"
  have up: "q < pow2 (e + 1)"
  proof -
    have "pow2 (e + 1) * of_int b \<ge> pow2 (e + 1) * pow2 (bitlen b - 1)"
      using lb(1) by (intro mult_left_mono) (simp_all add: less_imp_le)
    also have "pow2 (e + 1) * pow2 (bitlen b - 1) = pow2 (bitlen a)"
      by (simp add: pow2_add [symmetric] e_def)
    finally have "of_int a < pow2 (e + 1) * of_int b" using la(2) by simp
    then show ?thesis using b0 by (simp add: ab(4) divide_less_eq)
  qed
  have lo: "pow2 (e - 1) \<le> q"
  proof -
    have "pow2 (e - 1) * of_int b \<le> pow2 (e - 1) * pow2 (bitlen b)"
      using lb(2) by (intro mult_left_mono) (simp_all add: less_imp_le)
    also have "\<dots> = pow2 (bitlen a - 1)" by (simp add: pow2_add [symmetric] e_def)
    finally have "pow2 (e - 1) * of_int b \<le> of_int a" using la(1) by simp
    then show ?thesis using b0 by (simp add: ab(4) le_divide_eq)
  qed
  have "ilog2 q = (if pow2 e \<le> q then e else e - 1)" by (simp add: ilog2_def ab(1) e_def)
  then show ?thesis using up lo by auto
qed

lemma ilog2_mono: "0 < a \<Longrightarrow> a \<le> b \<Longrightarrow> ilog2 a \<le> ilog2 b"
proof -
  assume "0 < a" "a \<le> b"
  then have "pow2 (ilog2 a) < pow2 (ilog2 b + 1)"
    using ilog2_bounds [of a] ilog2_bounds [of b] by linarith
  then show ?thesis using pow2_strict by fastforce
qed

lemma rnd_val_neg: "rnd_val (- q) = - rnd_val q"
  by (simp add: rnd_val_def ulp_exp_def half_even_neg)

lemma rnd_val_nonneg: "0 \<le> q \<Longrightarrow> 0 \<le> rnd_val q"
proof -
  assume "0 \<le> q"
  then have "round_half_even 0 \<le> round_half_even (q / pow2 (ulp_exp q))"
    by (intro half_even_mono) (simp add: less_imp_le)
  moreover have "round_half_even 0 = 0" using half_even_int [of 0] by simp
  ultimately show ?thesis by (simp add: rnd_val_def less_imp_le)
qed

lemma rnd_val_pow2_bound:
  assumes "0 < a" "ulp_exp a \<le> e"
  shows "a \<le> pow2 e \<Longrightarrow> rnd_val a \<le> pow2 e" and "pow2 e \<le> a \<Longrightarrow> pow2 e \<le> rnd_val a"
proof -
  let ?k = "ulp_exp a"
  have int: "round_half_even (pow2 (e - ?k)) = 2 ^ nat (e - ?k)"
    using assms(2) half_even_int [of "2 ^ nat (e - ?k)"] by (simp add: pow2_of_nat)
  have scale: "pow2 e = of_int (2 ^ nat (e - ?k)) * pow2 ?k"
    using assms(2) pow2_of_nat [of "e - ?k"] pow2_add [of "e - ?k" ?k] by simp
  have val: "rnd_val a = of_int (round_half_even (a / pow2 ?k)) * pow2 ?k"
    using assms(1) by (simp add: rnd_val_def)
  show "rnd_val a \<le> pow2 e" if "a \<le> pow2 e"
  proof -
    have "a / pow2 ?k \<le> pow2 (e - ?k)" using that by (simp add: pow2_diff divide_right_mono less_imp_le)
    then have "round_half_even (a / pow2 ?k) \<le> 2 ^ nat (e - ?k)" using half_even_mono int by metis
    then have "(of_int (round_half_even (a / pow2 ?k)) :: rat) \<le> of_int (2 ^ nat (e - ?k))"
      by (simp only: of_int_le_iff)
    then show ?thesis unfolding val scale by (intro mult_right_mono) (simp_all add: less_imp_le)
  qed
  show "pow2 e \<le> rnd_val a" if "pow2 e \<le> a"
  proof -
    have "pow2 (e - ?k) \<le> a / pow2 ?k" using that by (simp add: pow2_diff divide_right_mono less_imp_le)
    then have "2 ^ nat (e - ?k) \<le> round_half_even (a / pow2 ?k)" using half_even_mono int by metis
    then have "(of_int (2 ^ nat (e - ?k)) :: rat) \<le> of_int (round_half_even (a / pow2 ?k))"
      by (simp only: of_int_le_iff)
    then show ?thesis unfolding val scale by (intro mult_right_mono) (simp_all add: less_imp_le)
  qed
qed

lemma rnd_val_mono_pos:
  assumes "0 < a" "a \<le> b"
  shows "rnd_val a \<le> rnd_val b"
proof (cases "ulp_exp a = ulp_exp b")
  case True
  have "round_half_even (a / pow2 (ulp_exp b)) \<le> round_half_even (b / pow2 (ulp_exp b))"
    using assms(2) by (intro half_even_mono divide_right_mono) (simp_all add: less_imp_le)
  then show ?thesis using True assms by (simp add: rnd_val_def)
next
  case False
  have le: "ilog2 a \<le> ilog2 b" using ilog2_mono assms by blast
  have abs: "\<bar>a\<bar> = a" "\<bar>b\<bar> = b" using assms by auto
  then have k: "ulp_exp a < ulp_exp b" "ulp_exp b = ilog2 b - 52" "ilog2 a < ilog2 b"
    using False le by (auto simp: ulp_exp_def max_def split: if_splits)
  have "a < pow2 (ilog2 a + 1)" using ilog2_bounds [OF assms(1)] by blast
  also have "\<dots> \<le> pow2 (ilog2 b)" using k by (intro pow2_mono) simp
  finally have "rnd_val a \<le> pow2 (ilog2 b)"
    using rnd_val_pow2_bound(1) [of a "ilog2 b"] assms k by simp
  moreover have "pow2 (ilog2 b) \<le> rnd_val b"
    using rnd_val_pow2_bound(2) [of b "ilog2 b"] ilog2_bounds [of b] assms k by simp
  ultimately show ?thesis by linarith
qed

lemma rnd_val_mono: "a \<le> b \<Longrightarrow> rnd_val a \<le> rnd_val b"
proof -
  assume ab: "a \<le> b"
  consider "0 < a" | "b < 0" | "a \<le> 0" "0 \<le> b" using ab by linarith
  then show ?thesis
  proof cases
    case 1
    then show ?thesis using ab by (rule rnd_val_mono_pos)
  next
    case 2
    then have "rnd_val (- b) \<le> rnd_val (- a)" using ab by (intro rnd_val_mono_pos) auto
    then show ?thesis by (simp add: rnd_val_neg)
  next
    case 3
    then have "rnd_val a \<le> 0" using rnd_val_nonneg [of "- a"] by (simp add: rnd_val_neg)
    then show ?thesis using rnd_val_nonneg [OF 3(2)] by linarith
  qed
qed

lemma rnd_mono: "a \<le> b \<Longrightarrow> f_le (rnd a) (rnd b)"
  using rnd_val_mono [of a b] pow2_pos [of 1024]
  by (auto simp: rnd_def Let_def split: if_splits)

text \<open>Powers of two are representable, and everything from \<open>2^1024\<close> on overflows.\<close>
lemma pow2_less: "i < j \<Longrightarrow> pow2 i < pow2 j"
proof -
  assume "i < j"
  then have "pow2 (i + 1) \<le> pow2 j" by (intro pow2_mono) simp
  moreover have "pow2 (i + 1) = 2 * pow2 i" using pow2_add [of i 1] by (simp add: pow2_def)
  ultimately show ?thesis using pow2_pos [of i] by linarith
qed

lemma ilog2_pow2: "ilog2 (pow2 e) = e"
proof -
  have b: "pow2 (ilog2 (pow2 e)) \<le> pow2 e" "pow2 e < pow2 (ilog2 (pow2 e) + 1)"
    using ilog2_bounds [of "pow2 e"] by auto
  have "e < ilog2 (pow2 e) + 1" using b(2) by (rule pow2_strict)
  moreover have "\<not> e < ilog2 (pow2 e)" using b(1) pow2_less [of e "ilog2 (pow2 e)"] by linarith
  ultimately show ?thesis by simp
qed

lemma rnd_val_pow2: "- 1074 \<le> e \<Longrightarrow> rnd_val (pow2 e) = pow2 e"
proof -
  assume "- 1074 \<le> e"
  then have u: "ulp_exp (pow2 e) \<le> e" by (simp add: ulp_exp_def ilog2_pow2 abs_of_pos)
  show ?thesis
    using rnd_val_pow2_bound(1) [OF pow2_pos u order_refl] rnd_val_pow2_bound(2) [OF pow2_pos u order_refl] by simp
qed

lemma rnd_overflow: "pow2 1024 \<le> q \<Longrightarrow> rnd q = PInf"
  using rnd_val_mono [of "pow2 1024" q] by (simp add: rnd_def rnd_val_pow2)

lemma rnd_pow2: "- 1074 \<le> e \<Longrightarrow> e < 1024 \<Longrightarrow> rnd (pow2 e) = Fin (pow2 e)"
proof -
  assume e: "- 1074 \<le> e" "e < 1024"
  have "pow2 e < pow2 1024" using e(2) by (rule pow2_less)
  moreover have "\<not> pow2 e \<le> - pow2 1024" using pow2_pos [of e] pow2_pos [of 1024] by linarith
  ultimately show ?thesis by (simp add: rnd_def rnd_val_pow2 [OF e(1)] Let_def)
qed

lemma round_away_mono: "a \<le> b \<Longrightarrow> round_away a \<le> round_away b"
proof -
  assume ab: "a \<le> b"
  show ?thesis
  proof (cases "0 \<le> a \<or> b < 0")
    case True
    then show ?thesis using ab by (auto simp: round_away_def intro!: floor_mono ceiling_mono)
  next
    case False
    then have "round_away a \<le> 0" "0 \<le> round_away b"
      by (auto simp: round_away_def ceiling_le_iff le_floor_iff)
    then show ?thesis by linarith
  qed
qed

lemma f_le_cases:
  assumes "f_le x y"
  obtains a b where "x = Fin a" "y = Fin b" "a \<le> b" | "x = NInf" "y \<noteq> NaN" | "x \<noteq> NaN" "y = PInf"
  using assms by (cases x; cases y) auto

lemma Round2_Fin: "Round2 (Fin q) =
    (case rnd (q * 100) of Fin r \<Rightarrow> rnd (of_int (round_away r) / 100) | x \<Rightarrow> x)"
  by (auto simp: Round2_def f_mul_def f_div_def f_inf_def split: F64.splits)

lemma Round2_inf [simp]: "Round2 PInf = PInf" "Round2 NInf = NInf" "Round2 NaN = NaN"
  by (simp_all add: Round2_def f_mul_def f_div_def f_inf_def)

lemma rnd_not_NaN [simp]: "rnd q \<noteq> NaN"
  by (simp add: rnd_def Let_def)

lemma Round2_not_NaN: "x \<noteq> NaN \<Longrightarrow> Round2 x \<noteq> NaN"
  by (cases x) (auto simp: Round2_Fin split: F64.splits)

lemma f_le_inf [simp]: "x \<noteq> NaN \<Longrightarrow> f_le NInf x" "x \<noteq> NaN \<Longrightarrow> f_le x PInf"
  by (cases x; simp)+

text \<open>The quantisation is monotone, as the comment of \<open>Round2\<close> claims: it never reorders a sorted
  sequence of values, whatever the binary rounding of the product and the quotient does.\<close>
theorem round2_monotone:
  assumes "f_le x y"
  shows "f_le (Round2 x) (Round2 y)"
  using assms
proof (cases rule: f_le_cases)
  case (1 a b)
  have le: "f_le (rnd (a * 100)) (rnd (b * 100))" using 1 by (intro rnd_mono) simp
  have n: "Round2 (Fin a) \<noteq> NaN" "Round2 (Fin b) \<noteq> NaN" by (rule Round2_not_NaN, simp)+
  show ?thesis
    using le
  proof (cases rule: f_le_cases)
    case (1 c d)
    then have "f_le (rnd (of_int (round_away c) / 100)) (rnd (of_int (round_away d) / 100))"
      by (intro rnd_mono divide_right_mono) (simp_all add: round_away_mono)
    then show ?thesis using 1 \<open>x = Fin a\<close> \<open>y = Fin b\<close> by (simp add: Round2_Fin)
  next
    case 2
    then show ?thesis using n \<open>x = Fin a\<close> \<open>y = Fin b\<close> by (simp add: Round2_Fin)
  next
    case 3
    then show ?thesis using n \<open>x = Fin a\<close> \<open>y = Fin b\<close> by (simp add: Round2_Fin)
  qed
qed (use Round2_not_NaN in auto)

lemma round2_monotone_witness: "f_le (Round2 (Fin 1)) (Round2 (Fin 2))"
  by (rule round2_monotone) simp

end
