(* ===== verification/Envelope.thy ===== *)
theory Envelope
  imports Prelude
begin

text \<open>
  The message envelope of \<open>src/uni_protocol\<close>: the typed errors of \<open>errors.go\<close>, the supported
  versions of \<open>version.go\<close>, the envelope and its validation (\<open>envelope.go\<close>), the character set of
  type names (\<open>types.go\<close>) and the close codes (\<open>closecode.go\<close>). The JSON codec of the Go standard
  library is a parameter (\<open>json_codec\<close>): the code only relies on it being a pair of functions.
\<close>

section \<open>Errors\<close>

datatype Sentinel =
    ErrMalformed | ErrMissingField | ErrUnsupportedVersion | ErrUnknownType | ErrWrongDirection
  | ErrInvalidID | ErrInvalidTimestamp | ErrMessageTooLarge | ErrInvalidPayload | ErrUnrepresentable

datatype Stage = StageEnvelope | StageType | StageVersion | StagePayload

record DecodeError =
  de_stage :: Stage
  de_field :: string
  de_sentinel :: Sentinel
  de_cause :: "string option"

definition decodeErr :: "Stage \<Rightarrow> string \<Rightarrow> Sentinel \<Rightarrow> DecodeError" where
  "decodeErr st f s = \<lparr>de_stage = st, de_field = f, de_sentinel = s, de_cause = None\<rparr>"

definition decodeErrf :: "Stage \<Rightarrow> string \<Rightarrow> Sentinel \<Rightarrow> string \<Rightarrow> DecodeError" where
  "decodeErrf st f s c = \<lparr>de_stage = st, de_field = f, de_sentinel = s, de_cause = Some c\<rparr>"

lemma decodeErr_sel [simp]:
  "de_stage (decodeErr st f s) = st" "de_field (decodeErr st f s) = f"
  "de_sentinel (decodeErr st f s) = s" "de_cause (decodeErr st f s) = None"
  "de_sentinel (decodeErrf st f s c) = s" "de_stage (decodeErrf st f s c) = st"
  by (simp_all add: decodeErr_def decodeErrf_def)

section \<open>Versions and type names\<close>

definition MinVersion :: int where "MinVersion = 1"
definition CurrentVersion :: int where "CurrentVersion = 1"

definition IsSupported :: "int \<Rightarrow> bool" where
  "IsSupported v \<longleftrightarrow> v \<ge> MinVersion \<and> v \<le> CurrentVersion"

definition SupportedVersions :: "int list" where
  "SupportedVersions = steps MinVersion (CurrentVersion + 1) 1"

definition MaxTypeLen :: nat where "MaxTypeLen = 64"

definition ValidTypeName :: "string \<Rightarrow> bool" where
  "ValidTypeName t \<longleftrightarrow>
     \<not> (t = [] \<or> length t > MaxTypeLen)
     \<and> list_all (\<lambda>c. is_lower c \<or> is_digit c \<or> c = CHR ''.'' \<or> c = CHR ''_'') t"

section \<open>Envelope\<close>

definition MaxMessageBytes :: nat where "MaxMessageBytes = 2 ^ 20"
definition MaxClockSkewMs :: "64 word" where "MaxClockSkewMs = 5 * 60 * 1000"
definition MaxIDLen :: nat where "MaxIDLen = 64"

record Message =
  msg_v :: int
  msg_id :: string
  msg_type :: string
  msg_ts :: int
  msg_data :: string

text \<open>What the code uses of \<open>encoding/json\<close>: decoding and encoding an envelope, and the syntax check.
  An error is its text.\<close>
record json_codec =
  unmarshal_msg :: "string \<Rightarrow> string + Message"
  marshal_msg :: "Message \<Rightarrow> string + string"
  json_valid :: "string \<Rightarrow> bool"

definition isDecimalID :: "string \<Rightarrow> bool" where
  "isDecimalID s \<longleftrightarrow> s \<noteq> [] \<and> list_all is_digit s"

definition isDataEmpty :: "string \<Rightarrow> bool" where
  "isDataEmpty d = (let t = trim_space d in t = [] \<or> t = ''null'')"

definition validateDataShape :: "json_codec \<Rightarrow> string \<Rightarrow> DecodeError option" where
  "validateDataShape cdc d =
     (if isDataEmpty d then None
      else let t = trim_space d in
           if hd t \<noteq> CHR 0x7B \<or> \<not> json_valid cdc t
           then Some (decodeErr StageEnvelope ''data'' ErrMalformed) else None)"

definition Validate :: "json_codec \<Rightarrow> Message \<Rightarrow> DecodeError option" where
  "Validate cdc m =
     and_then (reject_if (\<not> IsSupported (msg_v m)) (decodeErr StageVersion ''v'' ErrUnsupportedVersion))
    (and_then
       (if msg_id m = [] then Some (decodeErr StageEnvelope ''id'' ErrMissingField)
        else if length (msg_id m) > MaxIDLen then Some (decodeErr StageEnvelope ''id'' ErrMalformed)
        else if \<not> isDecimalID (msg_id m) then Some (decodeErr StageEnvelope ''id'' ErrInvalidID)
        else None)
    (and_then
       (if msg_type m = [] then Some (decodeErr StageEnvelope ''type'' ErrMissingField)
        else if \<not> ValidTypeName (msg_type m) then Some (decodeErr StageEnvelope ''type'' ErrMalformed)
        else None)
    (and_then (reject_if (msg_ts m \<le> 0) (decodeErr StageEnvelope ''ts'' ErrInvalidTimestamp))
       (validateDataShape cdc (msg_data m)))))"

definition Unmarshal :: "json_codec \<Rightarrow> string \<Rightarrow> (DecodeError, Message) result" where
  "Unmarshal cdc b =
     (if length b > MaxMessageBytes then Inl (decodeErr StageEnvelope [] ErrMessageTooLarge)
      else case unmarshal_msg cdc b of
             Inl e \<Rightarrow> Inl (decodeErrf StageEnvelope [] ErrMalformed e)
           | Inr m \<Rightarrow> Inr m)"

definition Decode :: "json_codec \<Rightarrow> string \<Rightarrow> (DecodeError, Message) result" where
  "Decode cdc b =
     (case Unmarshal cdc b of
        Inl e \<Rightarrow> Inl e
      | Inr m \<Rightarrow> (case Validate cdc m of Some e \<Rightarrow> Inl e | None \<Rightarrow> Inr m))"

definition Marshal :: "json_codec \<Rightarrow> Message \<Rightarrow> (DecodeError, string) result" where
  "Marshal cdc m =
     (case Validate cdc m of
        Some e \<Rightarrow> Inl e
      | None \<Rightarrow>
          (case marshal_msg cdc m of
             Inl e \<Rightarrow> Inl (decodeErrf StageEnvelope [] ErrUnrepresentable e)
           | Inr b \<Rightarrow> if length b > MaxMessageBytes
                     then Inl (decodeErr StageEnvelope [] ErrMessageTooLarge) else Inr b))"

text \<open>\<open>NewMessage\<close> at clock reading \<open>now\<close>, with the payload already encoded (\<open>Inl\<close> its error).\<close>
definition NewMessage ::
  "json_codec \<Rightarrow> int \<Rightarrow> string \<Rightarrow> string \<Rightarrow> (DecodeError, string) result \<Rightarrow> (DecodeError, Message) result" where
  "NewMessage cdc now i typ data =
     (case data of
        Inl e \<Rightarrow> Inl e
      | Inr raw \<Rightarrow>
          (let m = \<lparr>msg_v = CurrentVersion, msg_id = i, msg_type = typ, msg_ts = now, msg_data = raw\<rparr>
           in case Validate cdc m of Some e \<Rightarrow> Inl e | None \<Rightarrow> Inr m))"

text \<open>\<open>MarshalPayload\<close>: a nil payload is the empty object; the encoder is a parameter.\<close>
definition MarshalPayload :: "('a \<Rightarrow> string + string) \<Rightarrow> 'a option \<Rightarrow> (DecodeError, string) result" where
  "MarshalPayload enc v =
     (case v of
        None \<Rightarrow> Inr [CHR 0x7B, CHR 0x7D]
      | Some x \<Rightarrow> (case enc x of Inl e \<Rightarrow> Inl (decodeErrf StagePayload [] ErrUnrepresentable e) | Inr b \<Rightarrow> Inr b))"

text \<open>\<open>DecodeData\<close>: an empty payload leaves the target as it was.\<close>
definition DecodeData :: "(string \<Rightarrow> 'a \<Rightarrow> string + 'a) \<Rightarrow> string \<Rightarrow> 'a \<Rightarrow> (DecodeError, 'a) result" where
  "DecodeData dec d out =
     (if isDataEmpty d then Inr out
      else case dec d out of
             Inl e \<Rightarrow> Inl (decodeErrf StagePayload [] ErrInvalidPayload e)
           | Inr x \<Rightarrow> Inr x)"

text \<open>The subtraction and the negation are those of int64: they wrap.\<close>
definition ExceedsClockSkew :: "64 word \<Rightarrow> 64 word \<Rightarrow> bool" where
  "ExceedsClockSkew ts now =
     (let d = ts - now; a = (if d <s 0 then - d else d) in MaxClockSkewMs <s a)"

section \<open>Close codes\<close>

definition closeReasons :: "(int \<times> string) list" where
  "closeReasons =
     [(4000, ''protocol version not supported''),
      (4001, ''unauthorized''),
      (4002, ''malformed message''),
      (4003, ''unsupported or wrong-direction message type''),
      (4004, ''duplicate instance''),
      (4005, ''heartbeat timeout''),
      (4006, ''rate limited''),
      (4007, ''server shutting down''),
      (4008, ''protocol violation''),
      (4009, ''upgrade target changed, please reconnect'')]"

definition AllCloseCodes :: "int list" where
  "AllCloseCodes = sort (map fst closeReasons)"

definition MaxCloseReasonBytes :: nat where "MaxCloseReasonBytes = 123"

text \<open>\<open>utf8.Valid\<close> of the Go standard library on a byte sequence.\<close>
definition cont :: "nat \<Rightarrow> bool" where
  "cont b \<longleftrightarrow> 128 \<le> b \<and> b \<le> 191"

fun utf8_len :: "nat list \<Rightarrow> nat" where
  "utf8_len [] = 0"
| "utf8_len (b # bs) =
     (if b < 128 then 1
      else if 194 \<le> b \<and> b \<le> 223 then
        (case bs of c # _ \<Rightarrow> if cont c then 2 else 0 | _ \<Rightarrow> 0)
      else if 224 \<le> b \<and> b \<le> 239 then
        (case bs of c # d # _ \<Rightarrow>
           if (if b = 224 then 160 else 128) \<le> c \<and> c \<le> (if b = 237 then 159 else 191) \<and> cont d then 3 else 0
         | _ \<Rightarrow> 0)
      else if 240 \<le> b \<and> b \<le> 244 then
        (case bs of c # d # e # _ \<Rightarrow>
           if (if b = 240 then 144 else 128) \<le> c \<and> c \<le> (if b = 244 then 143 else 191) \<and> cont d \<and> cont e
           then 4 else 0
         | _ \<Rightarrow> 0)
      else 0)"

function utf8_valid_bytes :: "nat list \<Rightarrow> bool" where
  "utf8_valid_bytes bs =
     (if bs = [] then True else if utf8_len bs = 0 then False
      else utf8_valid_bytes (drop (utf8_len bs) bs))"
  by auto
termination
  by (relation "measure length") auto

declare utf8_valid_bytes.simps [simp del]

definition utf8_valid :: "string \<Rightarrow> bool" where
  "utf8_valid s = utf8_valid_bytes (map byte s)"

text \<open>The loop \<open>for len(b) > 0 && !utf8.Valid(b)\<close> that drops the last byte.\<close>
function drop_to_valid :: "string \<Rightarrow> string" where
  "drop_to_valid b = (if b = [] \<or> utf8_valid b then b else drop_to_valid (butlast b))"
  by auto
termination
  by (relation "measure length") auto

declare drop_to_valid.simps [simp del]

definition truncateUTF8 :: "string \<Rightarrow> nat \<Rightarrow> string" where
  "truncateUTF8 s maxBytes = (if length s \<le> maxBytes then s else drop_to_valid (take maxBytes s))"

definition CloseReason :: "int \<Rightarrow> string" where
  "CloseReason code =
     (let human = (case map_of closeReasons code of Some h \<Rightarrow> h | None \<Rightarrow> ''closed'')
      in truncateUTF8 (itoa code @ ''|'' @ human) MaxCloseReasonBytes)"

section \<open>Lemmas\<close>

lemmas envelope_defs = Validate_def IsSupported_def MinVersion_def CurrentVersion_def isDecimalID_def

text \<open>What a validated envelope promises to the dispatcher.\<close>
definition envelope_ok :: "json_codec \<Rightarrow> Message \<Rightarrow> bool" where
  "envelope_ok cdc m \<longleftrightarrow>
     msg_v m = 1 \<and> isDecimalID (msg_id m) \<and> length (msg_id m) \<le> 64 \<and> ValidTypeName (msg_type m)
     \<and> 0 < msg_ts m \<and> (isDataEmpty (msg_data m)
          \<or> hd (trim_space (msg_data m)) = CHR 0x7B \<and> json_valid cdc (trim_space (msg_data m)))"

lemma Validate_None: "Validate cdc m = None \<longleftrightarrow> envelope_ok cdc m"
  by (auto simp: envelope_defs envelope_ok_def MaxIDLen_def ValidTypeName_def validateDataShape_def Let_def)

lemma Decode_Inr:
  "Decode cdc b = Inr m \<longleftrightarrow>
     length b \<le> MaxMessageBytes \<and> unmarshal_msg cdc b = Inr m \<and> envelope_ok cdc m"
  by (auto simp: Decode_def Unmarshal_def Validate_None [symmetric] split: sum.splits option.splits)

lemma drop_to_valid_props:
  "utf8_valid (drop_to_valid b) \<and> (\<exists>n. drop_to_valid b = take n b)"
proof (induction b rule: drop_to_valid.induct)
  case (1 b)
  show ?case
  proof (cases "b = [] \<or> utf8_valid b")
    case True
    then have "drop_to_valid b = b" by (subst drop_to_valid.simps) simp
    moreover have "utf8_valid []" by (simp add: utf8_valid_def utf8_valid_bytes.simps)
    ultimately show ?thesis using True by (auto intro: exI [of _ "length b"])
  next
    case False
    then have eq: "drop_to_valid b = drop_to_valid (butlast b)" by (subst drop_to_valid.simps) simp
    obtain n where "utf8_valid (drop_to_valid (butlast b))" "drop_to_valid (butlast b) = take n (butlast b)"
      using 1 False by blast
    then show ?thesis unfolding eq by (auto simp: butlast_conv_take intro: exI [of _ "min n (length b - 1)"])
  qed
qed

lemma truncateUTF8_bound: "length (truncateUTF8 s n) \<le> n"
proof (cases "length s \<le> n")
  case False
  obtain k where "drop_to_valid (take n s) = take k (take n s)" using drop_to_valid_props by blast
  then show ?thesis using False by (simp add: truncateUTF8_def)
qed (simp add: truncateUTF8_def)

section \<open>Properties\<close>

text \<open>A decoded envelope is complete. \<open>Decode\<close> succeeds exactly on frames within the size limit
  that the codec parses to an envelope with a supported version, a decimal id of at most 64
  bytes, a legal type name, a positive timestamp and object-shaped (or empty) data, and then it
  returns that envelope; every other frame is an error value.\<close>
theorem decode_exact:
  "(\<exists>e. Decode cdc b = Inl e) \<noteq> (\<exists>m. Decode cdc b = Inr m \<and> length b \<le> MaxMessageBytes
       \<and> unmarshal_msg cdc b = Inr m \<and> envelope_ok cdc m)
   \<and> (\<forall>m. Decode cdc b = Inr m \<longleftrightarrow>
         length b \<le> MaxMessageBytes \<and> unmarshal_msg cdc b = Inr m \<and> envelope_ok cdc m)"
  by (cases "Decode cdc b") (auto simp: Decode_Inr [symmetric])

lemma sint_word_bounds: "- (2 ^ 63) \<le> sint (w :: 64 word) \<and> sint w < 2 ^ 63"
  using sint_ge [of w] sint_lt [of w] by simp

text \<open>The clock check is the distance check. For every non-negative pair of int64 readings
  the wrapped subtraction and negation never overflow, so the check says exactly that the two
  readings are more than five minutes apart.\<close>
theorem clock_skew_exact:
  assumes "0 \<le> sint ts" and "0 \<le> sint now"
  shows "ExceedsClockSkew ts now \<longleftrightarrow> 300000 < \<bar>sint ts - sint now\<bar>"
proof -
  have b: "sint ts < 2 ^ 63" "sint now < 2 ^ 63" using sint_word_bounds by blast+
  have d: "sint (ts - now) = sint ts - sint now"
    unfolding sint_word_diff by (rule signed_take_bit_int_eq_self) (use assms b in simp_all)
  have n: "sint (now - ts) = sint now - sint ts"
    unfolding sint_word_diff by (rule signed_take_bit_int_eq_self) (use assms b in simp_all)
  have c: "sint (300000 :: 64 word) = 300000" by simp
  show ?thesis
    by (auto simp: ExceedsClockSkew_def MaxClockSkewMs_def Let_def word_sless_alt d n c)
qed

lemma clock_skew_exact_witness: "ExceedsClockSkew 1000000 500000 \<and> \<not> ExceedsClockSkew 500000 600000"
  using clock_skew_exact [of 1000000 500000] clock_skew_exact [of 500000 600000] by simp

text \<open>A close reason always fits the WebSocket control frame, and truncation keeps a prefix
  that is valid UTF-8 whenever it cuts.\<close>
theorem close_reason_bounds:
  "length (CloseReason code) \<le> 123
   \<and> (\<exists>k. truncateUTF8 s n = take k s)
   \<and> (length s > n \<longrightarrow> utf8_valid (truncateUTF8 s n))"
proof -
  obtain k where "utf8_valid (drop_to_valid (take n s)) \<and> drop_to_valid (take n s) = take k (take n s)"
    using drop_to_valid_props by blast
  then have "(\<exists>k. truncateUTF8 s n = take k s) \<and> (length s > n \<longrightarrow> utf8_valid (truncateUTF8 s n))"
    by (auto simp: truncateUTF8_def intro: exI [of _ "length s"] exI [of _ "min k n"])
  moreover have "length (CloseReason code) \<le> 123"
    unfolding CloseReason_def Let_def MaxCloseReasonBytes_def by (rule truncateUTF8_bound)
  ultimately show ?thesis by blast
qed

lemma close_reason_bounds_witness:
  "utf8_valid (truncateUTF8 (map char_of [97, 226, 130 :: nat, 172]) 3)"
  using close_reason_bounds [of 4000 "map char_of [97, 226, 130 :: nat, 172]" 3] by simp

text \<open>A string that already fits is returned unchecked, so the result of the truncation can be
  invalid UTF-8.\<close>
theorem truncate_keeps_invalid:
  "\<exists>s n. length s \<le> n \<and> truncateUTF8 s n = s \<and> \<not> utf8_valid s"
proof -
  have "\<not> utf8_valid [char_of (255 :: nat)]" by code_simp
  then show ?thesis by (intro exI [of _ "[char_of (255 :: nat)]"] exI [of _ 1]) (simp add: truncateUTF8_def)
qed

end
