(* ===== verification/Semver.thy ===== *)
theory Semver
  imports Prelude
begin

text \<open>
  The version numbers of \<open>src/uni_protocol/semver.go\<close>: the parser of upgrade targets, the
  printer and the comparison both ends decide upgrades with. A \<open>Semver\<close> struct is a
  single-constructor datatype (so that it can carry a \<open>linorder\<close> instance); the three
  numbers are Go \<open>int\<close>s, kept inside int64 by the overflow check of \<open>strconv.Atoi\<close>.
\<close>

datatype Semver = Semver (Major: int) (Minor: int) (Patch: int) (Pre: string)

definition semver_string :: "Semver \<Rightarrow> string" where
  "semver_string v =
     itoa (Major v) @ ''.'' @ itoa (Minor v) @ ''.'' @ itoa (Patch v)
     @ (if Pre v \<noteq> [] then ''-'' @ Pre v else [])"

definition parseNumericIdent :: "string \<Rightarrow> int option" where
  "parseNumericIdent s =
     (if s = [] then None
      else if \<not> list_all is_digit s then None
      else if 1 < length s \<and> hd s = CHR ''0'' then None
      else if 2 ^ 63 - 1 < int (digits_val s) then None
      else Some (int (digits_val s)))"

definition preChar :: "char \<Rightarrow> bool" where
  "preChar c \<longleftrightarrow> is_digit c \<or> is_lower c \<or> is_upper c \<or> c = CHR ''-''"

definition validPreIdent :: "string \<Rightarrow> bool" where
  "validPreIdent s \<longleftrightarrow> (\<forall>seg\<in>set (split_on CHR ''.'' s). seg \<noteq> [] \<and> list_all preChar seg)"

text \<open>The build part is dropped, after a check that it is there and well formed.\<close>
definition dropBuild :: "string \<Rightarrow> string option" where
  "dropBuild s =
     (case cut_at CHR ''+'' s of
        None \<Rightarrow> Some s
      | Some (core, build) \<Rightarrow> if build = [] \<or> \<not> validPreIdent build then None else Some core)"

definition takePre :: "string \<Rightarrow> (string \<times> string) option" where
  "takePre s =
     (case cut_at CHR ''-'' s of
        None \<Rightarrow> Some (s, [])
      | Some (core, p) \<Rightarrow> if p = [] \<or> \<not> validPreIdent p then None else Some (core, p))"

definition parseCore :: "string \<Rightarrow> string \<Rightarrow> Semver option" where
  "parseCore s p =
     (case split_on CHR ''.'' s of
        [a, b, c] \<Rightarrow>
          (case (parseNumericIdent a, parseNumericIdent b, parseNumericIdent c) of
             (Some x, Some y, Some z) \<Rightarrow> Some (Semver x y z p)
           | _ \<Rightarrow> None)
      | _ \<Rightarrow> None)"

definition ParseSemver :: "string \<Rightarrow> Semver option" where
  "ParseSemver s =
     (if s = [] \<or> trim_space s \<noteq> s then None
      else case dropBuild s of
             None \<Rightarrow> None
           | Some t \<Rightarrow>
               (case takePre t of None \<Rightarrow> None | Some (core, p) \<Rightarrow> parseCore core p))"

definition IsSemver :: "string \<Rightarrow> bool" where
  "IsSemver s \<longleftrightarrow> ParseSemver s \<noteq> None"

text \<open>One round of the loop of \<open>comparePre\<close>: a numeric identifier is smaller than an
  alphanumeric one, two numeric ones compare by value, two others bytewise.\<close>
definition compareIdent :: "string \<Rightarrow> string \<Rightarrow> int" where
  "compareIdent a b =
     (case (parseNumericIdent a, parseNumericIdent b) of
        (Some m, Some n) \<Rightarrow> if m \<noteq> n then (if m < n then -1 else 1) else 0
      | (Some m, None) \<Rightarrow> -1
      | (None, Some n) \<Rightarrow> 1
      | (None, None) \<Rightarrow> if a \<noteq> b then (if str_cmp a b < 0 then -1 else 1) else 0)"

definition comparePre :: "string \<Rightarrow> string \<Rightarrow> int" where
  "comparePre a b = lex_cmp compareIdent (split_on CHR ''.'' a) (split_on CHR ''.'' b)"

definition CompareSemver :: "Semver \<Rightarrow> Semver \<Rightarrow> int" where
  "CompareSemver a b =
     (if Major a \<noteq> Major b then (if Major a < Major b then -1 else 1)
      else if Minor a \<noteq> Minor b then (if Minor a < Minor b then -1 else 1)
      else if Patch a \<noteq> Patch b then (if Patch a < Patch b then -1 else 1)
      else if Pre a = [] \<and> Pre b = [] then 0
      else if Pre a = [] then 1
      else if Pre b = [] then -1
      else comparePre (Pre a) (Pre b))"

section \<open>Numeric identifiers\<close>

lemma digits_val_bound: "list_all is_digit s \<Longrightarrow> digits_val s < 10 ^ length s"
proof (induction s rule: rev_induct)
  case (snoc c s)
  then have "byte c - 48 \<le> 9" by (auto simp: is_digit_def)
  moreover have "digits_val s < 10 ^ length s" using snoc by simp
  ultimately show ?case by simp
qed (simp add: digits_val_def)

lemma digits_val_lower:
  "list_all is_digit s \<Longrightarrow> s \<noteq> [] \<Longrightarrow> hd s \<noteq> CHR ''0'' \<Longrightarrow> 10 ^ (length s - 1) \<le> digits_val s"
proof (induction s rule: rev_induct)
  case (snoc c s)
  show ?case
  proof (cases "s = []")
    case True
    have "byte (CHR ''0'') = 48" by (simp add: byte_def)
    then have "byte c \<noteq> 48" using snoc.prems True byte_inject [of c "CHR ''0''"] by simp
    then show ?thesis using True snoc.prems by (auto simp: digits_val_def is_digit_def)
  next
    case False
    then have ih: "10 ^ (length s - 1) \<le> digits_val s" using snoc by simp
    have "(10::nat) ^ length s = 10 * 10 ^ (length s - 1)" using False by (cases s) auto
    then show ?thesis using ih by simp
  qed
qed simp

lemma digits_val_inject:
  assumes "list_all is_digit s" "list_all is_digit t" "length s = length t"
    and "digits_val s = digits_val t"
  shows "s = t"
  using assms
proof (induction s arbitrary: t rule: rev_induct)
  case (snoc c s)
  obtain t' d where t: "t = t' @ [d]" using snoc.prems(3) by (cases t rule: rev_cases) auto
  have c: "byte c - 48 \<le> 9" "byte d - 48 \<le> 9" "48 \<le> byte c" "48 \<le> byte d"
    using snoc.prems t by (auto simp: is_digit_def)
  have "digits_val s * 10 + (byte c - 48) = digits_val t' * 10 + (byte d - 48)"
    using snoc.prems t by simp
  then have "digits_val s = digits_val t' \<and> byte c - 48 = byte d - 48"
    using c(1,2) by (auto dest: arg_cong [where f = "\<lambda>n. n div 10"] arg_cong [where f = "\<lambda>n. n mod 10"])
  then have vals: "digits_val s = digits_val t'" and "c = d"
    using eq_diff_iff [OF c(3,4)] by simp_all
  moreover have "s = t'" by (rule snoc.IH) (use snoc.prems t vals in simp_all)
  ultimately show ?case using t by simp
qed simp

lemma digits_len_mono:
  assumes "list_all is_digit s" "list_all is_digit t" "t \<noteq> []" "hd t \<noteq> CHR ''0''"
    and "length s < length t"
  shows "digits_val s < digits_val t"
proof -
  have "digits_val s < 10 ^ length s" using assms digits_val_bound by blast
  also have "(10::nat) ^ length s \<le> 10 ^ (length t - 1)"
    by (rule power_increasing) (use assms in auto)
  also have "\<dots> \<le> digits_val t" using assms digits_val_lower by blast
  finally show ?thesis .
qed

lemma parseNumericIdent_Some:
  "parseNumericIdent s = Some n \<longleftrightarrow>
     s \<noteq> [] \<and> list_all is_digit s \<and> (1 < length s \<longrightarrow> hd s \<noteq> CHR ''0'')
     \<and> int (digits_val s) \<le> 2 ^ 63 - 1 \<and> n = int (digits_val s)"
  by (auto simp: parseNumericIdent_def)

lemma parseNumericIdent_inject:
  assumes "parseNumericIdent s = Some n" "parseNumericIdent t = Some n"
  shows "s = t"
proof -
  have s: "list_all is_digit s" "s \<noteq> []" "1 < length s \<longrightarrow> hd s \<noteq> CHR ''0''"
    and t: "list_all is_digit t" "t \<noteq> []" "1 < length t \<longrightarrow> hd t \<noteq> CHR ''0''"
    and eq: "digits_val s = digits_val t"
    using assms by (auto simp: parseNumericIdent_Some)
  have "length s = length t"
  proof (rule ccontr)
    assume "length s \<noteq> length t"
    then consider "length s < length t" | "length t < length s" by linarith
    then show False
    proof cases
      case 1
      then have "1 < length t" using s(2) by (cases s) auto
      then show False using digits_len_mono [of s t] s t eq 1 by simp
    next
      case 2
      then have "1 < length s" using t(2) by (cases t) auto
      then show False using digits_len_mono [of t s] s t eq 2 by simp
    qed
  qed
  then show ?thesis using digits_val_inject s t eq by blast
qed

lemma parseNumericIdent_itoa [simp]:
  "0 \<le> n \<Longrightarrow> n < 2 ^ 63 \<Longrightarrow> parseNumericIdent (itoa n) = Some n"
  using nat_dec_digits [of _ "nat n"] nat_dec_no_leading_zero [of "nat n"]
  by (auto simp: parseNumericIdent_Some itoa_def list_all_iff nat_le_iff)

lemma itoa_chars: "0 \<le> n \<Longrightarrow> c \<in> set (itoa n) \<Longrightarrow> is_digit c"
  by (auto simp: itoa_def nat_dec_digits)

section \<open>The comparison is a total order\<close>

lemma compareIdent_num_lt:
  "parseNumericIdent a = Some m \<Longrightarrow> compareIdent a b < 0 \<longleftrightarrow>
     (case parseNumericIdent b of None \<Rightarrow> True | Some n \<Rightarrow> m < n)"
  by (auto simp: compareIdent_def split: option.splits)

lemma compareIdent_alnum_lt:
  "parseNumericIdent a = None \<Longrightarrow> compareIdent a b < 0 \<longleftrightarrow>
     (parseNumericIdent b = None \<and> str_cmp a b < 0)"
  by (auto simp: compareIdent_def split: option.splits)

interpretation ident_order: comparator compareIdent
proof (unfold_locales, goal_cases)
  case (1 b a)
  show ?case
    using str_order.total [of a b] str_order.irrefl_less [of a b]
    by (auto simp: compareIdent_def split: option.splits)
next
  case (2 a b)
  show ?case
    using parseNumericIdent_inject [of a _ b]
    by (auto simp: compareIdent_def split: option.splits)
next
  case (3 a b c)
  show ?case
  proof (cases "parseNumericIdent a")
    case None
    then show ?thesis using 3 str_order.trans [of a b c]
      by (auto simp: compareIdent_alnum_lt)
  next
    case (Some m)
    then show ?thesis using 3
      by (cases "parseNumericIdent b")
        (auto simp: compareIdent_num_lt compareIdent_alnum_lt split: option.splits)
  qed
qed

text \<open>The prerelease order: a release (empty \<open>Pre\<close>) is above every prerelease.\<close>
definition pre_cmp :: "string \<Rightarrow> string \<Rightarrow> int" where
  "pre_cmp p q =
     (if p = [] \<and> q = [] then 0 else if p = [] then 1 else if q = [] then -1
      else comparePre p q)"

interpretation pre_order: comparator comparePre
proof (unfold_locales, goal_cases)
  case (1 b a)
  show ?case unfolding comparePre_def by (rule ident_order.lex_antisym)
next
  case (2 a b)
  show ?case by (simp add: comparePre_def ident_order.lex_zero)
next
  case (3 a b c)
  then show ?case unfolding comparePre_def by (rule ident_order.lex_trans)
qed

interpretation pre_or_release: comparator pre_cmp
proof (unfold_locales, goal_cases)
  case (1 b a)
  show ?case using pre_order.antisym [of b a] by (auto simp: pre_cmp_def)
next
  case (2 a b)
  show ?case by (auto simp: pre_cmp_def pre_order.zero)
next
  case (3 a b c)
  then show ?case using pre_order.trans [of a b c] by (auto simp: pre_cmp_def split: if_splits)
qed

lemma CompareSemver_lex:
  "CompareSemver a b =
     (if int_cmp (Major a) (Major b) \<noteq> 0 then int_cmp (Major a) (Major b)
      else if int_cmp (Minor a) (Minor b) \<noteq> 0 then int_cmp (Minor a) (Minor b)
      else if int_cmp (Patch a) (Patch b) \<noteq> 0 then int_cmp (Patch a) (Patch b)
      else pre_cmp (Pre a) (Pre b))"
  by (simp add: CompareSemver_def pre_cmp_def int_cmp_def)

text \<open>The comparison of the code satisfies the comparator contract on every pair of versions,
  parsed or not.\<close>
interpretation semver_order: comparator CompareSemver
proof (unfold_locales, goal_cases)
  case (1 b a)
  show ?case
    by (simp add: CompareSemver_lex int_order.antisym [of "Major b"] int_order.antisym [of "Minor b"]
        int_order.antisym [of "Patch b"] pre_or_release.antisym [of "Pre b"])
next
  case (2 a b)
  show ?case
    by (cases a; cases b) (auto simp: CompareSemver_lex int_order.zero pre_or_release.zero)
next
  case (3 a b c)
  let ?k = "\<lambda>v. [Major v, Minor v, Patch v]"
  have dec: "CompareSemver u v = (if ?k u = ?k v then pre_cmp (Pre u) (Pre v) else lex_cmp int_cmp (?k u) (?k v))"
    for u v by (simp add: CompareSemver_lex int_order.zero)
  show ?case
  proof (cases "?k a = ?k b \<or> ?k b = ?k c")
    case True
    then show ?thesis
      using 3 pre_or_release.trans [of "Pre a" "Pre b" "Pre c"] unfolding dec
      by (auto simp del: list.inject lex_cmp.simps split: if_splits)
  next
    case False
    then have lt: "lex_cmp int_cmp (?k a) (?k b) < 0" "lex_cmp int_cmp (?k b) (?k c) < 0"
      using 3 unfolding dec by (simp_all split: if_splits)
    then have "lex_cmp int_cmp (?k a) (?k c) < 0" by (rule int_order.lex_trans)
    moreover from this have "?k a \<noteq> ?k c" using int_order.lex_zero [of "?k a" "?k c"] by linarith
    ultimately show ?thesis unfolding dec by (simp only: if_False simp_thms)
  qed
qed

text \<open>The versions form a linear order, so that the library's \<open>min\<close>, \<open>max\<close> and \<open>sort\<close> apply.\<close>
instantiation Semver :: linorder
begin

definition less_eq_Semver :: "Semver \<Rightarrow> Semver \<Rightarrow> bool" where
  "less_eq_Semver a b \<longleftrightarrow> CompareSemver a b \<le> 0"

definition less_Semver :: "Semver \<Rightarrow> Semver \<Rightarrow> bool" where
  "less_Semver a b \<longleftrightarrow> CompareSemver a b < 0"

instance
proof (standard, goal_cases)
  case (1 x y)
  show ?case using semver_order.antisym [of y x] by (auto simp: less_eq_Semver_def less_Semver_def)
next
  case (2 x)
  show ?case by (simp add: less_eq_Semver_def)
next
  case (3 x y z)
  then show ?case using semver_order.le_trans by (simp add: less_eq_Semver_def)
next
  case (4 x y)
  then show ?case using semver_order.le_antisym by (simp add: less_eq_Semver_def)
next
  case (5 x y)
  show ?case using semver_order.total [of x y] by (auto simp: less_eq_Semver_def)
qed

end

section \<open>The accepted strings\<close>

text \<open>The versions the parser can return.\<close>
definition semver_wf :: "Semver \<Rightarrow> bool" where
  "semver_wf v \<longleftrightarrow>
     0 \<le> Major v \<and> Major v < 2 ^ 63 \<and> 0 \<le> Minor v \<and> Minor v < 2 ^ 63
     \<and> 0 \<le> Patch v \<and> Patch v < 2 ^ 63 \<and> (Pre v = [] \<or> validPreIdent (Pre v))"

lemma preChar_byte: "preChar c \<Longrightarrow> 33 \<le> byte c \<and> byte c < 127"
  by (auto simp: preChar_def is_digit_def is_lower_def is_upper_def byte_def)

lemma split_on_cover: "c \<in> set s \<Longrightarrow> c = d \<or> (\<exists>seg\<in>set (split_on d s). c \<in> set seg)"
proof (induction s)
  case (Cons x xs)
  obtain y ys where s: "split_on d xs = y # ys" by (cases "split_on d xs") auto
  then show ?case using Cons by auto
qed simp

lemma validPreIdent_chars: "validPreIdent s \<Longrightarrow> c \<in> set s \<Longrightarrow> preChar c \<or> c = CHR ''.''"
  using split_on_cover [of c s "CHR ''.''"] by (auto simp: validPreIdent_def list_all_iff)

lemma validPreIdent_no_plus: "validPreIdent s \<Longrightarrow> CHR ''+'' \<notin> set s"
  using validPreIdent_chars [of s "CHR ''+''"]
  by (auto simp: preChar_def is_digit_def is_lower_def is_upper_def byte_def)

lemma validPreIdent_nonempty: "validPreIdent s \<Longrightarrow> s \<noteq> []"
  by (auto simp: validPreIdent_def)

lemma lead_space_none:
  assumes "\<forall>q\<in>set seqs. q \<noteq> [] \<and> (hd q < 33 \<or> 127 \<le> hd q)"
    and "s \<noteq> [] \<longrightarrow> 33 \<le> byte (hd s) \<and> byte (hd s) < 127"
  shows "lead_space seqs s = 0"
proof (cases s)
  case Nil
  then have "filter (\<lambda>q. take (length q) (map byte s) = q) seqs = []"
    using assms(1) by (auto simp: filter_empty_conv)
  then show ?thesis by (simp add: lead_space_def)
next
  case (Cons h t)
  have "take (length q) (map byte s) \<noteq> q" if "q \<in> set seqs" for q
  proof
    assume eq: "take (length q) (map byte s) = q"
    have "q \<noteq> []" using that assms(1) by blast
    then obtain n r where q: "q = n # r" by (cases q) auto
    have "n < 33 \<or> 127 \<le> n" using that assms(1) q by force
    then show False using eq q assms(2) Cons by auto
  qed
  then have "filter (\<lambda>q. take (length q) (map byte s) = q) seqs = []"
    by (auto simp: filter_empty_conv)
  then show ?thesis by (simp add: lead_space_def)
qed

lemma space_seqs_heads:
  "\<forall>q\<in>set space_seqs. q \<noteq> [] \<and> (hd q < 33 \<or> 127 \<le> hd q)"
  "\<forall>q\<in>set (map rev space_seqs). q \<noteq> [] \<and> (hd q < 33 \<or> 127 \<le> hd q)"
  by code_simp+

lemma trim_space_ident: "\<forall>c\<in>set s. 33 \<le> byte c \<and> byte c < 127 \<Longrightarrow> trim_space s = s"
proof -
  assume a: "\<forall>c\<in>set s. 33 \<le> byte c \<and> byte c < 127"
  have "strip_lead space_seqs s = s"
    using a lead_space_none [OF space_seqs_heads(1), of s] by (subst strip_lead.simps) auto
  moreover have "strip_lead (map rev space_seqs) (rev s) = rev s"
    using a lead_space_none [OF space_seqs_heads(2), of "rev s"]
    by (subst strip_lead.simps) (auto simp: hd_rev)
  ultimately show ?thesis by (simp add: trim_space_def)
qed

definition core_string :: "Semver \<Rightarrow> string" where
  "core_string v = itoa (Major v) @ ''.'' @ itoa (Minor v) @ ''.'' @ itoa (Patch v)"

lemma core_string_chars:
  "semver_wf v \<Longrightarrow> c \<in> set (core_string v) \<Longrightarrow> is_digit c \<or> c = CHR ''.''"
  using itoa_chars by (auto simp: core_string_def semver_wf_def)

lemma semver_string_core: "semver_string v = core_string v @ (if Pre v \<noteq> [] then ''-'' @ Pre v else [])"
  by (simp add: semver_string_def core_string_def)

lemma digit_not_sep [simp]: "\<not> is_digit CHR ''.''" "\<not> is_digit CHR ''-''" "\<not> is_digit CHR ''+''"
  by (simp_all add: is_digit_def byte_def)

lemma itoa_no_sep: "0 \<le> n \<Longrightarrow> \<not> is_digit c \<Longrightarrow> c \<notin> set (itoa n)"
  using itoa_chars by blast

lemma split_core: "semver_wf v \<Longrightarrow>
    split_on CHR ''.'' (core_string v) = [itoa (Major v), itoa (Minor v), itoa (Patch v)]"
  by (simp add: core_string_def semver_wf_def itoa_no_sep split_on_append split_on_no_sep)

lemma parseCore_core: "semver_wf v \<Longrightarrow> parseCore (core_string v) (Pre v) = Some v"
  by (simp add: parseCore_def split_core semver_wf_def)

lemma takePre_string: "semver_wf v \<Longrightarrow> takePre (semver_string v) = Some (core_string v, Pre v)"
proof -
  assume wf: "semver_wf v"
  then have no: "CHR ''-'' \<notin> set (core_string v)" using core_string_chars by fastforce
  show ?thesis
  proof (cases "Pre v = []")
    case True
    then have "cut_at CHR ''-'' (semver_string v) = None"
      using no by (simp add: cut_at_None semver_string_core)
    then show ?thesis using True by (simp add: takePre_def semver_string_core)
  next
    case False
    then have "cut_at CHR ''-'' (semver_string v) = Some (core_string v, Pre v)"
      using no by (simp add: cut_at_Some semver_string_core)
    then show ?thesis using False wf by (simp add: takePre_def semver_wf_def)
  qed
qed

lemma semver_string_no_plus: "semver_wf v \<Longrightarrow> CHR ''+'' \<notin> set (semver_string v)"
  using core_string_chars [of v "CHR ''+''"] validPreIdent_no_plus [of "Pre v"]
  by (auto simp: semver_string_core semver_wf_def split: if_splits)

lemma semver_string_bytes: "semver_wf v \<Longrightarrow> c \<in> set (semver_string v) \<Longrightarrow> 33 \<le> byte c \<and> byte c < 127"
proof -
  assume wf: "semver_wf v" and c: "c \<in> set (semver_string v)"
  have "is_digit c \<or> c = CHR ''.'' \<or> c = CHR ''-'' \<or> preChar c"
    using c core_string_chars [OF wf] validPreIdent_chars [of "Pre v" c] wf
    by (auto simp: semver_string_core semver_wf_def split: if_splits)
  then show ?thesis
    using preChar_byte [of c] by (auto simp: is_digit_def byte_def)
qed

lemma semver_string_nonempty [simp]: "semver_string v \<noteq> []"
  by (simp add: semver_string_def)

lemma parseNumericIdent_canonical:
  assumes "parseNumericIdent s = Some n"
  shows "0 \<le> n \<and> n < 2 ^ 63 \<and> s = itoa n"
proof -
  have n: "0 \<le> n" "n < 2 ^ 63" using assms by (auto simp: parseNumericIdent_Some)
  then have "parseNumericIdent (itoa n) = Some n" by simp
  then show ?thesis using n parseNumericIdent_inject [OF assms] by simp
qed

lemma parseCore_Some:
  assumes "parseCore s p = Some v" and "p = [] \<or> validPreIdent p"
  shows "semver_wf v \<and> s = core_string v \<and> Pre v = p"
proof -
  obtain a b c where sp: "split_on CHR ''.'' s = [a, b, c]"
    using assms(1) by (auto simp: parseCore_def split: list.splits)
  then obtain x y z where xyz: "parseNumericIdent a = Some x" "parseNumericIdent b = Some y"
      "parseNumericIdent c = Some z" and v: "v = Semver x y z p"
    using assms(1) by (auto simp: parseCore_def split: option.splits)
  have "s = join_with CHR ''.'' [a, b, c]" using sp join_split [of "CHR ''.''" s] by simp
  then show ?thesis
    using assms(2) v xyz [THEN parseNumericIdent_canonical]
    by (simp add: semver_wf_def core_string_def)
qed

lemma takePre_Some:
  assumes "takePre t = Some (core, p)"
  shows "(p = [] \<or> validPreIdent p) \<and> t = core @ (if p \<noteq> [] then ''-'' @ p else [])"
  using assms by (auto simp: takePre_def cut_at_Some split: option.splits if_splits)

lemma dropBuild_Some:
  assumes "dropBuild s = Some t"
  shows "s = t \<or> (\<exists>b. validPreIdent b \<and> s = t @ ''+'' @ b)"
  using assms by (auto simp: dropBuild_def cut_at_Some split: option.splits if_splits)

lemma parse_semver_sound:
  assumes "ParseSemver s = Some v"
  shows "semver_wf v \<and> (s = semver_string v \<or> (\<exists>b. validPreIdent b \<and> s = semver_string v @ ''+'' @ b))"
proof -
  obtain t core p where tp: "dropBuild s = Some t" "takePre t = Some (core, p)" "parseCore core p = Some v"
    using assms by (auto simp: ParseSemver_def split: if_splits option.splits)
  have p: "p = [] \<or> validPreIdent p" and t: "t = core @ (if p \<noteq> [] then ''-'' @ p else [])"
    using takePre_Some [OF tp(2)] by auto
  have v: "semver_wf v" "core = core_string v" "Pre v = p"
    using parseCore_Some [OF tp(3) p] by auto
  then have "t = semver_string v" using t by (simp add: semver_string_core)
  then show ?thesis using dropBuild_Some [OF tp(1)] v by blast
qed

lemma parse_semver_complete:
  assumes wf: "semver_wf v"
    and s: "s = semver_string v \<or> (\<exists>b. validPreIdent b \<and> s = semver_string v @ ''+'' @ b)"
  shows "ParseSemver s = Some v"
proof -
  have "33 \<le> byte c \<and> byte c < 127" if "c \<in> set s" for c
  proof -
    have "c \<in> set (semver_string v) \<or> c = CHR ''+'' \<or> (\<exists>b. validPreIdent b \<and> c \<in> set b)"
      using s that by auto
    then have "c \<in> set (semver_string v) \<or> c = CHR ''+'' \<or> preChar c \<or> c = CHR ''.''"
      using validPreIdent_chars by blast
    then show ?thesis
      using semver_string_bytes [OF wf] preChar_byte [of c] by (auto simp: byte_def)
  qed
  then have trim: "trim_space s = s" by (intro trim_space_ident) blast
  have "dropBuild s = Some (semver_string v)"
  proof (cases "s = semver_string v")
    case True
    then have "cut_at CHR ''+'' s = None" using semver_string_no_plus [OF wf] by (simp add: cut_at_None)
    then show ?thesis using True by (simp add: dropBuild_def)
  next
    case False
    then obtain b where b: "validPreIdent b" "s = semver_string v @ CHR ''+'' # b" using s by auto
    then have "cut_at CHR ''+'' s = Some (semver_string v, b)"
      using semver_string_no_plus [OF wf] by (simp add: cut_at_Some)
    then show ?thesis using b validPreIdent_nonempty by (simp add: dropBuild_def)
  qed
  moreover have "s \<noteq> []" using s semver_string_nonempty [of v, symmetric] by auto
  ultimately show ?thesis
    using trim takePre_string [OF wf] parseCore_core [OF wf] by (simp add: ParseSemver_def)
qed

lemma parse_semver_iff:
  "ParseSemver s = Some v \<longleftrightarrow> semver_wf v \<and>
     (s = semver_string v \<or> (\<exists>b. validPreIdent b \<and> s = semver_string v @ ''+'' @ b))"
  using parse_semver_sound parse_semver_complete by metis

lemma IsSemver_string: "semver_wf v \<Longrightarrow> IsSemver (semver_string v)"
  by (simp add: IsSemver_def parse_semver_complete)

section \<open>Properties\<close>

text \<open>C1: the parser accepts exactly the canonical spellings. A string parses to a version iff it
  is the printed form of that version, or that form followed by a non-empty well-formed build
  part; in particular printing and parsing round trip, and every accepted number fits int64.\<close>
theorem parse_semver_exact:
  "ParseSemver s = Some v \<longleftrightarrow> semver_wf v \<and>
     (s = semver_string v \<or> (\<exists>b. validPreIdent b \<and> s = semver_string v @ ''+'' @ b))"
  by (rule parse_semver_iff)

text \<open>C2: the comparison is a total order on versions: its three answers are consistent under
  swapping the arguments, 0 is equality, it is transitive, and a prerelease is below the
  release with the same numbers.\<close>
theorem compare_semver_total_order:
  "CompareSemver a b \<in> {-1, 0, 1}
   \<and> CompareSemver b a = - CompareSemver a b
   \<and> (CompareSemver a b = 0 \<longleftrightarrow> a = b)
   \<and> (CompareSemver a b < 0 \<longrightarrow> CompareSemver b c < 0 \<longrightarrow> CompareSemver a c < 0)
   \<and> CompareSemver (Semver x y z (d # p)) (Semver x y z []) = -1"
proof -
  have "compareIdent s t \<in> {-1, 0, 1}" for s t
    by (simp add: compareIdent_def split: option.splits)
  then have "lex_cmp compareIdent xs ys \<in> {-1, 0, 1}" for xs ys
    by (induction compareIdent xs ys rule: lex_cmp.induct) auto
  then have range: "CompareSemver a b \<in> {-1, 0, 1}"
    unfolding CompareSemver_def comparePre_def by (simp del: insert_iff) simp
  have "CompareSemver (Semver x y z (d # p)) (Semver x y z []) = -1"
    by (simp add: CompareSemver_def)
  then show ?thesis
    using range semver_order.antisym [of b a] semver_order.zero [of a b] semver_order.trans [of a b c]
    by blast
qed

lemma compare_semver_total_order_witness:
  "CompareSemver (Semver 1 2 3 ''rc.2'') (Semver 1 2 3 ''rc.10'') < 0 \<and>
   CompareSemver (Semver 1 2 3 ''rc.2'') (Semver 1 2 3 []) < 0"
proof -
  have ab: "CompareSemver (Semver 1 2 3 ''rc.2'') (Semver 1 2 3 ''rc.10'') < 0" by code_simp
  have bc: "CompareSemver (Semver 1 2 3 ''rc.10'') (Semver 1 2 3 []) < 0" by code_simp
  show ?thesis using ab compare_semver_total_order [of "Semver 1 2 3 ''rc.2''" "Semver 1 2 3 ''rc.10''" "Semver 1 2 3 []"] bc by blast
qed

end
