(* ===== verification/Payload.thy ===== *)
theory Payload
  imports Float64 Envelope Semver
begin

text \<open>
  The payloads of \<open>src/uni_protocol\<close> and the registry that dispatches them: \<open>hello.go\<close>,
  \<open>upgrade.go\<close>, \<open>metrics.go\<close>, \<open>heartbeat.go\<close>, \<open>registry.go\<close>. The validators only
  compare floats, which is exact. A pointer field is an option. Validation returns the first error, as the code does.
\<close>

definition payloadErr :: "string \<Rightarrow> Sentinel \<Rightarrow> DecodeError" where
  "payloadErr f s = decodeErr StagePayload f s"

section \<open>Upgrade payloads\<close>

record UpgradeDirective =
  ud_request_id :: string
  ud_target :: string
  ud_sha256 :: string
  ud_size :: int

definition IsSHA256Hex :: "string \<Rightarrow> bool" where
  "IsSHA256Hex s \<longleftrightarrow> length s = 64 \<and> list_all (\<lambda>c. is_digit c \<or> 97 \<le> byte c \<and> byte c \<le> 102) s"

definition directive_validate :: "UpgradeDirective \<Rightarrow> DecodeError option" where
  "directive_validate d =
     and_then (reject_if (\<not> isDecimalID (ud_request_id d)) (payloadErr ''request_id'' ErrMissingField))
    (and_then (reject_if (\<not> IsSemver (ud_target d)) (payloadErr ''target_version'' ErrInvalidPayload))
    (and_then (reject_if (\<not> IsSHA256Hex (ud_sha256 d)) (payloadErr ''sha256'' ErrInvalidPayload))
       (reject_if (ud_size d \<le> 0) (payloadErr ''size_bytes'' ErrInvalidPayload))))"

definition upgradeStates :: "string list" where
  "upgradeStates =
     [''downloading'', ''verifying'', ''installing'', ''restarting'', ''failed'', ''rolled_back'']"

definition IsUpgradeState :: "string \<Rightarrow> bool" where
  "IsUpgradeState s = list_ex (\<lambda>v. v = s) upgradeStates"

definition upgradeReasonCodes :: "string list" where
  "upgradeReasonCodes =
     [''download_failed'', ''checksum_mismatch'', ''smoke_test_failed'', ''no_write_permission'',
      ''replace_failed'', ''exec_failed'', ''not_connected_after_upgrade'', ''platform_unsupported'',
      ''artifact_missing'']"

definition IsUpgradeReasonCode :: "string \<Rightarrow> bool" where
  "IsUpgradeReasonCode s = list_ex (\<lambda>v. v = s) upgradeReasonCodes"

record UpgradeStatus =
  us_request_id :: string
  us_state :: string
  us_target :: string
  us_from :: string
  us_progress :: "int option"
  us_reason_code :: string
  us_reason_detail :: string

definition status_validate :: "UpgradeStatus \<Rightarrow> DecodeError option" where
  "status_validate s =
     and_then (reject_if (\<not> isDecimalID (us_request_id s)) (payloadErr ''request_id'' ErrMissingField))
    (and_then (reject_if (\<not> IsUpgradeState (us_state s)) (payloadErr ''state'' ErrInvalidPayload))
    (and_then (reject_if (\<not> IsSemver (us_target s)) (payloadErr ''target_version'' ErrInvalidPayload))
    (and_then (reject_if (us_from s \<noteq> [] \<and> \<not> IsSemver (us_from s)) (payloadErr ''from_version'' ErrInvalidPayload))
    (and_then
       (case us_progress s of
          None \<Rightarrow> None
        | Some p \<Rightarrow>
            if us_state s \<noteq> ''downloading'' then Some (payloadErr ''progress'' ErrInvalidPayload)
            else if p < 0 \<or> p > 100 then Some (payloadErr ''progress'' ErrInvalidPayload)
            else None)
    (and_then
       (reject_if (us_reason_code s \<noteq> [] \<and> \<not> IsUpgradeReasonCode (us_reason_code s))
          (payloadErr ''reason_code'' ErrInvalidPayload))
       (if us_state s = ''failed'' \<or> us_state s = ''rolled_back''
        then reject_if (us_reason_code s = []) (payloadErr ''reason_code'' ErrMissingField)
        else reject_if (us_reason_code s \<noteq> []) (payloadErr ''reason_code'' ErrInvalidPayload)))))))"

definition NormalizeReasonDetail :: "string \<Rightarrow> string" where
  "NormalizeReasonDetail s0 =
     (let s = trim_space s0 in if length s \<le> 255 then s else take 255 s)"

section \<open>Handshake payloads\<close>

record Hello =
  h_instance_id :: string
  h_hostname :: string
  h_os :: string
  h_arch :: string
  h_agent_version :: string
  h_kernel :: string
  h_enroll_token :: string
  h_agent_token :: string
  h_platform :: string
  h_platform_ver :: string
  h_cpu_model :: string
  h_cpu_cores :: int
  h_mem_total_mb :: F64
  h_boot_time :: int
  h_upgrade_supported :: bool

datatype CredentialKind = CredentialNone | CredentialEnroll | CredentialAgent

definition Credential :: "Hello \<Rightarrow> (DecodeError, CredentialKind) result" where
  "Credential h =
     (let hasEnroll = h_enroll_token h \<noteq> []; hasAgent = h_agent_token h \<noteq> [] in
      if \<not> hasEnroll \<and> \<not> hasAgent then Inl (payloadErr ''enroll_token,agent_token'' ErrMissingField)
      else if hasEnroll \<and> hasAgent then Inl (payloadErr ''enroll_token,agent_token'' ErrInvalidPayload)
      else if hasEnroll then Inr CredentialEnroll
      else Inr CredentialAgent)"

definition hello_validate :: "Hello \<Rightarrow> DecodeError option" where
  "hello_validate h =
     and_then
       (first_err (\<lambda>(f, v). reject_if (v = []) (payloadErr f ErrMissingField))
          [(''instance_id'', h_instance_id h), (''hostname'', h_hostname h), (''os'', h_os h),
           (''arch'', h_arch h), (''agent_version'', h_agent_version h)])
    (and_then (case Credential h of Inl e \<Rightarrow> Some e | Inr _ \<Rightarrow> None)
    (and_then (reject_if (h_cpu_cores h < 0) (payloadErr ''cpu_cores'' ErrInvalidPayload))
    (and_then (reject_if (f_lt (h_mem_total_mb h) (Fin 0)) (payloadErr ''mem_total_mb'' ErrInvalidPayload))
       (reject_if (h_boot_time h < 0) (payloadErr ''boot_time'' ErrInvalidPayload)))))"

record HelloAck =
  a_accepted :: bool
  a_device_id :: string
  a_agent_token :: string
  a_report_interval :: int
  a_reject_reason :: string
  a_server_time :: int
  a_v :: int
  a_upgrade :: "UpgradeDirective option"

definition ack_validate :: "HelloAck \<Rightarrow> DecodeError option" where
  "ack_validate a =
     (if a_report_interval a \<noteq> 0 \<and> a_report_interval a < 2
      then Some (payloadErr ''report_interval'' ErrInvalidPayload)
      else if a_accepted a then
        (if a_device_id a = [] then Some (payloadErr ''device_id'' ErrMissingField)
         else case a_upgrade a of Some d \<Rightarrow> directive_validate d | None \<Rightarrow> None)
      else if a_upgrade a \<noteq> None then Some (payloadErr ''upgrade'' ErrInvalidPayload)
      else if a_reject_reason a = [] then Some (payloadErr ''reject_reason'' ErrMissingField)
      else None)"

section \<open>Metrics\<close>

record DiskMetric =
  dm_mountpoint :: string
  dm_fs_type :: string
  dm_used_percent :: F64
  dm_used_gb :: F64
  dm_total_gb :: F64
  dm_inodes_used_percent :: F64

record DiskIOMetric =
  di_name :: string
  di_read_bytes :: F64
  di_write_bytes :: F64
  di_read_ops :: F64
  di_write_ops :: F64
  di_io_time_percent :: F64

record NICMetric =
  nic_name :: string
  nic_rx_bytes :: F64
  nic_tx_bytes :: F64
  nic_rx_packets :: F64
  nic_tx_packets :: F64
  nic_rx_errors :: F64
  nic_tx_errors :: F64
  nic_rx_dropped :: F64

record SensorMetric =
  sn_name :: string
  sn_temp :: "F64 option"

record AgentMetric =
  ag_collect_ms :: F64
  ag_success :: int
  ag_error :: int
  ag_last_error :: string
  ag_reconnect :: int
  ag_mem_mb :: "F64 option"
  ag_backlog :: "int option"
  ag_latency_ms :: "F64 option"
  ag_drop :: "int option"
  ag_uptime :: "int option"

record MetricsSample =
  ms_t :: int
  ms_cpu :: F64
  ms_per_core :: "F64 list"
  ms_iowait :: "F64 option"
  ms_load1 :: F64
  ms_load5 :: F64
  ms_load15 :: F64
  ms_mem_pct :: F64
  ms_mem_used :: F64
  ms_mem_avail :: F64
  ms_swap_pct :: "F64 option"
  ms_swap_used :: "F64 option"
  ms_disks :: "DiskMetric list"
  ms_disk_io :: "DiskIOMetric list"
  ms_nics :: "NICMetric list"
  ms_tcp_total :: int
  ms_tcp_established :: int
  ms_tcp_listen :: int
  ms_tcp_time_wait :: int
  ms_tcp_close_wait :: int
  ms_udp_total :: int
  ms_proc_count :: int
  ms_sensors :: "SensorMetric list"
  ms_uptime :: int
  ms_agent :: AgentMetric

definition checkFinite :: "string \<Rightarrow> F64 \<Rightarrow> DecodeError option" where
  "checkFinite f v = reject_if (\<not> is_finite v) (payloadErr f ErrUnrepresentable)"

definition checkPercent :: "string \<Rightarrow> F64 \<Rightarrow> DecodeError option" where
  "checkPercent f v =
     and_then (checkFinite f v)
       (reject_if (f_lt v (Fin 0) \<or> f_lt (Fin 100) v) (payloadErr f ErrInvalidPayload))"

definition checkPercentPtr :: "string \<Rightarrow> F64 option \<Rightarrow> DecodeError option" where
  "checkPercentPtr f v = (case v of None \<Rightarrow> None | Some x \<Rightarrow> checkPercent f x)"

definition checkNonNeg :: "string \<Rightarrow> F64 \<Rightarrow> DecodeError option" where
  "checkNonNeg f v =
     and_then (checkFinite f v) (reject_if (f_lt v (Fin 0)) (payloadErr f ErrInvalidPayload))"

definition checkNonNegPtr :: "string \<Rightarrow> F64 option \<Rightarrow> DecodeError option" where
  "checkNonNegPtr f v = (case v of None \<Rightarrow> None | Some x \<Rightarrow> checkNonNeg f x)"

definition checkNonNegIntPtr :: "string \<Rightarrow> int option \<Rightarrow> DecodeError option" where
  "checkNonNegIntPtr f v =
     (case v of None \<Rightarrow> None | Some x \<Rightarrow> reject_if (x < 0) (payloadErr f ErrInvalidPayload))"

definition checkDisk :: "DiskMetric \<Rightarrow> DecodeError option" where
  "checkDisk d =
     and_then (reject_if (dm_mountpoint d = []) (payloadErr ''disks.mountpoint'' ErrMissingField))
    (and_then (checkPercent ''disks.used_percent'' (dm_used_percent d))
    (and_then (checkNonNeg ''disks.used_gb'' (dm_used_gb d))
    (and_then (checkNonNeg ''disks.total_gb'' (dm_total_gb d))
    (and_then (reject_if (f_lt (dm_total_gb d) (dm_used_gb d)) (payloadErr ''disks.used_gb'' ErrInvalidPayload))
       (checkPercent ''disks.inodes_used_percent'' (dm_inodes_used_percent d))))))"

definition checkDiskIO :: "DiskIOMetric \<Rightarrow> DecodeError option" where
  "checkDiskIO d =
     and_then (reject_if (di_name d = []) (payloadErr ''disk_io.name'' ErrMissingField))
    (and_then
       (first_err (\<lambda>(f, v). checkNonNeg f v)
          [(''disk_io.read_bytes_per_sec'', di_read_bytes d), (''disk_io.write_bytes_per_sec'', di_write_bytes d),
           (''disk_io.read_ops_per_sec'', di_read_ops d), (''disk_io.write_ops_per_sec'', di_write_ops d)])
       (checkPercent ''disk_io.io_time_percent'' (di_io_time_percent d)))"

definition checkNIC :: "NICMetric \<Rightarrow> DecodeError option" where
  "checkNIC n =
     and_then (reject_if (nic_name n = []) (payloadErr ''nics.name'' ErrMissingField))
       (first_err (\<lambda>(f, v). checkNonNeg f v)
          [(''nics.rx_bytes_per_sec'', nic_rx_bytes n), (''nics.tx_bytes_per_sec'', nic_tx_bytes n),
           (''nics.rx_packets_per_sec'', nic_rx_packets n), (''nics.tx_packets_per_sec'', nic_tx_packets n),
           (''nics.rx_errors_per_sec'', nic_rx_errors n), (''nics.tx_errors_per_sec'', nic_tx_errors n),
           (''nics.rx_dropped_per_sec'', nic_rx_dropped n)])"

definition checkCounts :: "MetricsSample \<Rightarrow> DecodeError option" where
  "checkCounts s =
     first_err (\<lambda>(f, v). reject_if (v < (0::int)) (payloadErr f ErrInvalidPayload))
       [(''tcp_total'', ms_tcp_total s), (''tcp_established'', ms_tcp_established s),
        (''tcp_listen'', ms_tcp_listen s), (''tcp_time_wait'', ms_tcp_time_wait s),
        (''tcp_close_wait'', ms_tcp_close_wait s), (''udp_total'', ms_udp_total s),
        (''proc_count'', ms_proc_count s)]"

definition checkSensor :: "SensorMetric \<Rightarrow> DecodeError option" where
  "checkSensor sm =
     and_then (reject_if (sn_name sm = []) (payloadErr ''sensors.name'' ErrMissingField))
       (case sn_temp sm of None \<Rightarrow> None | Some t \<Rightarrow> checkFinite ''sensors.temperature_c'' t)"

definition checkAgent :: "AgentMetric \<Rightarrow> DecodeError option" where
  "checkAgent a =
     and_then (checkNonNeg ''agent.collect_duration_ms'' (ag_collect_ms a))
    (and_then (reject_if (ag_success a < 0) (payloadErr ''agent.report_success_count'' ErrInvalidPayload))
    (and_then (reject_if (ag_error a < 0) (payloadErr ''agent.report_error_count'' ErrInvalidPayload))
    (and_then (reject_if (ag_reconnect a < 0) (payloadErr ''agent.ws_reconnect_count'' ErrInvalidPayload))
    (and_then (checkNonNegPtr ''agent.mem_resident_mb'' (ag_mem_mb a))
    (and_then (checkNonNegIntPtr ''agent.pending_backlog'' (ag_backlog a))
    (and_then (checkNonNegPtr ''agent.last_report_latency_ms'' (ag_latency_ms a))
    (and_then (checkNonNegIntPtr ''agent.report_drop_count'' (ag_drop a))
       (checkNonNegIntPtr ''agent.agent_uptime_sec'' (ag_uptime a)))))))))"

definition metrics_validate :: "MetricsSample \<Rightarrow> DecodeError option" where
  "metrics_validate s =
     and_then (reject_if (ms_t s \<le> 0) (payloadErr ''t'' ErrInvalidTimestamp))
    (and_then (checkPercent ''cpu_used_percent'' (ms_cpu s))
    (and_then (first_err (checkPercent ''cpu_per_core'') (ms_per_core s))
    (and_then (checkPercentPtr ''cpu_iowait'' (ms_iowait s))
    (and_then
       (first_err (\<lambda>(f, v). checkNonNeg f v)
          [(''load1'', ms_load1 s), (''load5'', ms_load5 s), (''load15'', ms_load15 s)])
    (and_then (checkPercent ''mem_used_percent'' (ms_mem_pct s))
    (and_then (checkNonNeg ''mem_used_mb'' (ms_mem_used s))
    (and_then (checkNonNeg ''mem_available_mb'' (ms_mem_avail s))
    (and_then (checkPercentPtr ''swap_used_percent'' (ms_swap_pct s))
    (and_then (checkNonNegPtr ''swap_used_mb'' (ms_swap_used s))
    (and_then (first_err checkDisk (ms_disks s))
    (and_then (first_err checkDiskIO (ms_disk_io s))
    (and_then (first_err checkNIC (ms_nics s))
    (and_then (checkCounts s)
    (and_then (first_err checkSensor (ms_sensors s))
    (and_then (reject_if (ms_uptime s < 0) (payloadErr ''uptime_sec'' ErrInvalidPayload))
       (checkAgent (ms_agent s)))))))))))))))))"

section \<open>Registry\<close>

datatype Direction = DirUnknown | DirAgentToCore | DirCoreToAgent
datatype Kind = KindEmpty | KindPayload

text \<open>The payload a type's factory creates, and the decoded value of it.\<close>
datatype Payload =
    PHello Hello | PHelloAck HelloAck | PHeartbeat | PMetrics MetricsSample
  | PDirective UpgradeDirective | PStatus UpgradeStatus

datatype payload_kind = KHello | KHelloAck | KHeartbeat | KMetrics | KDirective | KStatus

fun kind_of :: "Payload \<Rightarrow> payload_kind" where
  "kind_of (PHello _) = KHello"
| "kind_of (PHelloAck _) = KHelloAck"
| "kind_of PHeartbeat = KHeartbeat"
| "kind_of (PMetrics _) = KMetrics"
| "kind_of (PDirective _) = KDirective"
| "kind_of (PStatus _) = KStatus"

record TypeSpec =
  ts_type :: string
  ts_direction :: Direction
  ts_kind :: Kind
  ts_new :: Payload

definition zero_directive :: UpgradeDirective where
  "zero_directive = \<lparr>ud_request_id = [], ud_target = [], ud_sha256 = [], ud_size = 0\<rparr>"

definition zero_status :: UpgradeStatus where
  "zero_status = \<lparr>us_request_id = [], us_state = [], us_target = [], us_from = [], us_progress = None,
     us_reason_code = [], us_reason_detail = []\<rparr>"

definition zero_hello :: Hello where
  "zero_hello = \<lparr>h_instance_id = [], h_hostname = [], h_os = [], h_arch = [], h_agent_version = [],
     h_kernel = [], h_enroll_token = [], h_agent_token = [], h_platform = [], h_platform_ver = [],
     h_cpu_model = [], h_cpu_cores = 0, h_mem_total_mb = Fin 0, h_boot_time = 0, h_upgrade_supported = False\<rparr>"

definition zero_ack :: HelloAck where
  "zero_ack = \<lparr>a_accepted = False, a_device_id = [], a_agent_token = [], a_report_interval = 0,
     a_reject_reason = [], a_server_time = 0, a_v = 0, a_upgrade = None\<rparr>"

definition zero_agent :: AgentMetric where
  "zero_agent = \<lparr>ag_collect_ms = Fin 0, ag_success = 0, ag_error = 0, ag_last_error = [], ag_reconnect = 0,
     ag_mem_mb = None, ag_backlog = None, ag_latency_ms = None, ag_drop = None, ag_uptime = None\<rparr>"

definition zero_sample :: MetricsSample where
  "zero_sample = \<lparr>ms_t = 0, ms_cpu = Fin 0, ms_per_core = [], ms_iowait = None, ms_load1 = Fin 0,
     ms_load5 = Fin 0, ms_load15 = Fin 0, ms_mem_pct = Fin 0, ms_mem_used = Fin 0, ms_mem_avail = Fin 0,
     ms_swap_pct = None, ms_swap_used = None, ms_disks = [], ms_disk_io = [], ms_nics = [],
     ms_tcp_total = 0, ms_tcp_established = 0, ms_tcp_listen = 0, ms_tcp_time_wait = 0,
     ms_tcp_close_wait = 0, ms_udp_total = 0, ms_proc_count = 0, ms_sensors = [], ms_uptime = 0,
     ms_agent = zero_agent\<rparr>"

definition spec :: "string \<Rightarrow> Direction \<Rightarrow> Kind \<Rightarrow> Payload \<Rightarrow> TypeSpec" where
  "spec t d k n = \<lparr>ts_type = t, ts_direction = d, ts_kind = k, ts_new = n\<rparr>"

definition typeRegistry :: "TypeSpec list" where
  "typeRegistry =
     [spec ''agent.hello'' DirAgentToCore KindPayload (PHello zero_hello),
      spec ''core.hello_ack'' DirCoreToAgent KindPayload (PHelloAck zero_ack),
      spec ''agent.heartbeat'' DirAgentToCore KindEmpty PHeartbeat,
      spec ''agent.report.metrics'' DirAgentToCore KindPayload (PMetrics zero_sample),
      spec ''core.agent.upgrade'' DirCoreToAgent KindPayload (PDirective zero_directive),
      spec ''agent.upgrade.status'' DirAgentToCore KindPayload (PStatus zero_status)]"

definition AllTypes :: "string list" where
  "AllTypes = map ts_type typeRegistry"

definition LookupType :: "string \<Rightarrow> TypeSpec option" where
  "LookupType t = find (\<lambda>sp. ts_type sp = t) typeRegistry"

definition IsKnownType :: "string \<Rightarrow> bool" where
  "IsKnownType t \<longleftrightarrow> LookupType t \<noteq> None"

definition DirectionOf :: "string \<Rightarrow> Direction" where
  "DirectionOf t = (case LookupType t of None \<Rightarrow> DirUnknown | Some sp \<Rightarrow> ts_direction sp)"

text \<open>The dynamic call of a payload's \<open>Validate\<close>; \<open>Heartbeat\<close> has none.\<close>
fun payload_validate :: "Payload \<Rightarrow> DecodeError option" where
  "payload_validate (PHello h) = hello_validate h"
| "payload_validate (PHelloAck a) = ack_validate a"
| "payload_validate PHeartbeat = None"
| "payload_validate (PMetrics s) = metrics_validate s"
| "payload_validate (PDirective d) = directive_validate d"
| "payload_validate (PStatus s) = status_validate s"

type_synonym payload_codec = "string \<Rightarrow> Payload \<Rightarrow> string + Payload"

definition decodeSpecPayload :: "payload_codec \<Rightarrow> TypeSpec \<Rightarrow> Message \<Rightarrow> (DecodeError, Payload) result" where
  "decodeSpecPayload dec sp m =
     (let out = ts_new sp in
      if ts_kind sp = KindEmpty then Inr out
      else case DecodeData dec (msg_data m) out of
             Inl e \<Rightarrow> Inl e
           | Inr v \<Rightarrow> (case payload_validate v of Some e \<Rightarrow> Inl e | None \<Rightarrow> Inr v))"

definition DecodeTyped :: "payload_codec \<Rightarrow> Message \<Rightarrow> (DecodeError, Payload) result" where
  "DecodeTyped dec m =
     (case LookupType (msg_type m) of
        None \<Rightarrow> Inl (decodeErr StageType ''type'' ErrUnknownType)
      | Some sp \<Rightarrow> decodeSpecPayload dec sp m)"

definition DecodeTypedFor :: "payload_codec \<Rightarrow> Message \<Rightarrow> Direction \<Rightarrow> (DecodeError, Payload) result" where
  "DecodeTypedFor dec m allowed =
     (case LookupType (msg_type m) of
        None \<Rightarrow> Inl (decodeErr StageType ''type'' ErrUnknownType)
      | Some sp \<Rightarrow>
          if ts_direction sp \<noteq> allowed then Inl (decodeErr StageType ''type'' ErrWrongDirection)
          else decodeSpecPayload dec sp m)"

section \<open>Lemmas\<close>

named_theorems check_simps \<open>what a passing field check means\<close>

definition nonneg_f :: "F64 \<Rightarrow> bool" where
  "nonneg_f v = (case v of Fin q \<Rightarrow> 0 \<le> q | _ \<Rightarrow> False)"

definition percent_f :: "F64 \<Rightarrow> bool" where
  "percent_f v = (case v of Fin q \<Rightarrow> 0 \<le> q \<and> q \<le> 100 | _ \<Rightarrow> False)"

lemma percent_nonneg: "percent_f v \<Longrightarrow> nonneg_f v"
  by (simp add: percent_f_def nonneg_f_def split: F64.splits)

lemma nonneg_finite: "nonneg_f v \<Longrightarrow> is_finite v"
  by (simp add: nonneg_f_def split: F64.splits)

lemma checkFinite_None [check_simps]: "checkFinite f v = None \<longleftrightarrow> is_finite v"
  by (simp add: checkFinite_def)

lemma checkPercent_None [check_simps]: "checkPercent f v = None \<longleftrightarrow> percent_f v"
  by (cases v) (auto simp: checkPercent_def checkFinite_def percent_f_def)

lemma checkNonNeg_None [check_simps]: "checkNonNeg f v = None \<longleftrightarrow> nonneg_f v"
  by (cases v) (auto simp: checkNonNeg_def checkFinite_def nonneg_f_def)

lemma checkPercentPtr_None [check_simps]: "checkPercentPtr f v = None \<longleftrightarrow> pred_option percent_f v"
  by (cases v) (simp_all add: checkPercentPtr_def check_simps)

lemma checkNonNegPtr_None [check_simps]: "checkNonNegPtr f v = None \<longleftrightarrow> pred_option nonneg_f v"
  by (cases v) (simp_all add: checkNonNegPtr_def check_simps)

lemma checkNonNegIntPtr_None [check_simps]: "checkNonNegIntPtr f v = None \<longleftrightarrow> pred_option (\<lambda>i. 0 \<le> i) v"
  by (cases v) (auto simp: checkNonNegIntPtr_def)

lemma LookupType_cases:
  "LookupType t =
     (if t = ''agent.hello'' then Some (spec t DirAgentToCore KindPayload (PHello zero_hello))
      else if t = ''core.hello_ack'' then Some (spec t DirCoreToAgent KindPayload (PHelloAck zero_ack))
      else if t = ''agent.heartbeat'' then Some (spec t DirAgentToCore KindEmpty PHeartbeat)
      else if t = ''agent.report.metrics'' then Some (spec t DirAgentToCore KindPayload (PMetrics zero_sample))
      else if t = ''core.agent.upgrade'' then Some (spec t DirCoreToAgent KindPayload (PDirective zero_directive))
      else if t = ''agent.upgrade.status'' then Some (spec t DirAgentToCore KindPayload (PStatus zero_status))
      else None)"
  by (simp add: LookupType_def typeRegistry_def spec_def)

text \<open>The documented behaviour of \<open>json.Unmarshal\<close> into a typed target: the type of the target stays.\<close>
definition codec_typed :: "payload_codec \<Rightarrow> bool" where
  "codec_typed dec \<longleftrightarrow> (\<forall>d out v. dec d out = Inr v \<longrightarrow> kind_of v = kind_of out)"

lemma decodeSpecPayload_Inr:
  assumes "codec_typed dec" "decodeSpecPayload dec sp m = Inr v" "ts_kind sp = KindEmpty \<longrightarrow> payload_validate (ts_new sp) = None"
  shows "kind_of v = kind_of (ts_new sp) \<and> payload_validate v = None"
  using assms
  by (auto simp: decodeSpecPayload_def DecodeData_def codec_typed_def Let_def
      split: if_splits sum.splits option.splits)

fun opt_list :: "'a option \<Rightarrow> 'a list" where
  "opt_list None = []"
| "opt_list (Some x) = [x]"

lemma set_opt_list [simp]: "set (opt_list v) = set_option v"
  by (cases v) auto

text \<open>Every float field of a sample, in the order of the struct.\<close>
definition sample_floats :: "MetricsSample \<Rightarrow> F64 list" where
  "sample_floats s =
     ms_cpu s # ms_per_core s
     @ concat (map opt_list [ms_iowait s, ms_swap_pct s, ms_swap_used s, ag_mem_mb (ms_agent s), ag_latency_ms (ms_agent s)])
     @ [ms_load1 s, ms_load5 s, ms_load15 s, ms_mem_pct s, ms_mem_used s, ms_mem_avail s, ag_collect_ms (ms_agent s)]
     @ concat (map (\<lambda>d. [dm_used_percent d, dm_used_gb d, dm_total_gb d, dm_inodes_used_percent d]) (ms_disks s))
     @ concat (map (\<lambda>d. [di_read_bytes d, di_write_bytes d, di_read_ops d, di_write_ops d, di_io_time_percent d]) (ms_disk_io s))
     @ concat (map (\<lambda>n. [nic_rx_bytes n, nic_tx_bytes n, nic_rx_packets n, nic_tx_packets n,
                          nic_rx_errors n, nic_tx_errors n, nic_rx_dropped n]) (ms_nics s))"

definition sample_percents :: "MetricsSample \<Rightarrow> F64 list" where
  "sample_percents s =
     ms_cpu s # ms_mem_pct s # ms_per_core s
     @ concat (map opt_list [ms_iowait s, ms_swap_pct s])
     @ concat (map (\<lambda>d. [dm_used_percent d, dm_inodes_used_percent d]) (ms_disks s))
     @ map di_io_time_percent (ms_disk_io s)"

lemma checkDisk_None [check_simps]:
  "checkDisk d = None \<longleftrightarrow> dm_mountpoint d \<noteq> [] \<and> percent_f (dm_used_percent d) \<and> nonneg_f (dm_used_gb d)
     \<and> nonneg_f (dm_total_gb d) \<and> \<not> f_lt (dm_total_gb d) (dm_used_gb d) \<and> percent_f (dm_inodes_used_percent d)"
  by (simp add: checkDisk_def check_simps)

lemma checkDiskIO_None [check_simps]:
  "checkDiskIO d = None \<longleftrightarrow> di_name d \<noteq> [] \<and> nonneg_f (di_read_bytes d) \<and> nonneg_f (di_write_bytes d)
     \<and> nonneg_f (di_read_ops d) \<and> nonneg_f (di_write_ops d) \<and> percent_f (di_io_time_percent d)"
  by (simp add: checkDiskIO_def check_simps)

lemma checkNIC_None [check_simps]:
  "checkNIC n = None \<longleftrightarrow> nic_name n \<noteq> [] \<and> nonneg_f (nic_rx_bytes n) \<and> nonneg_f (nic_tx_bytes n)
     \<and> nonneg_f (nic_rx_packets n) \<and> nonneg_f (nic_tx_packets n) \<and> nonneg_f (nic_rx_errors n)
     \<and> nonneg_f (nic_tx_errors n) \<and> nonneg_f (nic_rx_dropped n)"
  by (simp add: checkNIC_def check_simps)

lemma checkAgent_None [check_simps]:
  "checkAgent a = None \<longleftrightarrow> nonneg_f (ag_collect_ms a) \<and> 0 \<le> ag_success a \<and> 0 \<le> ag_error a \<and> 0 \<le> ag_reconnect a
     \<and> pred_option nonneg_f (ag_mem_mb a) \<and> pred_option (\<lambda>i. 0 \<le> i) (ag_backlog a)
     \<and> pred_option nonneg_f (ag_latency_ms a) \<and> pred_option (\<lambda>i. 0 \<le> i) (ag_drop a)
     \<and> pred_option (\<lambda>i. 0 \<le> i) (ag_uptime a)"
  by (simp add: checkAgent_def check_simps not_less)

lemma metrics_validate_None:
  "metrics_validate s = None \<longleftrightarrow>
     0 < ms_t s \<and> percent_f (ms_cpu s) \<and> (\<forall>v\<in>set (ms_per_core s). percent_f v) \<and> pred_option percent_f (ms_iowait s)
     \<and> nonneg_f (ms_load1 s) \<and> nonneg_f (ms_load5 s) \<and> nonneg_f (ms_load15 s)
     \<and> percent_f (ms_mem_pct s) \<and> nonneg_f (ms_mem_used s) \<and> nonneg_f (ms_mem_avail s)
     \<and> pred_option percent_f (ms_swap_pct s) \<and> pred_option nonneg_f (ms_swap_used s)
     \<and> (\<forall>d\<in>set (ms_disks s). checkDisk d = None) \<and> (\<forall>d\<in>set (ms_disk_io s). checkDiskIO d = None)
     \<and> (\<forall>n\<in>set (ms_nics s). checkNIC n = None) \<and> checkCounts s = None
     \<and> (\<forall>n\<in>set (ms_sensors s). checkSensor n = None) \<and> 0 \<le> ms_uptime s \<and> checkAgent (ms_agent s) = None"
  by (simp add: metrics_validate_def checkPercent_None checkNonNeg_None checkPercentPtr_None
      checkNonNegPtr_None not_le not_less)

lemma metrics_validate_floats:
  assumes "metrics_validate s = None"
  shows "\<forall>v\<in>set (sample_floats s). nonneg_f v" and "\<forall>v\<in>set (sample_percents s). percent_f v"
proof -
  note v = assms [unfolded metrics_validate_None checkDisk_None checkDiskIO_None checkNIC_None checkAgent_None]
  have w: "pred_option nonneg_f x" if "pred_option percent_f x" for x
    using that percent_nonneg by (cases x) auto
  show "\<forall>v\<in>set (sample_percents s). percent_f v"
    using v by (simp add: sample_percents_def pred_option_def ball_Un)
  show "\<forall>v\<in>set (sample_floats s). nonneg_f v"
    using v w [unfolded pred_option_def] percent_nonneg
    by (simp add: sample_floats_def pred_option_def ball_Un)
qed

section \<open>Properties\<close>

text \<open>No malformed payload gets past the decoder. Whatever \<open>DecodeTypedFor\<close> returns has the
  payload type the registry gives for the message type, the direction the caller allowed, and
  passes the payload's own validation; unknown types and wrong directions are told apart.\<close>
theorem decode_typed_for_safe:
  assumes "codec_typed dec"
  shows "(\<forall>v. DecodeTypedFor dec m dir = Inr v \<longrightarrow>
            (\<exists>sp. LookupType (msg_type m) = Some sp \<and> ts_direction sp = dir
                  \<and> kind_of v = kind_of (ts_new sp)) \<and> payload_validate v = None)
         \<and> (\<not> IsKnownType (msg_type m) \<longrightarrow>
              DecodeTypedFor dec m dir = Inl (decodeErr StageType ''type'' ErrUnknownType))
         \<and> (IsKnownType (msg_type m) \<and> DirectionOf (msg_type m) \<noteq> dir \<longrightarrow>
              DecodeTypedFor dec m dir = Inl (decodeErr StageType ''type'' ErrWrongDirection))"
proof (cases "LookupType (msg_type m)")
  case None
  then show ?thesis by (simp add: DecodeTypedFor_def IsKnownType_def)
next
  case (Some sp)
  have e: "ts_kind sp = KindEmpty \<longrightarrow> payload_validate (ts_new sp) = None"
    using Some by (auto simp: LookupType_cases spec_def split: if_splits)
  show ?thesis
    using Some decodeSpecPayload_Inr [OF assms _ e]
    by (auto simp: DecodeTypedFor_def IsKnownType_def DirectionOf_def)
qed

text \<open>A codec that ignores its input and returns the target unchanged is type preserving; a heartbeat
  decodes with it in the agent's direction and is refused in the other.\<close>
lemma decode_typed_for_safe_witness:
  "codec_typed (\<lambda>d out. Inr out)
   \<and> DecodeTypedFor (\<lambda>d out. Inr out)
        \<lparr>msg_v = 1, msg_id = ''1'', msg_type = ''agent.heartbeat'', msg_ts = 1, msg_data = []\<rparr> DirCoreToAgent
      = Inl (decodeErr StageType ''type'' ErrWrongDirection)"
proof -
  have c: "codec_typed (\<lambda>d out. Inr out)" by (simp add: codec_typed_def)
  show ?thesis
    using decode_typed_for_safe [OF c,
        of "\<lparr>msg_v = 1, msg_id = ''1'', msg_type = ''agent.heartbeat'', msg_ts = 1, msg_data = []\<rparr>" DirCoreToAgent] c
    by (simp add: IsKnownType_def DirectionOf_def LookupType_cases spec_def)
qed

text \<open>The registry is the single source of the message types: the names are legal and pairwise
  different, the prefix gives the direction, every listed name is found by the lookup with its own
  entry, and nothing else is known.\<close>
theorem registry_consistent:
  "distinct AllTypes
   \<and> list_all (\<lambda>sp. ValidTypeName (ts_type sp) \<and> LookupType (ts_type sp) = Some sp
        \<and> (take 6 (ts_type sp) = ''agent.'' \<longleftrightarrow> ts_direction sp = DirAgentToCore)
        \<and> (take 5 (ts_type sp) = ''core.'' \<longleftrightarrow> ts_direction sp = DirCoreToAgent)) typeRegistry
   \<and> (IsKnownType t \<longleftrightarrow> t \<in> set AllTypes)"
proof -
  have names: "AllTypes = [''agent.hello'', ''core.hello_ack'', ''agent.heartbeat'', ''agent.report.metrics'',
      ''core.agent.upgrade'', ''agent.upgrade.status'']"
    by (simp add: AllTypes_def typeRegistry_def spec_def)
  have "list_all ValidTypeName AllTypes" unfolding names by code_simp
  then have "list_all (\<lambda>sp. ValidTypeName (ts_type sp)) typeRegistry"
    by (simp add: AllTypes_def list_all_iff)
  moreover have "list_all (\<lambda>sp. LookupType (ts_type sp) = Some sp
        \<and> (take 6 (ts_type sp) = ''agent.'' \<longleftrightarrow> ts_direction sp = DirAgentToCore)
        \<and> (take 5 (ts_type sp) = ''core.'' \<longleftrightarrow> ts_direction sp = DirCoreToAgent)) typeRegistry"
    by (simp add: typeRegistry_def LookupType_cases spec_def)
  moreover have "IsKnownType t \<longleftrightarrow> t \<in> set AllTypes"
    unfolding names by (auto simp: IsKnownType_def LookupType_cases)
  ultimately show ?thesis by (simp add: names list_all_iff)
qed

text \<open>A sample that passes validation can be stored and re-encoded: every float field, those of the
  nested disks, devices, network cards and the agent included, is a finite non-negative number,
  every percentage is between 0 and 100, used disk space does not exceed the total, and
  temperatures are finite.\<close>
theorem metrics_validate_safe:
  assumes "metrics_validate s = None"
  shows "list_all (\<lambda>v. is_finite v \<and> nonneg_f v) (sample_floats s)
         \<and> list_all percent_f (sample_percents s)
         \<and> list_all (\<lambda>d. \<not> f_lt (dm_total_gb d) (dm_used_gb d)) (ms_disks s)
         \<and> list_all (\<lambda>sm. pred_option is_finite (sn_temp sm)) (ms_sensors s)"
proof -
  have "list_all (\<lambda>v. is_finite v \<and> nonneg_f v) (sample_floats s)"
    using metrics_validate_floats(1) [OF assms] nonneg_finite by (auto simp: list_all_iff)
  moreover have "pred_option is_finite (sn_temp sm)" if "checkSensor sm = None" for sm
    using that by (cases "sn_temp sm") (auto simp: checkSensor_def check_simps)
  ultimately show ?thesis
    using metrics_validate_floats(2) [OF assms] assms
    by (simp add: list_all_iff metrics_validate_None checkDisk_None)
qed

definition sample1 :: MetricsSample where
  "sample1 = zero_sample\<lparr>ms_t := 1, ms_cpu := Fin 50, ms_iowait := Some (Fin 1),
     ms_disks := [\<lparr>dm_mountpoint = ''/'', dm_fs_type = ''ext4'', dm_used_percent = Fin 10, dm_used_gb = Fin 1,
                   dm_total_gb = Fin 10, dm_inodes_used_percent = Fin 0\<rparr>]\<rparr>"

lemma metrics_validate_safe_witness:
  "metrics_validate sample1 = None \<and> list_all percent_f (sample_percents sample1)"
proof -
  have v: "metrics_validate sample1 = None"
    by (simp add: metrics_validate_None checkDisk_None checkCounts_def checkAgent_None sample1_def
        zero_sample_def zero_agent_def percent_f_def nonneg_f_def)
  show ?thesis using v metrics_validate_safe [OF v] by blast
qed

text \<open>An accepted status report never contradicts itself: a percentage appears only while
  downloading and lies in 0..100, and a reason code appears exactly in the two terminal states and
  is one of the listed codes.\<close>
theorem status_validate_exact:
  "status_validate s = None \<longleftrightarrow>
     isDecimalID (us_request_id s) \<and> us_state s \<in> set upgradeStates \<and> IsSemver (us_target s)
     \<and> (us_from s = [] \<or> IsSemver (us_from s))
     \<and> (\<forall>p. us_progress s = Some p \<longrightarrow> us_state s = ''downloading'' \<and> 0 \<le> p \<and> p \<le> 100)
     \<and> (if us_state s \<in> {''failed'', ''rolled_back''} then us_reason_code s \<in> set upgradeReasonCodes
        else us_reason_code s = [])"
proof -
  have st: "IsUpgradeState x \<longleftrightarrow> x \<in> set upgradeStates" for x
    by (auto simp: IsUpgradeState_def list_ex_iff)
  have rc: "IsUpgradeReasonCode x \<longleftrightarrow> x \<in> set upgradeReasonCodes" for x
    by (auto simp: IsUpgradeReasonCode_def list_ex_iff)
  have ne: "[] \<notin> set upgradeReasonCodes"
    by (simp add: upgradeReasonCodes_def)
  show ?thesis
    using ne by (cases "us_progress s") (auto simp: status_validate_def st rc)
qed

lemma status_validate_exact_witness:
  "status_validate \<lparr>us_request_id = ''7'', us_state = ''failed'', us_target = ''1.2.3'', us_from = [],
     us_progress = None, us_reason_code = ''exec_failed'', us_reason_detail = []\<rparr> = None"
proof -
  have "IsSemver ''1.2.3''" by code_simp
  then show ?thesis
    by (subst status_validate_exact)
      (simp add: upgradeStates_def upgradeReasonCodes_def isDecimalID_def is_digit_def byte_def)
qed

end
