(* ===== verification/Downsample.thy ===== *)
theory Downsample
  imports Payload "HOL-Library.List_Lexorder" "HOL-Library.Multiset"
begin

text \<open>
  The aggregation of \<open>src/uni_core/internal/pkg/agentmetrics\<close>: \<open>downsample.go\<close> turns the raw samples
  of a five-minute bucket into one wide row and the detail rows of its disks, block devices, network
  cards and sensors; \<open>rollup.go\<close> turns the wide rows of an hour into one hour row. The accumulators
  are the code's; a Go map keyed by name is a list of pairs with one entry per name, a map with a
  zero default a function. \<open>sort.Slice\<close> leaves the order of equal timestamps open; the model keeps
  their input order.
\<close>

section \<open>Rows\<close>

record Wide =
  w_device :: int
  w_bucket :: int
  w_cpu :: "F64 option"
  w_iowait :: "F64 option"
  w_load1 :: "F64 option"
  w_load5 :: "F64 option"
  w_load15 :: "F64 option"
  w_mem_pct :: "F64 option"
  w_mem_used :: "F64 option"
  w_mem_avail :: "F64 option"
  w_swap_pct :: "F64 option"
  w_swap_used :: "F64 option"
  w_tcp_total :: "int option"
  w_tcp_established :: "int option"
  w_tcp_listen :: "int option"
  w_tcp_time_wait :: "int option"
  w_tcp_close_wait :: "int option"
  w_udp_total :: "int option"
  w_proc_count :: "int option"
  w_uptime :: "int option"
  w_samples :: int
  w_disk_total :: "F64 option"
  w_disk_used :: "F64 option"
  w_disk_pct :: "F64 option"
  w_io_read :: "F64 option"
  w_io_write :: "F64 option"
  w_io_read_ops :: "F64 option"
  w_io_write_ops :: "F64 option"
  w_nic_rx :: "F64 option"
  w_nic_tx :: "F64 option"
  w_nic_rxp :: "F64 option"
  w_nic_txp :: "F64 option"
  w_nic_rxe :: "F64 option"
  w_nic_txe :: "F64 option"
  w_nic_rxd :: "F64 option"
  w_max_temp :: "F64 option"
  w_ag_collect :: "F64 option"
  w_ag_success :: "int option"
  w_ag_error :: "int option"
  w_ag_reconnect :: "int option"
  w_ag_last_error :: "string option"
  w_ag_mem :: "F64 option"
  w_ag_backlog :: "int option"
  w_ag_latency :: "F64 option"
  w_ag_drop :: "int option"
  w_ag_uptime :: "int option"

text \<open>The zero value of the struct.\<close>
definition zero_wide :: Wide where
  "zero_wide = \<lparr>w_device = 0, w_bucket = 0, w_cpu = None, w_iowait = None, w_load1 = None, w_load5 = None,
     w_load15 = None, w_mem_pct = None, w_mem_used = None, w_mem_avail = None, w_swap_pct = None,
     w_swap_used = None, w_tcp_total = None, w_tcp_established = None, w_tcp_listen = None,
     w_tcp_time_wait = None, w_tcp_close_wait = None, w_udp_total = None, w_proc_count = None,
     w_uptime = None, w_samples = 0, w_disk_total = None, w_disk_used = None, w_disk_pct = None,
     w_io_read = None, w_io_write = None, w_io_read_ops = None, w_io_write_ops = None, w_nic_rx = None,
     w_nic_tx = None, w_nic_rxp = None, w_nic_txp = None, w_nic_rxe = None, w_nic_txe = None,
     w_nic_rxd = None, w_max_temp = None, w_ag_collect = None, w_ag_success = None, w_ag_error = None,
     w_ag_reconnect = None, w_ag_last_error = None, w_ag_mem = None, w_ag_backlog = None,
     w_ag_latency = None, w_ag_drop = None, w_ag_uptime = None\<rparr>"

record SubRowDisk =
  sd_name :: string
  sd_fs_type :: string
  sd_used_percent :: "F64 option"
  sd_used :: "F64 option"
  sd_total :: "F64 option"
  sd_inodes :: "F64 option"

record SubRowDiskIO =
  si_name :: string
  si_read :: "F64 option"
  si_write :: "F64 option"
  si_read_ops :: "F64 option"
  si_write_ops :: "F64 option"
  si_io_time :: "F64 option"

record SubRowNIC =
  sni_name :: string
  sni_rx :: "F64 option"
  sni_tx :: "F64 option"
  sni_rxp :: "F64 option"
  sni_txp :: "F64 option"
  sni_rxe :: "F64 option"
  sni_txe :: "F64 option"
  sni_rxd :: "F64 option"

record SubRowSensor =
  ss_name :: string
  ss_temp :: "F64 option"

record Subs =
  sub_disks :: "SubRowDisk list"
  sub_diskio :: "SubRowDiskIO list"
  sub_nics :: "SubRowNIC list"
  sub_sensors :: "SubRowSensor list"

section \<open>Helpers\<close>

definition f64p :: "F64 \<Rightarrow> F64 option" where
  "f64p v = Some (Round2 v)"

definition deref :: "F64 option \<Rightarrow> F64" where
  "deref p = (case p of None \<Rightarrow> Fin 0 | Some v \<Rightarrow> v)"

definition intPtr :: "F64 option \<Rightarrow> int option" where
  "intPtr p = (case p of None \<Rightarrow> None | Some v \<Rightarrow> Some (f_to_int (Round2 v)))"

definition intToF :: "int option \<Rightarrow> F64 option" where
  "intToF p = (case p of None \<Rightarrow> None | Some v \<Rightarrow> Some (f_of_int v))"

text \<open>The body run on the entry of a name, created with the zero accumulator when it is missing.\<close>
fun at_key :: "string \<Rightarrow> 'a \<Rightarrow> ('a \<Rightarrow> 'a) \<Rightarrow> (string \<times> 'a) list \<Rightarrow> (string \<times> 'a) list" where
  "at_key k z f [] = [(k, f z)]"
| "at_key k z f ((k', v) # m) = (if k' = k then (k, f v) # m else (k', v) # at_key k z f m)"

definition sortedKeys :: "(string \<times> 'a) list \<Rightarrow> string list" where
  "sortedKeys m = sort (map fst m)"

section \<open>Detail accumulators\<close>

record diskAcc =
  da_samples :: int
  da_fsType :: string
  da_usedPercentSum :: F64
  da_usedSum :: F64
  da_totalSum :: F64
  da_inodesSum :: F64
  da_usedPercentCnt :: int
  da_inodesCnt :: int

definition diskAcc0 :: diskAcc where
  "diskAcc0 = \<lparr>da_samples = 0, da_fsType = [], da_usedPercentSum = Fin 0, da_usedSum = Fin 0,
     da_totalSum = Fin 0, da_inodesSum = Fin 0, da_usedPercentCnt = 0, da_inodesCnt = 0\<rparr>"

definition diskAcc_add :: "DiskMetric \<Rightarrow> diskAcc \<Rightarrow> diskAcc" where
  "diskAcc_add d e =
     (let e1 = e\<lparr>da_samples := da_samples e + 1,
                 da_fsType := (if da_fsType e = [] then dm_fs_type d else da_fsType e),
                 da_usedPercentSum := f_add (da_usedPercentSum e) (dm_used_percent d),
                 da_usedPercentCnt := da_usedPercentCnt e + 1,
                 da_usedSum := f_add (da_usedSum e) (dm_used_gb d),
                 da_totalSum := f_add (da_totalSum e) (dm_total_gb d)\<rparr>
      in if dm_inodes_used_percent d \<noteq> Fin 0
         then e1\<lparr>da_inodesSum := f_add (da_inodesSum e) (dm_inodes_used_percent d),
                 da_inodesCnt := da_inodesCnt e + 1\<rparr>
         else e1)"

definition diskAcc_finish :: "string \<Rightarrow> diskAcc \<Rightarrow> SubRowDisk" where
  "diskAcc_finish name e =
     (let out = \<lparr>sd_name = name, sd_fs_type = da_fsType e, sd_used_percent = None, sd_used = None,
                 sd_total = None, sd_inodes = None\<rparr>
      in if da_samples e = 0 then out
         else out\<lparr>sd_used := f64p (f_div (da_usedSum e) (f_of_int (da_samples e))),
                  sd_total := f64p (f_div (da_totalSum e) (f_of_int (da_samples e))),
                  sd_used_percent :=
                    (if 0 < da_usedPercentCnt e
                     then f64p (f_div (da_usedPercentSum e) (f_of_int (da_usedPercentCnt e))) else None),
                  sd_inodes :=
                    (if 0 < da_inodesCnt e
                     then f64p (f_div (da_inodesSum e) (f_of_int (da_inodesCnt e))) else None)\<rparr>)"

record diskioAcc =
  ia_samples :: int
  ia_read :: F64
  ia_write :: F64
  ia_readOps :: F64
  ia_writeOps :: F64
  ia_ioTimeSum :: F64
  ia_ioTimeCnt :: int

definition diskioAcc0 :: diskioAcc where
  "diskioAcc0 = \<lparr>ia_samples = 0, ia_read = Fin 0, ia_write = Fin 0, ia_readOps = Fin 0,
     ia_writeOps = Fin 0, ia_ioTimeSum = Fin 0, ia_ioTimeCnt = 0\<rparr>"

definition diskioAcc_add :: "DiskIOMetric \<Rightarrow> diskioAcc \<Rightarrow> diskioAcc" where
  "diskioAcc_add d e =
     (let e1 = e\<lparr>ia_samples := ia_samples e + 1,
                 ia_read := f_add (ia_read e) (di_read_bytes d),
                 ia_write := f_add (ia_write e) (di_write_bytes d),
                 ia_readOps := f_add (ia_readOps e) (di_read_ops d),
                 ia_writeOps := f_add (ia_writeOps e) (di_write_ops d)\<rparr>
      in if di_io_time_percent d \<noteq> Fin 0
         then e1\<lparr>ia_ioTimeSum := f_add (ia_ioTimeSum e) (di_io_time_percent d),
                 ia_ioTimeCnt := ia_ioTimeCnt e + 1\<rparr>
         else e1)"

definition diskioAcc_finish :: "string \<Rightarrow> diskioAcc \<Rightarrow> SubRowDiskIO" where
  "diskioAcc_finish name e =
     (let out = \<lparr>si_name = name, si_read = None, si_write = None, si_read_ops = None, si_write_ops = None,
                 si_io_time = None\<rparr>;
          n = f_of_int (ia_samples e)
      in if ia_samples e = 0 then out
         else out\<lparr>si_read := f64p (f_div (ia_read e) n), si_write := f64p (f_div (ia_write e) n),
                  si_read_ops := f64p (f_div (ia_readOps e) n), si_write_ops := f64p (f_div (ia_writeOps e) n),
                  si_io_time :=
                    (if 0 < ia_ioTimeCnt e
                     then f64p (f_div (ia_ioTimeSum e) (f_of_int (ia_ioTimeCnt e))) else None)\<rparr>)"

record nicAcc =
  na_samples :: int
  na_rx :: F64
  na_tx :: F64
  na_rxp :: F64
  na_txp :: F64
  na_rxe :: F64
  na_txe :: F64
  na_rxd :: F64

definition nicAcc0 :: nicAcc where
  "nicAcc0 = \<lparr>na_samples = 0, na_rx = Fin 0, na_tx = Fin 0, na_rxp = Fin 0, na_txp = Fin 0,
     na_rxe = Fin 0, na_txe = Fin 0, na_rxd = Fin 0\<rparr>"

definition nicAcc_add :: "NICMetric \<Rightarrow> nicAcc \<Rightarrow> nicAcc" where
  "nicAcc_add n e =
     \<lparr>na_samples = na_samples e + 1, na_rx = f_add (na_rx e) (nic_rx_bytes n),
      na_tx = f_add (na_tx e) (nic_tx_bytes n), na_rxp = f_add (na_rxp e) (nic_rx_packets n),
      na_txp = f_add (na_txp e) (nic_tx_packets n), na_rxe = f_add (na_rxe e) (nic_rx_errors n),
      na_txe = f_add (na_txe e) (nic_tx_errors n), na_rxd = f_add (na_rxd e) (nic_rx_dropped n)\<rparr>"

definition nicAcc_finish :: "string \<Rightarrow> nicAcc \<Rightarrow> SubRowNIC" where
  "nicAcc_finish name e =
     (let n = f_of_int (na_samples e); q = (\<lambda>s. if na_samples e = 0 then None else f64p (f_div s n))
      in \<lparr>sni_name = name, sni_rx = q (na_rx e), sni_tx = q (na_tx e), sni_rxp = q (na_rxp e),
          sni_txp = q (na_txp e), sni_rxe = q (na_rxe e), sni_txe = q (na_txe e), sni_rxd = q (na_rxd e)\<rparr>)"

text \<open>\<open>sensorAcc\<close> is its running maximum; a reading that is nil leaves it.\<close>
definition sensorAcc_add :: "SensorMetric \<Rightarrow> F64 option \<Rightarrow> F64 option" where
  "sensorAcc_add s e =
     (case sn_temp s of
        None \<Rightarrow> e
      | Some t \<Rightarrow> (case e of None \<Rightarrow> Some t | Some m \<Rightarrow> if f_lt m t then Some t else Some m))"

section \<open>The bucket accumulator\<close>

record wideAcc =
  wa_samples :: int
  wa_sums :: "string \<Rightarrow> F64"
  wa_cnts :: "string \<Rightarrow> int"
  wa_lastT :: int
  wa_lastInts :: "string \<Rightarrow> int option"
  wa_lastErr :: string
  wa_disks :: "(string \<times> diskAcc) list"
  wa_diskIO :: "(string \<times> diskioAcc) list"
  wa_nics :: "(string \<times> nicAcc) list"
  wa_sensors :: "(string \<times> F64 option) list"

definition newWideAcc :: wideAcc where
  "newWideAcc = \<lparr>wa_samples = 0, wa_sums = (\<lambda>_. Fin 0), wa_cnts = (\<lambda>_. 0), wa_lastT = 0,
     wa_lastInts = (\<lambda>_. None), wa_lastErr = [], wa_disks = [], wa_diskIO = [], wa_nics = [], wa_sensors = []\<rparr>"

definition acc_avg :: "string \<times> F64 option \<Rightarrow> wideAcc \<Rightarrow> wideAcc" where
  "acc_avg kv a =
     (case snd kv of
        None \<Rightarrow> a
      | Some v \<Rightarrow> a\<lparr>wa_sums := (wa_sums a)(fst kv := f_add (wa_sums a (fst kv)) v),
                    wa_cnts := (wa_cnts a)(fst kv := wa_cnts a (fst kv) + 1)\<rparr>)"

text \<open>The values a sample contributes to the averages, in the order of the calls.\<close>
definition sample_means :: "MetricsSample \<Rightarrow> (string \<times> F64 option) list" where
  "sample_means p =
     [(''cpu_used_percent'', Some (ms_cpu p)), (''cpu_iowait'', ms_iowait p), (''load1'', Some (ms_load1 p)),
      (''load5'', Some (ms_load5 p)), (''load15'', Some (ms_load15 p)),
      (''mem_used_percent'', Some (ms_mem_pct p)), (''mem_used_mb'', Some (ms_mem_used p)),
      (''mem_available_mb'', Some (ms_mem_avail p)), (''swap_used_percent'', ms_swap_pct p),
      (''swap_used_mb'', ms_swap_used p), (''agent_collect_duration_ms'', Some (ag_collect_ms (ms_agent p))),
      (''agent_mem_resident_mb'', ag_mem_mb (ms_agent p)),
      (''agent_last_report_latency_ms'', ag_latency_ms (ms_agent p)),
      (''tcp_total'', Some (f_of_int (ms_tcp_total p))),
      (''tcp_established'', Some (f_of_int (ms_tcp_established p))),
      (''tcp_listen'', Some (f_of_int (ms_tcp_listen p))),
      (''tcp_time_wait'', Some (f_of_int (ms_tcp_time_wait p))),
      (''tcp_close_wait'', Some (f_of_int (ms_tcp_close_wait p))),
      (''udp_total'', Some (f_of_int (ms_udp_total p))),
      (''proc_count'', Some (f_of_int (ms_proc_count p)))]"

definition set_if :: "string \<Rightarrow> int option \<Rightarrow> (string \<Rightarrow> int option) \<Rightarrow> (string \<Rightarrow> int option)" where
  "set_if k v m = (case v of None \<Rightarrow> m | Some i \<Rightarrow> m(k := Some i))"

text \<open>The LAST columns: overwritten by every sample that is not older than the ones seen.\<close>
definition acc_last :: "MetricsSample \<Rightarrow> wideAcc \<Rightarrow> wideAcc" where
  "acc_last p a =
     (if wa_lastT a \<le> ms_t p then
        a\<lparr>wa_lastT := ms_t p,
          wa_lastInts :=
            set_if ''agent_agent_uptime_sec'' (ag_uptime (ms_agent p))
              (set_if ''agent_report_drop_count'' (ag_drop (ms_agent p))
                (set_if ''agent_pending_backlog'' (ag_backlog (ms_agent p))
                  ((wa_lastInts a)(''uptime_sec'' := Some (ms_uptime p),
                     ''agent_report_success_count'' := Some (ag_success (ms_agent p)),
                     ''agent_report_error_count'' := Some (ag_error (ms_agent p)),
                     ''agent_ws_reconnect_count'' := Some (ag_reconnect (ms_agent p)))))),
          wa_lastErr := (if ag_last_error (ms_agent p) \<noteq> [] then ag_last_error (ms_agent p) else wa_lastErr a)\<rparr>
      else a)"

definition acc_details :: "MetricsSample \<Rightarrow> wideAcc \<Rightarrow> wideAcc" where
  "acc_details p a =
     a\<lparr>wa_disks := fold (\<lambda>d. at_key (dm_mountpoint d) diskAcc0 (diskAcc_add d)) (ms_disks p) (wa_disks a),
       wa_diskIO := fold (\<lambda>d. at_key (di_name d) diskioAcc0 (diskioAcc_add d)) (ms_disk_io p) (wa_diskIO a),
       wa_nics := fold (\<lambda>n. at_key (nic_name n) nicAcc0 (nicAcc_add n)) (ms_nics p) (wa_nics a),
       wa_sensors := fold (\<lambda>s. at_key (sn_name s) None (sensorAcc_add s)) (ms_sensors p) (wa_sensors a)\<rparr>"

definition acc_add :: "MetricsSample \<Rightarrow> wideAcc \<Rightarrow> wideAcc" where
  "acc_add p a =
     acc_details p (acc_last p (fold acc_avg (sample_means p) (a\<lparr>wa_samples := wa_samples a + 1\<rparr>)))"

definition acc_mean :: "wideAcc \<Rightarrow> string \<Rightarrow> F64 option" where
  "acc_mean a key =
     (if wa_cnts a key = 0 then None
      else Some (Round2 (f_div (wa_sums a key) (f_of_int (wa_cnts a key)))))"

definition fsum :: "F64 list \<Rightarrow> F64" where
  "fsum vs = foldl f_add (Fin 0) vs"

definition max_temp_step :: "F64 option \<Rightarrow> F64 option \<Rightarrow> F64 option" where
  "max_temp_step m e =
     (case e of None \<Rightarrow> m
      | Some t \<Rightarrow> (case m of None \<Rightarrow> Some t | Some b \<Rightarrow> if f_lt b t then Some t else m))"

definition acc_subs :: "wideAcc \<Rightarrow> Subs" where
  "acc_subs a =
     \<lparr>sub_disks = map (\<lambda>n. diskAcc_finish n (the (map_of (wa_disks a) n))) (sortedKeys (wa_disks a)),
      sub_diskio = map (\<lambda>n. diskioAcc_finish n (the (map_of (wa_diskIO a) n))) (sortedKeys (wa_diskIO a)),
      sub_nics = map (\<lambda>n. nicAcc_finish n (the (map_of (wa_nics a) n))) (sortedKeys (wa_nics a)),
      sub_sensors = map (\<lambda>n. \<lparr>ss_name = n, ss_temp = the (map_of (wa_sensors a) n)\<rparr>) (sortedKeys (wa_sensors a))\<rparr>"

definition if_some :: "'a list \<Rightarrow> F64 \<Rightarrow> F64 option" where
  "if_some rows v = (if rows \<noteq> [] then f64p v else None)"

definition acc_wide :: "int \<Rightarrow> int \<Rightarrow> wideAcc \<Rightarrow> Subs \<Rightarrow> Wide" where
  "acc_wide deviceID bucketTS a subs =
     (let mean = acc_mean a; lastInt = wa_lastInts a;
          ds = sub_disks subs; ios = sub_diskio subs; ns = sub_nics subs;
          sumDiskTotal = fsum (map (deref \<circ> sd_total) ds); sumDiskUsed = fsum (map (deref \<circ> sd_used) ds)
      in \<lparr>w_device = deviceID, w_bucket = bucketTS, w_cpu = mean ''cpu_used_percent'',
          w_iowait = mean ''cpu_iowait'', w_load1 = mean ''load1'', w_load5 = mean ''load5'',
          w_load15 = mean ''load15'', w_mem_pct = mean ''mem_used_percent'', w_mem_used = mean ''mem_used_mb'',
          w_mem_avail = mean ''mem_available_mb'', w_swap_pct = mean ''swap_used_percent'',
          w_swap_used = mean ''swap_used_mb'', w_tcp_total = intPtr (mean ''tcp_total''),
          w_tcp_established = intPtr (mean ''tcp_established''), w_tcp_listen = intPtr (mean ''tcp_listen''),
          w_tcp_time_wait = intPtr (mean ''tcp_time_wait''), w_tcp_close_wait = intPtr (mean ''tcp_close_wait''),
          w_udp_total = intPtr (mean ''udp_total''), w_proc_count = intPtr (mean ''proc_count''),
          w_uptime = lastInt ''uptime_sec'', w_samples = wa_samples a,
          w_disk_total = if_some ds sumDiskTotal, w_disk_used = if_some ds sumDiskUsed,
          w_disk_pct = (if ds \<noteq> [] \<and> f_lt (Fin 0) sumDiskTotal
                        then f64p (f_mul (f_div sumDiskUsed sumDiskTotal) (Fin 100)) else None),
          w_io_read = if_some ios (fsum (map (deref \<circ> si_read) ios)),
          w_io_write = if_some ios (fsum (map (deref \<circ> si_write) ios)),
          w_io_read_ops = if_some ios (fsum (map (deref \<circ> si_read_ops) ios)),
          w_io_write_ops = if_some ios (fsum (map (deref \<circ> si_write_ops) ios)),
          w_nic_rx = if_some ns (fsum (map (deref \<circ> sni_rx) ns)),
          w_nic_tx = if_some ns (fsum (map (deref \<circ> sni_tx) ns)),
          w_nic_rxp = if_some ns (fsum (map (deref \<circ> sni_rxp) ns)),
          w_nic_txp = if_some ns (fsum (map (deref \<circ> sni_txp) ns)),
          w_nic_rxe = if_some ns (fsum (map (deref \<circ> sni_rxe) ns)),
          w_nic_txe = if_some ns (fsum (map (deref \<circ> sni_txe) ns)),
          w_nic_rxd = if_some ns (fsum (map (deref \<circ> sni_rxd) ns)),
          w_max_temp = foldl max_temp_step None (map ss_temp (sub_sensors subs)),
          w_ag_collect = mean ''agent_collect_duration_ms'',
          w_ag_success = lastInt ''agent_report_success_count'',
          w_ag_error = lastInt ''agent_report_error_count'',
          w_ag_reconnect = lastInt ''agent_ws_reconnect_count'',
          w_ag_last_error = (if wa_lastErr a \<noteq> [] then Some (wa_lastErr a) else None),
          w_ag_mem = mean ''agent_mem_resident_mb'', w_ag_backlog = lastInt ''agent_pending_backlog'',
          w_ag_latency = mean ''agent_last_report_latency_ms'', w_ag_drop = lastInt ''agent_report_drop_count'',
          w_ag_uptime = lastInt ''agent_agent_uptime_sec''\<rparr>)"

definition acc_finish :: "int \<Rightarrow> int \<Rightarrow> wideAcc \<Rightarrow> (Wide \<times> Subs) option" where
  "acc_finish deviceID bucketTS a =
     (if wa_samples a = 0 then None
      else let subs = acc_subs a in Some (acc_wide deviceID bucketTS a subs, subs))"

definition Downsample :: "int \<Rightarrow> int \<Rightarrow> MetricsSample list \<Rightarrow> (Wide \<times> Subs) option" where
  "Downsample deviceID bucketTS pts =
     (if pts = [] then None
      else acc_finish deviceID bucketTS (fold acc_add (sort_key ms_t pts) newWideAcc))"


section \<open>What the columns are\<close>

text \<open>The values a list of contributions gives to one key.\<close>
definition vals_of :: "string \<Rightarrow> (string \<times> F64 option) list \<Rightarrow> F64 list" where
  "vals_of k kvs = concat (map (\<lambda>kv. if fst kv = k then opt_list (snd kv) else []) kvs)"

lemma acc_avg_sel:
  "wa_sums (fold acc_avg kvs a) k = foldl f_add (wa_sums a k) (vals_of k kvs)"
  "wa_cnts (fold acc_avg kvs a) k = wa_cnts a k + int (length (vals_of k kvs))"
  by (induction kvs arbitrary: a) (auto simp: acc_avg_def vals_of_def split: option.splits)

lemma acc_avg_other [simp]:
  "wa_samples (fold acc_avg kvs a) = wa_samples a" "wa_lastT (fold acc_avg kvs a) = wa_lastT a"
  "wa_lastInts (fold acc_avg kvs a) = wa_lastInts a" "wa_lastErr (fold acc_avg kvs a) = wa_lastErr a"
  "wa_disks (fold acc_avg kvs a) = wa_disks a" "wa_diskIO (fold acc_avg kvs a) = wa_diskIO a"
  "wa_nics (fold acc_avg kvs a) = wa_nics a" "wa_sensors (fold acc_avg kvs a) = wa_sensors a"
  by (induction kvs arbitrary: a) (auto simp: acc_avg_def split: option.splits)

lemma acc_last_other [simp]:
  "wa_samples (acc_last p a) = wa_samples a" "wa_sums (acc_last p a) = wa_sums a" "wa_cnts (acc_last p a) = wa_cnts a"
  "wa_disks (acc_last p a) = wa_disks a" "wa_diskIO (acc_last p a) = wa_diskIO a"
  "wa_nics (acc_last p a) = wa_nics a" "wa_sensors (acc_last p a) = wa_sensors a"
  by (simp_all add: acc_last_def)

lemma acc_details_other [simp]:
  "wa_samples (acc_details p a) = wa_samples a" "wa_sums (acc_details p a) = wa_sums a"
  "wa_cnts (acc_details p a) = wa_cnts a" "wa_lastT (acc_details p a) = wa_lastT a"
  "wa_lastInts (acc_details p a) = wa_lastInts a" "wa_lastErr (acc_details p a) = wa_lastErr a"
  by (simp_all add: acc_details_def)

definition contributions :: "string \<Rightarrow> MetricsSample list \<Rightarrow> F64 list" where
  "contributions k ps = concat (map (\<lambda>p. vals_of k (sample_means p)) ps)"

lemma acc_add_means:
  "wa_sums (fold acc_add ps a) k = foldl f_add (wa_sums a k) (contributions k ps)"
  "wa_cnts (fold acc_add ps a) k = wa_cnts a k + int (length (contributions k ps))"
  "wa_samples (fold acc_add ps a) = wa_samples a + int (length ps)"
  by (induction ps arbitrary: a) (simp_all add: contributions_def acc_add_def acc_avg_sel)

text \<open>Over samples in time order the LAST columns hold the last sample's values.\<close>
lemma acc_add_last:
  "sorted (map ms_t ps) \<Longrightarrow> ps \<noteq> [] \<Longrightarrow> \<forall>p\<in>set ps. wa_lastT a \<le> ms_t p \<Longrightarrow>
   wa_lastInts (fold acc_add ps a) ''uptime_sec'' = Some (ms_uptime (last ps))
   \<and> wa_lastInts (fold acc_add ps a) ''agent_report_success_count'' = Some (ag_success (ms_agent (last ps)))"
proof (induction ps arbitrary: a)
  case (Cons p ps)
  have t: "wa_lastT (acc_add p a) = ms_t p"
    using Cons.prems(3) by (simp add: acc_add_def acc_last_def)
  show ?case
  proof (cases "ps = []")
    case True
    then show ?thesis
      using Cons.prems(3)
      by (auto simp: acc_add_def acc_last_def set_if_def split: option.splits)
  next
    case False
    then show ?thesis using Cons.IH [of "acc_add p a"] Cons.prems t by simp
  qed
qed simp

lemma at_key_fst: "map fst (at_key k z f m) = (if k \<in> set (map fst m) then map fst m else map fst m @ [k])"
  by (induction m rule: at_key.induct) auto

lemma at_key_fold:
  "distinct (map fst m) \<Longrightarrow> distinct (map fst (fold (\<lambda>x. at_key (key x) z (g x)) xs m))
     \<and> set (map fst (fold (\<lambda>x. at_key (key x) z (g x)) xs m)) = set (map fst m) \<union> key ` set xs"
proof (induction xs arbitrary: m)
  case (Cons x xs)
  have "distinct (map fst (at_key (key x) z (g x) m))" using Cons.prems by (simp only: at_key_fst) auto
  moreover have "set (map fst (at_key (key x) z (g x) m)) = insert (key x) (set (map fst m))"
    by (simp only: at_key_fst) auto
  ultimately show ?case using Cons.IH [of "at_key (key x) z (g x) m"] by (auto simp del: set_map)
qed simp

lemma acc_add_disks:
  "distinct (map fst (wa_disks a)) \<Longrightarrow> distinct (map fst (wa_disks (fold acc_add ps a)))
     \<and> set (map fst (wa_disks (fold acc_add ps a)))
       = set (map fst (wa_disks a)) \<union> (\<Union>p\<in>set ps. dm_mountpoint ` set (ms_disks p))"
proof (induction ps arbitrary: a)
  case (Cons p ps)
  have d: "wa_disks (acc_add p a) = fold (\<lambda>d. at_key (dm_mountpoint d) diskAcc0 (diskAcc_add d)) (ms_disks p) (wa_disks a)"
    by (simp add: acc_add_def acc_details_def)
  note k = at_key_fold [OF Cons.prems, of dm_mountpoint diskAcc0 diskAcc_add "ms_disks p", folded d]
  then show ?case using Cons.IH [of "acc_add p a"] by (auto simp del: set_map)
qed simp

lemma diskAcc_finish_name [simp]: "sd_name (diskAcc_finish n e) = n"
  by (simp add: diskAcc_finish_def Let_def)

text \<open>The mean of a column: none without a value, otherwise the rounded quotient of the sum in time order.\<close>
definition mean_of :: "F64 list \<Rightarrow> F64 option" where
  "mean_of vs = (if vs = [] then None else Some (Round2 (f_div (foldl f_add (Fin 0) vs) (f_of_int (int (length vs))))))"

lemma acc_mean_of: "acc_mean (fold acc_add ps newWideAcc) k = mean_of (contributions k ps)"
  by (simp add: acc_mean_def mean_of_def acc_add_means newWideAcc_def)

section \<open>Properties\<close>

text \<open>A five-minute row is the aggregate of its samples. A bucket has a row exactly when it has
  samples; the row counts them, its averaged columns are the rounded means of the values present, summed in
  time order (a missing value does not count as zero), its counters are those of the newest sample, and
  each mount point, block device and network card reported in the bucket has exactly one detail row.\<close>
theorem downsample_spec:
  "(Downsample d b pts = None \<longleftrightarrow> pts = [])
   \<and> (\<forall>wide subs. Downsample d b pts = Some (wide, subs) \<longrightarrow>
        w_device wide = d \<and> w_bucket wide = b \<and> w_samples wide = int (length pts)
        \<and> w_cpu wide = mean_of (map ms_cpu (sort_key ms_t pts))
        \<and> w_load1 wide = mean_of (map ms_load1 (sort_key ms_t pts))
        \<and> w_mem_pct wide = mean_of (map ms_mem_pct (sort_key ms_t pts))
        \<and> w_swap_pct wide = mean_of (concat (map (opt_list \<circ> ms_swap_pct) (sort_key ms_t pts)))
        \<and> ((\<forall>p\<in>set pts. 0 \<le> ms_t p) \<longrightarrow> w_uptime wide = Some (ms_uptime (last (sort_key ms_t pts))))
        \<and> distinct (map sd_name (sub_disks subs))
        \<and> set (map sd_name (sub_disks subs)) = (\<Union>p\<in>set pts. dm_mountpoint ` set (ms_disks p)))"
proof (cases "pts = []")
  case True
  then show ?thesis by (simp add: Downsample_def)
next
  case False
  let ?ps = "sort_key ms_t pts"
  let ?a = "fold acc_add ?ps newWideAcc"
  have ne: "?ps \<noteq> []" using False by (metis set_empty set_sort)
  have n: "wa_samples ?a = int (length pts)" by (simp add: acc_add_means newWideAcc_def)
  have D: "Downsample d b pts = Some (acc_wide d b ?a (acc_subs ?a), acc_subs ?a)"
    using False n by (simp add: Downsample_def acc_finish_def Let_def)
  have c: "contributions ''cpu_used_percent'' ps = map ms_cpu ps" "contributions ''load1'' ps = map ms_load1 ps"
    "contributions ''mem_used_percent'' ps = map ms_mem_pct ps"
    "contributions ''swap_used_percent'' ps = concat (map (opt_list \<circ> ms_swap_pct) ps)" for ps
    by (induction ps) (simp_all add: contributions_def vals_of_def sample_means_def)
  have up: "(\<forall>p\<in>set pts. 0 \<le> ms_t p) \<Longrightarrow> wa_lastInts ?a ''uptime_sec'' = Some (ms_uptime (last ?ps))"
    using acc_add_last [of ?ps newWideAcc] ne by (simp add: newWideAcc_def)
  have dk: "distinct (map fst (wa_disks ?a)) \<and> set (map fst (wa_disks ?a)) = (\<Union>p\<in>set pts. dm_mountpoint ` set (ms_disks p))"
    using acc_add_disks [of newWideAcc ?ps] by (simp add: newWideAcc_def)
  have sd: "map sd_name (sub_disks (acc_subs ?a)) = sortedKeys (wa_disks ?a)"
    by (simp add: acc_subs_def comp_def)
  have "distinct (map sd_name (sub_disks (acc_subs ?a)))"
    "set (map sd_name (sub_disks (acc_subs ?a))) = (\<Union>p\<in>set pts. dm_mountpoint ` set (ms_disks p))"
    unfolding sd using dk by (simp_all add: sortedKeys_def)
  then show ?thesis unfolding D using False n up c
    by (simp add: acc_wide_def Let_def acc_mean_of)
qed

lemma downsample_spec_witness:
  "\<exists>wide subs. Downsample 7 300 [zero_sample\<lparr>ms_t := 300000, ms_uptime := 12\<rparr>] = Some (wide, subs)
     \<and> w_samples wide = 1 \<and> w_uptime wide = Some 12"
proof -
  let ?p = "zero_sample\<lparr>ms_t := 300000, ms_uptime := 12\<rparr>"
  obtain wide subs where D: "Downsample 7 300 [?p] = Some (wide, subs)"
    using downsample_spec [of 7 300 "[?p]"] by (cases "Downsample 7 300 [?p]") auto
  then show ?thesis using downsample_spec [of 7 300 "[?p]"] by simp
qed

end
