(* ===== verification/HourRollup.thy ===== *)
theory HourRollup
  imports Downsample
begin

text \<open>
  The aggregation of an hour: \<open>src/uni_core/internal/pkg/agentmetrics/rollup.go\<close>, with the laws of
  both aggregations. What the writers rely on: an empty input writes nothing, a value that was never
  collected stays nil, monotone counters take the value of the latest row, the result does not
  depend on the order in which the rows are read, and the completeness flag is the row count.
\<close>

record RollupInfo =
  ri_rowCount :: int
  ri_sampleSum :: int
  ri_needRepair :: bool

text \<open>\<open>int(time.Hour / reportInterval)\<close>, the interval in nanoseconds.\<close>
definition ExpectedSamplesPerHour :: "int \<Rightarrow> int" where
  "ExpectedSamplesPerHour interval = (if interval \<le> 0 then 0 else 3600000000000 div interval)"

definition completeHourRows :: int where "completeHourRows = 12"

text \<open>One pass of the inner loop: the new element moves left over strictly later buckets (the sorted
  part is kept reversed, its last element first).\<close>
fun bubble_left :: "Wide \<Rightarrow> Wide list \<Rightarrow> Wide list" where
  "bubble_left r [] = [r]"
| "bubble_left r (p # ps) = (if w_bucket r < w_bucket p then p # bubble_left r ps else r # p # ps)"

definition sortWideByBucket :: "Wide list \<Rightarrow> Wide list" where
  "sortWideByBucket rows = rev (foldl (\<lambda>acc r. bubble_left r acc) [] rows)"

record hourAcc =
  ha_sampleSum :: int
  ha_weighted :: "string \<Rightarrow> F64"
  ha_weightCnt :: "string \<Rightarrow> int"
  ha_maxTemp :: "F64 option"

definition hourAcc0 :: hourAcc where
  "hourAcc0 = \<lparr>ha_sampleSum = 0, ha_weighted = (\<lambda>_. Fin 0), ha_weightCnt = (\<lambda>_. 0), ha_maxTemp = None\<rparr>"

definition addW :: "int \<Rightarrow> string \<times> F64 option \<Rightarrow> hourAcc \<Rightarrow> hourAcc" where
  "addW samples kv a =
     (case snd kv of
        None \<Rightarrow> a
      | Some v \<Rightarrow>
          if samples \<le> 0 then a
          else a\<lparr>ha_weighted := (ha_weighted a)(fst kv := f_add (ha_weighted a (fst kv)) (f_mul v (f_of_int samples))),
                 ha_weightCnt := (ha_weightCnt a)(fst kv := ha_weightCnt a (fst kv) + samples)\<rparr>)"

definition wide_means :: "Wide \<Rightarrow> (string \<times> F64 option) list" where
  "wide_means r =
     [(''cpu_used_percent'', w_cpu r), (''cpu_iowait'', w_iowait r), (''load1'', w_load1 r), (''load5'', w_load5 r),
      (''load15'', w_load15 r), (''mem_used_percent'', w_mem_pct r), (''mem_used_mb'', w_mem_used r),
      (''mem_available_mb'', w_mem_avail r), (''swap_used_percent'', w_swap_pct r),
      (''swap_used_mb'', w_swap_used r), (''tcp_total'', intToF (w_tcp_total r)),
      (''tcp_established'', intToF (w_tcp_established r)), (''tcp_listen'', intToF (w_tcp_listen r)),
      (''udp_total'', intToF (w_udp_total r)), (''proc_count'', intToF (w_proc_count r)),
      (''agent_collect_duration_ms'', w_ag_collect r), (''disk_total_gb'', w_disk_total r),
      (''disk_used_gb'', w_disk_used r), (''disk_io_read_bytes_sec'', w_io_read r),
      (''disk_io_write_bytes_sec'', w_io_write r), (''disk_io_read_ops_sec'', w_io_read_ops r),
      (''disk_io_write_ops_sec'', w_io_write_ops r), (''nic_rx_bytes_sec'', w_nic_rx r),
      (''nic_tx_bytes_sec'', w_nic_tx r), (''nic_rx_packets_sec'', w_nic_rxp r),
      (''nic_tx_packets_sec'', w_nic_txp r), (''nic_rx_errors_sec'', w_nic_rxe r),
      (''nic_tx_errors_sec'', w_nic_txe r), (''nic_rx_dropped_sec'', w_nic_rxd r)]"

definition hour_add :: "Wide \<Rightarrow> hourAcc \<Rightarrow> hourAcc" where
  "hour_add r a =
     (let b = fold (addW (w_samples r)) (wide_means r) (a\<lparr>ha_sampleSum := ha_sampleSum a + w_samples r\<rparr>)
      in b\<lparr>ha_maxTemp := max_temp_step (ha_maxTemp b) (w_max_temp r)\<rparr>)"

definition wmean :: "hourAcc \<Rightarrow> string \<Rightarrow> F64 option" where
  "wmean a key =
     (if ha_weightCnt a key = 0 then None
      else Some (Round2 (f_div (ha_weighted a key) (f_of_int (ha_weightCnt a key)))))"

definition hour_wide :: "int \<Rightarrow> Wide \<Rightarrow> hourAcc \<Rightarrow> Wide" where
  "hour_wide bucketTS lastRow a =
     (let m = wmean a;
          total = m ''disk_total_gb''; used = m ''disk_used_gb''
      in zero_wide\<lparr>w_device := w_device lastRow, w_bucket := bucketTS, w_samples := ha_sampleSum a,
          w_cpu := m ''cpu_used_percent'', w_iowait := m ''cpu_iowait'', w_load1 := m ''load1'',
          w_load5 := m ''load5'', w_load15 := m ''load15'', w_mem_pct := m ''mem_used_percent'',
          w_mem_used := m ''mem_used_mb'', w_mem_avail := m ''mem_available_mb'',
          w_swap_pct := m ''swap_used_percent'', w_swap_used := m ''swap_used_mb'',
          w_tcp_total := intPtr (m ''tcp_total''), w_tcp_established := intPtr (m ''tcp_established''),
          w_tcp_listen := intPtr (m ''tcp_listen''), w_udp_total := intPtr (m ''udp_total''),
          w_proc_count := intPtr (m ''proc_count''), w_uptime := w_uptime lastRow,
          w_disk_total := total, w_disk_used := used,
          w_io_read := m ''disk_io_read_bytes_sec'', w_io_write := m ''disk_io_write_bytes_sec'',
          w_io_read_ops := m ''disk_io_read_ops_sec'', w_io_write_ops := m ''disk_io_write_ops_sec'',
          w_nic_rx := m ''nic_rx_bytes_sec'', w_nic_tx := m ''nic_tx_bytes_sec'',
          w_nic_rxp := m ''nic_rx_packets_sec'', w_nic_txp := m ''nic_tx_packets_sec'',
          w_nic_rxe := m ''nic_rx_errors_sec'', w_nic_txe := m ''nic_tx_errors_sec'',
          w_nic_rxd := m ''nic_rx_dropped_sec'', w_max_temp := ha_maxTemp a,
          w_disk_pct :=
            (case (total, used) of
               (Some t, Some u) \<Rightarrow> if f_lt (Fin 0) t then f64p (f_mul (f_div u t) (Fin 100)) else None
             | _ \<Rightarrow> None)\<rparr>)"

definition RollupToHour :: "int \<Rightarrow> Wide list \<Rightarrow> Wide \<times> RollupInfo" where
  "RollupToHour bucketTS rows =
     (if rows = [] then (zero_wide, \<lparr>ri_rowCount = 0, ri_sampleSum = 0, ri_needRepair = False\<rparr>)
      else let ordered = sortWideByBucket rows; a = fold hour_add ordered hourAcc0
           in (hour_wide bucketTS (last ordered) a,
               \<lparr>ri_rowCount = int (length rows), ri_sampleSum = ha_sampleSum a,
                ri_needRepair = int (length rows) < completeHourRows\<rparr>))"

section \<open>Sorting\<close>

lemma bubble_left_mset [simp]: "mset (bubble_left r ps) = add_mset r (mset ps)"
  by (induction ps) auto

lemma bubble_left_set [simp]: "set (bubble_left r ps) = insert r (set ps)"
  by (induction ps) auto

lemma bubble_left_sorted:
  "sorted_wrt (\<lambda>a b. w_bucket b \<le> w_bucket a) ps \<Longrightarrow> sorted_wrt (\<lambda>a b. w_bucket b \<le> w_bucket a) (bubble_left r ps)"
  by (induction ps) auto

lemma sortWide_invariant:
  "mset (foldl (\<lambda>acc r. bubble_left r acc) acc rows) = mset acc + mset rows
   \<and> (sorted_wrt (\<lambda>a b. w_bucket b \<le> w_bucket a) acc \<longrightarrow>
      sorted_wrt (\<lambda>a b. w_bucket b \<le> w_bucket a) (foldl (\<lambda>acc r. bubble_left r acc) acc rows))"
  by (induction rows arbitrary: acc) (auto simp: bubble_left_sorted)

lemma sortWide_mset [simp]: "mset (sortWideByBucket rows) = mset rows"
  using sortWide_invariant [of "[]" rows] by (simp add: sortWideByBucket_def)

lemma sortWide_sorted: "sorted (map w_bucket (sortWideByBucket rows))"
  using sortWide_invariant [of "[]" rows]
  by (simp add: sortWideByBucket_def sorted_map sorted_wrt_rev)

lemma sortWide_empty [simp]: "sortWideByBucket rows = [] \<longleftrightarrow> rows = []"
  by (metis mset_zero_iff sortWide_mset)

lemma sortWide_set [simp]: "set (sortWideByBucket rows) = set rows"
  by (metis set_mset_mset sortWide_mset)

lemma bubble_left_filter:
  "filter (\<lambda>x. w_bucket x = b) (bubble_left r ps) =
     (if w_bucket r = b then r # filter (\<lambda>x. w_bucket x = b) ps else filter (\<lambda>x. w_bucket x = b) ps)"
  by (induction ps) auto

lemma sortWide_filter: "filter (\<lambda>x. w_bucket x = b) (sortWideByBucket rows) = filter (\<lambda>x. w_bucket x = b) rows"
proof -
  have "filter (\<lambda>x. w_bucket x = b) (foldl (\<lambda>acc r. bubble_left r acc) acc rows)
      = rev (filter (\<lambda>x. w_bucket x = b) rows) @ filter (\<lambda>x. w_bucket x = b) acc" for acc
    by (induction rows arbitrary: acc) (simp_all add: bubble_left_filter)
  then show ?thesis by (simp add: sortWideByBucket_def rev_filter [symmetric])
qed

text \<open>The insertion sort is the stable sort of the library.\<close>
lemma sortWide_sort_key: "sortWideByBucket rows = sort_key w_bucket rows"
proof (rule sym, rule properties_for_sort_key)
  show "filter (\<lambda>x. w_bucket r = w_bucket x) (sortWideByBucket rows) = filter (\<lambda>x. w_bucket r = w_bucket x) rows" for r
    using sortWide_filter [of "w_bucket r"] by (simp only: eq_commute)
qed (simp_all add: sortWide_sorted)

lemma sortWide_unique:
  assumes "mset rows = mset rows'" "distinct (map w_bucket rows)"
  shows "sortWideByBucket rows = sortWideByBucket rows'"
proof -
  have eq: "mset (sortWideByBucket rows) = mset (sortWideByBucket rows')" using assms(1) by simp
  have "inj_on w_bucket (set rows)" using assms(2) by (simp add: distinct_map)
  then have "inj_on w_bucket (set (sortWideByBucket rows))" by simp
  moreover have "map w_bucket (sortWideByBucket rows) = map w_bucket (sortWideByBucket rows')"
  proof -
    have "mset (map w_bucket (sortWideByBucket rows)) = mset (map w_bucket (sortWideByBucket rows'))"
      using eq by simp
    then have "sort (map w_bucket (sortWideByBucket rows)) = sort (map w_bucket (sortWideByBucket rows'))"
      by (metis sorted_list_of_multiset_mset)
    then show ?thesis using sortWide_sorted by (metis sorted_sort_id)
  qed
  moreover have "set (sortWideByBucket rows) = set (sortWideByBucket rows')"
    using eq mset_eq_setD by blast
  ultimately show ?thesis by (intro map_inj_on [where f = w_bucket]) auto
qed

section \<open>The weighted means\<close>

text \<open>The rows that count for a column: those with a value and with samples.\<close>
definition counted :: "(Wide \<Rightarrow> F64 option) \<Rightarrow> Wide list \<Rightarrow> Wide list" where
  "counted v rows = filter (\<lambda>r. v r \<noteq> None \<and> 0 < w_samples r) rows"

text \<open>The mean of a column over the rows in their order, each value weighted with the samples of its row.\<close>
definition weighted_mean :: "(Wide \<Rightarrow> F64 option) \<Rightarrow> Wide list \<Rightarrow> F64 option" where
  "weighted_mean v rows =
     (if counted v rows = [] then None
      else Some (Round2 (f_div
        (foldl f_add (Fin 0) (map (\<lambda>r. f_mul (the (v r)) (f_of_int (w_samples r))) (counted v rows)))
        (f_of_int (\<Sum>r\<leftarrow>counted v rows. w_samples r)))))"

text \<open>A row adds to a key what the only entry of that key says.\<close>
lemma addW_key:
  "ha_weightCnt (addW s kv a) k = (if fst kv = k \<and> snd kv \<noteq> None \<and> 0 < s then ha_weightCnt a k + s else ha_weightCnt a k)"
  "ha_weighted (addW s kv a) k =
     (if fst kv = k \<and> snd kv \<noteq> None \<and> 0 < s then f_add (ha_weighted a k) (f_mul (the (snd kv)) (f_of_int s)) else ha_weighted a k)"
  by (auto simp: addW_def split: option.splits)

lemma fold_addW_absent:
  "k \<notin> fst ` set kvs \<Longrightarrow> ha_weightCnt (fold (addW s) kvs a) k = ha_weightCnt a k
     \<and> ha_weighted (fold (addW s) kvs a) k = ha_weighted a k"
  by (induction kvs arbitrary: a) (auto simp: addW_key)

lemma fold_addW_key:
  "distinct (map fst kvs) \<Longrightarrow> (k, x) \<in> set kvs \<Longrightarrow>
     ha_weightCnt (fold (addW s) kvs a) k = (if x \<noteq> None \<and> 0 < s then ha_weightCnt a k + s else ha_weightCnt a k)
     \<and> ha_weighted (fold (addW s) kvs a) k =
        (if x \<noteq> None \<and> 0 < s then f_add (ha_weighted a k) (f_mul (the x) (f_of_int s)) else ha_weighted a k)"
proof (induction kvs arbitrary: a)
  case (Cons kv kvs)
  show ?case
  proof (cases "kv = (k, x)")
    case True
    then show ?thesis using Cons.prems(1) by (simp add: fold_addW_absent addW_key)
  next
    case False
    then have "(k, x) \<in> set kvs" using Cons.prems(2) by simp
    moreover from this have "k \<in> fst ` set kvs" by force
    then have "fst kv \<noteq> k" using Cons.prems(1) by auto
    ultimately show ?thesis using Cons by (simp add: addW_key)
  qed
qed simp

lemma wide_means_distinct: "distinct (map fst (wide_means r))"
  by (simp add: wide_means_def)

lemma addW_other [simp]: "ha_sampleSum (addW s kv a) = ha_sampleSum a" "ha_maxTemp (addW s kv a) = ha_maxTemp a"
  by (auto simp: addW_def split: option.splits)

lemma fold_addW_other [simp]:
  "ha_sampleSum (fold (addW s) kvs a) = ha_sampleSum a" "ha_maxTemp (fold (addW s) kvs a) = ha_maxTemp a"
  by (induction kvs arbitrary: a) simp_all

lemma hour_add_sel:
  "ha_sampleSum (hour_add r a) = ha_sampleSum a + w_samples r"
  "ha_maxTemp (hour_add r a) = max_temp_step (ha_maxTemp a) (w_max_temp r)"
  by (simp_all add: hour_add_def Let_def)

lemma fold_hour_add_sel:
  "ha_sampleSum (fold hour_add rows a) = ha_sampleSum a + (\<Sum>r\<leftarrow>rows. w_samples r)"
  "ha_maxTemp (fold hour_add rows a) = foldl max_temp_step (ha_maxTemp a) (map w_max_temp rows)"
  by (induction rows arbitrary: a) (simp_all add: hour_add_sel)

lemma fold_hour_add_key:
  assumes "\<And>r. (k, v r) \<in> set (wide_means r)"
  shows "ha_weightCnt (fold hour_add rows a) k = ha_weightCnt a k + (\<Sum>r\<leftarrow>counted v rows. w_samples r)"
    "ha_weighted (fold hour_add rows a) k =
       foldl f_add (ha_weighted a k) (map (\<lambda>r. f_mul (the (v r)) (f_of_int (w_samples r))) (counted v rows))"
  using fold_addW_key [OF wide_means_distinct assms]
  by (induction rows arbitrary: a) (simp_all add: hour_add_def Let_def counted_def)

lemma counted_pos: "rows' = counted v rows \<Longrightarrow> rows' \<noteq> [] \<Longrightarrow> 0 < (\<Sum>r\<leftarrow>rows'. w_samples r)"
proof (induction rows arbitrary: rows')
  case (Cons r rows)
  have "0 \<le> (\<Sum>r\<leftarrow>counted v rows. w_samples r)" by (rule sum_list_nonneg) (auto simp: counted_def)
  then show ?case using Cons by (auto simp: counted_def split: if_splits)
qed (simp add: counted_def)

lemma wmean_weighted:
  assumes "\<And>r. (k, v r) \<in> set (wide_means r)"
  shows "wmean (fold hour_add rows hourAcc0) k = weighted_mean v rows"
  using counted_pos [OF refl, of v rows]
  by (cases "counted v rows = []")
    (simp_all add: wmean_def weighted_mean_def fold_hour_add_key [of k v, OF assms] hourAcc0_def)

lemma weighted_mean_None: "weighted_mean v rows = None \<longleftrightarrow> (\<forall>r\<in>set rows. v r = None \<or> w_samples r \<le> 0)"
  by (auto simp: weighted_mean_def counted_def filter_empty_conv not_less)

lemma intToF_map: "intToF x = map_option f_of_int x"
  by (cases x) (simp_all add: intToF_def)

lemma intPtr_map: "intPtr x = map_option (\<lambda>v. f_to_int (Round2 v)) x"
  by (cases x) (simp_all add: intPtr_def)

text \<open>The hottest sensor.\<close>
lemma f_lt_trans: "f_lt x y \<Longrightarrow> f_lt y z \<Longrightarrow> f_lt x z"
  by (cases x; cases y; cases z) auto

definition hottest :: "F64 option \<Rightarrow> F64 option list \<Rightarrow> bool" where
  "hottest m ts \<longleftrightarrow>
     (case m of None \<Rightarrow> (\<forall>t\<in>set ts. t = None)
      | Some h \<Rightarrow> Some h \<in> set ts \<and> (\<forall>t. Some t \<in> set ts \<longrightarrow> \<not> f_lt h t))"

lemma f_lt_irrefl [simp]: "\<not> f_lt x x"
  by (cases x) auto

lemma hottest_step: "hottest m ts \<Longrightarrow> hottest (max_temp_step m t) (ts @ [t])"
  using f_lt_trans by (fastforce simp: hottest_def max_temp_step_def split: option.splits)

lemma hottest_foldl: "hottest (foldl max_temp_step None ts) ts"
proof (induction ts rule: rev_induct)
  case Nil
  show ?case by (simp add: hottest_def)
qed (simp add: hottest_step)

lemma last_sortWide_max:
  assumes "rows \<noteq> []"
  shows "last (sortWideByBucket rows) \<in> set rows"
    and "r \<in> set rows \<Longrightarrow> w_bucket r \<le> w_bucket (last (sortWideByBucket rows))"
proof -
  let ?o = "sortWideByBucket rows"
  have ne: "?o \<noteq> []" using assms by simp
  show "last ?o \<in> set rows" using last_in_set [OF ne] by simp
  assume "r \<in> set rows"
  then have "r \<in> set ?o" by simp
  moreover have "sorted xs \<Longrightarrow> v \<in> set xs \<Longrightarrow> v \<le> last xs" for xs :: "int list" and v
    by (induction xs) (auto split: if_splits)
  ultimately show "w_bucket r \<le> w_bucket (last ?o)"
    using ne sortWide_sorted [of rows] by (metis imageI last_map list.set_map)
qed

section \<open>Properties\<close>

text \<open>The hour row does not depend on the order in which the five-minute rows are read. Rows of
  different buckets may come in any order: the row written and the completeness information are
  the same, although the sums are rounded at every step.\<close>
theorem rollup_order_independent:
  assumes "mset rows = mset rows'" and "distinct (map w_bucket rows)"
  shows "RollupToHour h rows = RollupToHour h rows'"
proof -
  have "rows = [] \<longleftrightarrow> rows' = []" "length rows = length rows'"
    using assms(1) by (metis mset_zero_iff, metis size_mset)
  then show ?thesis
    by (simp add: RollupToHour_def Let_def sortWide_unique [OF assms])
qed

lemma rollup_order_independent_witness:
  "RollupToHour 0 [zero_wide\<lparr>w_bucket := 300, w_samples := 2\<rparr>, zero_wide\<lparr>w_samples := 30\<rparr>]
   = RollupToHour 0 [zero_wide\<lparr>w_samples := 30\<rparr>, zero_wide\<lparr>w_bucket := 300, w_samples := 2\<rparr>]"
  by (rule rollup_order_independent) (simp_all add: zero_wide_def)

text \<open>C21: what the row of an hour is. The information is complete exactly when twelve rows went in; the row counts
  every sample and takes uptime and device of the latest row. Every averaged column is the mean of the
  values of the rows in the order of their buckets, each weighted with the samples of its row, and nil exactly
  when no row with samples had a value: nil is never turned into 0. The integer columns are those means made integers
  again, the disk percentage is used times hundred over total where the total is positive, the temperature is the
  hottest one, and the columns kept only at five minutes stay nil.\<close>
theorem rollup_hour_spec:
  assumes "rows \<noteq> []"
  shows "(case RollupToHour h rows of (w, info) \<Rightarrow>
           ri_rowCount info = int (length rows) \<and> (ri_needRepair info \<longleftrightarrow> length rows < 12)
         \<and> ri_sampleSum info = (\<Sum>r\<leftarrow>rows. w_samples r) \<and> w_samples w = ri_sampleSum info
         \<and> w_bucket w = h
         \<and> (\<exists>l\<in>set rows. (\<forall>r\<in>set rows. w_bucket r \<le> w_bucket l) \<and> w_uptime w = w_uptime l \<and> w_device w = w_device l)
         \<and> (w_swap_pct w = None \<longleftrightarrow> (\<forall>r\<in>set rows. w_swap_pct r = None \<or> w_samples r \<le> 0))
         \<and> (w_iowait w = None \<longleftrightarrow> (\<forall>r\<in>set rows. w_iowait r = None \<or> w_samples r \<le> 0))
         \<and> list_all (\<lambda>c. c w = weighted_mean c (sort_key w_bucket rows))
             [w_cpu, w_iowait, w_load1, w_load5, w_load15, w_mem_pct, w_mem_used, w_mem_avail, w_swap_pct, w_swap_used,
              w_disk_total, w_disk_used, w_io_read, w_io_write, w_io_read_ops, w_io_write_ops,
              w_nic_rx, w_nic_tx, w_nic_rxp, w_nic_txp, w_nic_rxe, w_nic_txe, w_nic_rxd]
         \<and> list_all (\<lambda>c. c w = map_option (\<lambda>v. f_to_int (Round2 v))
                (weighted_mean (\<lambda>r. map_option f_of_int (c r)) (sort_key w_bucket rows)))
             [w_tcp_total, w_tcp_established, w_tcp_listen, w_udp_total, w_proc_count]
         \<and> w_disk_pct w = (case (weighted_mean w_disk_total (sort_key w_bucket rows), weighted_mean w_disk_used (sort_key w_bucket rows)) of
              (Some t, Some u) \<Rightarrow> if f_lt (Fin 0) t then Some (Round2 (f_mul (f_div u t) (Fin 100))) else None
            | _ \<Rightarrow> None)
         \<and> hottest (w_max_temp w) (map w_max_temp (sort_key w_bucket rows))
         \<and> list_all (\<lambda>c. c w = None) [w_tcp_time_wait, w_tcp_close_wait, w_ag_success, w_ag_error, w_ag_reconnect, w_ag_backlog,
              w_ag_drop, w_ag_uptime]
         \<and> list_all (\<lambda>c. c w = None) [w_ag_collect, w_ag_mem, w_ag_latency] \<and> w_ag_last_error w = None)"
proof -
  let ?o = "sort_key w_bucket rows"
  let ?a = "fold hour_add ?o hourAcc0"
  have "mset (map w_samples ?o) = mset (map w_samples rows)" by simp
  then have sum: "(\<Sum>r\<leftarrow>?o. w_samples r) = (\<Sum>r\<leftarrow>rows. w_samples r)"
    by (metis sum_mset_sum_list)
  have zero: "ha_sampleSum hourAcc0 = 0" "ha_maxTemp hourAcc0 = None" by (simp_all add: hourAcc0_def)
  have last: "\<exists>l\<in>set rows. (\<forall>r\<in>set rows. w_bucket r \<le> w_bucket l)
      \<and> w_uptime (last ?o) = w_uptime l \<and> w_device (last ?o) = w_device l"
    using last_sortWide_max [OF assms] unfolding sortWide_sort_key by blast
  have col: "wmean ?a k = weighted_mean v ?o" if "\<And>r. (k, v r) \<in> set (wide_means r)" for k v
    using that by (rule wmean_weighted)
  have m: "wmean ?a ''cpu_used_percent'' = weighted_mean w_cpu ?o" "wmean ?a ''cpu_iowait'' = weighted_mean w_iowait ?o"
    "wmean ?a ''load1'' = weighted_mean w_load1 ?o" "wmean ?a ''load5'' = weighted_mean w_load5 ?o"
    "wmean ?a ''load15'' = weighted_mean w_load15 ?o" "wmean ?a ''mem_used_percent'' = weighted_mean w_mem_pct ?o"
    "wmean ?a ''mem_used_mb'' = weighted_mean w_mem_used ?o" "wmean ?a ''mem_available_mb'' = weighted_mean w_mem_avail ?o"
    "wmean ?a ''swap_used_percent'' = weighted_mean w_swap_pct ?o" "wmean ?a ''swap_used_mb'' = weighted_mean w_swap_used ?o"
    "wmean ?a ''disk_total_gb'' = weighted_mean w_disk_total ?o" "wmean ?a ''disk_used_gb'' = weighted_mean w_disk_used ?o"
    "wmean ?a ''disk_io_read_bytes_sec'' = weighted_mean w_io_read ?o" "wmean ?a ''disk_io_write_bytes_sec'' = weighted_mean w_io_write ?o"
    "wmean ?a ''disk_io_read_ops_sec'' = weighted_mean w_io_read_ops ?o" "wmean ?a ''disk_io_write_ops_sec'' = weighted_mean w_io_write_ops ?o"
    "wmean ?a ''nic_rx_bytes_sec'' = weighted_mean w_nic_rx ?o" "wmean ?a ''nic_tx_bytes_sec'' = weighted_mean w_nic_tx ?o"
    "wmean ?a ''nic_rx_packets_sec'' = weighted_mean w_nic_rxp ?o" "wmean ?a ''nic_tx_packets_sec'' = weighted_mean w_nic_txp ?o"
    "wmean ?a ''nic_rx_errors_sec'' = weighted_mean w_nic_rxe ?o" "wmean ?a ''nic_tx_errors_sec'' = weighted_mean w_nic_txe ?o"
    "wmean ?a ''nic_rx_dropped_sec'' = weighted_mean w_nic_rxd ?o"
    by (rule col, simp add: wide_means_def)+
  have i: "wmean ?a ''tcp_total'' = weighted_mean (\<lambda>r. map_option f_of_int (w_tcp_total r)) ?o"
    "wmean ?a ''tcp_established'' = weighted_mean (\<lambda>r. map_option f_of_int (w_tcp_established r)) ?o"
    "wmean ?a ''tcp_listen'' = weighted_mean (\<lambda>r. map_option f_of_int (w_tcp_listen r)) ?o"
    "wmean ?a ''udp_total'' = weighted_mean (\<lambda>r. map_option f_of_int (w_udp_total r)) ?o"
    "wmean ?a ''proc_count'' = weighted_mean (\<lambda>r. map_option f_of_int (w_proc_count r)) ?o"
    by (rule col, simp add: wide_means_def intToF_map)+
  have hot: "hottest (ha_maxTemp ?a) (map w_max_temp ?o)" by (simp add: fold_hour_add_sel zero hottest_foldl)
  have e: "RollupToHour h rows = (hour_wide h (last ?o) ?a,
      \<lparr>ri_rowCount = int (length rows), ri_sampleSum = (\<Sum>r\<leftarrow>rows. w_samples r), ri_needRepair = length rows < 12\<rparr>)"
    using assms by (simp add: RollupToHour_def Let_def sortWide_sort_key fold_hour_add_sel sum zero completeHourRows_def)
  show ?thesis
    unfolding e hour_wide_def f64p_def Let_def m i
    using last hot
    by (simp add: zero_wide_def Let_def m i intPtr_map weighted_mean_None fold_hour_add_sel sum zero)
qed

text \<open>Values with at most 53 significant bits are not rounded.\<close>
lemma rnd_exact:
  assumes "\<bar>n\<bar> < 2 ^ 53" "- 1074 \<le> e" "e \<le> 900"
  shows "rnd (of_int n * pow2 e) = Fin (of_int n * pow2 e)"
proof (cases "n = 0")
  case False
  let ?q = "of_int n * pow2 e :: rat"
  have q: "0 < \<bar>?q\<bar>" "\<bar>?q\<bar> < pow2 (53 + e)"
  proof -
    have "\<bar>of_int n :: rat\<bar> < of_int (2 ^ 53)" using assms(1) by (metis of_int_abs of_int_less_iff)
    then have "\<bar>of_int n :: rat\<bar> < pow2 53" by (simp add: pow2_of_nat)
    then show "\<bar>?q\<bar> < pow2 (53 + e)" by (simp add: abs_mult pow2_add abs_of_pos)
  qed (use False pow2_pos [of e] in \<open>auto simp del: pow2_pos\<close>)
  have "ilog2 \<bar>?q\<bar> < 53 + e" using ilog2_bounds [OF q(1)] q(2) by (intro pow2_strict) linarith
  then have k: "ulp_exp ?q \<le> e" using assms(2) by (simp add: ulp_exp_def)
  define N P where "N = nat (e - ulp_exp ?q)" and "P = pow2 (ulp_exp ?q)"
  have P: "0 < P" by (simp add: P_def)
  have "pow2 e = of_int (2 ^ N) * P"
    using k pow2_add [of "e - ulp_exp ?q" "ulp_exp ?q"] pow2_of_nat [of "e - ulp_exp ?q"] by (simp add: N_def P_def)
  then have i: "?q = of_int (n * 2 ^ N) * P" by simp
  then have "?q / P = of_int (n * 2 ^ N)" unfolding i using P by simp
  then have "round_half_even (?q / P) = n * 2 ^ N" by (metis half_even_int)
  moreover have "?q \<noteq> 0" using q(1) by auto
  ultimately have "rnd_val ?q = of_int (n * 2 ^ N) * P" unfolding rnd_val_def P_def by presburger
  then have v: "rnd_val ?q = ?q" using i by (rule trans [OF _ sym])
  have "pow2 (53 + e) < pow2 1024" using assms(3) by (intro pow2_less) simp
  then have "\<bar>?q\<bar> < pow2 1024" using q(2) by linarith
  then show ?thesis unfolding rnd_def Let_def v by auto
qed (simp add: rnd_def rnd_val_def not_le)

lemma rnd_int: "\<bar>n\<bar> < 2 ^ 53 \<Longrightarrow> rnd (of_int n) = Fin (of_int n)"
  using rnd_exact [of n 0] by (simp add: pow2_def)

text \<open>Two rows of one and three samples: the mean of 10 and 20 is 17.5.\<close>
lemma rollup_hour_spec_witness:
  "w_cpu (fst (RollupToHour 0 [zero_wide\<lparr>w_bucket := 300, w_samples := 1, w_cpu := Some (Fin 10), w_uptime := Some 9\<rparr>,
      zero_wide\<lparr>w_samples := 3, w_cpu := Some (Fin 20)\<rparr>])) = Some (Fin (35 / 2))"
proof -
  have r: "rnd 1 = Fin 1" "rnd 3 = Fin 3" "rnd 4 = Fin 4" "rnd 10 = Fin 10" "rnd 60 = Fin 60" "rnd 70 = Fin 70" "rnd 1750 = Fin 1750"
    using rnd_int [of 1] rnd_int [of 3] rnd_int [of 4] rnd_int [of 10] rnd_int [of 60] rnd_int [of 70] rnd_int [of 1750] by simp_all
  have h: "rnd (35 / 2) = Fin (35 / 2)" using rnd_exact [of 35 "-1"] by (simp add: pow2_def power_int_def)
  have "round_away 1750 = 1750" by code_simp
  then have r2: "Round2 (Fin (35 / 2)) = Fin (35 / 2)" by (simp add: Round2_Fin r h)
  have "weighted_mean w_cpu (sort_key w_bucket [zero_wide\<lparr>w_bucket := 300, w_samples := 1, w_cpu := Some (Fin 10), w_uptime := Some 9\<rparr>,
      zero_wide\<lparr>w_samples := 3, w_cpu := Some (Fin 20)\<rparr>]) = Some (Fin (35 / 2))"
    by (simp add: weighted_mean_def counted_def zero_wide_def f_mul_def f_div_def f_of_int_def r h r2)
  then show ?thesis
    using rollup_hour_spec [of "[zero_wide\<lparr>w_bucket := 300, w_samples := 1, w_cpu := Some (Fin 10), w_uptime := Some 9\<rparr>,
      zero_wide\<lparr>w_samples := 3, w_cpu := Some (Fin 20)\<rparr>]" 0]
    by (simp add: case_prod_beta)
qed

end
