(* ===== verification/RawStore.thy ===== *)
theory RawStore
  imports CursorStore HourRollup
begin

text \<open>
  The hot window of raw samples: \<open>src/uni_core/internal/pkg/agentmetrics/raw.go\<close>, the write side of
  \<open>pkg/metricshistory/window.go\<close> it goes through, and the window constants of \<open>types.go\<close>. A window is
  a Redis list with the newest sample first; the JSON codec of a sample is a parameter (\<open>enc\<close>,
  \<open>dec\<close>). The main result is that the number of entries \<open>BucketRange\<close> fetches, which is computed
  from the age of the requested start, is always enough.
\<close>

section \<open>Window constants\<close>

text \<open>Durations are nanoseconds, as in Go.\<close>
definition second :: int where "second = 1000000000"
definition hour :: int where "hour = 3600 * second"

definition RawBootstrapWindow :: int where "RawBootstrapWindow = 24 * hour"

text \<open>\<open>Duration.Seconds()\<close>.\<close>
definition duration_seconds :: "int \<Rightarrow> F64" where
  "duration_seconds d = f_add (f_of_int (d div second)) (f_div (f_of_int (d mod second)) (f_of_int second))"

definition rawWindowHeadroom :: F64 where
  "rawWindowHeadroom = rnd (12 / 10)"

fun math_Ceil :: "F64 \<Rightarrow> F64" where
  "math_Ceil (Fin q) = Fin (of_int \<lceil>q\<rceil>)"
| "math_Ceil x = x"

definition RawMaxPoints :: "int \<Rightarrow> int" where
  "RawMaxPoints step =
     (if step \<le> 0 then 0
      else f_to_int (math_Ceil (f_mul (f_div (duration_seconds RawBootstrapWindow) (duration_seconds step))
             rawWindowHeadroom)))"

definition RawWindowSpan :: "int \<Rightarrow> int \<Rightarrow> int" where
  "RawWindowSpan maxPoints step = (if maxPoints \<le> 0 \<or> step \<le> 0 then 0 else wrap64 (maxPoints * step))"

record RawOptions =
  ro_step :: int
  ro_maxPoints :: int

section \<open>Keys and writes\<close>

definition historyKey :: "int \<Rightarrow> string" where
  "historyKey d = historyKeyPrefix @ itoa d @ '':history''"

definition latestKey :: "int \<Rightarrow> string" where
  "latestKey d = historyKeyPrefix @ itoa d @ '':latest''"

definition DeviceIndexKey :: string where
  "DeviceIndexKey = ''agent:device:index''"

text \<open>\<open>Window.Append\<close> after the encoding of the point, then the registration of the device.\<close>
definition raw_Append ::
  "(MetricsSample \<Rightarrow> string) \<Rightarrow> RawOptions \<Rightarrow> int \<Rightarrow> MetricsSample \<Rightarrow> 'z redis_scheme
   \<Rightarrow> 'z redis_scheme \<times> (svc_err, unit) result" where
  "raw_Append enc o' d p =
     bindS (redis_lpush_trim (historyKey d) (enc p) (ro_maxPoints o')) (\<lambda>_.
     redis_sadd DeviceIndexKey (itoa d))"

text \<open>Members that do not start with digits are skipped, as \<open>Sscanf\<close> skips them.\<close>
definition raw_Index :: "'z redis_scheme \<Rightarrow> 'z redis_scheme \<times> (svc_err, int list) result" where
  "raw_Index =
     bindS (redis_smembers DeviceIndexKey) (\<lambda>strs.
     returnS (sort (map (int \<circ> digits_val) (filter (\<lambda>s. s \<noteq> []) (map (takeWhile is_digit) strs)))))"

definition raw_Purge :: "int \<Rightarrow> 'z redis_scheme \<Rightarrow> 'z redis_scheme \<times> (svc_err, unit) result" where
  "raw_Purge d =
     ext_call (\<lambda>w. (w\<lparr>rd_lists := (rd_lists w)(historyKey d := []),
                     rd_kv := (rd_kv w)(latestKey d := None),
                     rd_sets := (rd_sets w)(DeviceIndexKey := filter (\<lambda>m. m \<noteq> itoa d) (rd_sets w DeviceIndexKey))\<rparr>,
                   Inr ()))"

section \<open>Reading a range\<close>

text \<open>The number of entries to read from the head of the list; \<open>newest\<close> is the decoded head, None when
  it does not decode.\<close>
definition widthFetch :: "int \<Rightarrow> int \<Rightarrow> int \<Rightarrow> int" where
  "widthFetch stepMs fromMs toMs =
     max 1 (if 0 < stepMs then quot64 (toMs - fromMs) stepMs * 2 else 1)"

definition rangeFetch :: "int \<Rightarrow> int \<Rightarrow> MetricsSample option \<Rightarrow> int \<Rightarrow> int \<Rightarrow> int" where
  "rangeFetch stepMs maxPoints newest fromMs toMs =
     (let fetch = (case newest of
            None \<Rightarrow> if maxPoints \<le> 0 then widthFetch stepMs fromMs toMs else maxPoints
          | Some p \<Rightarrow>
              if stepMs \<le> 0 then (if maxPoints \<le> 0 then widthFetch stepMs fromMs toMs else maxPoints)
              else if ms_t p < fromMs then 1
              else quot64 (ms_t p - fromMs) stepMs * 2 + 2);
          f1 = (if fetch < 1 then 1 else fetch)
      in if 0 < maxPoints \<and> maxPoints < f1 then maxPoints else f1)"

definition keep_range :: "int \<Rightarrow> int \<Rightarrow> MetricsSample list \<Rightarrow> MetricsSample list" where
  "keep_range fromMs toMs ps = sort_key ms_t (filter (\<lambda>p. fromMs \<le> ms_t p \<and> ms_t p < toMs) ps)"

definition decode_all :: "(string \<Rightarrow> MetricsSample option) \<Rightarrow> string list \<Rightarrow> MetricsSample list" where
  "decode_all dec raws = List.map_filter dec raws"

definition BucketRange ::
  "(string \<Rightarrow> MetricsSample option) \<Rightarrow> RawOptions \<Rightarrow> int \<Rightarrow> int \<Rightarrow> int \<Rightarrow> 'z redis_scheme
   \<Rightarrow> 'z redis_scheme \<times> (svc_err, MetricsSample list) result" where
  "BucketRange dec o' d fromMs toMs =
     bindS (redis_lindex0 (historyKey d)) (\<lambda>head.
       case head of
         None \<Rightarrow> returnS []
       | Some h \<Rightarrow>
           bindS (redis_lrange0 (historyKey d)
                    (rangeFetch (quot64 (ro_step o') 1000000) (ro_maxPoints o') (dec h) fromMs toMs - 1))
             (\<lambda>raws. returnS (keep_range fromMs toMs (decode_all dec raws))))"

section \<open>The fetch is enough\<close>

text \<open>A window written by an agent that reports at most twice per step: newest first, and the distance
  of the k-th sample from the newest is at least k half steps.\<close>
definition paced :: "int \<Rightarrow> MetricsSample list \<Rightarrow> bool" where
  "paced stepMs ps \<longleftrightarrow>
     (\<forall>i < length ps. int i * stepMs \<le> 2 * (ms_t (ps ! 0) - ms_t (ps ! i)))"

lemma paced_beyond:
  assumes "paced stepMs ps" "0 < stepMs" "i < length ps" "fromMs \<le> ms_t (ps ! i)" "fromMs \<le> ms_t (ps ! 0)"
  shows "int i < (ms_t (ps ! 0) - fromMs) div stepMs * 2 + 2"
proof -
  let ?N = "ms_t (ps ! 0) - fromMs"
  have "int i * stepMs \<le> 2 * ?N" using assms(1,3,4) by (force simp: paced_def)
  also have "?N < (?N div stepMs + 1) * stepMs"
    using assms(2) by (metis add.commute minus_mod_eq_mult_div pos_mod_bound distrib_right
        mult.commute mult_1 diff_add_cancel add_less_cancel_left)
  finally have "int i * stepMs < (2 * (?N div stepMs) + 2) * stepMs" by (simp add: algebra_simps)
  then have "int i < 2 * (?N div stepMs) + 2" using assms(2) by (simp add: mult_less_cancel_right)
  then show ?thesis by simp
qed

lemma filter_take_all:
  assumes "\<And>i. n \<le> i \<Longrightarrow> i < length xs \<Longrightarrow> \<not> P (xs ! i)"
  shows "filter P (take n xs) = filter P xs"
proof -
  have "filter P (drop n xs) = []"
    using assms by (auto simp: filter_empty_conv in_set_conv_nth)
  then show ?thesis by (metis append_take_drop_id append_Nil2 filter_append)
qed

lemma rangeFetch_enough:
  assumes "paced stepMs ps" "0 < stepMs" "ps \<noteq> []" "length ps \<le> nat maxPoints" "0 < maxPoints"
    and "nat (rangeFetch stepMs maxPoints (Some (hd ps)) fromMs toMs) \<le> i" "i < length ps"
  shows "\<not> (fromMs \<le> ms_t (ps ! i) \<and> ms_t (ps ! i) < toMs)"
proof
  assume r: "fromMs \<le> ms_t (ps ! i) \<and> ms_t (ps ! i) < toMs"
  have h: "hd ps = ps ! 0" using assms(3) by (simp add: hd_conv_nth)
  have "int i * stepMs \<le> 2 * (ms_t (ps ! 0) - ms_t (ps ! i))" using assms(1,7) by (simp add: paced_def)
  moreover have "0 \<le> int i * stepMs" using assms(2) by simp
  ultimately have "ms_t (ps ! i) \<le> ms_t (ps ! 0)" by (meson diff_ge_0_iff_ge order_trans zero_le_mult_iff zero_less_numeral not_less)
  then have ge: "fromMs \<le> ms_t (ps ! 0)" using r by (meson order_trans)
  have lt: "int i < (ms_t (ps ! 0) - fromMs) div stepMs * 2 + 2"
    using paced_beyond [OF assms(1,2,7)] r ge by blast
  have q: "0 \<le> (ms_t (ps ! 0) - fromMs) div stepMs" using ge assms(2) by (simp add: pos_imp_zdiv_nonneg_iff)
  have "int i < rangeFetch stepMs maxPoints (Some (hd ps)) fromMs toMs"
    using lt q ge assms(2,4,5,7) by (auto simp: rangeFetch_def h Let_def quot64_pos)
  then show False using assms(6) by linarith
qed

lemma rangeFetch_enough_read:
  assumes "rd_lists w (historyKey d) = map enc ps" and "\<forall>p\<in>set ps. dec (enc p) = Some p"
    and "paced (ro_step o' div 1000000) ps" and "1000000 \<le> ro_step o'"
    and "int (length ps) \<le> ro_maxPoints o'" and "rd_faults w = []"
  shows "BucketRange dec o' d fromMs toMs w = (w, Inr (keep_range fromMs toMs ps))"
proof (cases ps)
  case Nil
  then show ?thesis
    using assms(1,6) by (simp add: BucketRange_def bindS_def redis_lindex0_def ext_call_def Let_def keep_range_def)
next
  case (Cons p rest)
  let ?step = "ro_step o' div 1000000"
  let ?n = "nat (rangeFetch (quot64 (ro_step o') 1000000) (ro_maxPoints o') (Some p) fromMs toMs)"
  have st: "quot64 (ro_step o') 1000000 = ?step" "0 < ?step"
    using assms(4) by (simp_all add: quot64_pos)
  have dec: "decode_all dec (map enc xs) = xs" if "set xs \<subseteq> set ps" for xs
    using that assms(2) by (induction xs) (simp_all add: decode_all_def)
  have sub: "set (take ?n ps) \<subseteq> set ps" by (rule set_take_subset)
  have "filter (\<lambda>q. fromMs \<le> ms_t q \<and> ms_t q < toMs) (take ?n ps)
      = filter (\<lambda>q. fromMs \<le> ms_t q \<and> ms_t q < toMs) ps"
    using rangeFetch_enough [OF assms(3) st(2), of "ro_maxPoints o'" fromMs toMs] assms(5) Cons st(1)
    by (intro filter_take_all) auto
  then have "keep_range fromMs toMs (decode_all dec (take ?n (map enc ps))) = keep_range fromMs toMs ps"
    by (simp add: keep_range_def dec [OF sub] take_map)
  then show ?thesis
    using assms(1,2,6) Cons
    by (simp add: BucketRange_def bindS_def redis_lindex0_def redis_lrange0_def ext_call_def Let_def)
qed

text \<open>A read of a range returns every sample of the range, however old the range is. For a window
  whose samples are at least half a step apart, within its capacity, on a healthy connection,
  \<open>BucketRange\<close> returns exactly the samples with a timestamp in the half-open interval, in time order:
  no bucket that still has data is read as empty, which would let the watermark pass it.\<close>
theorem bucket_range_complete:
  assumes "rd_lists w (historyKey d) = map enc ps" and "\<forall>p\<in>set ps. dec (enc p) = Some p"
    and "paced (ro_step o' div 1000000) ps" and "1000000 \<le> ro_step o'"
    and "int (length ps) \<le> ro_maxPoints o'" and "rd_faults w = []"
  shows "BucketRange dec o' d fromMs toMs w = (w, Inr (keep_range fromMs toMs ps))"
  by (rule rangeFetch_enough_read [OF assms])

text \<open>A window of three samples ten seconds apart, read from its oldest sample.\<close>
definition demo_window :: "MetricsSample list" where
  "demo_window = map (\<lambda>t. zero_sample\<lparr>ms_t := t\<rparr>) [30000, 20000, 10000]"

definition demo_redis :: "redis" where
  "demo_redis = \<lparr>rd_kv = (\<lambda>_. None), rd_sets = (\<lambda>_. []),
     rd_lists = (\<lambda>_. [])(historyKey 7 := map (itoa \<circ> ms_t) demo_window), rd_faults = []\<rparr>"

definition demo_dec :: "string \<Rightarrow> MetricsSample option" where
  "demo_dec s = map_option (\<lambda>n. zero_sample\<lparr>ms_t := n\<rparr>) (ParseInt s)"

lemma bucket_range_complete_witness:
  "BucketRange demo_dec \<lparr>ro_step = 10000000000, ro_maxPoints = 10\<rparr> 7 10000 25000 demo_redis
   = (demo_redis, Inr (keep_range 10000 25000 demo_window))"
proof (rule bucket_range_complete [where enc = "itoa \<circ> ms_t"])
  show "rd_lists demo_redis (historyKey 7) = map (itoa \<circ> ms_t) demo_window" "rd_faults demo_redis = []"
    by (simp_all add: demo_redis_def)
  show "\<forall>p\<in>set demo_window. demo_dec ((itoa \<circ> ms_t) p) = Some p"
    by (simp add: demo_window_def demo_dec_def in_int64_def)
  show "paced (ro_step \<lparr>ro_step = 10000000000, ro_maxPoints = 10\<rparr> div 1000000) demo_window"
    by (auto simp: paced_def demo_window_def less_Suc_eq)
qed (simp_all add: demo_window_def)

end
