(* ===== verification/MetricsDB.thy ===== *)
theory MetricsDB
  imports RawStore
begin

text \<open>
  The tables the metrics services write, as \<open>src/uni_core/internal/repository/device_metric.go\<close>,
  \<open>device_metric_convert.go\<close> and \<open>device_resource.go\<close> use them: rows with a key, written by upsert in
  one transaction per call. The world of the services is Redis and these tables; every repository
  call is an external call that can fail or lose its reply. The \<open>id\<close> of a resource comes from a
  supply of fresh numbers.
\<close>

record DeviceResource =
  dr_id :: int
  dr_device :: int
  dr_kind :: string
  dr_name :: string
  dr_fs_type :: string
  dr_last_seen :: int

record DeviceMetricDisk =
  rd_disk_id :: int
  rd_disk_bucket :: int
  rd_disk_row :: SubRowDisk

record DeviceMetricDiskIO =
  rd_io_id :: int
  rd_io_bucket :: int
  rd_io_row :: SubRowDiskIO

record DeviceMetricNIC =
  rd_nic_id :: int
  rd_nic_bucket :: int
  rd_nic_row :: SubRowNIC

record DeviceMetricSensor =
  rd_sensor_id :: int
  rd_sensor_bucket :: int
  rd_sensor_row :: SubRowSensor

record MetricSubRows =
  sr_disks :: "DeviceMetricDisk list"
  sr_diskio :: "DeviceMetricDiskIO list"
  sr_nics :: "DeviceMetricNIC list"
  sr_sensors :: "DeviceMetricSensor list"

record metrics_world = redis +
  db_5m :: "Wide list"
  db_1h :: "Wide list"
  db_disk :: "DeviceMetricDisk list"
  db_diskio :: "DeviceMetricDiskIO list"
  db_nic :: "DeviceMetricNIC list"
  db_sensor :: "DeviceMetricSensor list"
  db_resources :: "DeviceResource list"
  db_next_id :: int

type_synonym 'a metrics_call = "metrics_world \<Rightarrow> metrics_world \<times> (svc_err, 'a) result"

section \<open>Upserts\<close>

text \<open>Insert, or overwrite the row with the same key.\<close>
fun upsert_by :: "('r \<Rightarrow> 'k) \<Rightarrow> 'r \<Rightarrow> 'r list \<Rightarrow> 'r list" where
  "upsert_by key r [] = [r]"
| "upsert_by key r (x # xs) = (if key x = key r then r # xs else x # upsert_by key r xs)"

definition upsertWide :: "Wide \<Rightarrow> Wide list \<Rightarrow> Wide list" where
  "upsertWide = upsert_by (\<lambda>w. (w_device w, w_bucket w))"

definition upsertRows :: "('r \<Rightarrow> int \<times> int) \<Rightarrow> 'r list \<Rightarrow> 'r list \<Rightarrow> 'r list" where
  "upsertRows key rows tbl = fold (upsert_by key) rows tbl"

definition WriteBucket :: "Wide \<Rightarrow> MetricSubRows \<Rightarrow> unit metrics_call" where
  "WriteBucket r subs =
     ext_call (\<lambda>w. (w\<lparr>db_5m := upsertWide r (db_5m w),
        db_disk := upsertRows (\<lambda>x. (rd_disk_id x, rd_disk_bucket x)) (sr_disks subs) (db_disk w),
        db_diskio := upsertRows (\<lambda>x. (rd_io_id x, rd_io_bucket x)) (sr_diskio subs) (db_diskio w),
        db_nic := upsertRows (\<lambda>x. (rd_nic_id x, rd_nic_bucket x)) (sr_nics subs) (db_nic w),
        db_sensor := upsertRows (\<lambda>x. (rd_sensor_id x, rd_sensor_bucket x)) (sr_sensors subs) (db_sensor w)\<rparr>,
        Inr ()))"

definition WriteHour :: "Wide \<Rightarrow> unit metrics_call" where
  "WriteHour r = ext_call (\<lambda>w. (w\<lparr>db_1h := upsertWide r (db_1h w)\<rparr>, Inr ()))"

section \<open>Reads\<close>

datatype wide_table = Metric5m | Metric1h

definition table_of :: "wide_table \<Rightarrow> metrics_world \<Rightarrow> Wide list" where
  "table_of t w = (case t of Metric5m \<Rightarrow> db_5m w | Metric1h \<Rightarrow> db_1h w)"

definition rows_between :: "int \<Rightarrow> int \<Rightarrow> int \<Rightarrow> Wide list \<Rightarrow> Wide list" where
  "rows_between d from to tbl =
     sort_key w_bucket (filter (\<lambda>r. w_device r = d \<and> from \<le> w_bucket r \<and> w_bucket r \<le> to) tbl)"

definition ReadWideRows :: "wide_table \<Rightarrow> int \<Rightarrow> int \<Rightarrow> int \<Rightarrow> Wide list metrics_call" where
  "ReadWideRows t d from to = ext_call (\<lambda>w. (w, Inr (rows_between d from to (table_of t w))))"

definition ExistingBucketTimestamps :: "wide_table \<Rightarrow> int \<Rightarrow> int \<Rightarrow> int \<Rightarrow> int list metrics_call" where
  "ExistingBucketTimestamps t d from to =
     ext_call (\<lambda>w. (w, Inr (map w_bucket (rows_between d from to (table_of t w)))))"

section \<open>Conversion\<close>

text \<open>The conversion is a JSON round trip between structs with the same fields: it is the identity, and
  fails when a float has no JSON form.\<close>
definition wide_floats :: "Wide \<Rightarrow> F64 list" where
  "wide_floats w =
     concat (map opt_list [w_cpu w, w_iowait w, w_load1 w, w_load5 w, w_load15 w, w_mem_pct w, w_mem_used w,
       w_mem_avail w, w_swap_pct w, w_swap_used w, w_disk_total w, w_disk_used w, w_disk_pct w, w_io_read w,
       w_io_write w, w_io_read_ops w, w_io_write_ops w, w_nic_rx w, w_nic_tx w, w_nic_rxp w, w_nic_txp w,
       w_nic_rxe w, w_nic_txe w, w_nic_rxd w, w_max_temp w, w_ag_collect w, w_ag_mem w, w_ag_latency w])"

definition EntityFromWide :: "Wide \<Rightarrow> (svc_err, Wide) result" where
  "EntityFromWide w = (if list_all is_finite (wide_floats w) then Inr w else Inl ErrEncode)"

definition WideFromEntity :: "Wide \<Rightarrow> (svc_err, Wide) result" where
  "WideFromEntity e = (if list_all is_finite (wide_floats e) then Inr e else Inl ErrEncode)"

section \<open>Resources\<close>

definition same_resource :: "int \<Rightarrow> string \<Rightarrow> string \<Rightarrow> DeviceResource \<Rightarrow> bool" where
  "same_resource d k n r \<longleftrightarrow> dr_device r = d \<and> dr_kind r = k \<and> dr_name r = n"

text \<open>On a conflict the id stays and the file system type and the observation time are overwritten.\<close>
definition upsert_seen1 :: "int \<Rightarrow> DeviceResource \<Rightarrow> DeviceResource list \<times> int \<Rightarrow> DeviceResource list \<times> int" where
  "upsert_seen1 ts row tn =
     (case tn of (tbl, nxt) \<Rightarrow>
        if list_ex (same_resource (dr_device row) (dr_kind row) (dr_name row)) tbl
        then (map (\<lambda>r. if same_resource (dr_device row) (dr_kind row) (dr_name row) r
                       then r\<lparr>dr_fs_type := dr_fs_type row, dr_last_seen := ts\<rparr> else r) tbl, nxt)
        else (tbl @ [row\<lparr>dr_id := nxt, dr_last_seen := ts\<rparr>], nxt + 1))"

definition UpsertSeen :: "DeviceResource list \<Rightarrow> int \<Rightarrow> unit metrics_call" where
  "UpsertSeen rows ts =
     (if rows = [] then returnS ()
      else ext_call (\<lambda>w.
        case fold (upsert_seen1 ts) rows (db_resources w, db_next_id w) of
          (tbl, nxt) \<Rightarrow> (w\<lparr>db_resources := tbl, db_next_id := nxt\<rparr>, Inr ())))"

definition ResolveID :: "int \<Rightarrow> string \<Rightarrow> string \<Rightarrow> int metrics_call" where
  "ResolveID d k n =
     ext_call (\<lambda>w. (w, case find (same_resource d k n) (db_resources w) of
                           None \<Rightarrow> Inl ErrNotFound | Some r \<Rightarrow> Inr (dr_id r)))"

definition DeleteByDevice :: "int \<Rightarrow> unit metrics_call" where
  "DeleteByDevice d =
     ext_call (\<lambda>w. (w\<lparr>db_resources := filter (\<lambda>r. dr_device r \<noteq> d) (db_resources w)\<rparr>, Inr ()))"

text \<open>Running a call on each element, in order, up to the first error.\<close>
fun mapS :: "('a \<Rightarrow> 's \<Rightarrow> 's \<times> ('e, 'b) result) \<Rightarrow> 'a list \<Rightarrow> 's \<Rightarrow> 's \<times> ('e, 'b list) result" where
  "mapS f [] = returnS []"
| "mapS f (x # xs) = bindS (f x) (\<lambda>y. bindS (mapS f xs) (\<lambda>ys. returnS (y # ys)))"

section \<open>Lemmas\<close>

definition wide_at :: "int \<Rightarrow> int \<Rightarrow> Wide list \<Rightarrow> Wide option" where
  "wide_at d b tbl = find (\<lambda>r. w_device r = d \<and> w_bucket r = b) tbl"

lemma upsert_by_find:
  "find (\<lambda>x. key x = k) (upsert_by key r tbl) = (if key r = k then Some r else find (\<lambda>x. key x = k) tbl)"
  by (induction tbl) auto

lemma wide_at_upsert [simp]:
  "wide_at d b (upsertWide r tbl) = (if w_device r = d \<and> w_bucket r = b then Some r else wide_at d b tbl)"
  using upsert_by_find [of "\<lambda>w. (w_device w, w_bucket w)" "(d, b)" r tbl]
  by (auto simp: wide_at_def upsertWide_def)

lemma repo_follows [intro]:
  "follows k w (fst (WriteBucket r subs w))" "follows k w (fst (WriteHour r w))"
  "follows k w (fst (ReadWideRows t d from to w))" "follows k w (fst (ExistingBucketTimestamps t d from to w))"
  "follows k w (fst (UpsertSeen rows ts w))" "follows k w (fst (ResolveID d kd n w))"
  unfolding WriteBucket_def WriteHour_def ReadWideRows_def ExistingBucketTimestamps_def UpsertSeen_def ResolveID_def
  by (auto intro!: ext_call_follows follows_refl split: prod.splits)

lemma mapS_follows:
  assumes "\<And>x w. follows k w (fst (f x w))"
  shows "follows k w (fst (mapS f xs w))"
proof (induction xs arbitrary: w)
  case (Cons x xs)
  then show ?case by (simp, intro bindS_follows) (auto intro: assms follows_refl)
qed (simp add: follows_refl)

end
