(* ===== verification/Flush.thy ===== *)
theory Flush
  imports MetricsDB
begin

text \<open>
  The five-minute flush: \<open>src/uni_core/internal/service/agent_metrics_flush.go\<close> with the time parameters of
  \<open>agent_metrics_timing.go\<close>. A round works off the closed buckets above the watermark of each device
  and moves the watermark by compare-and-set when every bucket succeeded.
\<close>

section \<open>Configuration and time\<close>

text \<open>What the services read: the clock in unix seconds, the raw values of the configuration keys, the
  options of the hot window and the sample decoder.\<close>
record metrics_cfg =
  mc_now :: int
  mc_report :: int
  mc_retention :: int
  mc_rescan :: int
  mc_max_hours :: int
  mc_raw :: RawOptions
  mc_dec :: "string \<Rightarrow> MetricsSample option"

definition defaultAgentReportIntervalSec :: int where "defaultAgentReportIntervalSec = 10"

definition agentReportInterval :: "metrics_cfg \<Rightarrow> int" where
  "agentReportInterval cfg =
     (let sec = mc_report cfg in if sec \<le> 0 then defaultAgentReportIntervalSec else sec)"

definition agentCloseGrace :: "metrics_cfg \<Rightarrow> int" where
  "agentCloseGrace cfg = 2 * agentReportInterval cfg"

definition defaultAgentHistoryRetentionDays :: int where "defaultAgentHistoryRetentionDays = 30"

definition agentHistoryRetentionDays :: "metrics_cfg \<Rightarrow> int" where
  "agentHistoryRetentionDays cfg =
     (let days = mc_retention cfg in if days \<le> 0 then defaultAgentHistoryRetentionDays else days)"

definition alignDown :: "int \<Rightarrow> int \<Rightarrow> int" where
  "alignDown sec step =
     (if step \<le> 0 then sec
      else let r = sgn sec * (\<bar>sec\<bar> mod step); m = (if r < 0 then r + step else r) in sec - m)"

definition resolutionSeconds :: "Resolution \<Rightarrow> int" where
  "resolutionSeconds r = BucketSeconds r"

definition closedBucketUpper :: "metrics_cfg \<Rightarrow> int" where
  "closedBucketUpper cfg = alignDown (mc_now cfg - agentCloseGrace cfg) (resolutionSeconds Resolution5m)"

definition bootstrapWindow :: int where "bootstrapWindow = RawBootstrapWindow div second"

definition bootstrapStart :: "metrics_cfg \<Rightarrow> int" where
  "bootstrapStart cfg =
     (let start = alignDown (mc_now cfg - bootstrapWindow) (resolutionSeconds Resolution5m)
      in if start < 0 then 0 else start)"

text \<open>Whether the round logs that the hot window is shorter than the flush assumes.\<close>
definition warnOnRawWindowShortfall :: "metrics_cfg \<Rightarrow> bool" where
  "warnOnRawWindowShortfall cfg \<longleftrightarrow>
     \<not> RawBootstrapWindow \<le> RawWindowSpan (ro_maxPoints (mc_raw cfg)) (agentReportInterval cfg * second)"

section \<open>Statistics\<close>

record FlushStats =
  fs_devices :: int
  fs_written :: int
  fs_skipped :: int
  fs_upserted :: int
  fs_errors :: int

definition zero_stats :: FlushStats where
  "zero_stats = \<lparr>fs_devices = 0, fs_written = 0, fs_skipped = 0, fs_upserted = 0, fs_errors = 0\<rparr>"

definition accrue :: "FlushStats \<Rightarrow> FlushStats \<Rightarrow> FlushStats" where
  "accrue st part =
     \<lparr>fs_devices = fs_devices st + fs_devices part, fs_written = fs_written st + fs_written part,
      fs_skipped = fs_skipped st + fs_skipped part, fs_upserted = fs_upserted st + fs_upserted part,
      fs_errors = fs_errors st + fs_errors part\<rparr>"

section \<open>One bucket\<close>

definition resource_add ::
  "int \<Rightarrow> string \<times> string \<times> string \<Rightarrow> DeviceResource list \<Rightarrow> DeviceResource list" where
  "resource_add d knf out =
     (case knf of (kind, name, fs) \<Rightarrow>
        if name = [] then out
        else if list_ex (same_resource d kind name) out then out
        else out @ [\<lparr>dr_id = 0, dr_device = d, dr_kind = kind, dr_name = name, dr_fs_type = fs, dr_last_seen = 0\<rparr>])"

definition resourceRows :: "int \<Rightarrow> Subs \<Rightarrow> DeviceResource list" where
  "resourceRows d subs =
     fold (resource_add d)
       (map (\<lambda>r. (''disk'', sd_name r, sd_fs_type r)) (sub_disks subs)
        @ map (\<lambda>r. (''disk_io'', si_name r, [])) (sub_diskio subs)
        @ map (\<lambda>r. (''nic'', sni_name r, [])) (sub_nics subs)
        @ map (\<lambda>r. (''sensor'', ss_name r, [])) (sub_sensors subs)) []"

definition resolve :: "int \<Rightarrow> string \<Rightarrow> string \<Rightarrow> int metrics_call" where
  "resolve d kind name =
     bindS (ResolveID d kind name) (\<lambda>i. if i = 0 then failS ErrResourceZero else returnS i)"

definition resolveSubs :: "int \<Rightarrow> int \<Rightarrow> Subs \<Rightarrow> MetricSubRows metrics_call" where
  "resolveSubs d ts subs =
     bindS (mapS (\<lambda>r. bindS (resolve d ''disk'' (sd_name r))
                        (\<lambda>i. returnS \<lparr>rd_disk_id = i, rd_disk_bucket = ts, rd_disk_row = r\<rparr>)) (sub_disks subs)) (\<lambda>ds.
     bindS (mapS (\<lambda>r. bindS (resolve d ''disk_io'' (si_name r))
                        (\<lambda>i. returnS \<lparr>rd_io_id = i, rd_io_bucket = ts, rd_io_row = r\<rparr>)) (sub_diskio subs)) (\<lambda>ios.
     bindS (mapS (\<lambda>r. bindS (resolve d ''nic'' (sni_name r))
                        (\<lambda>i. returnS \<lparr>rd_nic_id = i, rd_nic_bucket = ts, rd_nic_row = r\<rparr>)) (sub_nics subs)) (\<lambda>ns.
     bindS (mapS (\<lambda>r. bindS (resolve d ''sensor'' (ss_name r))
                        (\<lambda>i. returnS \<lparr>rd_sensor_id = i, rd_sensor_bucket = ts, rd_sensor_row = r\<rparr>)) (sub_sensors subs)) (\<lambda>ss.
     returnS \<lparr>sr_disks = ds, sr_diskio = ios, sr_nics = ns, sr_sensors = ss\<rparr>))))"

definition writeBucket :: "int \<Rightarrow> int \<Rightarrow> Wide \<Rightarrow> Subs \<Rightarrow> int metrics_call" where
  "writeBucket d ts wide subs =
     (let resRows = resourceRows d subs in
      bindS (if resRows \<noteq> [] then UpsertSeen resRows ts else returnS ()) (\<lambda>_.
      bindS (resolveSubs d ts subs) (\<lambda>idSubs.
      bindS (liftS (EntityFromWide wide)) (\<lambda>row.
      bindS (WriteBucket row idSubs) (\<lambda>_. returnS (int (length resRows)))))))"

definition IsMissingPartition :: "svc_err \<Rightarrow> bool" where
  "IsMissingPartition e = (case e of ErrExternal (MissingPartition _) \<Rightarrow> True | _ \<Rightarrow> False)"

section \<open>One device\<close>

text \<open>\<open>T/1000/bucketSec*bucketSec\<close> with Go's division.\<close>
definition bucket_of :: "int \<Rightarrow> MetricsSample \<Rightarrow> int" where
  "bucket_of bucketSec p = quot64 (quot64 (ms_t p) 1000) bucketSec * bucketSec"

definition groupByBucket :: "MetricsSample list \<Rightarrow> int \<Rightarrow> int \<Rightarrow> MetricsSample list" where
  "groupByBucket pts bucketSec b = filter (\<lambda>p. bucket_of bucketSec p = b) pts"

record flush_acc =
  fa_last :: int
  fa_written :: int
  fa_skipped :: int
  fa_upserted :: int

text \<open>The loop over the buckets; an error leaves the accumulator where it was.\<close>
fun flush_buckets ::
  "int \<Rightarrow> (int \<Rightarrow> MetricsSample list) \<Rightarrow> int list \<Rightarrow> flush_acc \<Rightarrow> metrics_world
   \<Rightarrow> metrics_world \<times> flush_acc \<times> svc_err option" where
  "flush_buckets d byBucket [] acc w = (w, acc, None)"
| "flush_buckets d byBucket (b # bs) acc w =
     (case Downsample d b (byBucket b) of
        None \<Rightarrow>
          flush_buckets d byBucket bs (acc\<lparr>fa_last := b, fa_skipped := fa_skipped acc + 1\<rparr>) w
      | Some (wide, subs) \<Rightarrow>
          (case writeBucket d b wide subs w of
             (w', Inl e) \<Rightarrow> (w', acc, Some (if IsMissingPartition e then ErrMetricPartitionMissing else e))
           | (w', Inr n) \<Rightarrow>
               flush_buckets d byBucket bs
                 (acc\<lparr>fa_last := b, fa_written := fa_written acc + 1, fa_upserted := fa_upserted acc + n\<rparr>) w'))"

definition flush_readCursor :: "metrics_cfg \<Rightarrow> int \<Rightarrow> int metrics_call" where
  "flush_readCursor cfg d =
     bindS (cs_Read d Resolution5m) (\<lambda>v.
       case v of Some c \<Rightarrow> returnS c | None \<Rightarrow> cs_Init d Resolution5m (bootstrapStart cfg))"

definition flush_writeCursor :: "int \<Rightarrow> int \<Rightarrow> int \<Rightarrow> unit metrics_call" where
  "flush_writeCursor d expected nxt = bindS (cs_Advance d Resolution5m expected nxt) (\<lambda>_. returnS ())"

text \<open>The part of \<open>flushDevice\<close> after the cursor is read.\<close>
definition flush_from ::
  "metrics_cfg \<Rightarrow> int \<Rightarrow> int \<Rightarrow> int \<Rightarrow> metrics_world \<Rightarrow> metrics_world \<times> flush_acc \<times> svc_err option" where
  "flush_from cfg d upper cursor w =
     (let bucketSec = resolutionSeconds Resolution5m; from = cursor + bucketSec;
          acc0 = \<lparr>fa_last = cursor, fa_written = 0, fa_skipped = 0, fa_upserted = 0\<rparr>
      in if upper \<le> from then (w, acc0, None)
         else case BucketRange (mc_dec cfg) (mc_raw cfg) d (from * 1000) (upper * 1000) w of
                (w1, Inl e) \<Rightarrow> (w1, acc0, Some e)
              | (w1, Inr pts) \<Rightarrow>
                  (case flush_buckets d (groupByBucket pts bucketSec) (steps from upper bucketSec) acc0 w1 of
                     (w2, acc, Some e) \<Rightarrow> (w2, acc, Some e)
                   | (w2, acc, None) \<Rightarrow>
                       (case flush_writeCursor d cursor (fa_last acc) w2 of
                          (w3, Inl e) \<Rightarrow> (w3, acc, Some e)
                        | (w3, Inr _) \<Rightarrow> (w3, acc, None))))"

definition flushDevice ::
  "metrics_cfg \<Rightarrow> int \<Rightarrow> int \<Rightarrow> metrics_world \<Rightarrow> metrics_world \<times> flush_acc \<times> svc_err option" where
  "flushDevice cfg d upper w =
     (case flush_readCursor cfg d w of
        (w', Inl e) \<Rightarrow> (w', \<lparr>fa_last = 0, fa_written = 0, fa_skipped = 0, fa_upserted = 0\<rparr>, Some e)
      | (w', Inr cursor) \<Rightarrow> flush_from cfg d upper cursor w')"

section \<open>One round\<close>

text \<open>The loop over the devices: a missing partition ends the round with its sentinel, any other
  failure is counted.\<close>
fun flush_devices ::
  "metrics_cfg \<Rightarrow> int \<Rightarrow> int list \<Rightarrow> FlushStats \<Rightarrow> metrics_world \<Rightarrow> metrics_world \<times> FlushStats \<times> svc_err option" where
  "flush_devices cfg upper [] st w =
     (w, st, if 0 < fs_errors st then Some (ErrFlushPartial (fs_errors st) (fs_devices st)) else None)"
| "flush_devices cfg upper (d # ds) st w =
     (case flushDevice cfg d upper w of
        (w', acc, ferr) \<Rightarrow>
          (let st1 = st\<lparr>fs_written := fs_written st + fa_written acc, fs_skipped := fs_skipped st + fa_skipped acc,
                        fs_upserted := fs_upserted st + fa_upserted acc\<rparr>
           in case ferr of
                None \<Rightarrow> flush_devices cfg upper ds st1 w'
              | Some e \<Rightarrow>
                  (let st2 = st1\<lparr>fs_errors := fs_errors st1 + 1\<rparr>
                   in if e = ErrMetricPartitionMissing then (w', st2, Some e)
                      else flush_devices cfg upper ds st2 w')))"

definition flushDeviceSet ::
  "metrics_cfg \<Rightarrow> int list \<Rightarrow> int \<Rightarrow> metrics_world \<Rightarrow> metrics_world \<times> FlushStats \<times> svc_err option" where
  "flushDeviceSet cfg devices upper w =
     flush_devices cfg upper devices (zero_stats\<lparr>fs_devices := int (length devices)\<rparr>) w"

definition FlushOnce :: "metrics_cfg \<Rightarrow> metrics_world \<Rightarrow> metrics_world \<times> FlushStats \<times> svc_err option" where
  "FlushOnce cfg w =
     (case raw_Index w of
        (w', Inl e) \<Rightarrow> (w', zero_stats, Some e)
      | (w', Inr devices) \<Rightarrow> flushDeviceSet cfg devices (closedBucketUpper cfg) w')"

definition flush_Bootstrap :: "metrics_cfg \<Rightarrow> unit metrics_call" where
  "flush_Bootstrap cfg =
     bindS raw_Index (\<lambda>devices.
     bindS (mapS (\<lambda>d. cs_Init d Resolution5m (bootstrapStart cfg)) devices) (\<lambda>_. returnS ()))"

section \<open>Calls of a round leave the watermark alone\<close>

lemma follows_cases:
  assumes "\<And>x. p = Some x \<Longrightarrow> follows k w (fst (f x))" "p = None \<Longrightarrow> follows k w (fst g)"
  shows "follows k w (fst (case p of None \<Rightarrow> g | Some x \<Rightarrow> f x))"
  using assms by (cases p) auto

lemma BucketRange_follows: "follows k w (fst (BucketRange dec o' d from to w))"
  unfolding BucketRange_def redis_lindex0_def redis_lrange0_def
  by (intro bindS_follows ext_call_follows)
    (auto intro!: bindS_follows ext_call_follows split: option.splits simp: follows_refl)

lemma resolve_follows: "follows k w (fst (resolve d kd n w))"
  unfolding resolve_def by (intro bindS_follows) (auto simp: follows_refl)

lemma resolveSubs_follows: "follows k w (fst (resolveSubs d ts subs w))"
  unfolding resolveSubs_def
  by (intro bindS_follows mapS_follows resolve_follows) (simp_all add: follows_refl)

lemma writeBucket_follows: "follows k w (fst (writeBucket d ts wide subs w))"
  unfolding writeBucket_def Let_def
  by (intro bindS_follows resolveSubs_follows) (auto simp: follows_refl)

lemma flush_buckets_follows: "follows k w (fst (flush_buckets d byBucket bs acc w))"
proof (induction bs arbitrary: acc w)
  case (Cons b bs)
  show ?case
  proof (cases "Downsample d b (byBucket b)")
    case None
    then show ?thesis using Cons by simp
  next
    case (Some ws)
    obtain wide subs where ws: "ws = (wide, subs)" by (cases ws)
    obtain w' r where wr: "writeBucket d b wide subs w = (w', r)" by (cases "writeBucket d b wide subs w")
    have "follows k w w'" using writeBucket_follows [of k w d b wide subs] wr by simp
    then show ?thesis using Some ws wr Cons.IH follows_trans by (cases r) fastforce+
  qed
qed (simp add: follows_refl)

text \<open>The loop stops at a bucket of the interval or where it started.\<close>
lemma flush_buckets_last:
  "flush_buckets d byBucket bs acc w = (w', acc', e) \<Longrightarrow> fa_last acc' = fa_last acc \<or> fa_last acc' \<in> set bs"
proof (induction bs arbitrary: acc w)
  case (Cons b bs)
  then show ?case
    by (fastforce split: option.splits prod.splits sum.splits)
qed simp

lemma flush_buckets_complete:
  "flush_buckets d byBucket bs acc w = (w', acc', None) \<Longrightarrow> bs \<noteq> [] \<Longrightarrow> fa_last acc' = last bs"
proof (induction bs arbitrary: acc w)
  case (Cons b bs)
  show ?case
  proof (cases "bs = []")
    case True
    then show ?thesis using Cons.prems by (auto split: option.splits prod.splits sum.splits)
  next
    case False
    then show ?thesis using Cons by (auto split: option.splits prod.splits sum.splits)
  qed
qed simp

section \<open>The commit\<close>

lemma Advance_cases:
  assumes "CursorKey d r = Inr k" "wm_valid k (rd_kv w)" "rewinds_only k (rd_faults w)"
    and "in_int64 c" "in_int64 n"
  obtains pre where "rd_faults w = pre @ rd_faults (fst (cs_Advance d r c n w))"
    and "wm_valid k (rd_kv (fst (cs_Advance d r c n w)))"
    and "(wm_val k (rd_kv (fst (cs_Advance d r c n w))) = n \<and> c < n \<and> c \<le> wm_val k (rd_kv w)
            \<and> (\<forall>t. in_int64 t \<and> Meanwhile (FRewind k (itoa t)) \<in> set pre \<longrightarrow> c \<le> t))
         \<or> (wm_val k (rd_kv (fst (cs_Advance d r c n w))) \<le> wm_val k (rd_kv w)
            \<and> (\<forall>t. in_int64 t \<and> Meanwhile (FRewind k (itoa t)) \<in> set pre
                  \<longrightarrow> wm_val k (rd_kv (fst (cs_Advance d r c n w))) \<le> t))"
proof -
  obtain kv fs where st: "settle (rd_faults w) (rd_kv w) = (kv, fs)" by fastforce
  obtain pre where pre: "rd_faults w = pre @ fs" and v: "wm_valid k kv" "wm_val k kv \<le> wm_val k (rd_kv w)"
    "\<forall>t. in_int64 t \<and> Meanwhile (FRewind k (itoa t)) \<in> set pre \<longrightarrow> wm_val k kv \<le> t"
    using settle_follows [OF st, of k] assms(2,3) by blast
  have nm: "fs \<noteq> Meanwhile op # rest" for op rest
    using st settle_head [of "rd_faults w" "rd_kv w"] by simp
  let ?w = "fst (cs_Advance d r c n w)"
  have fs': "rd_faults ?w = tl fs"
    and kv': "rd_kv ?w = (if (case fs of LostRequest e # _ \<Rightarrow> True | _ \<Rightarrow> False) then kv
                          else fst (advanceCursorScript k (itoa c) (itoa n) kv))"
    using st assms(1) nm
    by (auto simp: cs_Advance_def eval_script_def bindS_def ext_call_def Let_def liftS_def returnS_def
        split: list.splits fault.splits prod.splits sum.splits)
  have adv: "fst (advanceCursorScript k (itoa c) (itoa n) kv) = (if wm_val k kv = c \<and> c < n then kv(k \<mapsto> itoa n) else kv)"
    using advance_script_valid [OF v(1) assms(4,5)] by simp
  have split: "rd_faults w = (pre @ take 1 fs) @ rd_faults ?w" using pre fs' by (cases fs) auto
  have mem: "Meanwhile op \<in> set (pre @ take 1 fs) \<longleftrightarrow> Meanwhile op \<in> set pre" for op
    using nm by (cases fs) auto
  show ?thesis
  proof (rule that [OF split])
    show "wm_valid k (rd_kv ?w)" using v assms(5) by (auto simp: kv' adv)
    show "(wm_val k (rd_kv ?w) = n \<and> c < n \<and> c \<le> wm_val k (rd_kv w)
            \<and> (\<forall>t. in_int64 t \<and> Meanwhile (FRewind k (itoa t)) \<in> set (pre @ take 1 fs) \<longrightarrow> c \<le> t))
         \<or> (wm_val k (rd_kv ?w) \<le> wm_val k (rd_kv w)
            \<and> (\<forall>t. in_int64 t \<and> Meanwhile (FRewind k (itoa t)) \<in> set (pre @ take 1 fs) \<longrightarrow> wm_val k (rd_kv ?w) \<le> t))"
      using v assms(5) unfolding mem by (auto simp: kv' adv)
  qed
qed

lemma writeCursor_state: "fst (flush_writeCursor d c n w) = fst (cs_Advance d Resolution5m c n w)"
  by (auto simp: flush_writeCursor_def bindS_def returnS_def split: prod.splits sum.splits)

end
