(* ===== verification/FlushSafety.thy ===== *)
theory FlushSafety
  imports Flush
begin

text \<open>
  What a flush round guarantees, under every script of losses and interleavings: the watermark never
  passes a rewind it did not see, it only moves when every closed bucket of the interval was processed,
  and a quiet round over well-formed samples processes them all.
\<close>

section \<open>Calls that keep a table\<close>

lemma ext_call_Inr:
  assumes "ext_call f w = (w', Inr x)"
  obtains kv fs where "f (w\<lparr>rd_kv := kv, rd_faults := fs\<rparr>) = (w', Inr x)"
  using assms by (auto simp: ext_call_def Let_def split: prod.splits list.splits fault.splits)

lemma ext_call_db5:
  assumes "\<And>w. db_5m (fst (f w)) = db_5m w"
  shows "db_5m (fst (ext_call f w)) = db_5m w"
  using assms by (auto simp: ext_call_def Let_def split: prod.splits list.splits fault.splits)

lemma bindS_db5:
  assumes "\<And>w. db_5m (fst (m w)) = db_5m w" "\<And>x w. db_5m (fst (f x w)) = db_5m w"
  shows "db_5m (fst (bindS m f w)) = db_5m w"
proof -
  obtain w' r where m: "m w = (w', r)" by (cases "m w")
  then have "db_5m w' = db_5m w" using assms(1) [of w] by simp
  then show ?thesis using m assms(2) by (cases r) (auto simp: bindS_def)
qed

lemma mapS_db5:
  assumes "\<And>x w. db_5m (fst (f x w)) = db_5m w"
  shows "db_5m (fst (mapS f xs w)) = db_5m w"
proof (induction xs arbitrary: w)
  case (Cons x xs)
  then show ?case by (simp, intro bindS_db5) (simp_all add: assms)
qed simp

lemma reads_db5 [simp]:
  "db_5m (fst (BucketRange dec o' d from to w)) = db_5m w"
  "db_5m (fst (UpsertSeen rows ts w)) = db_5m w"
  "db_5m (fst (ResolveID d kd n w)) = db_5m w"
proof -
  show "db_5m (fst (BucketRange dec o' d from to w)) = db_5m w"
    unfolding BucketRange_def redis_lindex0_def redis_lrange0_def
    by (intro bindS_db5; auto intro!: bindS_db5 ext_call_db5 split: option.splits)
  show "db_5m (fst (UpsertSeen rows ts w)) = db_5m w"
    by (auto simp: UpsertSeen_def intro!: ext_call_db5 split: prod.splits)
  show "db_5m (fst (ResolveID d kd n w)) = db_5m w"
    by (auto simp: ResolveID_def intro!: ext_call_db5)
qed

lemma BucketRange_db5:
  assumes "BucketRange dec o' d from to (w :: metrics_world) = (w1, r)"
  shows "db_5m w1 = db_5m w"
  using reads_db5(1) [of dec o' d "from" to w] by (simp only: assms fst_conv)

lemma resolve_db5 [simp]: "db_5m (fst (resolve d kd n w)) = db_5m w"
  unfolding resolve_def by (intro bindS_db5) auto

lemma resolveSubs_db5 [simp]: "db_5m (fst (resolveSubs d ts subs w)) = db_5m w"
  unfolding resolveSubs_def by (intro bindS_db5 mapS_db5) simp_all

lemma eval_script_db5 [simp]: "db_5m (fst (eval_script sc w)) = db_5m w"
  unfolding eval_script_def by (intro ext_call_db5) (simp split: prod.splits)

lemma Advance_db5 [simp]: "db_5m (fst (cs_Advance d r c n w)) = db_5m w"
  unfolding cs_Advance_def by (intro bindS_db5) simp_all

lemma writeCursor_db5 [simp]: "db_5m (fst (flush_writeCursor d c n w)) = db_5m w"
  unfolding writeCursor_state by simp

lemma bindS_Inr:
  assumes "bindS m f w = (w', Inr y)"
  obtains v x where "m w = (v, Inr x)" "f x v = (w', Inr y)"
  using assms by (auto simp: bindS_def split: prod.splits sum.splits)

lemma WriteBucket_Inr: "WriteBucket r subs w = (w', Inr x) \<Longrightarrow> db_5m w' = upsertWide r (db_5m w)"
  unfolding WriteBucket_def by (erule ext_call_Inr) auto

lemma writeBucket_Inr:
  assumes "writeBucket d b wide subs w = (w', Inr n)"
  shows "db_5m w' = upsertWide wide (db_5m w) \<and> list_all is_finite (wide_floats wide)"
proof -
  let ?up = "if resourceRows d subs \<noteq> [] then UpsertSeen (resourceRows d subs) b else returnS ()"
  obtain w1 u where 1: "?up w = (w1, Inr u)"
    and r1: "bindS (resolveSubs d b subs) (\<lambda>idSubs. bindS (liftS (EntityFromWide wide)) (\<lambda>row.
      bindS (WriteBucket row idSubs) (\<lambda>_. returnS (int (length (resourceRows d subs)))))) w1 = (w', Inr n)"
    using bindS_Inr [OF assms [unfolded writeBucket_def Let_def]] by blast
  obtain w2 ids where 2: "resolveSubs d b subs w1 = (w2, Inr ids)"
    and r2: "bindS (liftS (EntityFromWide wide)) (\<lambda>row.
      bindS (WriteBucket row ids) (\<lambda>_. returnS (int (length (resourceRows d subs))))) w2 = (w', Inr n)"
    using bindS_Inr [OF r1] by blast
  have fin: "EntityFromWide wide = Inr wide" "list_all is_finite (wide_floats wide)"
    using r2 by (auto simp: EntityFromWide_def split: if_splits)
  have "\<exists>u. WriteBucket wide ids w2 = (w', Inr u)"
    using r2 fin(1) by (auto elim: bindS_Inr)
  then have "db_5m w' = upsertWide wide (db_5m w2)" using WriteBucket_Inr by blast
  moreover have "db_5m w2 = db_5m w1" using resolveSubs_db5 [of d b subs w1] 2 by simp
  moreover have "db_5m w1 = db_5m w"
  proof (cases "resourceRows d subs = []")
    case False
    then have u: "UpsertSeen (resourceRows d subs) b w = (w1, Inr u)" using 1 by simp
    show ?thesis using reads_db5(2) [of "resourceRows d subs" b w] unfolding u by simp
  qed (use 1 in simp)
  ultimately show ?thesis using fin by simp
qed

lemma Downsample_key: "Downsample d b pts = Some (wide, subs) \<Longrightarrow> w_device wide = d \<and> w_bucket wide = b"
  by (auto simp: Downsample_def acc_finish_def acc_wide_def Let_def split: if_splits)

lemma Downsample_None: "Downsample d b pts = None \<longleftrightarrow> pts = []"
proof -
  have "wa_samples (fold acc_add ps a) = wa_samples a + int (length ps)" for ps a
  proof (induction ps arbitrary: a)
    case (Cons p ps)
    have avg: "wa_samples (fold acc_avg kvs a) = wa_samples a" for kvs a
      by (induction kvs arbitrary: a) (auto simp: acc_avg_def split: option.splits)
    have "wa_samples (acc_add p a) = wa_samples a + 1"
      by (simp add: acc_add_def acc_details_def acc_last_def avg)
    then show ?case using Cons by simp
  qed simp
  then show ?thesis by (auto simp: Downsample_def acc_finish_def Let_def newWideAcc_def)
qed


section \<open>What the bucket loop writes\<close>

text \<open>The row a bucket should have: that of its samples, or the old one when it has none.\<close>
definition row_of :: "int \<Rightarrow> (int \<Rightarrow> MetricsSample list) \<Rightarrow> int \<Rightarrow> Wide list \<Rightarrow> Wide option" where
  "row_of d byBucket b tbl =
     (case Downsample d b (byBucket b) of None \<Rightarrow> wide_at d b tbl | Some (wide, _) \<Rightarrow> Some wide)"

lemma writeBucket_db5_any:
  assumes "writeBucket d b wide subs w = (w', r)" "w_device wide = d" "w_bucket wide = b" "d' \<noteq> d \<or> b' \<noteq> b"
  shows "wide_at d' b' (db_5m w') = wide_at d' b' (db_5m w)"
proof -
  have one: "wide_at d' b' (db_5m (fst (WriteBucket row ids v))) = wide_at d' b' (db_5m v)" if "row = wide" for row ids v
    using assms(2,3,4) that
    by (auto simp: WriteBucket_def ext_call_def Let_def split: prod.splits list.splits fault.splits)
  have bnd: "wide_at d' b' (db_5m (fst (bindS m f v))) = wide_at d' b' (db_5m v)"
    if "\<And>v. db_5m (fst (m v)) = db_5m v" "\<And>x v. wide_at d' b' (db_5m (fst (f x v))) = wide_at d' b' (db_5m v)"
    for m :: "'a metrics_call" and f :: "'a \<Rightarrow> int metrics_call" and v
  proof -
    obtain v' r where m: "m v = (v', r)" by (cases "m v")
    then have "db_5m v' = db_5m v" using that(1) [of v] by simp
    then show ?thesis using m that(2) by (cases r) (auto simp: bindS_def)
  qed
  have fin: "wide_at d' b' (db_5m (fst (bindS (WriteBucket row ids) (\<lambda>_. returnS (n :: int)) v)))
      = wide_at d' b' (db_5m v)" if "row = wide" for row ids v n
  proof -
    obtain v' r where m: "WriteBucket row ids v = (v', r)" by (cases "WriteBucket row ids v")
    then show ?thesis using one [OF that, of ids v] by (cases r) (simp_all add: bindS_def)
  qed
  have "wide_at d' b' (db_5m (fst (writeBucket d b wide subs w))) = wide_at d' b' (db_5m w)"
  proof (cases "EntityFromWide wide")
    case (Inl e)
    then show ?thesis unfolding writeBucket_def Let_def Inl bindS_simps
      by (intro bnd) (auto split: if_splits)
  next
    case (Inr row)
    then have row: "row = wide" by (simp add: EntityFromWide_def split: if_splits)
    show ?thesis unfolding writeBucket_def Let_def Inr bindS_simps
      by (rule bnd [OF _ bnd]) (auto simp: fin row)
  qed
  then show ?thesis using assms(1) by simp
qed

lemma flush_buckets_others:
  "flush_buckets d byBucket bs acc w = (w', acc', e) \<Longrightarrow> d' \<noteq> d \<or> b' \<notin> set bs \<Longrightarrow>
   wide_at d' b' (db_5m w') = wide_at d' b' (db_5m w)"
proof (induction bs arbitrary: acc w)
  case (Cons b bs)
  show ?case
  proof (cases "Downsample d b (byBucket b)")
    case None
    then show ?thesis using Cons by auto
  next
    case (Some ws)
    obtain wide subs where ws: "ws = (wide, subs)" by (cases ws)
    obtain v r where v: "writeBucket d b wide subs w = (v, r)" by (cases "writeBucket d b wide subs w")
    have "wide_at d' b' (db_5m v) = wide_at d' b' (db_5m w)"
      using writeBucket_db5_any [OF v] Downsample_key Some ws Cons.prems(2) by auto
    then show ?thesis using Cons Some ws v by (cases r) auto
  qed
qed simp

lemma flush_buckets_rows:
  "flush_buckets d byBucket bs acc w = (w', acc', None) \<Longrightarrow> distinct bs \<Longrightarrow> b \<in> set bs \<Longrightarrow>
   wide_at d b (db_5m w') = row_of d byBucket b (db_5m w)"
proof (induction bs arbitrary: acc w)
  case (Cons c bs)
  show ?case
  proof (cases "Downsample d c (byBucket c)")
    case None
    then have s: "flush_buckets d byBucket bs (acc\<lparr>fa_last := c, fa_skipped := fa_skipped acc + 1\<rparr>) w = (w', acc', None)"
      using Cons.prems(1) by simp
    show ?thesis
    proof (cases "b = c")
      case True
      then show ?thesis using flush_buckets_others [OF s] Cons.prems(2) None by (simp add: row_of_def)
    next
      case False
      then show ?thesis using Cons.IH [OF s] Cons.prems by simp
    qed
  next
    case (Some ws)
    obtain wide subs where ws: "ws = (wide, subs)" by (cases ws)
    obtain v n where v: "writeBucket d c wide subs w = (v, Inr n)"
      and s: "flush_buckets d byBucket bs
          (acc\<lparr>fa_last := c, fa_written := fa_written acc + 1, fa_upserted := fa_upserted acc + n\<rparr>) v = (w', acc', None)"
      using Cons.prems(1) Some ws by (auto split: prod.splits sum.splits)
    have k: "w_device wide = d" "w_bucket wide = c" using Downsample_key Some ws by auto
    show ?thesis
    proof (cases "b = c")
      case True
      have "wide_at d b (db_5m w') = wide_at d b (db_5m v)"
        using flush_buckets_others [OF s] True Cons.prems(2) by simp
      also have "\<dots> = Some wide" using writeBucket_Inr [OF v] k True by simp
      finally show ?thesis using True Some ws by (simp add: row_of_def)
    next
      case False
      have "wide_at d b (db_5m w') = row_of d byBucket b (db_5m v)"
        using Cons.IH [OF s] Cons.prems False by simp
      also have "\<dots> = row_of d byBucket b (db_5m w)"
        using writeBucket_db5_any [OF v k, of d b] False by (simp add: row_of_def split: option.split)
      finally show ?thesis .
    qed
  qed
qed simp

section \<open>The shape of a round on one device\<close>

lemma flush_from_shape:
  assumes "flush_from cfg d upper cursor w = (w', acc, err)"
  obtains (still) "follows k w w'" "db_5m w' = db_5m w \<or> err \<noteq> None"
  | (commit) w1 pts w2 where
      "BucketRange (mc_dec cfg) (mc_raw cfg) d ((cursor + 300) * 1000) (upper * 1000) w = (w1, Inr pts)"
      "flush_buckets d (groupByBucket pts 300) (steps (cursor + 300) upper 300)
         \<lparr>fa_last = cursor, fa_written = 0, fa_skipped = 0, fa_upserted = 0\<rparr> w1 = (w2, acc, None)"
      "cursor + 300 < upper" "follows k w w2" "w' = fst (cs_Advance d Resolution5m cursor (fa_last acc) w2)"
proof -
  let ?acc0 = "\<lparr>fa_last = cursor, fa_written = 0, fa_skipped = 0, fa_upserted = 0\<rparr>"
  have R: "resolutionSeconds Resolution5m = 300"
    by (simp add: resolutionSeconds_def BucketSeconds_def Resolution5m_def Resolution1h_def)
  show thesis
  proof (cases "upper \<le> cursor + 300")
    case True
    then show ?thesis using assms still by (simp add: flush_from_def R follows_refl)
  next
    case False
    obtain w1 r where br: "BucketRange (mc_dec cfg) (mc_raw cfg) d ((cursor + 300) * 1000) (upper * 1000) w = (w1, r)"
      by fastforce
    have f1: "follows k w w1" using BucketRange_follows [of k w] br by (metis fst_conv)
    show ?thesis
    proof (cases r)
      case (Inl e)
      then have "w' = w1 \<and> err \<noteq> None" using assms False br by (auto simp: flush_from_def R)
      then show ?thesis using still f1 by blast
    next
      case (Inr pts)
      obtain w2 acc2 e where fb: "flush_buckets d (groupByBucket pts 300) (steps (cursor + 300) upper 300) ?acc0 w1 = (w2, acc2, e)"
        by (cases "flush_buckets d (groupByBucket pts 300) (steps (cursor + 300) upper 300) ?acc0 w1") auto
      have "follows k w1 w2" using flush_buckets_follows [of k w1] fb by (metis fst_conv)
      then have f2: "follows k w w2" using f1 follows_trans by blast
      show ?thesis
      proof (cases e)
        case (Some x)
        then have "w' = w2 \<and> err \<noteq> None" using assms False br fb Inr by (auto simp: flush_from_def R)
        then show ?thesis using still f2 by blast
      next
        case None
        have "w' = fst (flush_writeCursor d cursor (fa_last acc2) w2) \<and> acc = acc2"
          using assms False br fb Inr None
          by (auto simp: flush_from_def R split: prod.splits sum.splits)
        then show ?thesis using commit [OF br [unfolded Inr]] fb None f2 False writeCursor_state by auto
      qed
    qed
  qed
qed


section \<open>Properties\<close>

lemma steps_last:
  "0 < step \<Longrightarrow> lo < hi \<Longrightarrow> steps lo hi step \<noteq> [] \<and> last (steps lo hi step) \<in> set (steps lo hi step)"
  by (simp add: steps_Cons)

text \<open>C3: a round cannot undo a rewind. Let a round read the watermark c and work off its buckets while
  other processes rewind it, under any losses: once a rewind to t below c has run, the watermark is at
  most t when the round ends. The buckets an operator asked to replay are never skipped.\<close>
theorem flush_never_undoes_rewind:
  assumes "CursorKey d Resolution5m = Inr k" "wm_valid k (rd_kv w)" "rewinds_only k (rd_faults w)"
    and "in_int64 cursor" "in_int64 upper"
    and "flush_from cfg d upper cursor w = (w', acc, err)"
    and "rd_faults w = pre @ rd_faults w'" "Meanwhile (FRewind k (itoa t)) \<in> set pre"
    and "in_int64 t" "t < cursor"
  shows "wm_val k (rd_kv w') \<le> t"
  using assms(6)
proof (cases rule: flush_from_shape [of cfg d upper cursor w w' acc err k])
  case still
  obtain q where "rd_faults w = q @ rd_faults w'"
    and "\<forall>t. in_int64 t \<and> Meanwhile (FRewind k (itoa t)) \<in> set q \<longrightarrow> wm_val k (rd_kv w') \<le> t"
    using still(1) assms(2,3) unfolding follows_def by blast
  then show ?thesis using assms(7,8,9) by auto
next
  case (commit w1 pts w2)
  let ?n = "fa_last acc"
  obtain q where q: "rd_faults w = q @ rd_faults w2" "wm_valid k (rd_kv w2)" "wm_val k (rd_kv w2) \<le> wm_val k (rd_kv w)"
    "\<forall>t. in_int64 t \<and> Meanwhile (FRewind k (itoa t)) \<in> set q \<longrightarrow> wm_val k (rd_kv w2) \<le> t"
    using commit(4) assms(2,3) unfolding follows_def by blast
  have r: "rewinds_only k (rd_faults w2)" using assms(3) q(1) by (simp add: rewinds_only_append)
  have n: "in_int64 ?n"
    using flush_buckets_last [OF commit(2)] assms(4,5) by (auto simp: steps_mem in_int64_def)
  obtain q2 where q2: "rd_faults w2 = q2 @ rd_faults w'" and "wm_valid k (rd_kv w')"
    and res: "(wm_val k (rd_kv w') = ?n \<and> cursor < ?n \<and> cursor \<le> wm_val k (rd_kv w2)
            \<and> (\<forall>t. in_int64 t \<and> Meanwhile (FRewind k (itoa t)) \<in> set q2 \<longrightarrow> cursor \<le> t))
         \<or> (wm_val k (rd_kv w') \<le> wm_val k (rd_kv w2)
            \<and> (\<forall>t. in_int64 t \<and> Meanwhile (FRewind k (itoa t)) \<in> set q2 \<longrightarrow> wm_val k (rd_kv w') \<le> t))"
    by (rule Advance_cases [OF assms(1) q(2) r assms(4) n, folded commit(5)])
  have "pre = q @ q2" using assms(7) q(1) q2 by simp
  then show ?thesis using res q(4) assms(8,9,10) by fastforce
qed

text \<open>A rewind to 300 runs between the read of the samples and the commit of a round that read 600: the
  round leaves the watermark at 300.\<close>
definition demo_cfg :: metrics_cfg where
  "demo_cfg = \<lparr>mc_now = 3000, mc_report = 10, mc_retention = 30, mc_rescan = 24, mc_max_hours = 48,
     mc_raw = \<lparr>ro_step = 10000000000, ro_maxPoints = 10\<rparr>, mc_dec = demo_dec\<rparr>"

definition demo_world :: "fault list \<Rightarrow> int \<Rightarrow> int list \<Rightarrow> metrics_world" where
  "demo_world fs cur ts =
     \<lparr>rd_kv = [historyKeyPrefix @ ''7:cursor_5m'' \<mapsto> itoa cur], rd_sets = (\<lambda>_. []),
      rd_lists = (\<lambda>_. [])(historyKey 7 := map itoa ts), rd_faults = fs,
      db_5m = [], db_1h = [], db_disk = [], db_diskio = [], db_nic = [], db_sensor = [],
      db_resources = [], db_next_id = 1\<rparr>"

definition demo_rewind :: "fault list" where
  "demo_rewind = [Works, Meanwhile (FRewind (historyKeyPrefix @ ''7:cursor_5m'') (itoa 300)), Works]"

lemma flush_never_undoes_rewind_witness:
  "wm_val (historyKeyPrefix @ ''7:cursor_5m'')
     (rd_kv (fst (flush_from demo_cfg 7 1500 600 (demo_world demo_rewind 600 [])))) \<le> 300"
proof -
  obtain w' acc err where f: "flush_from demo_cfg 7 1500 600 (demo_world demo_rewind 600 []) = (w', acc, err)"
    by (cases "flush_from demo_cfg 7 1500 600 (demo_world demo_rewind 600 [])") auto
  have fl: "rd_faults w' = []"
  proof -
    have "rd_faults (fst (flush_from demo_cfg 7 1500 600 (demo_world demo_rewind 600 []))) = []" by code_simp
    then show ?thesis using f by simp
  qed
  have "wm_val (historyKeyPrefix @ ''7:cursor_5m'') (rd_kv w') \<le> 300"
  proof (rule flush_never_undoes_rewind [OF _ _ _ _ _ f, where pre = demo_rewind])
    show "CursorKey 7 Resolution5m = Inr (historyKeyPrefix @ ''7:cursor_5m'')" by code_simp
    show "wm_valid (historyKeyPrefix @ ''7:cursor_5m'') (rd_kv (demo_world demo_rewind 600 []))" by code_simp
    show "rewinds_only (historyKeyPrefix @ ''7:cursor_5m'') (rd_faults (demo_world demo_rewind 600 []))" by code_simp
    show "rd_faults (demo_world demo_rewind 600 []) = demo_rewind @ rd_faults w'" by (simp add: demo_world_def fl)
  qed (auto simp: in_int64_def demo_rewind_def)
  then show ?thesis using f by simp
qed


text \<open>C4: the watermark of the flush says what was processed. However calls are lost and other processes
  rewind, when a round raised the watermark it had read every sample of the interval, the new value is
  the last closed bucket, and every bucket of the interval that has samples has its row in the table.\<close>
theorem flush_advance_complete:
  assumes "CursorKey d Resolution5m = Inr k" "wm_valid k (rd_kv w)" "rewinds_only k (rd_faults w)"
    and "in_int64 cursor" "in_int64 upper"
    and "flush_from cfg d upper cursor w = (w', acc, err)"
    and "wm_val k (rd_kv w) < wm_val k (rd_kv w')"
  shows "\<exists>pts. snd (BucketRange (mc_dec cfg) (mc_raw cfg) d ((cursor + 300) * 1000) (upper * 1000) w) = Inr pts
     \<and> wm_val k (rd_kv w') = last (steps (cursor + 300) upper 300)
     \<and> (\<forall>b\<in>set (steps (cursor + 300) upper 300).
          wide_at d b (db_5m w') = row_of d (groupByBucket pts 300) b (db_5m w))"
  using assms(6)
proof (cases rule: flush_from_shape [of cfg d upper cursor w w' acc err k])
  case still
  then have "wm_val k (rd_kv w') \<le> wm_val k (rd_kv w)"
    using assms(2,3) unfolding follows_def by blast
  then show ?thesis using assms(7) by simp
next
  case (commit w1 pts w2)
  let ?bs = "steps (cursor + 300) upper 300"
  obtain q where q: "rd_faults w = q @ rd_faults w2" "wm_valid k (rd_kv w2)" "wm_val k (rd_kv w2) \<le> wm_val k (rd_kv w)"
    using commit(4) assms(2,3) unfolding follows_def by blast
  have r: "rewinds_only k (rd_faults w2)" using assms(3) q(1) by (simp add: rewinds_only_append)
  have n: "in_int64 (fa_last acc)"
    using flush_buckets_last [OF commit(2)] assms(4,5) by (auto simp: steps_mem in_int64_def)
  obtain q2 where "rd_faults w2 = q2 @ rd_faults w'" and "wm_valid k (rd_kv w')"
    and res: "(wm_val k (rd_kv w') = fa_last acc \<and> cursor < fa_last acc \<and> cursor \<le> wm_val k (rd_kv w2)
            \<and> (\<forall>t. in_int64 t \<and> Meanwhile (FRewind k (itoa t)) \<in> set q2 \<longrightarrow> cursor \<le> t))
         \<or> (wm_val k (rd_kv w') \<le> wm_val k (rd_kv w2)
            \<and> (\<forall>t. in_int64 t \<and> Meanwhile (FRewind k (itoa t)) \<in> set q2 \<longrightarrow> wm_val k (rd_kv w') \<le> t))"
    by (rule Advance_cases [OF assms(1) q(2) r assms(4) n, folded commit(5)])
  then have "wm_val k (rd_kv w') = fa_last acc" using assms(7) q(3) by linarith
  moreover have "fa_last acc = last ?bs"
    using flush_buckets_complete [OF commit(2)] steps_last [of 300 "cursor + 300" upper] commit(3) by simp
  moreover have "db_5m w1 = db_5m w" by (rule BucketRange_db5 [OF commit(1)])
  then have "wide_at d b (db_5m w') = row_of d (groupByBucket pts 300) b (db_5m w)" if "b \<in> set ?bs" for b
    using flush_buckets_rows [OF commit(2) steps_distinct that] commit(5) by (simp add: row_of_def split: option.split)
  ultimately show ?thesis using commit(1) by (intro exI [of _ pts]) auto
qed

lemma flush_advance_complete_witness:
  "wm_val (historyKeyPrefix @ ''7:cursor_5m'') (rd_kv (fst (flush_from demo_cfg 7 1500 600 (demo_world [] 600 [])))) = 1200
   \<and> wide_at 7 1200 (db_5m (fst (flush_from demo_cfg 7 1500 600 (demo_world [] 600 [])))) = None"
proof -
  let ?k = "historyKeyPrefix @ ''7:cursor_5m''" and ?w = "demo_world [] 600 []"
  obtain w' acc err where f: "flush_from demo_cfg 7 1500 600 ?w = (w', acc, err)"
    by (cases "flush_from demo_cfg 7 1500 600 ?w") auto
  have v: "wm_val ?k (rd_kv (fst (flush_from demo_cfg 7 1500 600 ?w))) = 1200" by code_simp
  have st: "steps (600 + 300) 1500 300 = [900, 1200]" by (simp add: steps_Cons)
  have c: "CursorKey 7 Resolution5m = Inr ?k" "wm_valid ?k (rd_kv ?w)" "rewinds_only ?k (rd_faults ?w)"
    "wm_val ?k (rd_kv ?w) = 600" "snd (BucketRange (mc_dec demo_cfg) (mc_raw demo_cfg) 7 ((600 + 300) * 1000) (1500 * 1000) ?w) = Inr []"
    by code_simp+
  have "wm_val ?k (rd_kv ?w) < wm_val ?k (rd_kv w')" using v c(4) f by simp
  then have "\<exists>pts. snd (BucketRange (mc_dec demo_cfg) (mc_raw demo_cfg) 7 ((600 + 300) * 1000) (1500 * 1000) ?w) = Inr pts
     \<and> wm_val ?k (rd_kv w') = last (steps (600 + 300) 1500 300)
     \<and> (\<forall>b\<in>set (steps (600 + 300) 1500 300). wide_at 7 b (db_5m w') = row_of 7 (groupByBucket pts 300) b (db_5m ?w))"
    by (intro flush_advance_complete [OF c(1-3) _ _ f]) (simp_all add: in_int64_def)
  then have "wide_at 7 1200 (db_5m w') = row_of 7 (groupByBucket [] 300) 1200 (db_5m ?w)"
    unfolding c(5) st by auto
  also have "\<dots> = None" by (simp add: row_of_def Downsample_def groupByBucket_def demo_world_def wide_at_def)
  finally show ?thesis using v f by simp
qed

end
