(* ===== verification/Rollup.thy ===== *)
theory Rollup
  imports FlushSafety
begin

text \<open>
  The hour rollup: \<open>src/uni_core/internal/service/agent_metrics_rollup.go\<close>. A round of a device first
  recomputes the hours of its repair set, then works off the closed hours above its watermark within a
  quota, moves the watermark by compare-and-set, checks the rewind marker, and fills late holes. The
  repair set is a Redis set of decimal hour starts; the log lines are left out.
\<close>

section \<open>Parameters\<close>

definition defaultMaxRepairHours :: int where "defaultMaxRepairHours = 720"

definition defaultEmptyHourGrace :: int where "defaultEmptyHourGrace = 2 * hour"

definition defaultRollupRescanHours :: int where "defaultRollupRescanHours = 24"

definition defaultRollupMaxHoursPerRound :: int where "defaultRollupMaxHoursPerRound = 48"

definition maxHoursPerRound :: "metrics_cfg \<Rightarrow> int" where
  "maxHoursPerRound cfg = (let n = mc_max_hours cfg in if n \<le> 0 then defaultRollupMaxHoursPerRound else n)"

definition rescanWindowHours :: "metrics_cfg \<Rightarrow> int" where
  "rescanWindowHours cfg = (let n = mc_rescan cfg in if n \<le> 0 then defaultRollupRescanHours else n)"

definition closedHourUpper :: "metrics_cfg \<Rightarrow> int" where
  "closedHourUpper cfg = alignDown (mc_now cfg - agentCloseGrace cfg) (resolutionSeconds Resolution1h)"

definition rollupBootstrapWindow :: int where "rollupBootstrapWindow = 180 * 24 * hour"

text \<open>The time since the end of the hour, a Go duration in nanoseconds.\<close>
definition hour_age :: "metrics_cfg \<Rightarrow> int \<Rightarrow> int" where
  "hour_age cfg h = wrap64 ((mc_now cfg - (h + resolutionSeconds Resolution1h)) * second)"

definition emptyHourWithinGrace :: "metrics_cfg \<Rightarrow> int \<Rightarrow> bool" where
  "emptyHourWithinGrace cfg h \<longleftrightarrow> hour_age cfg h < defaultEmptyHourGrace"

definition hourBeyondRetention :: "metrics_cfg \<Rightarrow> int \<Rightarrow> bool" where
  "hourBeyondRetention cfg h \<longleftrightarrow> wrap64 (wrap64 (agentHistoryRetentionDays cfg * 24) * hour) \<le> hour_age cfg h"

section \<open>Statistics\<close>

record RollupStats =
  rs_scanned :: int
  rs_written :: int
  rs_repaired :: int
  rs_skipped :: int
  rs_reclaimed :: int
  rs_rescanned :: int
  rs_backfilled :: int
  rs_deferred :: int
  rs_caughtUp :: int
  rs_errors :: int

definition zero_rstats :: RollupStats where
  "zero_rstats = \<lparr>rs_scanned = 0, rs_written = 0, rs_repaired = 0, rs_skipped = 0, rs_reclaimed = 0,
     rs_rescanned = 0, rs_backfilled = 0, rs_deferred = 0, rs_caughtUp = 0, rs_errors = 0\<rparr>"

definition countEmptyHour :: "metrics_cfg \<Rightarrow> int \<Rightarrow> RollupStats \<Rightarrow> RollupStats" where
  "countEmptyHour cfg h st =
     (if hourBeyondRetention cfg h then st\<lparr>rs_reclaimed := rs_reclaimed st + 1\<rparr>
      else st\<lparr>rs_skipped := rs_skipped st + 1\<rparr>)"

section \<open>The repair set\<close>

record repairMember =
  rm_raw :: string
  rm_hour :: int
  rm_ok :: bool

definition repairAge :: "repairMember \<Rightarrow> int" where
  "repairAge m = (if rm_ok m then rm_hour m else - (2 ^ 63))"

text \<open>\<open>ParseInt\<close> gives 0, or the nearest bound, with its error; the hour of such a member is never used.\<close>
definition to_member :: "string \<Rightarrow> repairMember" where
  "to_member s =
     (case ParseInt s of
        None \<Rightarrow> \<lparr>rm_raw = s, rm_hour = 0, rm_ok = False\<rparr>
      | Some h \<Rightarrow> \<lparr>rm_raw = s, rm_hour = h, rm_ok = True\<rparr>)"

definition repairMembersByAge :: "string list \<Rightarrow> repairMember list" where
  "repairMembersByAge members = sort_key repairAge (map to_member members)"

definition repairHours :: "int \<Rightarrow> int \<Rightarrow> int list metrics_call" where
  "repairHours d upper =
     bindS (redis_smembers (RepairSetKey d)) (\<lambda>members.
     returnS (map rm_hour (filter (\<lambda>m. rm_ok m \<and> rm_hour m < upper) (repairMembersByAge members))))"

definition addRepairHour :: "int \<Rightarrow> int \<Rightarrow> unit metrics_call" where
  "addRepairHour d h =
     (let key = RepairSetKey d in
      bindS (redis_sadd key (itoa h)) (\<lambda>_.
      bindS (redis_scard key) (\<lambda>n.
        if n \<le> defaultMaxRepairHours then returnS ()
        else bindS (redis_smembers key) (\<lambda>members.
               let oldest = repairMembersByAge members;
                   drop = min (n - defaultMaxRepairHours) (int (length oldest));
                   victims = map rm_raw (take (nat drop) oldest)
               in if victims = [] then returnS () else redis_srem key victims))))"

definition dropRepairHour :: "int \<Rightarrow> int \<Rightarrow> unit metrics_call" where
  "dropRepairHour d h = redis_srem (RepairSetKey d) [itoa h]"

section \<open>One hour\<close>

text \<open>The result is whether the hour row was written and whether the hour had no rows.\<close>
definition rollupHour :: "int \<Rightarrow> int \<Rightarrow> bool \<Rightarrow> (bool \<times> bool) metrics_call" where
  "rollupHour d h fromRepair =
     bindS (ReadWideRows Metric5m d h (h + resolutionSeconds Resolution1h - resolutionSeconds Resolution5m)) (\<lambda>rows.
       if rows = [] then
         bindS (if fromRepair then dropRepairHour d h else returnS ()) (\<lambda>_. returnS (False, True))
       else
         bindS (mapS (\<lambda>e. liftS (WideFromEntity e)) rows) (\<lambda>wides.
         (case RollupToHour h wides of
            (wide, info) \<Rightarrow>
              bindS (liftS (EntityFromWide wide)) (\<lambda>row.
              bindS (WriteHour row) (\<lambda>_.
              bindS (if ri_needRepair info then addRepairHour d h
                     else if fromRepair then dropRepairHour d h else returnS ()) (\<lambda>_.
              returnS (True, False)))))))"

section \<open>The watermark\<close>

definition earliestFiveMinTS :: "int \<Rightarrow> int \<Rightarrow> int option metrics_call" where
  "earliestFiveMinTS d upper =
     (if upper \<le> 0 then returnS None
      else bindS (ReadWideRows Metric5m d 0 upper) (\<lambda>rows.
             returnS (case rows of [] \<Rightarrow> None | r # _ \<Rightarrow> Some (w_bucket r))))"

definition bootstrapCursor :: "metrics_cfg \<Rightarrow> int \<Rightarrow> int \<Rightarrow> int metrics_call" where
  "bootstrapCursor cfg d upper =
     (let hourSec = resolutionSeconds Resolution1h;
          start0 = alignDown (mc_now cfg - rollupBootstrapWindow div second) hourSec;
          start1 = (if start0 < 0 then 0 else start0)
      in bindS (earliestFiveMinTS d upper) (\<lambda>e.
           let start = (case e of None \<Rightarrow> start1
                        | Some ts \<Rightarrow> let h = alignDown ts hourSec in if start1 < h then h else start1)
           in returnS (if start \<le> hourSec then 0 else start - hourSec)))"

definition rollup_readCursor :: "metrics_cfg \<Rightarrow> int \<Rightarrow> int \<Rightarrow> int metrics_call" where
  "rollup_readCursor cfg d upper =
     bindS (cs_Read d Resolution1h) (\<lambda>v.
       case v of
         Some c \<Rightarrow> returnS c
       | None \<Rightarrow> bindS (bootstrapCursor cfg d upper) (\<lambda>start. cs_Init d Resolution1h start))"

definition rollup_writeCursor :: "int \<Rightarrow> int \<Rightarrow> int \<Rightarrow> unit metrics_call" where
  "rollup_writeCursor d expected nxt = bindS (cs_Advance d Resolution1h expected nxt) (\<lambda>_. returnS ())"

definition rewindCaughtUp :: "int \<Rightarrow> int \<Rightarrow> int \<Rightarrow> bool" where
  "rewindCaughtUp cursor target deferred \<longleftrightarrow> target \<le> cursor \<and> deferred = 0"

text \<open>An error of the marker's calls is logged only.\<close>
definition catchUpRewindMarker :: "int \<Rightarrow> int \<Rightarrow> int \<Rightarrow> metrics_world \<Rightarrow> metrics_world \<times> bool" where
  "catchUpRewindMarker d cursor deferred w =
     (case cs_PendingRewind d Resolution1h w of
        (w1, Inr (Some target)) \<Rightarrow>
          if \<not> rewindCaughtUp cursor target deferred then (w1, False)
          else (case cs_ClearRewind d Resolution1h target w1 of
                  (w2, Inr cleared) \<Rightarrow> (w2, cleared)
                | (w2, Inl _) \<Rightarrow> (w2, False))
      | (w1, _) \<Rightarrow> (w1, False))"


section \<open>Late holes\<close>

definition missingHours :: "int list \<Rightarrow> int list \<Rightarrow> int \<Rightarrow> int list \<Rightarrow> int list" where
  "missingHours fiveMin oneHour upper already =
     (let hourSec = resolutionSeconds Resolution1h;
          have' = map (\<lambda>ts. alignDown ts hourSec) oneHour
      in sort (remdups (filter (\<lambda>h. \<not> (upper \<le> h \<or> h \<in> set have' \<or> h \<in> set already))
                 (map (\<lambda>ts. alignDown ts hourSec) fiveMin))))"

text \<open>The loop over the missing hours, with the counts of the hours sent and of the rows written.\<close>
fun rescan_hours ::
  "int \<Rightarrow> int list \<Rightarrow> int \<times> int \<Rightarrow> metrics_world \<Rightarrow> metrics_world \<times> (int \<times> int) \<times> svc_err option" where
  "rescan_hours d [] n w = (w, n, None)"
| "rescan_hours d (h # hs) (sent, filled) w =
     (case rollupHour d h False w of
        (w', Inl e) \<Rightarrow> (w', (sent + 1, filled), Some e)
      | (w', Inr (written, skipped)) \<Rightarrow>
          rescan_hours d hs (sent + 1, if written then filled + 1 else filled) w')"

definition rescanDevice ::
  "metrics_cfg \<Rightarrow> int \<Rightarrow> int \<Rightarrow> int list \<Rightarrow> metrics_world \<Rightarrow> metrics_world \<times> (int \<times> int) \<times> svc_err option" where
  "rescanDevice cfg d upper already w =
     (let hourSec = resolutionSeconds Resolution1h;
          from = alignDown (mc_now cfg) hourSec - rescanWindowHours cfg * hourSec;
          to = alignDown (mc_now cfg) hourSec - 1
      in if upper \<le> 0 \<or> to < from then (w, (0, 0), None)
         else case ExistingBucketTimestamps Metric5m d from to w of
                (w1, Inl e) \<Rightarrow> (w1, (0, 0), Some e)
              | (w1, Inr fiveMin) \<Rightarrow>
                  if fiveMin = [] then (w1, (0, 0), None)
                  else (case ExistingBucketTimestamps Metric1h d from to w1 of
                          (w2, Inl e) \<Rightarrow> (w2, (0, 0), Some e)
                        | (w2, Inr oneHour) \<Rightarrow>
                            rescan_hours d (missingHours fiveMin oneHour upper already) (0, 0) w2))"

section \<open>One device\<close>

fun repair_loop ::
  "metrics_cfg \<Rightarrow> int \<Rightarrow> int list \<Rightarrow> RollupStats \<Rightarrow> metrics_world \<Rightarrow> metrics_world \<times> RollupStats \<times> svc_err option" where
  "repair_loop cfg d [] st w = (w, st, None)"
| "repair_loop cfg d (h # hs) st w =
     (let st1 = st\<lparr>rs_scanned := rs_scanned st + 1\<rparr> in
      case rollupHour d h True w of
        (w', Inl e) \<Rightarrow> (w', st1, Some e)
      | (w', Inr (written, skipped)) \<Rightarrow>
          repair_loop cfg d hs
            (if written then st1\<lparr>rs_written := rs_written st1 + 1, rs_repaired := rs_repaired st1 + 1\<rparr>
             else if skipped then countEmptyHour cfg h st1 else st1) w')"

record hour_acc =
  hl_last :: int
  hl_blocked :: bool
  hl_processed :: int
  hl_cut :: bool
  hl_done :: "int list"
  hl_stats :: RollupStats

text \<open>What the loop over the normal interval counts before an hour, and what it records of its outcome. An
  empty hour inside its grace blocks the watermark: later hours are still worked off, but \<open>hl_last\<close>
  stays.\<close>
definition hour_visit :: "int \<Rightarrow> hour_acc \<Rightarrow> hour_acc" where
  "hour_visit h acc =
     acc\<lparr>hl_processed := hl_processed acc + 1, hl_done := h # hl_done acc,
         hl_stats := (hl_stats acc)\<lparr>rs_scanned := rs_scanned (hl_stats acc) + 1\<rparr>\<rparr>"

definition hour_outcome :: "metrics_cfg \<Rightarrow> int \<Rightarrow> bool \<times> bool \<Rightarrow> hour_acc \<Rightarrow> hour_acc" where
  "hour_outcome cfg h ws acc =
     (let st = hl_stats acc; last' = (if hl_blocked acc then hl_last acc else h) in
      if fst ws then acc\<lparr>hl_stats := st\<lparr>rs_written := rs_written st + 1\<rparr>, hl_last := last'\<rparr>
      else if snd ws then
        (if emptyHourWithinGrace cfg h then acc\<lparr>hl_stats := countEmptyHour cfg h st, hl_blocked := True\<rparr>
         else acc\<lparr>hl_stats := countEmptyHour cfg h st, hl_last := last'\<rparr>)
      else acc)"

fun hour_loop ::
  "metrics_cfg \<Rightarrow> int \<Rightarrow> int \<Rightarrow> int list \<Rightarrow> hour_acc \<Rightarrow> metrics_world
   \<Rightarrow> metrics_world \<times> hour_acc \<times> svc_err option" where
  "hour_loop cfg d quota [] acc w = (w, acc, None)"
| "hour_loop cfg d quota (h # hs) acc w =
     (if quota \<le> hl_processed acc then (w, acc\<lparr>hl_cut := True\<rparr>, None)
      else case rollupHour d h False w of
             (w', Inl e) \<Rightarrow> (w', hour_visit h acc, Some e)
           | (w', Inr ws) \<Rightarrow> hour_loop cfg d quota hs (hour_outcome cfg h ws (hour_visit h acc)) w')"

text \<open>The part of \<open>rollupDevice\<close> after the normal interval: the commit, the marker and the late holes.\<close>
definition rollup_finish ::
  "metrics_cfg \<Rightarrow> int \<Rightarrow> int \<Rightarrow> int \<Rightarrow> hour_acc \<Rightarrow> metrics_world \<Rightarrow> metrics_world \<times> RollupStats \<times> svc_err option" where
  "rollup_finish cfg d upper cursor acc w =
     (let st0 = hl_stats acc;
          st = (if hl_cut acc
                then st0\<lparr>rs_deferred := quot64 (upper - hl_last acc) (resolutionSeconds Resolution1h)\<rparr> else st0)
      in case (if hl_last acc \<noteq> cursor then rollup_writeCursor d cursor (hl_last acc) w else (w, Inr ())) of
           (w1, Inl e) \<Rightarrow> (w1, st, Some e)
         | (w1, Inr _) \<Rightarrow>
             (case catchUpRewindMarker d (hl_last acc) (rs_deferred st) w1 of
                (w2, caught) \<Rightarrow>
                  let st2 = (if caught then st\<lparr>rs_caughtUp := rs_caughtUp st + 1\<rparr> else st)
                  in case rescanDevice cfg d upper (hl_done acc) w2 of
                       (w3, (rescanned, backfilled), err) \<Rightarrow>
                         (w3, st2\<lparr>rs_rescanned := rs_rescanned st2 + rescanned,
                                  rs_backfilled := rs_backfilled st2 + backfilled,
                                  rs_written := rs_written st2 + backfilled\<rparr>, err)))"

text \<open>The part of \<open>rollupDevice\<close> after the watermark is read.\<close>
definition rollup_from ::
  "metrics_cfg \<Rightarrow> int \<Rightarrow> int \<Rightarrow> int \<Rightarrow> int \<Rightarrow> metrics_world \<Rightarrow> metrics_world \<times> RollupStats \<times> svc_err option" where
  "rollup_from cfg d upper quota cursor w =
     (case repairHours d upper w of
        (w1, Inl e) \<Rightarrow> (w1, zero_rstats, Some e)
      | (w1, Inr repairs) \<Rightarrow>
          (case repair_loop cfg d repairs zero_rstats w1 of
             (w2, st, Some e) \<Rightarrow> (w2, st, Some e)
           | (w2, st, None) \<Rightarrow>
               let hourSec = resolutionSeconds Resolution1h in
               (case hour_loop cfg d quota (steps (cursor + hourSec) upper hourSec)
                       \<lparr>hl_last = cursor, hl_blocked = False, hl_processed = 0, hl_cut = False,
                        hl_done = repairs, hl_stats = st\<rparr> w2 of
                  (w3, acc, Some e) \<Rightarrow> (w3, hl_stats acc, Some e)
                | (w3, acc, None) \<Rightarrow> rollup_finish cfg d upper cursor acc w3)))"

definition rollupDevice ::
  "metrics_cfg \<Rightarrow> int \<Rightarrow> int \<Rightarrow> int \<Rightarrow> metrics_world \<Rightarrow> metrics_world \<times> RollupStats \<times> svc_err option" where
  "rollupDevice cfg d upper quota w =
     (case rollup_readCursor cfg d upper w of
        (w', Inl e) \<Rightarrow> (w', zero_rstats, Some e)
      | (w', Inr cursor) \<Rightarrow> rollup_from cfg d upper quota cursor w')"

section \<open>One round\<close>

definition rstats_add :: "RollupStats \<Rightarrow> RollupStats \<Rightarrow> RollupStats" where
  "rstats_add st p =
     st\<lparr>rs_scanned := rs_scanned st + rs_scanned p, rs_written := rs_written st + rs_written p,
        rs_repaired := rs_repaired st + rs_repaired p, rs_skipped := rs_skipped st + rs_skipped p,
        rs_reclaimed := rs_reclaimed st + rs_reclaimed p, rs_rescanned := rs_rescanned st + rs_rescanned p,
        rs_backfilled := rs_backfilled st + rs_backfilled p, rs_deferred := rs_deferred st + rs_deferred p,
        rs_caughtUp := rs_caughtUp st + rs_caughtUp p\<rparr>"

fun rollup_devices ::
  "metrics_cfg \<Rightarrow> int \<Rightarrow> int \<Rightarrow> int list \<Rightarrow> RollupStats \<Rightarrow> metrics_world \<Rightarrow> metrics_world \<times> RollupStats" where
  "rollup_devices cfg upper quota [] st w = (w, st)"
| "rollup_devices cfg upper quota (d # ds) st w =
     (case rollupDevice cfg d upper quota w of
        (w', part, derr) \<Rightarrow>
          (let st1 = rstats_add st part
           in rollup_devices cfg upper quota ds
                (if derr = None then st1 else st1\<lparr>rs_errors := rs_errors st1 + 1\<rparr>) w'))"

definition RollupOnce :: "metrics_cfg \<Rightarrow> metrics_world \<Rightarrow> metrics_world \<times> RollupStats \<times> svc_err option" where
  "RollupOnce cfg w =
     (case raw_Index w of
        (w', Inl e) \<Rightarrow> (w', zero_rstats, Some e)
      | (w', Inr devices) \<Rightarrow>
          (case rollup_devices cfg (closedHourUpper cfg) (maxHoursPerRound cfg) devices zero_rstats w' of
             (w2, st) \<Rightarrow>
               (w2, st, if 0 < rs_errors st then Some (ErrRollupPartial (rs_errors st) (int (length devices))) else None)))"

end
