(* ===== verification/FlushLive.thy ===== *)
theory FlushLive
  imports FlushSafety
begin

text \<open>
  Progress of the flush: on a quiet connection a round over a window of well-formed samples writes the
  row of every closed bucket and moves the watermark to the last one; what stops it is a missing
  partition, which ends the round, and a row that cannot be encoded, which holds its device back.
\<close>

section \<open>Quiet calls\<close>

lemma ext_call_quiet: "rd_faults w = [] \<Longrightarrow> ext_call f w = f w"
proof -
  assume "rd_faults w = []"
  then have "f (w\<lparr>rd_faults := []\<rparr>) = f w" by (intro arg_cong [where f = f]) (cases w, simp)
  then show ?thesis using \<open>rd_faults w = []\<close> by (simp add: ext_call_def)
qed

lemma mapS_pure:
  "(\<And>x. x \<in> set xs \<Longrightarrow> \<exists>y. f x w = (w, Inr y)) \<Longrightarrow> \<exists>ys. mapS f xs w = (w, Inr ys)"
proof (induction xs)
  case (Cons x xs)
  obtain y where y: "f x w = (w, Inr y)" using Cons.prems by auto
  obtain ys where "mapS f xs w = (w, Inr ys)" using Cons by auto
  then show ?case using y by (simp add: bindS_def)
qed simp

section \<open>Resources\<close>

text \<open>Row ids are never zero: the supply starts above zero.\<close>
definition ids_ok :: "DeviceResource list \<times> int \<Rightarrow> bool" where
  "ids_ok tn \<longleftrightarrow> 0 < snd tn \<and> (\<forall>r\<in>set (fst tn). dr_id r \<noteq> 0)"

definition known :: "int \<Rightarrow> string \<Rightarrow> string \<Rightarrow> DeviceResource list \<Rightarrow> bool" where
  "known d k n tbl \<longleftrightarrow> list_ex (same_resource d k n) tbl"

lemma same_resource_upd [simp]:
  "same_resource d k n (r\<lparr>dr_fs_type := x, dr_last_seen := t\<rparr>) = same_resource d k n r"
  "same_resource d k n (r\<lparr>dr_id := i, dr_last_seen := t\<rparr>) = same_resource d k n r"
  by (simp_all add: same_resource_def)

lemma upsert_seen1_known:
  "known d k n (fst (upsert_seen1 ts row tn)) \<longleftrightarrow> known d k n (fst tn) \<or> same_resource d k n row"
proof -
  obtain tbl nxt where tn: "tn = (tbl, nxt)" by (cases tn)
  let ?same = "same_resource (dr_device row) (dr_kind row) (dr_name row)"
  have key: "?same x \<Longrightarrow> same_resource d k n x \<longleftrightarrow> same_resource d k n row" for x
    by (auto simp: same_resource_def)
  show ?thesis
  proof (cases "list_ex ?same tbl")
    case True
    then obtain x where x: "x \<in> set tbl" "?same x" by (auto simp: list_ex_iff)
    have "known d k n (map (\<lambda>r. if ?same r then r\<lparr>dr_fs_type := dr_fs_type row, dr_last_seen := ts\<rparr> else r) tbl)
        \<longleftrightarrow> known d k n tbl"
      by (induction tbl) (auto simp: known_def)
    moreover have "same_resource d k n row \<Longrightarrow> known d k n tbl"
      using x key by (auto simp: known_def list_ex_iff)
    ultimately show ?thesis using True tn by (auto simp: upsert_seen1_def)
  next
    case False
    then show ?thesis using tn by (auto simp: upsert_seen1_def known_def list_ex_iff)
  qed
qed

lemma upsert_seen1_ids: "ids_ok tn \<Longrightarrow> ids_ok (upsert_seen1 ts row tn)"
  by (cases tn) (auto simp: upsert_seen1_def ids_ok_def)

lemma upsert_seen_known:
  "known d k n (fst (fold (upsert_seen1 ts) rows tn)) \<longleftrightarrow> known d k n (fst tn) \<or> known d k n rows"
proof (induction rows arbitrary: tn)
  case (Cons r rows)
  have "known d k n (r # rows) \<longleftrightarrow> same_resource d k n r \<or> known d k n rows" by (simp add: known_def)
  then show ?case using Cons.IH upsert_seen1_known by auto
qed (simp add: known_def)

lemma upsert_seen_ids: "ids_ok tn \<Longrightarrow> ids_ok (fold (upsert_seen1 ts) rows tn)"
  by (induction rows arbitrary: tn) (simp_all add: upsert_seen1_ids)

lemma resource_add_known:
  "known d k n (resource_add d (k', n', fs) out) \<longleftrightarrow> known d k n out \<or> (n' \<noteq> [] \<and> k' = k \<and> n' = n)"
  by (auto simp: resource_add_def known_def same_resource_def list_ex_iff)

lemma resource_fold_known:
  "known d k n (fold (resource_add d) ks out) \<longleftrightarrow> known d k n out \<or> (n \<noteq> [] \<and> (\<exists>fs. (k, n, fs) \<in> set ks))"
proof (induction ks arbitrary: out)
  case (Cons x ks)
  then show ?case by (cases x) (auto simp: resource_add_known)
qed simp

text \<open>What \<open>writeBucket\<close> needs of a bucket: finite numbers and named details.\<close>
definition named :: "Subs \<Rightarrow> bool" where
  "named subs \<longleftrightarrow> (\<forall>r\<in>set (sub_disks subs). sd_name r \<noteq> []) \<and> (\<forall>r\<in>set (sub_diskio subs). si_name r \<noteq> [])
     \<and> (\<forall>r\<in>set (sub_nics subs). sni_name r \<noteq> []) \<and> (\<forall>r\<in>set (sub_sensors subs). ss_name r \<noteq> [])"

definition writable :: "Wide \<Rightarrow> Subs \<Rightarrow> bool" where
  "writable wide subs \<longleftrightarrow> list_all is_finite (wide_floats wide) \<and> named subs"

lemma resourceRows_known:
  assumes "named subs"
  shows "r1 \<in> set (sub_disks subs) \<Longrightarrow> known d ''disk'' (sd_name r1) (resourceRows d subs)"
    and "r2 \<in> set (sub_diskio subs) \<Longrightarrow> known d ''disk_io'' (si_name r2) (resourceRows d subs)"
    and "r3 \<in> set (sub_nics subs) \<Longrightarrow> known d ''nic'' (sni_name r3) (resourceRows d subs)"
    and "r4 \<in> set (sub_sensors subs) \<Longrightarrow> known d ''sensor'' (ss_name r4) (resourceRows d subs)"
  using assms by (auto simp: resourceRows_def resource_fold_known named_def)

lemma resolve_known:
  assumes "rd_faults w = []" "ids_ok (db_resources w, db_next_id w)" "known d k n (db_resources w)"
  shows "\<exists>i. resolve d k n w = (w, Inr i)"
proof -
  obtain r where r: "find (same_resource d k n) (db_resources w) = Some r"
    using assms(3) by (cases "find (same_resource d k n) (db_resources w)")
      (auto simp: known_def list_ex_iff find_None_iff)
  then have "r \<in> set (db_resources w)" by (auto simp: find_Some_iff)
  then have "dr_id r \<noteq> 0" using assms(2) by (simp add: ids_ok_def)
  then show ?thesis using r assms(1) by (simp add: resolve_def ResolveID_def bindS_def ext_call_quiet)
qed

lemma resolveSubs_known:
  assumes "rd_faults w = []" "ids_ok (db_resources w, db_next_id w)"
    and "\<And>r. r \<in> set (sub_disks subs) \<Longrightarrow> known d ''disk'' (sd_name r) (db_resources w)"
    and "\<And>r. r \<in> set (sub_diskio subs) \<Longrightarrow> known d ''disk_io'' (si_name r) (db_resources w)"
    and "\<And>r. r \<in> set (sub_nics subs) \<Longrightarrow> known d ''nic'' (sni_name r) (db_resources w)"
    and "\<And>r. r \<in> set (sub_sensors subs) \<Longrightarrow> known d ''sensor'' (ss_name r) (db_resources w)"
  shows "\<exists>ids. resolveSubs d ts subs w = (w, Inr ids)"
proof -
  note res = resolve_known [OF assms(1,2)]
  have p: "\<exists>y. bindS (resolve d k n) (\<lambda>i. returnS (f i)) w = (w, Inr y)" if "known d k n (db_resources w)" for k n f
    using res [OF that] by (auto simp: bindS_def)
  have "\<exists>a. mapS (\<lambda>r. bindS (resolve d ''disk'' (sd_name r))
      (\<lambda>i. returnS \<lparr>rd_disk_id = i, rd_disk_bucket = ts, rd_disk_row = r\<rparr>)) (sub_disks subs) w = (w, Inr a)"
    by (rule mapS_pure, rule p, erule assms(3))
  then obtain a where 1: "mapS (\<lambda>r. bindS (resolve d ''disk'' (sd_name r))
      (\<lambda>i. returnS \<lparr>rd_disk_id = i, rd_disk_bucket = ts, rd_disk_row = r\<rparr>)) (sub_disks subs) w = (w, Inr a)" ..
  have "\<exists>b. mapS (\<lambda>r. bindS (resolve d ''disk_io'' (si_name r))
      (\<lambda>i. returnS \<lparr>rd_io_id = i, rd_io_bucket = ts, rd_io_row = r\<rparr>)) (sub_diskio subs) w = (w, Inr b)"
    by (rule mapS_pure, rule p, erule assms(4))
  then obtain b where 2: "mapS (\<lambda>r. bindS (resolve d ''disk_io'' (si_name r))
      (\<lambda>i. returnS \<lparr>rd_io_id = i, rd_io_bucket = ts, rd_io_row = r\<rparr>)) (sub_diskio subs) w = (w, Inr b)" ..
  have "\<exists>c. mapS (\<lambda>r. bindS (resolve d ''nic'' (sni_name r))
      (\<lambda>i. returnS \<lparr>rd_nic_id = i, rd_nic_bucket = ts, rd_nic_row = r\<rparr>)) (sub_nics subs) w = (w, Inr c)"
    by (rule mapS_pure, rule p, erule assms(5))
  then obtain c where 3: "mapS (\<lambda>r. bindS (resolve d ''nic'' (sni_name r))
      (\<lambda>i. returnS \<lparr>rd_nic_id = i, rd_nic_bucket = ts, rd_nic_row = r\<rparr>)) (sub_nics subs) w = (w, Inr c)" ..
  have "\<exists>e. mapS (\<lambda>r. bindS (resolve d ''sensor'' (ss_name r))
      (\<lambda>i. returnS \<lparr>rd_sensor_id = i, rd_sensor_bucket = ts, rd_sensor_row = r\<rparr>)) (sub_sensors subs) w = (w, Inr e)"
    by (rule mapS_pure, rule p, erule assms(6))
  then obtain e where 4: "mapS (\<lambda>r. bindS (resolve d ''sensor'' (ss_name r))
      (\<lambda>i. returnS \<lparr>rd_sensor_id = i, rd_sensor_bucket = ts, rd_sensor_row = r\<rparr>)) (sub_sensors subs) w = (w, Inr e)" ..
  show ?thesis by (simp add: resolveSubs_def bindS_def 1 2 3 4)
qed

text \<open>What a quiet write of a bucket leaves: the watermark's store is as it was, the ids stay good.\<close>
definition quiet_ok :: "metrics_world \<Rightarrow> metrics_world \<Rightarrow> bool" where
  "quiet_ok w w' \<longleftrightarrow> rd_faults w' = [] \<and> rd_kv w' = rd_kv w \<and> ids_ok (db_resources w', db_next_id w')"

text \<open>The registration of the resources of a bucket and the resolution of their ids both succeed.\<close>
lemma quiet_resources:
  assumes "rd_faults w = []" "ids_ok (db_resources w, db_next_id w)" "named subs"
    and f: "fold (upsert_seen1 b) (resourceRows d subs) (db_resources w, db_next_id w) = (tbl, nxt)"
  shows "(if resourceRows d subs \<noteq> [] then UpsertSeen (resourceRows d subs) b else returnS ()) w
           = (w\<lparr>db_resources := tbl, db_next_id := nxt\<rparr>, Inr ())" (is ?up)
    and "ids_ok (tbl, nxt)" (is ?ids)
    and "\<exists>ids. resolveSubs d b subs (w\<lparr>db_resources := tbl, db_next_id := nxt\<rparr>)
           = (w\<lparr>db_resources := tbl, db_next_id := nxt\<rparr>, Inr ids)" (is ?res)
proof -
  let ?rows = "resourceRows d subs"
  show ?up
  proof (cases "?rows = []")
    case True
    then have "tbl = db_resources w" "nxt = db_next_id w" using f by simp_all
    then show ?thesis using True by simp
  next
    case False
    then show ?thesis using f assms(1) by (simp add: UpsertSeen_def ext_call_quiet)
  qed
  show ids: ?ids using upsert_seen_ids [OF assms(2)] f by metis
  have kn: "known d k n tbl" if "known d k n ?rows" for k n
    using upsert_seen_known [of d k n b ?rows "(db_resources w, db_next_id w)"] f that by simp
  show ?res
    using resolveSubs_known [of "w\<lparr>db_resources := tbl, db_next_id := nxt\<rparr>" subs d b] assms(1) ids kn
      resourceRows_known [OF assms(3)] by auto
qed

lemma writeBucket_quiet:
  assumes "rd_faults w = []" "ids_ok (db_resources w, db_next_id w)" "writable wide subs"
  shows "\<exists>w' n. writeBucket d b wide subs w = (w', Inr n) \<and> quiet_ok w w'"
proof -
  let ?rows = "resourceRows d subs"
  obtain tbl nxt where f: "fold (upsert_seen1 b) ?rows (db_resources w, db_next_id w) = (tbl, nxt)" by fastforce
  have "named subs" using assms(3) by (simp add: writable_def)
  note q = quiet_resources [OF assms(1,2) this f]
  have "EntityFromWide wide = Inr wide" using assms(3) by (simp add: EntityFromWide_def writable_def)
  then show ?thesis
    unfolding writeBucket_def Let_def bindS_def [of "if ?rows \<noteq> [] then _ else _"] q(1)
    using q(2,3) assms(1) by (auto simp: bindS_def WriteBucket_def ext_call_quiet quiet_ok_def)
qed

definition bucket_writable :: "int \<Rightarrow> (int \<Rightarrow> MetricsSample list) \<Rightarrow> int \<Rightarrow> bool" where
  "bucket_writable d byBucket b =
     (case Downsample d b (byBucket b) of None \<Rightarrow> True | Some (wide, subs) \<Rightarrow> writable wide subs)"

lemma flush_buckets_quiet:
  "rd_faults w = [] \<Longrightarrow> ids_ok (db_resources w, db_next_id w) \<Longrightarrow> \<forall>b\<in>set bs. bucket_writable d byBucket b \<Longrightarrow>
   \<exists>w' acc'. flush_buckets d byBucket bs acc w = (w', acc', None) \<and> quiet_ok w w'"
proof (induction bs arbitrary: acc w)
  case Nil
  then show ?case by (simp add: quiet_ok_def)
next
  case (Cons b bs)
  show ?case
  proof (cases "Downsample d b (byBucket b)")
    case None
    then show ?thesis using Cons by simp
  next
    case (Some ws)
    obtain wide subs where ws: "ws = (wide, subs)" by (cases ws)
    have "writable wide subs" using Cons.prems(3) Some ws by (simp add: bucket_writable_def)
    then obtain v n where v: "writeBucket d b wide subs w = (v, Inr n)" "quiet_ok w v"
      using writeBucket_quiet [OF Cons.prems(1,2)] by blast
    let ?acc = "acc\<lparr>fa_last := b, fa_written := fa_written acc + 1, fa_upserted := fa_upserted acc + n\<rparr>"
    obtain w' acc' where "flush_buckets d byBucket bs ?acc v = (w', acc', None)" "quiet_ok v w'"
      using Cons.IH [of v ?acc] Cons.prems(3) v(2) by (auto simp: quiet_ok_def)
    then show ?thesis using Some ws v by (auto simp: quiet_ok_def)
  qed
qed


section \<open>The interval of a round\<close>

lemma alignDown_props:
  assumes "0 < step"
  shows "step dvd alignDown sec step" "alignDown sec step \<le> sec" "sec - step < alignDown sec step"
proof -
  have e: "alignDown sec step = sec - sec mod step"
  proof (cases "0 \<le> sec")
    case True
    have "\<not> sec mod step < 0" using pos_mod_sign [OF assms, of sec] by (simp add: not_less)
    moreover have "sgn sec * (\<bar>sec\<bar> mod step) = sec mod step" using True by (cases "sec = 0") simp_all
    ultimately show ?thesis using assms by (simp add: alignDown_def Let_def)
  next
    case False
    have "0 \<le> - sec mod step" "- sec mod step < step" using assms by simp_all
    moreover have "sec mod step \<noteq> step" using pos_mod_bound [OF assms, of sec] by linarith
    ultimately show ?thesis using assms False
      by (auto simp: alignDown_def Let_def zmod_zminus1_eq_if)
  qed
  show "step dvd alignDown sec step" by (simp add: e)
  show "alignDown sec step \<le> sec" "sec - step < alignDown sec step"
    using assms pos_mod_bound [of step sec] pos_mod_sign [of step sec] by (auto simp: e)
qed

lemma steps_last_aligned:
  "0 < step \<Longrightarrow> lo < hi \<Longrightarrow> step dvd hi - lo \<Longrightarrow> last (steps lo hi step) = hi - step"
proof (induction lo hi step rule: steps.induct)
  case (1 lo hi step)
  have le: "step \<le> hi - lo" using 1 by (simp add: zdvd_imp_le)
  have s: "steps lo hi step = lo # steps (lo + step) hi step" using 1 by (simp add: steps_Cons)
  show ?case
  proof (cases "lo + step < hi")
    case True
    have "step dvd hi - lo - step" using 1(4) by (simp add: dvd_diff)
    then have d: "step dvd hi - (lo + step)" by (simp add: diff_diff_eq)
    have "last (steps (lo + step) hi step) = hi - step" using 1(1) 1(2,3) True d by simp
    then show ?thesis using s True 1(2) by (simp add: steps_Cons [of step "lo + step"])
  next
    case False
    then show ?thesis using s le by simp
  qed
qed

text \<open>The samples of one bucket.\<close>
definition bucket_samples :: "MetricsSample list \<Rightarrow> int \<Rightarrow> MetricsSample list" where
  "bucket_samples ps b = keep_range (b * 1000) ((b + 300) * 1000) ps"

lemma group_keep:
  assumes "0 \<le> lo" "300 dvd lo" "300 dvd hi" "b \<in> set (steps lo hi 300)"
  shows "groupByBucket (keep_range (lo * 1000) (hi * 1000) ps) 300 b = bucket_samples ps b"
proof -
  have m: "lo \<le> b" "b < hi" "300 dvd b - lo" using assms(4) by (auto simp: steps_mem)
  have b3: "300 dvd b" using dvd_add [OF m(3) assms(2)] by simp
  have "300 \<le> hi - b" using zdvd_imp_le [OF dvd_diff [OF assms(3) b3]] m(2) by simp
  then have bh: "b + 300 \<le> hi" by simp
  have bk: "bucket_of 300 p = b \<longleftrightarrow> b * 1000 \<le> ms_t p \<and> ms_t p < (b + 300) * 1000" if "0 \<le> ms_t p" for p
  proof -
    have "bucket_of 300 p = ms_t p div 1000 div 300 * 300"
      using that by (simp add: bucket_of_def quot64_pos pos_imp_zdiv_nonneg_iff)
    moreover have "ms_t p div 1000 div 300 = ms_t p div 300000" by (simp add: zdiv_zmult2_eq [symmetric])
    moreover obtain q where q: "b = 300 * q" using b3 by (elim dvdE)
    moreover have "ms_t p = 300000 * (ms_t p div 300000) + ms_t p mod 300000" "0 \<le> ms_t p mod 300000"
      "ms_t p mod 300000 < 300000" by simp_all
    ultimately show ?thesis by auto
  qed
  have "filter (\<lambda>p. bucket_of 300 p = b) (filter (\<lambda>p. lo * 1000 \<le> ms_t p \<and> ms_t p < hi * 1000) xs)
      = filter (\<lambda>p. b * 1000 \<le> ms_t p \<and> ms_t p < (b + 300) * 1000) xs" for xs
    using assms(1) m(1,2) bh bk by (induction xs) auto
  then show ?thesis
    by (simp add: groupByBucket_def bucket_samples_def keep_range_def filter_sort [symmetric])
qed


section \<open>Properties\<close>

lemma Read_quiet:
  assumes "rd_faults w = []" "CursorKey d r = Inr k" "rd_kv w k = Some (itoa c)" "in_int64 c"
  shows "cs_Read d r w = (w, Inr (Some c))"
  using assms by (simp add: cs_Read_def get_int64_def bindS_def redis_get_def ext_call_quiet)

lemma Advance_quiet:
  assumes "rd_faults w = []" "CursorKey d r = Inr k" "rd_kv w k = Some (itoa c)" "in_int64 c" "in_int64 n" "c < n"
  shows "cs_Advance d r c n w = (w\<lparr>rd_kv := (rd_kv w)(k \<mapsto> itoa n)\<rparr>, Inr True)"
  using assms by (simp add: cs_Advance_def eval_script_def bindS_def ext_call_quiet advanceCursorScript_def tonumber_def)

text \<open>A round on a quiet connection reads its watermark and every sample of the interval, and is then the
  bucket loop over the samples of each bucket, followed by the commit.\<close>
lemma flushDevice_quiet:
  assumes "rd_faults w = []" "CursorKey d Resolution5m = Inr k" "rd_kv w k = Some (itoa cursor)"
    and "0 \<le> cursor" "300 dvd cursor" "cursor + 300 < closedBucketUpper cfg" "closedBucketUpper cfg < 2 ^ 63"
    and "rd_lists w (historyKey d) = map enc ps" "\<forall>p\<in>set ps. mc_dec cfg (enc p) = Some p"
    and "paced (ro_step (mc_raw cfg) div 1000000) ps" "1000000 \<le> ro_step (mc_raw cfg)"
    and "int (length ps) \<le> ro_maxPoints (mc_raw cfg)"
  obtains pts where
      "\<forall>b\<in>set (steps (cursor + 300) (closedBucketUpper cfg) 300). groupByBucket pts 300 b = bucket_samples ps b"
    and "flushDevice cfg d (closedBucketUpper cfg) w =
       (case flush_buckets d (groupByBucket pts 300) (steps (cursor + 300) (closedBucketUpper cfg) 300)
               \<lparr>fa_last = cursor, fa_written = 0, fa_skipped = 0, fa_upserted = 0\<rparr> w of
          (w2, acc, Some e) \<Rightarrow> (w2, acc, Some e)
        | (w2, acc, None) \<Rightarrow>
            (case flush_writeCursor d cursor (fa_last acc) w2 of
               (w3, Inl e) \<Rightarrow> (w3, acc, Some e)
             | (w3, Inr _) \<Rightarrow> (w3, acc, None)))"
proof -
  let ?up = "closedBucketUpper cfg"
  let ?lo = "cursor + 300" and ?pts = "keep_range ((cursor + 300) * 1000) (closedBucketUpper cfg * 1000) ps"
  have R: "resolutionSeconds Resolution5m = 300"
    by (simp add: resolutionSeconds_def BucketSeconds_def Resolution5m_def Resolution1h_def)
  have up: "300 dvd ?up" by (simp add: closedBucketUpper_def R alignDown_props)
  have lo: "0 \<le> ?lo" "300 dvd ?lo" using assms(4,5) by simp_all
  have i64: "in_int64 cursor" using assms(4,6,7) by (simp add: in_int64_def)
  have read: "flush_readCursor cfg d w = (w, Inr cursor)"
    using Read_quiet [OF assms(1-3) i64] by (simp add: flush_readCursor_def bindS_def)
  have br: "BucketRange (mc_dec cfg) (mc_raw cfg) d (?lo * 1000) (?up * 1000) w = (w, Inr ?pts)"
    by (rule rangeFetch_enough_read [OF assms(8-12,1)])
  show thesis
  proof (rule that)
    show "\<forall>b\<in>set (steps ?lo ?up 300). groupByBucket ?pts 300 b = bucket_samples ps b"
      using group_keep [OF lo up] by blast
  qed (use assms(6) in \<open>simp add: flushDevice_def read flush_from_def R Let_def br [simplified]\<close>)
qed

text \<open>C19: a quiet round catches up. When no call is lost and nobody interferes, the round of a device whose
  window holds well-formed samples returns without an error, moves the watermark to the last closed bucket,
  and gives every bucket of the interval the row of exactly the samples whose time falls into it.\<close>
theorem flush_quiet_complete:
  assumes "rd_faults w = []" "CursorKey d Resolution5m = Inr k" "rd_kv w k = Some (itoa cursor)"
    and "0 \<le> cursor" "300 dvd cursor" "cursor + 300 < closedBucketUpper cfg" "closedBucketUpper cfg < 2 ^ 63"
    and "rd_lists w (historyKey d) = map enc ps" "\<forall>p\<in>set ps. mc_dec cfg (enc p) = Some p"
    and "paced (ro_step (mc_raw cfg) div 1000000) ps" "1000000 \<le> ro_step (mc_raw cfg)"
    and "int (length ps) \<le> ro_maxPoints (mc_raw cfg)"
    and "ids_ok (db_resources w, db_next_id w)"
    and "\<forall>b\<in>set (steps (cursor + 300) (closedBucketUpper cfg) 300). bucket_writable d (bucket_samples ps) b"
  shows "\<exists>w' acc. flushDevice cfg d (closedBucketUpper cfg) w = (w', acc, None)
     \<and> rd_kv w' = (rd_kv w)(k \<mapsto> itoa (closedBucketUpper cfg - 300))
     \<and> (\<forall>b\<in>set (steps (cursor + 300) (closedBucketUpper cfg) 300).
          wide_at d b (db_5m w') = row_of d (bucket_samples ps) b (db_5m w))"
proof -
  let ?up = "closedBucketUpper cfg"
  let ?bs = "steps (cursor + 300) ?up 300" and ?lo = "cursor + 300"
  let ?acc0 = "\<lparr>fa_last = cursor, fa_written = 0, fa_skipped = 0, fa_upserted = 0\<rparr>"
  obtain pts where grp: "\<forall>b\<in>set ?bs. groupByBucket pts 300 b = bucket_samples ps b"
    and run: "flushDevice cfg d ?up w = (case flush_buckets d (groupByBucket pts 300) ?bs ?acc0 w of
          (w2, acc, Some e) \<Rightarrow> (w2, acc, Some e)
        | (w2, acc, None) \<Rightarrow> (case flush_writeCursor d cursor (fa_last acc) w2 of
               (w3, Inl e) \<Rightarrow> (w3, acc, Some e) | (w3, Inr _) \<Rightarrow> (w3, acc, None)))"
    by (rule flushDevice_quiet [OF assms(1-12)])
  have "\<forall>b\<in>set ?bs. bucket_writable d (groupByBucket pts 300) b"
    using assms(14) grp by (simp add: bucket_writable_def)
  then obtain v acc where fb: "flush_buckets d (groupByBucket pts 300) ?bs ?acc0 w = (v, acc, None)" and q: "quiet_ok w v"
    using flush_buckets_quiet [OF assms(1,13)] by blast
  have ne: "?bs \<noteq> []" using steps_last [of 300 ?lo ?up] assms(6) by simp
  have "300 dvd ?up" by (simp add: closedBucketUpper_def resolutionSeconds_def BucketSeconds_def Resolution5m_def Resolution1h_def
      alignDown_props)
  then have at_end: "fa_last acc = ?up - 300"
    using flush_buckets_complete [OF fb ne] steps_last_aligned [of 300 ?lo ?up] assms(5,6) by simp
  have "cs_Advance d Resolution5m cursor (?up - 300) v
      = (v\<lparr>rd_kv := (rd_kv v)(k \<mapsto> itoa (?up - 300))\<rparr>, Inr True)"
    using q assms(2,3,4,6,7) by (intro Advance_quiet) (auto simp: quiet_ok_def in_int64_def)
  then have "flushDevice cfg d ?up w = (v\<lparr>rd_kv := (rd_kv v)(k \<mapsto> itoa (?up - 300))\<rparr>, acc, None)"
    using fb at_end by (simp add: run flush_writeCursor_def bindS_def)
  moreover have "wide_at d b (db_5m v) = row_of d (bucket_samples ps) b (db_5m w)" if "b \<in> set ?bs" for b
    using flush_buckets_rows [OF fb steps_distinct that] grp that by (simp add: row_of_def)
  ultimately show ?thesis using q by (simp add: quiet_ok_def)
qed

text \<open>The instance of a device with one sample, on a quiet connection.\<close>
lemma flush_quiet_complete_witness:
  "\<exists>w' acc. flushDevice demo_cfg 7 2700 (demo_world [] 600 []) = (w', acc, None)
     \<and> rd_kv w' = (rd_kv (demo_world [] 600 []))(historyKeyPrefix @ ''7:cursor_5m'' \<mapsto> itoa 2400)"
proof -
  have up: "closedBucketUpper demo_cfg = 2700" by code_simp
  have key: "CursorKey 7 Resolution5m = Inr (historyKeyPrefix @ ''7:cursor_5m'')" by code_simp
  have "\<exists>w' acc. flushDevice demo_cfg 7 (closedBucketUpper demo_cfg) (demo_world [] 600 []) = (w', acc, None)
     \<and> rd_kv w' = (rd_kv (demo_world [] 600 []))(historyKeyPrefix @ ''7:cursor_5m'' \<mapsto> itoa (closedBucketUpper demo_cfg - 300))
     \<and> (\<forall>b\<in>set (steps (600 + 300) (closedBucketUpper demo_cfg) 300).
          wide_at 7 b (db_5m w') = row_of 7 (bucket_samples []) b (db_5m (demo_world [] 600 [])))"
  proof (rule flush_quiet_complete [where enc = "itoa \<circ> ms_t"])
    show "CursorKey 7 Resolution5m = Inr (historyKeyPrefix @ ''7:cursor_5m'')" by (rule key)
    show "\<forall>b\<in>set (steps (600 + 300) (closedBucketUpper demo_cfg) 300). bucket_writable 7 (bucket_samples []) b"
      by (simp add: bucket_writable_def bucket_samples_def keep_range_def Downsample_def)
  qed (simp_all add: up, simp_all add: demo_world_def demo_cfg_def ids_ok_def paced_def)
  then show ?thesis unfolding up by auto
qed

section \<open>A sample that holds its device back\<close>

lemma writeBucket_unencodable:
  assumes "rd_faults w = []" "ids_ok (db_resources w, db_next_id w)"
    and "named subs" "\<not> list_all is_finite (wide_floats wide)"
  shows "\<exists>w'. writeBucket d b wide subs w = (w', Inl ErrEncode) \<and> quiet_ok w w'"
proof -
  let ?rows = "resourceRows d subs"
  obtain tbl nxt where f: "fold (upsert_seen1 b) ?rows (db_resources w, db_next_id w) = (tbl, nxt)" by fastforce
  let ?w1 = "w\<lparr>db_resources := tbl, db_next_id := nxt\<rparr>"
  note q = quiet_resources [OF assms(1,2,3) f]
  have "EntityFromWide wide = Inl ErrEncode" using assms(4) by (simp add: EntityFromWide_def)
  then show ?thesis
    unfolding writeBucket_def Let_def bindS_def [of "if ?rows \<noteq> [] then _ else _"] q(1)
    using q(2,3) assms(1) by (auto simp: bindS_def quiet_ok_def)
qed


text \<open>The loop stops at the first bucket whose row has no encoding, and leaves the rest.\<close>
lemma flush_buckets_stuck:
  "rd_faults w = [] \<Longrightarrow> ids_ok (db_resources w, db_next_id w) \<Longrightarrow> b0 \<in> set bs \<Longrightarrow>
   \<forall>b\<in>set bs. b = b0 \<or> bucket_writable d byBucket b \<Longrightarrow>
   Downsample d b0 (byBucket b0) = Some (wide0, subs0) \<Longrightarrow> named subs0 \<Longrightarrow> \<not> list_all is_finite (wide_floats wide0) \<Longrightarrow>
   \<exists>w' acc'. flush_buckets d byBucket bs acc w = (w', acc', Some ErrEncode) \<and> quiet_ok w w'"
proof (induction bs arbitrary: acc w)
  case (Cons b bs)
  show ?case
  proof (cases "b = b0")
    case True
    obtain v where "writeBucket d b0 wide0 subs0 w = (v, Inl ErrEncode) \<and> quiet_ok w v"
      using writeBucket_unencodable [OF Cons.prems(1,2,6,7)] by blast
    then show ?thesis using True Cons.prems(5) by (auto simp: IsMissingPartition_def)
  next
    case False
    then have tl: "b0 \<in> set bs" "\<forall>b\<in>set bs. b = b0 \<or> bucket_writable d byBucket b" using Cons.prems by auto
    show ?thesis
    proof (cases "Downsample d b (byBucket b)")
      case None
      then show ?thesis using Cons.IH [OF Cons.prems(1,2) tl Cons.prems(5,6,7)] by simp
    next
      case (Some ws)
      obtain wide subs where ws: "ws = (wide, subs)" by (cases ws)
      have "writable wide subs" using Cons.prems(4) False Some ws by (auto simp: bucket_writable_def)
      then obtain v n where v: "writeBucket d b wide subs w = (v, Inr n)" "quiet_ok w v"
        using writeBucket_quiet [OF Cons.prems(1,2)] by blast
      let ?acc = "acc\<lparr>fa_last := b, fa_written := fa_written acc + 1, fa_upserted := fa_upserted acc + n\<rparr>"
      obtain w' acc' where "flush_buckets d byBucket bs ?acc v = (w', acc', Some ErrEncode)" "quiet_ok v w'"
        using Cons.IH [OF _ _ tl Cons.prems(5,6,7), of v ?acc] v(2) by (auto simp: quiet_ok_def)
      then show ?thesis using Some ws v by (auto simp: quiet_ok_def)
    qed
  qed
qed simp

text \<open>A sample with a load of 2 to the 1023: finite, not negative, so its validation passes; the rounding of
  the mean multiplies it by 100, which overflows.\<close>
definition poison_sample :: "int \<Rightarrow> MetricsSample" where
  "poison_sample t = zero_sample\<lparr>ms_t := t, ms_load1 := Fin (pow2 1023)\<rparr>"

lemma poison_valid: "0 < t \<Longrightarrow> metrics_validate (poison_sample t) = None"
  by (simp add: metrics_validate_None poison_sample_def zero_sample_def percent_f_def nonneg_f_def less_imp_le
      checkCounts_def checkAgent_None reject_if_def zero_agent_def)

lemma poison_row:
  "\<exists>wide subs. Downsample d b [poison_sample t] = Some (wide, subs)
     \<and> w_load1 wide = Some PInf \<and> subs = \<lparr>sub_disks = [], sub_diskio = [], sub_nics = [], sub_sensors = []\<rparr>"
proof -
  let ?a = "fold acc_add [poison_sample t] newWideAcc"
  have one: "f_of_int 1 = Fin 1" "rnd 1 = Fin 1" using rnd_pow2 [of 0] by (simp_all add: f_of_int_def pow2_def)
  have big: "rnd (pow2 1023) = Fin (pow2 1023)" by (rule rnd_pow2) simp_all
  have "pow2 1023 * 2 \<le> pow2 1023 * 100" by simp
  moreover have "pow2 1023 * 2 = pow2 1024" using pow2_add [of 1023 1] by (simp add: pow2_def del: power_int_numeral)
  ultimately have over: "rnd (pow2 1023 * 100) = PInf" by (intro rnd_overflow) simp
  have c: "contributions ''load1'' [poison_sample t] = [Fin (pow2 1023)]"
    by (simp add: contributions_def vals_of_def sample_means_def poison_sample_def)
  have m: "mean_of [Fin (pow2 1023)] = Some PInf"
    by (simp add: mean_of_def one big f_div_def Round2_Fin over)
  have det: "wa_disks ?a = [] \<and> wa_diskIO ?a = [] \<and> wa_nics ?a = [] \<and> wa_sensors ?a = []"
    by (simp add: acc_add_def acc_details_def newWideAcc_def poison_sample_def zero_sample_def)
  have n: "wa_samples ?a = 1" using acc_add_means(3) [of "[poison_sample t]" newWideAcc] by (simp add: newWideAcc_def)
  have s: "acc_subs ?a = \<lparr>sub_disks = [], sub_diskio = [], sub_nics = [], sub_sensors = []\<rparr>"
    using det by (simp add: acc_subs_def sortedKeys_def)
  have "Downsample d b [poison_sample t] = Some (acc_wide d b ?a (acc_subs ?a), acc_subs ?a)"
    using n by (simp add: Downsample_def acc_finish_def Let_def)
  moreover have "w_load1 (acc_wide d b ?a (acc_subs ?a)) = Some PInf"
    unfolding acc_wide_def Let_def Wide.simps acc_mean_of c m ..
  ultimately show ?thesis using s by blast
qed

text \<open>C22: a sample the protocol accepts can hold its device back. A sample with a load of 2 to the 1023 passes
  the validation of the agent protocol, but its bucket has no encodable row: as long as it is in the hot
  window every round of its device, even on a healthy connection, fails there, and the watermark stays, so
  no later bucket of the device is ever committed.\<close>
theorem flush_poison_blocks:
  assumes "rd_faults w = []" "CursorKey d Resolution5m = Inr k" "rd_kv w k = Some (itoa cursor)"
    and "0 \<le> cursor" "300 dvd cursor" "cursor + 300 < closedBucketUpper cfg" "closedBucketUpper cfg < 2 ^ 63"
    and "rd_lists w (historyKey d) = map enc ps" "\<forall>p\<in>set ps. mc_dec cfg (enc p) = Some p"
    and "paced (ro_step (mc_raw cfg) div 1000000) ps" "1000000 \<le> ro_step (mc_raw cfg)"
    and "int (length ps) \<le> ro_maxPoints (mc_raw cfg)"
    and "ids_ok (db_resources w, db_next_id w)"
    and "b0 \<in> set (steps (cursor + 300) (closedBucketUpper cfg) 300)" "bucket_samples ps b0 = [poison_sample t]" "0 < t"
    and "\<forall>b\<in>set (steps (cursor + 300) (closedBucketUpper cfg) 300). b = b0 \<or> bucket_writable d (bucket_samples ps) b"
  shows "metrics_validate (poison_sample t) = None
     \<and> (\<exists>w' acc. flushDevice cfg d (closedBucketUpper cfg) w = (w', acc, Some ErrEncode) \<and> rd_kv w' = rd_kv w)"
proof -
  let ?up = "closedBucketUpper cfg"
  let ?bs = "steps (cursor + 300) ?up 300" and ?lo = "cursor + 300"
  let ?acc0 = "\<lparr>fa_last = cursor, fa_written = 0, fa_skipped = 0, fa_upserted = 0\<rparr>"
  obtain pts where grp: "\<forall>b\<in>set ?bs. groupByBucket pts 300 b = bucket_samples ps b"
    and run: "flushDevice cfg d ?up w = (case flush_buckets d (groupByBucket pts 300) ?bs ?acc0 w of
          (w2, acc, Some e) \<Rightarrow> (w2, acc, Some e)
        | (w2, acc, None) \<Rightarrow> (case flush_writeCursor d cursor (fa_last acc) w2 of
               (w3, Inl e) \<Rightarrow> (w3, acc, Some e) | (w3, Inr _) \<Rightarrow> (w3, acc, None)))"
    by (rule flushDevice_quiet [OF assms(1-12)])
  have wr: "\<forall>b\<in>set ?bs. b = b0 \<or> bucket_writable d (groupByBucket pts 300) b"
    using assms(17) grp by (simp add: bucket_writable_def)
  obtain wide subs where D: "Downsample d b0 (groupByBucket pts 300 b0) = Some (wide, subs)"
    and l: "w_load1 wide = Some PInf" and s: "subs = \<lparr>sub_disks = [], sub_diskio = [], sub_nics = [], sub_sensors = []\<rparr>"
    using poison_row [of d b0 t] grp assms(14) assms(15) by auto
  have "named subs" "\<not> list_all is_finite (wide_floats wide)"
    using l s by (simp_all add: named_def wide_floats_def)
  then obtain v acc where "flush_buckets d (groupByBucket pts 300) ?bs ?acc0 w = (v, acc, Some ErrEncode)" "quiet_ok w v"
    using flush_buckets_stuck [OF assms(1,13,14) wr D] by blast
  then show ?thesis using poison_valid [OF assms(16)] by (simp add: run quiet_ok_def)
qed

text \<open>A device whose window holds just that sample, taken at 910 s.\<close>
definition poison_dec :: "string \<Rightarrow> MetricsSample option" where
  "poison_dec s = map_option poison_sample (ParseInt s)"

lemma flush_poison_blocks_witness:
  "\<exists>w' acc. flushDevice (demo_cfg\<lparr>mc_dec := poison_dec\<rparr>) 7 2700 (demo_world [] 600 [910000]) = (w', acc, Some ErrEncode)
     \<and> rd_kv w' = rd_kv (demo_world [] 600 [910000])"
proof -
  let ?cfg = "demo_cfg\<lparr>mc_dec := poison_dec\<rparr>" and ?ps = "[poison_sample 910000]"
  have up: "closedBucketUpper ?cfg = 2700" by code_simp
  have st: "set (steps (600 + 300) 2700 300) = {900, 1200, 1500, 1800, 2100, 2400}" by (simp add: steps_Cons)
  have bs: "bucket_samples ?ps b = (if b = 900 then ?ps else [])" if "b \<in> {900, 1200, 1500, 1800, 2100, 2400}" for b
    using that by (auto simp: bucket_samples_def keep_range_def poison_sample_def)
  have "metrics_validate (poison_sample 910000) = None
     \<and> (\<exists>w' acc. flushDevice ?cfg 7 (closedBucketUpper ?cfg) (demo_world [] 600 [910000]) = (w', acc, Some ErrEncode)
          \<and> rd_kv w' = rd_kv (demo_world [] 600 [910000]))"
  proof (rule flush_poison_blocks [where enc = "itoa \<circ> ms_t" and ps = ?ps and ?b0.0 = 900
      and k = "historyKeyPrefix @ ''7:cursor_5m''" and cursor = 600])
    show "CursorKey 7 Resolution5m = Inr (historyKeyPrefix @ ''7:cursor_5m'')" by code_simp
    show "900 \<in> set (steps (600 + 300) (closedBucketUpper ?cfg) 300)" unfolding up st by simp
    show "bucket_samples ?ps 900 = [poison_sample 910000]" using bs by simp
    show "\<forall>b\<in>set (steps (600 + 300) (closedBucketUpper ?cfg) 300). b = 900 \<or> bucket_writable 7 (bucket_samples ?ps) b"
      unfolding up st using bs by (simp add: bucket_writable_def Downsample_def)
    show "\<forall>p\<in>set ?ps. mc_dec ?cfg ((itoa \<circ> ms_t) p) = Some p"
      by (simp add: poison_dec_def poison_sample_def in_int64_def)
  qed (simp_all add: up, simp_all add: demo_world_def demo_cfg_def ids_ok_def paced_def poison_sample_def)
  then show ?thesis unfolding up by blast
qed


section \<open>The result of a round\<close>

lemma flush_devices_errors_mono:
  "flush_devices cfg upper ds st w = (w', st', err) \<Longrightarrow> fs_devices st' = fs_devices st \<and> fs_errors st \<le> fs_errors st'"
proof (induction ds arbitrary: st w)
  case (Cons d ds)
  obtain v acc e where f: "flushDevice cfg d upper w = (v, acc, e)" by (cases "flushDevice cfg d upper w") auto
  show ?case
  proof (cases e)
    case None
    then show ?thesis using Cons.IH Cons.prems f by fastforce
  next
    case (Some x)
    then show ?thesis using Cons.IH Cons.prems f by (cases "x = ErrMetricPartitionMissing") (fastforce simp: Let_def)+
  qed
qed auto

lemma flush_devices_result:
  "flush_devices cfg upper ds st w = (w', st', err) \<Longrightarrow>
   (err = (if 0 < fs_errors st' then Some (ErrFlushPartial (fs_errors st') (fs_devices st)) else None))
   \<or> (err = Some ErrMetricPartitionMissing
      \<and> (\<exists>ds1 d ds2. ds = ds1 @ d # ds2 \<and> (\<forall>ds3. flush_devices cfg upper (ds1 @ d # ds3) st w = (w', st', err))))"
proof (induction ds arbitrary: st w)
  case (Cons d ds)
  obtain v acc e where f: "flushDevice cfg d upper w = (v, acc, e)" by (cases "flushDevice cfg d upper w") auto
  have step: "\<exists>ds1 d' ds2. d # ds = ds1 @ d' # ds2 \<and> (\<forall>ds3. flush_devices cfg upper (ds1 @ d' # ds3) st w = (w', st', err))"
    if ex: "\<exists>ds1 d' ds2. ds = ds1 @ d' # ds2 \<and> (\<forall>ds3. flush_devices cfg upper (ds1 @ d' # ds3) st1 v = (w', st', err))"
      and tl: "\<And>ds. flush_devices cfg upper (d # ds) st w = flush_devices cfg upper ds st1 v" for st1
  proof -
    obtain ds1 d' ds2 where "ds = ds1 @ d' # ds2"
      "\<forall>ds3. flush_devices cfg upper (ds1 @ d' # ds3) st1 v = (w', st', err)" using ex by blast
    then show ?thesis using tl by (intro exI [of _ "d # ds1"] exI [of _ d'] exI [of _ ds2]) simp
  qed
  show ?case
  proof (cases "e = Some ErrMetricPartitionMissing")
    case True
    then have "w' = v \<and> err = Some ErrMetricPartitionMissing" "\<forall>ds3. flush_devices cfg upper ([] @ d # ds3) st w = (w', st', err)"
      using Cons.prems f by (auto simp: Let_def)
    then show ?thesis by blast
  next
    case False
    define st1 where "st1 = (let s = st\<lparr>fs_written := fs_written st + fa_written acc, fs_skipped := fs_skipped st + fa_skipped acc,
        fs_upserted := fs_upserted st + fa_upserted acc\<rparr> in if e = None then s else s\<lparr>fs_errors := fs_errors s + 1\<rparr>)"
    have run: "flush_devices cfg upper (d # ds) st w = flush_devices cfg upper ds st1 v" for ds
      using False f by (cases e) (auto simp: st1_def Let_def)
    have "fs_devices st1 = fs_devices st" by (simp add: st1_def Let_def)
    then show ?thesis using Cons.IH [of st1 v] Cons.prems step [OF _ run] unfolding run by auto
  qed
qed auto

lemma flush_devices_missing:
  "flush_devices cfg upper ds st w = (w', st', Some ErrMetricPartitionMissing) \<Longrightarrow> fs_errors st < fs_errors st'"
proof (induction ds arbitrary: st w)
  case (Cons d ds)
  obtain v acc e where f: "flushDevice cfg d upper w = (v, acc, e)" by (cases "flushDevice cfg d upper w") auto
  show ?case
  proof (cases e)
    case None
    then show ?thesis using Cons.IH Cons.prems f by fastforce
  next
    case (Some x)
    then show ?thesis using Cons.IH Cons.prems f
      by (cases "x = ErrMetricPartitionMissing") (fastforce simp: Let_def)+
  qed
qed (auto split: if_splits)

text \<open>The error of a round says what happened. A round without an error had no failing device; a partial
  failure names how many of the devices failed, all of them having been tried; and the missing-partition
  error stops the round at the failing device: the devices after it are not touched, whatever they are.\<close>
theorem flush_round_error:
  "case flushDeviceSet cfg devices upper w of (w', st, err) \<Rightarrow>
     fs_devices st = int (length devices)
     \<and> (case err of
          None \<Rightarrow> fs_errors st = 0
        | Some e \<Rightarrow> 0 < fs_errors st
            \<and> (e = ErrFlushPartial (fs_errors st) (int (length devices))
               \<or> e = ErrMetricPartitionMissing
                  \<and> (\<exists>ds1 d ds2. devices = ds1 @ d # ds2 \<and>
                       (\<forall>ds3. flush_devices cfg upper (ds1 @ d # ds3) (zero_stats\<lparr>fs_devices := int (length devices)\<rparr>) w
                          = (w', st, err)))))"
proof -
  let ?st = "zero_stats\<lparr>fs_devices := int (length devices)\<rparr>"
  obtain w' st err where f: "flush_devices cfg upper devices ?st w = (w', st, err)"
    by (cases "flush_devices cfg upper devices ?st w") auto
  have m: "fs_devices st = int (length devices)" "0 \<le> fs_errors st"
    using flush_devices_errors_mono [OF f] by (simp_all add: zero_stats_def)
  have pos: "0 < fs_errors st" if "err = Some ErrMetricPartitionMissing"
    using flush_devices_missing [OF f [unfolded that]] by (simp add: zero_stats_def)
  show ?thesis
    using flush_devices_result [OF f] m pos
    by (cases err) (auto simp: flushDeviceSet_def f split: if_splits)
qed

end
