(* ===== verification/RollupSafety.thy ===== *)
theory RollupSafety
  imports Rollup FlushLive
begin

text \<open>
  What an hour round guarantees, under every script of losses and interleavings: it never undoes a
  rewind, and its watermark only passes hours that have their row or whose grace is over. The check of
  the rewind marker, on the other hand, can report a rewind as caught up that no round has walked.
\<close>

section \<open>Calls that keep the watermark\<close>

lemma ext_call_follows_other:
  assumes "\<And>w. wm_val k (rd_kv (fst (f w))) = wm_val k (rd_kv w) \<and> wm_valid k (rd_kv (fst (f w))) = wm_valid k (rd_kv w)
             \<and> rd_faults (fst (f w)) = rd_faults w"
  shows "follows k w (fst (ext_call f w))"
proof -
  obtain kv fs where st: "settle (rd_faults w) (rd_kv w) = (kv, fs)" by fastforce
  then obtain pre where pre: "rd_faults w = pre @ fs"
     "wm_valid k (rd_kv w) \<and> rewinds_only k (rd_faults w) \<longrightarrow> wm_valid k kv \<and> wm_val k kv \<le> wm_val k (rd_kv w)
        \<and> (\<forall>t. in_int64 t \<and> Meanwhile (FRewind k (itoa t)) \<in> set pre \<longrightarrow> wm_val k kv \<le> t)"
    using settle_follows [OF st, of k] by blast
  have nm: "fs \<noteq> Meanwhile op # r" for op r
    using st settle_head [of "rd_faults w" "rd_kv w"] by simp
  have kv': "wm_val k (rd_kv (fst (ext_call f w))) = wm_val k kv" "wm_valid k (rd_kv (fst (ext_call f w))) = wm_valid k kv"
    and fs': "rd_faults (fst (ext_call f w)) = tl fs"
    using st assms by (auto simp: ext_call_def Let_def split: list.splits fault.splits)
  have "fs = take 1 fs @ tl fs" by (cases fs) auto
  moreover have "Meanwhile op \<notin> set (take 1 fs)" for op using nm by (cases fs) auto
  ultimately show ?thesis
    unfolding follows_def kv' fs' using pre by (intro exI [of _ "pre @ take 1 fs"]) auto
qed

lemma set_calls_follow [intro]:
  "follows k w (fst (redis_smembers key w))" "follows k w (fst (redis_scard key w))"
  "follows k w (fst (redis_sadd key m w))" "follows k w (fst (redis_srem key ms w))"
  unfolding redis_smembers_def redis_scard_def redis_sadd_def redis_srem_def
  by (auto intro!: ext_call_follows)

lemma mapS_lift_follows: "follows k w (fst (mapS (\<lambda>e. liftS (g e)) xs w))"
  by (intro mapS_follows) (simp add: follows_refl)

lemma addRepairHour_follows: "follows k w (fst (addRepairHour d h w))"
  unfolding addRepairHour_def Let_def
  by (intro bindS_follows) (auto intro!: bindS_follows simp: follows_refl)

lemma rollupHour_follows: "follows k w (fst (rollupHour d h fromRepair w))"
proof -
  have fin: "follows k v (fst (bindS (WriteHour row) (\<lambda>_. bindS (if c then addRepairHour d h
        else if fromRepair then dropRepairHour d h else returnS ()) (\<lambda>_. returnS (True, False))) v))" for v row c
    by (intro bindS_follows) (auto simp: follows_refl addRepairHour_follows dropRepairHour_def)
  have lf: "follows k v (fst (bindS (liftS r) f v))" if "\<And>x v. follows k v (fst (f x v))"
    for r and f :: "Wide \<Rightarrow> (bool \<times> bool) metrics_call" and v
    using that by (cases r) (auto simp: follows_refl)
  show ?thesis
    unfolding rollupHour_def
    by (intro bindS_follows)
      (auto intro!: bindS_follows lf fin mapS_lift_follows split: prod.splits
        simp: follows_refl dropRepairHour_def repo_follows addRepairHour_follows set_calls_follow)
qed

lemma repair_loop_follows: "follows k w (fst (repair_loop cfg d hs st w))"
proof (induction hs arbitrary: st w)
  case (Cons h hs)
  obtain v r where v: "rollupHour d h True w = (v, r)" by (cases "rollupHour d h True w")
  have "follows k w v" using rollupHour_follows [of k w d h True] v by simp
  then show ?case using Cons.IH v follows_trans by (cases r) (fastforce simp: Let_def split: prod.splits)+
qed (simp add: follows_refl)

lemma hour_loop_follows: "follows k w (fst (hour_loop cfg d quota hs acc w))"
proof (induction hs arbitrary: acc w)
  case (Cons h hs)
  obtain v r where v: "rollupHour d h False w = (v, r)" by (cases "rollupHour d h False w")
  have "follows k w v" using rollupHour_follows [of k w d h False] v by simp
  then show ?case using Cons.IH v follows_trans [of k w v]
    by (cases r) (auto simp: Let_def follows_refl split: prod.splits)
qed (simp add: follows_refl)

lemma rescan_hours_follows: "follows k w (fst (rescan_hours d hs n w))"
proof (induction hs arbitrary: n w)
  case (Cons h hs)
  obtain v r where v: "rollupHour d h False w = (v, r)" by (cases "rollupHour d h False w")
  have "follows k w v" using rollupHour_follows [of k w d h False] v by simp
  then show ?case using Cons.IH v follows_trans [of k w v]
    by (cases r; cases n) (auto split: prod.splits)
qed (simp add: follows_refl)

lemma rescanDevice_follows: "follows k w (fst (rescanDevice cfg d upper already w))"
proof -
  let ?h = "resolutionSeconds Resolution1h"
  let ?from = "alignDown (mc_now cfg) ?h - rescanWindowHours cfg * ?h" and ?to = "alignDown (mc_now cfg) ?h - 1"
  obtain w1 r1 where 1: "ExistingBucketTimestamps Metric5m d ?from ?to w = (w1, r1)" by fastforce
  obtain w2 r2 where 2: "ExistingBucketTimestamps Metric1h d ?from ?to w1 = (w2, r2)" by fastforce
  have f1: "follows k w w1" using repo_follows(4) [of k w Metric5m d ?from ?to] 1 by simp
  have "follows k w1 w2" using repo_follows(4) [of k w1 Metric1h d ?from ?to] 2 by simp
  then have f2: "follows k w w2" by (rule follows_trans [OF f1])
  have f3: "follows k w (fst (rescan_hours d hs n w2))" for hs n
    by (rule follows_trans [OF f2 rescan_hours_follows])
  show ?thesis using 1 2 f1 f2 f3
    by (cases r1; cases r2) (simp_all add: rescanDevice_def Let_def follows_refl)
qed

lemma clear_follows:
  assumes "RewindMarkerKey d r = Inr m" "m \<noteq> k"
  shows "follows k w (fst (cs_ClearRewind d r t w))"
proof -
  have "follows k v (fst (eval_script (clearRewindScript m (itoa t)) v))" for v
    unfolding eval_script_def using assms(2)
    by (intro ext_call_follows_other) (auto simp: clearRewindScript_def split: option.splits if_splits prod.splits)
  then show ?thesis
    unfolding cs_ClearRewind_def assms(1) bindS_simps
    by (intro bindS_follows) (auto simp: follows_refl split: sum.splits)
qed

lemma catchUp_follows:
  assumes "CursorKey d Resolution1h = Inr k"
  shows "follows k w (fst (catchUpRewindMarker d c n w))"
proof -
  obtain m where m: "RewindMarkerKey d Resolution1h = Inr m" "m \<noteq> k"
    using assms by (auto simp: RewindMarkerKey_def CursorKey_def rewindMarkerSuffixes_def cursorKeySuffixes_def
        Resolution1h_def split: if_splits)
  have p: "follows k v (fst (cs_PendingRewind d Resolution1h v))" for v
    unfolding cs_PendingRewind_def get_int64_def redis_get_def m(1) bindS_simps
    by (intro bindS_follows ext_call_follows) (auto simp: follows_refl split: option.splits)
  obtain v r where v: "cs_PendingRewind d Resolution1h w = (v, r)" by (cases "cs_PendingRewind d Resolution1h w")
  have 1: "follows k w v" using p [of w] v by simp
  have 2: "follows k v (fst (cs_ClearRewind d Resolution1h t v))" for t by (rule clear_follows [OF m])
  have 3: "follows k w x" if "cs_ClearRewind d Resolution1h t v = (x, y)" for t x y
    using follows_trans [OF 1 2 [of t]] that by simp
  show ?thesis
    using 1 3 v
    by (auto simp: catchUpRewindMarker_def split: sum.splits option.splits prod.splits)
qed

lemma rollup_writeCursor_state: "fst (rollup_writeCursor d c n w) = fst (cs_Advance d Resolution1h c n w)"
  by (auto simp: rollup_writeCursor_def bindS_def split: prod.splits sum.splits)


section \<open>What an hour writes\<close>

text \<open>The hour row of the five-minute rows on record, and when an hour is settled: it has that row, or it
  has no five-minute rows and its grace is over.\<close>
definition hour_rows :: "int \<Rightarrow> int \<Rightarrow> metrics_world \<Rightarrow> Wide list" where
  "hour_rows d h w = rows_between d h (h + 3300) (db_5m w)"

definition settled :: "metrics_cfg \<Rightarrow> int \<Rightarrow> int \<Rightarrow> metrics_world \<Rightarrow> bool" where
  "settled cfg d h w \<longleftrightarrow>
     (if hour_rows d h w = [] then \<not> emptyHourWithinGrace cfg h
      else wide_at d h (db_1h w) = Some (fst (RollupToHour h (hour_rows d h w))))"

text \<open>A call that leaves the two tables, and one that writes at most the right row of an hour.\<close>
definition keeps_tables :: "metrics_world \<Rightarrow> metrics_world \<Rightarrow> bool" where
  "keeps_tables w w' \<longleftrightarrow> db_5m w' = db_5m w \<and> db_1h w' = db_1h w"

definition writes_hours :: "int \<Rightarrow> metrics_world \<Rightarrow> metrics_world \<Rightarrow> bool" where
  "writes_hours d w w' \<longleftrightarrow> db_5m w' = db_5m w
     \<and> (\<forall>h. wide_at d h (db_1h w') = wide_at d h (db_1h w)
           \<or> hour_rows d h w \<noteq> [] \<and> wide_at d h (db_1h w') = Some (fst (RollupToHour h (hour_rows d h w))))"

lemma keeps_writes: "keeps_tables w w' \<Longrightarrow> writes_hours d w w'"
  by (simp add: keeps_tables_def writes_hours_def)

lemma writes_hours_refl [simp]: "writes_hours d w w"
  by (simp add: writes_hours_def)

lemma writes_hours_trans: "writes_hours d u v \<Longrightarrow> writes_hours d v w \<Longrightarrow> writes_hours d u w"
  unfolding writes_hours_def hour_rows_def by (metis (no_types, lifting))

lemma settled_stable: "writes_hours d w w' \<Longrightarrow> settled cfg d h w \<Longrightarrow> settled cfg d h w'"
  unfolding writes_hours_def settled_def hour_rows_def by (metis (no_types, lifting))

lemma keeps_tables_refl [simp]: "keeps_tables w w"
  by (simp add: keeps_tables_def)

lemma keeps_tables_trans: "keeps_tables u v \<Longrightarrow> keeps_tables v w \<Longrightarrow> keeps_tables u w"
  by (simp add: keeps_tables_def)

lemma ext_call_tables: "(\<And>w. keeps_tables w (fst (f w))) \<Longrightarrow> keeps_tables w (fst (ext_call f w))"
  by (auto simp: ext_call_def Let_def keeps_tables_def split: prod.splits list.splits fault.splits)

lemma bindS_tables:
  assumes "\<And>w. keeps_tables w (fst (m w))" "\<And>x w. keeps_tables w (fst (f x w))"
  shows "keeps_tables w (fst (bindS m f w))"
proof -
  obtain w' r where m: "m w = (w', r)" by (cases "m w")
  then have "keeps_tables w w'" using assms(1) [of w] by simp
  then show ?thesis using m assms(2) keeps_tables_trans by (cases r) (auto simp: bindS_def)
qed

lemma read_tables:
  "keeps_tables w (fst (ReadWideRows t d from to w))" "keeps_tables w (fst (ExistingBucketTimestamps t d from to w))"
  "keeps_tables w (fst (redis_smembers k w))" "keeps_tables w (fst (redis_scard k w))"
  "keeps_tables w (fst (redis_sadd k m w))" "keeps_tables w (fst (redis_srem k ms w))"
  "keeps_tables w (fst (eval_script sc w))" "keeps_tables w (fst (redis_get k w))"
  unfolding ReadWideRows_def ExistingBucketTimestamps_def redis_smembers_def redis_scard_def redis_sadd_def
    redis_srem_def eval_script_def redis_get_def
  by (intro ext_call_tables; simp add: keeps_tables_def split: prod.splits)+

lemma addRepair_tables: "keeps_tables w (fst (addRepairHour d h w))"
  unfolding addRepairHour_def Let_def
  by (intro bindS_tables) (auto intro!: bindS_tables read_tables)

lemma cursor_tables:
  "keeps_tables w (fst (cs_Advance d r c n w))" "keeps_tables w (fst (cs_ClearRewind d r c w))"
  "keeps_tables w (fst (cs_PendingRewind d r w))"
proof -
  have l: "keeps_tables w (fst (bindS (liftS r) f w))" if "\<And>x w. keeps_tables w (fst (f x w))"
    for r :: "(svc_err, 'b) result" and f :: "'b \<Rightarrow> 'c metrics_call" and w
    using that by (cases r) auto
  show "keeps_tables w (fst (cs_Advance d r c n w))" "keeps_tables w (fst (cs_ClearRewind d r c w))"
    unfolding cs_Advance_def cs_ClearRewind_def
    by (intro l bindS_tables read_tables; simp)+
  show "keeps_tables w (fst (cs_PendingRewind d r w))"
    unfolding cs_PendingRewind_def get_int64_def
    by (intro l bindS_tables read_tables) (simp split: option.splits)
qed

lemma mapS_WideFromEntity:
  "mapS (\<lambda>e. liftS (WideFromEntity e)) rows w = (w', r) \<Longrightarrow> w' = w \<and> (\<forall>xs. r = Inr xs \<longrightarrow> xs = rows)"
proof (induction rows arbitrary: r w')
  case (Cons e rows)
  obtain v q where q: "mapS (\<lambda>e. liftS (WideFromEntity e)) rows w = (v, q)" by fastforce
  show ?case
  proof (cases "WideFromEntity e")
    case (Inl x)
    then show ?thesis using Cons.prems by (auto simp: bindS_def)
  next
    case (Inr y)
    then have "y = e" by (simp add: WideFromEntity_def split: if_splits)
    then show ?thesis using Cons.prems Cons.IH [OF q] Inr q
      by (cases q) (auto simp: bindS_def simp del: resultS_simps(3))
  qed
qed simp

lemma RollupToHour_key:
  assumes "rows \<noteq> []" "\<forall>r\<in>set rows. w_device r = d"
  shows "w_device (fst (RollupToHour h rows)) = d \<and> w_bucket (fst (RollupToHour h rows)) = h"
proof -
  have "last (sortWideByBucket rows) \<in> set rows" using assms(1) by (metis last_in_set sortWide_empty sortWide_set)
  then show ?thesis using assms by (simp add: RollupToHour_def Let_def hour_wide_def)
qed

lemma hour_rows_device: "r \<in> set (hour_rows d h w) \<Longrightarrow> w_device r = d"
  by (simp add: hour_rows_def rows_between_def)


lemma WriteHour_effect:
  assumes "WriteHour row w = (w', r)"
  shows "db_5m w' = db_5m w \<and> (db_1h w' = db_1h w \<or> db_1h w' = upsertWide row (db_1h w))
     \<and> (\<forall>x. r = Inr x \<longrightarrow> db_1h w' = upsertWide row (db_1h w))"
  using assms by (auto simp: WriteHour_def ext_call_def Let_def split: prod.splits list.splits fault.splits)

lemma ReadWideRows_effect:
  assumes "ReadWideRows Metric5m d from to w = (w', r)"
  shows "keeps_tables w w' \<and> (\<forall>rows. r = Inr rows \<longrightarrow> rows = rows_between d from to (db_5m w))"
  using assms
  by (auto simp: ReadWideRows_def ext_call_def Let_def keeps_tables_def table_of_def
      split: prod.splits list.splits fault.splits)

lemma res_1h [simp]: "resolutionSeconds Resolution1h = 3600" "resolutionSeconds Resolution5m = 300"
  by (simp_all add: resolutionSeconds_def BucketSeconds_def Resolution5m_def Resolution1h_def)

text \<open>The tail of an hour: the row is written, then the repair set is kept up.\<close>
lemma write_tail_effect:
  assumes "bindS (WriteHour row) (\<lambda>_. bindS (if c then addRepairHour d h else if fr then dropRepairHour d h else returnS ())
             (\<lambda>_. returnS (True, False))) w = (w', r)"
    and "row = fst (RollupToHour h (hour_rows d h w))" "hour_rows d h w \<noteq> []"
  shows "writes_hours d w w' \<and> (\<forall>b s. r = Inr (b, s) \<longrightarrow> b \<and> settled cfg d h w')"
proof -
  obtain v q where v: "WriteHour row w = (v, q)" by (cases "WriteHour row w")
  note e = WriteHour_effect [OF v]
  have key: "w_device row = d" "w_bucket row = h"
    using RollupToHour_key [OF assms(3)] hour_rows_device assms(2) by blast+
  have wv: "writes_hours d w v" using e key assms(2,3) by (auto simp: writes_hours_def split: if_splits)
  have t: "keeps_tables v (fst (bindS (if c then addRepairHour d h else if fr then dropRepairHour d h else returnS ())
             (\<lambda>_. returnS (True, False)) v))"
    by (intro bindS_tables) (auto simp: addRepair_tables dropRepairHour_def read_tables)
  show ?thesis
  proof (cases q)
    case (Inl x)
    then show ?thesis using assms(1) v wv by (auto simp: bindS_def)
  next
    case (Inr x)
    have w': "bindS (if c then addRepairHour d h else if fr then dropRepairHour d h else returnS ())
             (\<lambda>_. returnS (True, False)) v = (w', r)"
      using assms(1) v Inr by (simp add: bindS_def [of "WriteHour row"])
    have kt: "keeps_tables v w'" using t w' by simp
    have "settled cfg d h w'"
      using e Inr kt key assms(2,3) by (simp add: settled_def keeps_tables_def hour_rows_def)
    moreover have "r = Inr (b, s) \<Longrightarrow> b" for b s
      using w' by (auto simp: bindS_def split: prod.splits sum.splits)
    ultimately show ?thesis using writes_hours_trans [OF wv keeps_writes [OF kt]] by blast
  qed
qed

lemma rollupHour_eq:
  "rollupHour d h fr =
     bindS (ReadWideRows Metric5m d h (h + 3300)) (\<lambda>rows.
       if rows = [] then bindS (if fr then dropRepairHour d h else returnS ()) (\<lambda>_. returnS (False, True))
       else bindS (mapS (\<lambda>e. liftS (WideFromEntity e)) rows) (\<lambda>wides.
         bindS (liftS (EntityFromWide (fst (RollupToHour h wides)))) (\<lambda>row.
         bindS (WriteHour row) (\<lambda>_.
         bindS (if ri_needRepair (snd (RollupToHour h wides)) then addRepairHour d h
                else if fr then dropRepairHour d h else returnS ()) (\<lambda>_. returnS (True, False))))))"
proof -
  have e: "h + 3600 - 300 = h + (3300 :: int)" by simp
  show ?thesis unfolding rollupHour_def res_1h e case_prod_unfold ..
qed

lemma rollupHour_effect:
  assumes "rollupHour d h fr w = (w', r)"
  shows "writes_hours d w w'"
    and "\<And>b s. r = Inr (b, s) \<Longrightarrow> (b \<longrightarrow> settled cfg d h w') \<and> (\<not> b \<longrightarrow> s \<and> hour_rows d h w' = [])"
proof -
  obtain v q where v: "ReadWideRows Metric5m d h (h + 3300) w = (v, q)" by fastforce
  note rd = ReadWideRows_effect [OF v]
  have hr: "hour_rows d h v = hour_rows d h w" using rd by (simp add: hour_rows_def keeps_tables_def)
  have "writes_hours d w w' \<and> (\<forall>b s. r = Inr (b, s) \<longrightarrow> (b \<longrightarrow> settled cfg d h w') \<and> (\<not> b \<longrightarrow> s \<and> hour_rows d h w' = []))"
  proof (cases q)
    case (Inl e)
    then show ?thesis using assms v rd by (auto simp: rollupHour_eq bindS_def keeps_writes)
  next
    case (Inr rows)
    then have rows: "rows = hour_rows d h v" using rd by (simp add: hour_rows_def keeps_tables_def)
    show ?thesis
    proof (cases "rows = []")
      case True
      have t: "keeps_tables v (fst (bindS (if fr then dropRepairHour d h else returnS ()) (\<lambda>_. returnS (False, True)) v))"
        by (intro bindS_tables) (auto simp: dropRepairHour_def read_tables)
      have w': "bindS (if fr then dropRepairHour d h else returnS ()) (\<lambda>_. returnS (False, True)) v = (w', r)"
        using assms v Inr True by (simp add: rollupHour_eq bindS_def)
      have k: "keeps_tables w w'" using t w' rd keeps_tables_trans by auto
      have "r = Inr (b, s) \<Longrightarrow> \<not> b \<and> s" for b s
        using w' by (auto simp: bindS_def split: prod.splits sum.splits)
      moreover have "hour_rows d h w' = []" using k True rows hr by (simp add: hour_rows_def keeps_tables_def)
      ultimately show ?thesis using keeps_writes [OF k] by auto
    next
      case False
      obtain v2 q2 where m: "mapS (\<lambda>e. liftS (WideFromEntity e)) rows v = (v2, q2)" by fastforce
      note me = mapS_WideFromEntity [OF m]
      show ?thesis
      proof (cases q2)
        case (Inl e)
        then show ?thesis using assms v Inr False m me rd by (auto simp: rollupHour_eq bindS_def keeps_writes)
      next
        case (Inr wides)
        have wides: "wides = rows" "v2 = v" using me Inr by auto
        let ?wi = "RollupToHour h rows"
        show ?thesis
        proof (cases "EntityFromWide (fst ?wi)")
          case (Inl e)
          then show ?thesis
            using assms v \<open>q = Inr rows\<close> False m Inr wides rd
            by (auto simp: rollupHour_eq bindS_def keeps_writes split: prod.splits)
        next
          case (Inr row)
          then have row: "row = fst ?wi" by (simp add: EntityFromWide_def split: if_splits)
          have tl: "bindS (WriteHour row) (\<lambda>_. bindS (if ri_needRepair (snd ?wi) then addRepairHour d h
              else if fr then dropRepairHour d h else returnS ()) (\<lambda>_. returnS (True, False))) v = (w', r)"
            using assms v \<open>q = Inr rows\<close> False m \<open>q2 = Inr wides\<close> wides Inr
            by (simp add: rollupHour_eq bindS_def [of "ReadWideRows _ _ _ _"] bindS_def [of "mapS _ _"])
          have "writes_hours d v w' \<and> (\<forall>b s. r = Inr (b, s) \<longrightarrow> b \<and> settled cfg d h w')"
            by (rule write_tail_effect [OF tl]) (use row rows False in auto)
          then show ?thesis using writes_hours_trans keeps_writes rd by blast
        qed
      qed
    qed
  qed
  then show "writes_hours d w w'" "\<And>b s. r = Inr (b, s) \<Longrightarrow> (b \<longrightarrow> settled cfg d h w') \<and> (\<not> b \<longrightarrow> s \<and> hour_rows d h w' = [])"
    by blast+
qed


section \<open>What the loops write\<close>

lemma repair_loop_writes: "repair_loop cfg d hs st w = (w', st', e) \<Longrightarrow> writes_hours d w w'"
proof (induction hs arbitrary: st w)
  case (Cons h hs)
  obtain v r where v: "rollupHour d h True w = (v, r)" by (cases "rollupHour d h True w")
  note one = rollupHour_effect(1) [OF v]
  show ?case
  proof (cases r)
    case (Inl x)
    then show ?thesis using Cons.prems v one by (simp add: Let_def)
  next
    case (Inr bs)
    then show ?thesis using Cons.prems v writes_hours_trans [OF one] Cons.IH by (cases bs) (simp add: Let_def)
  qed
qed simp

lemma rescan_hours_writes: "rescan_hours d hs n w = (w', n', e) \<Longrightarrow> writes_hours d w w'"
proof (induction hs arbitrary: n w)
  case (Cons h hs)
  obtain v r where v: "rollupHour d h False w = (v, r)" by (cases "rollupHour d h False w")
  note one = rollupHour_effect(1) [OF v]
  obtain a b where n: "n = (a, b)" by (cases n)
  show ?case
  proof (cases r)
    case (Inl x)
    then show ?thesis using Cons.prems v one n by simp
  next
    case (Inr bs)
    then show ?thesis using Cons.prems v writes_hours_trans [OF one] Cons.IH n by (cases bs) simp
  qed
qed simp

lemma hour_loop_writes: "hour_loop cfg d quota hs acc w = (w', acc', e) \<Longrightarrow> writes_hours d w w'"
proof (induction hs arbitrary: acc w)
  case (Cons h hs)
  obtain v r where v: "rollupHour d h False w = (v, r)" by (cases "rollupHour d h False w")
  note one = rollupHour_effect(1) [OF v]
  show ?case
  proof (cases "quota \<le> hl_processed acc")
    case True
    then show ?thesis using Cons.prems by simp
  next
    case False
    show ?thesis
    proof (cases r)
      case (Inl x)
      then show ?thesis using Cons.prems v one False by (simp add: Let_def)
    next
      case (Inr bs)
      then show ?thesis using Cons.prems v writes_hours_trans [OF one] Cons.IH False by (cases bs) (simp add: Let_def)
    qed
  qed
qed simp

lemma hour_step_blocked:
  assumes "hl_blocked acc"
  shows "hl_blocked (hour_outcome cfg h ws (hour_visit h acc))"
    and "hl_last (hour_outcome cfg h ws (hour_visit h acc)) = hl_last acc"
  using assms by (simp_all add: hour_outcome_def hour_visit_def Let_def)

lemma hour_loop_blocked:
  "hour_loop cfg d quota hs acc w = (w', acc', e) \<Longrightarrow> hl_blocked acc \<Longrightarrow> hl_last acc' = hl_last acc"
proof (induction hs arbitrary: acc w)
  case (Cons h hs)
  obtain v r where v: "rollupHour d h False w = (v, r)" by (cases "rollupHour d h False w")
  have vis: "hl_last (hour_visit h acc) = hl_last acc" by (simp add: hour_visit_def)
  show ?case
    using Cons.prems v vis Cons.IH [OF _ hour_step_blocked(1) [OF Cons.prems(2)]] hour_step_blocked(2) [OF Cons.prems(2)]
    by (cases r) (auto split: if_splits)
qed auto

text \<open>The last hour of the loop is where it started or one of its hours, and every hour up to it is settled.\<close>
lemma hour_loop_settles:
  "hour_loop cfg d quota hs acc w = (w', acc', None) \<Longrightarrow> sorted_wrt (<) hs \<Longrightarrow> \<forall>h\<in>set hs. hl_last acc < h \<Longrightarrow>
   (hl_last acc' = hl_last acc \<or> hl_last acc' \<in> set hs)
   \<and> (\<forall>h\<in>set hs. h \<le> hl_last acc' \<longrightarrow> settled cfg d h w')"
proof (induction hs arbitrary: acc w)
  case (Cons h hs)
  obtain v r where v: "rollupHour d h False w = (v, r)" by (cases "rollupHour d h False w")
  note one = rollupHour_effect [OF v]
  show ?case
  proof (cases "quota \<le> hl_processed acc")
    case True
    then show ?thesis using Cons.prems by auto
  next
    case False
    then obtain written skipped where r: "r = Inr (written, skipped)"
      using Cons.prems(1) v by (cases r) (auto simp: Let_def)
    define acc2 where "acc2 = hour_outcome cfg h (written, skipped) (hour_visit h acc)"
    have rest: "hour_loop cfg d quota hs acc2 v = (w', acc', None)"
      using Cons.prems(1) v r False by (simp add: acc2_def)
    have gt: "\<forall>x\<in>set hs. h < x" "hl_last acc < h" "sorted_wrt (<) hs" using Cons.prems(2,3) by auto
    have l2: "hl_last acc2 = hl_last acc \<or> hl_last acc2 = h" by (simp add: acc2_def hour_outcome_def hour_visit_def Let_def)
    have le: "\<forall>x\<in>set hs. hl_last acc2 < x" using gt l2 by fastforce
    note ih = Cons.IH [OF rest gt(3) le]
    have "settled cfg d h w'" if "h \<le> hl_last acc'"
    proof -
      have "settled cfg d h v"
      proof (cases written)
        case True
        then show ?thesis using one(2) [OF r] by blast
      next
        case False
        then have e: "skipped" "hour_rows d h v = []" using one(2) [OF r] by blast+
        have "\<not> emptyHourWithinGrace cfg h"
        proof
          assume "emptyHourWithinGrace cfg h"
          then have "hl_blocked acc2" "hl_last acc2 = hl_last acc" using False e by (simp_all add: acc2_def hour_outcome_def hour_visit_def Let_def)
          then show False using hour_loop_blocked [OF rest] that gt(2) by simp
        qed
        then show ?thesis using e by (simp add: settled_def)
      qed
      then show ?thesis using settled_stable hour_loop_writes [OF rest] by blast
    qed
    moreover have "\<forall>x\<in>set hs. x \<le> hl_last acc' \<longrightarrow> settled cfg d x w'" using ih by blast
    moreover have "hl_last acc' = hl_last acc \<or> hl_last acc' \<in> set (h # hs)" using ih l2 by auto
    ultimately show ?thesis by auto
  qed
qed simp


section \<open>A commit between two quiet stretches\<close>

lemma commit_keeps_rewind:
  assumes "CursorKey d r = Inr k" "wm_valid k (rd_kv w)" "rewinds_only k (rd_faults w)" "in_int64 c" "in_int64 n"
    and "follows k w u" "v = fst (cs_Advance d r c n u)" "follows k v w'"
    and "rd_faults w = pre @ rd_faults w'" "Meanwhile (FRewind k (itoa t)) \<in> set pre" "in_int64 t" "t < c"
  shows "wm_val k (rd_kv w') \<le> t"
proof -
  obtain p1 where p1: "rd_faults w = p1 @ rd_faults u" "wm_valid k (rd_kv u)" "wm_val k (rd_kv u) \<le> wm_val k (rd_kv w)"
    "\<forall>t. in_int64 t \<and> Meanwhile (FRewind k (itoa t)) \<in> set p1 \<longrightarrow> wm_val k (rd_kv u) \<le> t"
    using assms(2,3,6) unfolding follows_def by blast
  have r1: "rewinds_only k (rd_faults u)" using assms(3) p1(1) by (simp add: rewinds_only_append)
  obtain p2 where p2: "rd_faults u = p2 @ rd_faults v" and v: "wm_valid k (rd_kv v)"
    and res: "(wm_val k (rd_kv v) = n \<and> c < n \<and> c \<le> wm_val k (rd_kv u)
            \<and> (\<forall>t. in_int64 t \<and> Meanwhile (FRewind k (itoa t)) \<in> set p2 \<longrightarrow> c \<le> t))
         \<or> (wm_val k (rd_kv v) \<le> wm_val k (rd_kv u)
            \<and> (\<forall>t. in_int64 t \<and> Meanwhile (FRewind k (itoa t)) \<in> set p2 \<longrightarrow> wm_val k (rd_kv v) \<le> t))"
    by (rule Advance_cases [OF assms(1) p1(2) r1 assms(4,5), folded assms(7)])
  have r2: "rewinds_only k (rd_faults v)" using r1 p2 by (simp add: rewinds_only_append)
  obtain p3 where p3: "rd_faults v = p3 @ rd_faults w'" "wm_val k (rd_kv w') \<le> wm_val k (rd_kv v)"
    "\<forall>t. in_int64 t \<and> Meanwhile (FRewind k (itoa t)) \<in> set p3 \<longrightarrow> wm_val k (rd_kv w') \<le> t"
    using v r2 assms(8) unfolding follows_def by blast
  have "pre = p1 @ p2 @ p3" using assms(9) p1(1) p2 p3(1) by simp
  then consider "Meanwhile (FRewind k (itoa t)) \<in> set p1" | "Meanwhile (FRewind k (itoa t)) \<in> set p2"
    | "Meanwhile (FRewind k (itoa t)) \<in> set p3" using assms(10) by auto
  then show ?thesis
  proof cases
    case 1
    then have "wm_val k (rd_kv u) \<le> t" using p1(4) assms(11) by blast
    then show ?thesis using res p3(2) assms(12) by linarith
  next
    case 2
    then show ?thesis using res p3(2) assms(11,12) by fastforce
  next
    case 3
    then show ?thesis using p3(3) assms(11) by blast
  qed
qed

lemma commit_raises:
  assumes "CursorKey d r = Inr k" "wm_valid k (rd_kv w)" "rewinds_only k (rd_faults w)" "in_int64 c" "in_int64 n"
    and "follows k w u" "v = fst (cs_Advance d r c n u)" "follows k v w'"
    and "wm_val k (rd_kv w) < wm_val k (rd_kv w')"
  shows "wm_val k (rd_kv w') \<le> n"
proof -
  obtain p1 where p1: "rd_faults w = p1 @ rd_faults u" "wm_valid k (rd_kv u)" "wm_val k (rd_kv u) \<le> wm_val k (rd_kv w)"
    using assms(2,3,6) unfolding follows_def by blast
  have r1: "rewinds_only k (rd_faults u)" using assms(3) p1(1) by (simp add: rewinds_only_append)
  obtain p2 where p2: "rd_faults u = p2 @ rd_faults v" and v: "wm_valid k (rd_kv v)"
    and res: "(wm_val k (rd_kv v) = n \<and> c < n \<and> c \<le> wm_val k (rd_kv u)
            \<and> (\<forall>t. in_int64 t \<and> Meanwhile (FRewind k (itoa t)) \<in> set p2 \<longrightarrow> c \<le> t))
         \<or> (wm_val k (rd_kv v) \<le> wm_val k (rd_kv u)
            \<and> (\<forall>t. in_int64 t \<and> Meanwhile (FRewind k (itoa t)) \<in> set p2 \<longrightarrow> wm_val k (rd_kv v) \<le> t))"
    by (rule Advance_cases [OF assms(1) p1(2) r1 assms(4,5), folded assms(7)])
  have r2: "rewinds_only k (rd_faults v)" using r1 p2 by (simp add: rewinds_only_append)
  have "wm_val k (rd_kv w') \<le> wm_val k (rd_kv v)" using v r2 assms(8) unfolding follows_def by blast
  then show ?thesis using res p1(3) assms(9) by linarith
qed

section \<open>The shape of a round\<close>

lemma catchUp_tables: "keeps_tables w (fst (catchUpRewindMarker d c n w))"
proof -
  obtain v r where v: "cs_PendingRewind d Resolution1h w = (v, r)" by (cases "cs_PendingRewind d Resolution1h w")
  have 1: "keeps_tables w v" using cursor_tables(3) [of w d Resolution1h] v by simp
  have 2: "keeps_tables w x" if "cs_ClearRewind d Resolution1h t v = (x, y)" for t x y
    using cursor_tables(2) [of v d Resolution1h t] that 1 keeps_tables_trans by auto
  show ?thesis using 1 2 v
    by (auto simp: catchUpRewindMarker_def split: sum.splits option.splits prod.splits)
qed

lemma rescanDevice_writes: "rescanDevice cfg d upper already w = (w', n, e) \<Longrightarrow> writes_hours d w w'"
proof -
  assume a: "rescanDevice cfg d upper already w = (w', n, e)"
  let ?from = "alignDown (mc_now cfg) 3600 - rescanWindowHours cfg * 3600" and ?to = "alignDown (mc_now cfg) 3600 - 1"
  obtain w1 r1 where 1: "ExistingBucketTimestamps Metric5m d ?from ?to w = (w1, r1)" by fastforce
  obtain w2 r2 where 2: "ExistingBucketTimestamps Metric1h d ?from ?to w1 = (w2, r2)" by fastforce
  have k1: "writes_hours d w w1"
    using read_tables(2) [of w Metric5m d ?from ?to] 1 by (simp add: keeps_writes)
  have "writes_hours d w1 w2"
    using read_tables(2) [of w1 Metric1h d ?from ?to] 2 by (simp add: keeps_writes)
  then have k2: "writes_hours d w w2" using k1 writes_hours_trans by blast
  have k3: "rescan_hours d hs m w2 = (w', n, e) \<Longrightarrow> writes_hours d w w'" for hs m
    using rescan_hours_writes writes_hours_trans k2 by blast
  show ?thesis using a 1 2 k1 k2 k3
    by (cases r1; cases r2) (auto simp: rescanDevice_def Let_def split: if_splits)
qed

lemma rescanDevice_writes': "writes_hours d w (fst (rescanDevice cfg d upper already w))"
  using rescanDevice_writes by (cases "rescanDevice cfg d upper already w") simp

lemma rollup_finish_eq:
  "fst (rollup_finish cfg d upper cursor acc w) =
     (case (if hl_last acc \<noteq> cursor then rollup_writeCursor d cursor (hl_last acc) w else (w, Inr ())) of
        (w1, Inl e) \<Rightarrow> w1
      | (w1, Inr _) \<Rightarrow> fst (rescanDevice cfg d upper (hl_done acc)
          (fst (catchUpRewindMarker d (hl_last acc)
             (rs_deferred (if hl_cut acc then (hl_stats acc)\<lparr>rs_deferred := quot64 (upper - hl_last acc) 3600\<rparr>
                           else hl_stats acc)) w1))))"
  (is "_ = (case ?c of (w1, Inl e) \<Rightarrow> w1 | (w1, Inr x) \<Rightarrow> ?f w1)")
proof (cases ?c)
  case (Pair w1 r)
  then show ?thesis
    unfolding rollup_finish_def Let_def res_1h Pair by (cases r) (simp_all only: prod.case sum.case case_prod_unfold fst_conv snd_conv)
qed

lemma rollup_finish_shape:
  assumes "rollup_finish cfg d upper cursor acc w = (w', st, err)" "CursorKey d Resolution1h = Inr k"
    and "v = (if hl_last acc \<noteq> cursor then fst (cs_Advance d Resolution1h cursor (hl_last acc) w) else w)"
  shows "follows k v w' \<and> writes_hours d w w'"
proof -
  obtain w1 r where w1: "(if hl_last acc \<noteq> cursor then rollup_writeCursor d cursor (hl_last acc) w else (w, Inr ())) = (w1, r)"
    by fastforce
  have v: "w1 = v" using w1 assms(3) rollup_writeCursor_state [of d cursor "hl_last acc" w] by (auto split: if_splits)
  have t1: "writes_hours d w v"
    using assms(3) cursor_tables(1) [of w d Resolution1h cursor "hl_last acc"] by (auto simp: keeps_writes)
  have f3: "follows k v (fst (rescanDevice cfg d upper xs (fst (catchUpRewindMarker d (hl_last acc) n v))))" for n xs
    by (rule follows_trans [OF catchUp_follows [OF assms(2)] rescanDevice_follows])
  have t3: "writes_hours d w (fst (rescanDevice cfg d upper xs (fst (catchUpRewindMarker d (hl_last acc) n v))))" for n xs
    by (rule writes_hours_trans [OF t1 writes_hours_trans [OF keeps_writes [OF catchUp_tables] rescanDevice_writes']])
  have "w' = fst (rollup_finish cfg d upper cursor acc w)" using assms(1) by simp
  then show ?thesis
    unfolding rollup_finish_eq w1 v using f3 t3 t1 follows_refl by (cases r) simp_all
qed

abbreviation start_acc :: "int \<Rightarrow> int list \<Rightarrow> RollupStats \<Rightarrow> hour_acc" where
  "start_acc cursor repairs st \<equiv> \<lparr>hl_last = cursor, hl_blocked = False, hl_processed = 0, hl_cut = False,
     hl_done = repairs, hl_stats = st\<rparr>"

lemma rollup_from_shape:
  assumes "rollup_from cfg d upper quota cursor w = (w', st, err)" "CursorKey d Resolution1h = Inr k"
  obtains (still) "follows k w w'" "writes_hours d w w'"
  | (commit) repairs st0 w2 w3 acc v where
      "hour_loop cfg d quota (steps (cursor + 3600) upper 3600) (start_acc cursor repairs st0) w2 = (w3, acc, None)"
      "follows k w w3" "hl_last acc \<noteq> cursor" "v = fst (cs_Advance d Resolution1h cursor (hl_last acc) w3)"
      "follows k v w'" "writes_hours d w3 w'"
proof -
  obtain w1 r1 where 1: "repairHours d upper w = (w1, r1)" by fastforce
  have "keeps_tables w (fst (repairHours d upper w))"
    unfolding repairHours_def by (intro bindS_tables) (auto intro!: read_tables)
  then have t1: "writes_hours d w w1" using 1 by (simp add: keeps_writes)
  have "follows k w (fst (repairHours d upper w))"
    unfolding repairHours_def by (intro bindS_follows) (auto simp: follows_refl)
  then have f1: "follows k w w1" using 1 by simp
  show thesis
  proof (cases r1)
    case (Inl e)
    then show thesis using assms(1) 1 still f1 t1 by (simp add: rollup_from_def)
  next
    case (Inr repairs)
    obtain w2 st0 e2 where 2: "repair_loop cfg d repairs zero_rstats w1 = (w2, st0, e2)" by (rule prod_cases3)
    have f2: "follows k w w2" using follows_trans [OF f1] repair_loop_follows [of k w1 cfg d repairs zero_rstats] 2 by simp
    have t2: "writes_hours d w w2" by (rule writes_hours_trans [OF t1 repair_loop_writes [OF 2]])
    show thesis
    proof (cases e2)
      case (Some e)
      then show thesis using assms(1) 1 2 Inr still f2 t2 by (simp add: rollup_from_def)
    next
      case None
      obtain w3 acc e3 where 3: "hour_loop cfg d quota (steps (cursor + 3600) upper 3600) (start_acc cursor repairs st0) w2 = (w3, acc, e3)"
        by (rule prod_cases3)
      have f3: "follows k w w3" using follows_trans [OF f2] hour_loop_follows [of k w2 cfg d quota] 3 by (metis fst_conv)
      have t3: "writes_hours d w w3" by (rule writes_hours_trans [OF t2 hour_loop_writes [OF 3]])
      show thesis
      proof (cases e3)
        case (Some e)
        then show thesis using assms(1) 1 2 3 Inr None still f3 t3 by (simp add: rollup_from_def)
      next
        case None
        have fin: "rollup_finish cfg d upper cursor acc w3 = (w', st, err)"
          using assms(1) 1 2 3 Inr \<open>e2 = None\<close> None by (simp add: rollup_from_def)
        note sh = rollup_finish_shape [OF fin assms(2) refl]
        show thesis
        proof (cases "hl_last acc = cursor")
          case True
          then show thesis using sh still follows_trans [OF f3] writes_hours_trans [OF t3] by auto
        next
          case False
          then show thesis using sh commit [OF 3 [unfolded None] f3 False refl] by simp
        qed
      qed
    qed
  qed
qed

lemma hour_loop_range:
  assumes "hour_loop cfg d quota (steps (cursor + 3600) upper 3600) (start_acc cursor repairs st0) w2 = (w3, acc, None)"
    and "hl_last acc \<noteq> cursor"
  shows "hl_last acc \<in> set (steps (cursor + 3600) upper 3600)" "cursor < hl_last acc" "hl_last acc < upper"
    and "\<forall>h\<in>set (steps (cursor + 3600) upper 3600). h \<le> hl_last acc \<longrightarrow> settled cfg d h w3"
proof -
  have b: "\<forall>h\<in>set (steps (cursor + 3600) upper 3600). cursor < h \<and> h < upper" by (auto simp: steps_mem)
  have s: "(hl_last acc = hl_last (start_acc cursor repairs st0) \<or> hl_last acc \<in> set (steps (cursor + 3600) upper 3600))
     \<and> (\<forall>h\<in>set (steps (cursor + 3600) upper 3600). h \<le> hl_last acc \<longrightarrow> settled cfg d h w3)"
    by (rule hour_loop_settles [OF assms(1) steps_sorted]) (use b in auto)
  then show "hl_last acc \<in> set (steps (cursor + 3600) upper 3600)"
    "\<forall>h\<in>set (steps (cursor + 3600) upper 3600). h \<le> hl_last acc \<longrightarrow> settled cfg d h w3"
    using assms(2) by auto
  then show "cursor < hl_last acc" "hl_last acc < upper" using b by auto
qed


section \<open>Properties\<close>

text \<open>C13: an hour round cannot undo a rewind. Whatever hours it repairs, rolls up and fills, and whatever
  calls are lost, once another process has rewound the hour watermark to t below the value the round
  read, the watermark is at most t when the round ends.\<close>
theorem rollup_never_undoes_rewind:
  assumes "CursorKey d Resolution1h = Inr k" "wm_valid k (rd_kv w)" "rewinds_only k (rd_faults w)"
    and "in_int64 cursor" "in_int64 upper"
    and "rollup_from cfg d upper quota cursor w = (w', st, err)"
    and "rd_faults w = pre @ rd_faults w'" "Meanwhile (FRewind k (itoa t)) \<in> set pre"
    and "in_int64 t" "t < cursor"
  shows "wm_val k (rd_kv w') \<le> t"
  using assms(6,1)
proof (cases rule: rollup_from_shape)
  case still
  obtain q where "rd_faults w = q @ rd_faults w'"
    and "\<forall>t. in_int64 t \<and> Meanwhile (FRewind k (itoa t)) \<in> set q \<longrightarrow> wm_val k (rd_kv w') \<le> t"
    using still(1) assms(2,3) unfolding follows_def by blast
  then show ?thesis using assms(7,8,9) by auto
next
  case (commit repairs st0 w2 w3 acc v)
  have n: "in_int64 (hl_last acc)"
    using hour_loop_range(2,3) [OF commit(1,3)] assms(4,5) by (auto simp: in_int64_def)
  show ?thesis
    by (rule commit_keeps_rewind [OF assms(1-4) n commit(2,4,5) assms(7-10)])
qed

text \<open>A rewind to 3600 runs between the read of the repair set and the read of the hour of a round that read 7200.\<close>
definition hour_cfg :: metrics_cfg where
  "hour_cfg = demo_cfg\<lparr>mc_now := 30000\<rparr>"

definition hour_world :: "fault list \<Rightarrow> int \<Rightarrow> metrics_world" where
  "hour_world fs cur = (demo_world fs 0 [])\<lparr>rd_kv := [historyKeyPrefix @ ''7:cursor_1h'' \<mapsto> itoa cur]\<rparr>"

lemma rollupHour_empty:
  assumes "rd_faults w = []" "db_5m w = []"
  shows "rollupHour d h False w = (w, Inr (False, True))"
  using assms by (simp add: rollupHour_eq bindS_def ReadWideRows_def ext_call_quiet table_of_def rows_between_def)

lemma rescanDevice_empty:
  assumes "rd_faults w = []" "db_5m w = []"
  shows "rescanDevice cfg d upper xs w = (w, (0, 0), None)"
  using assms by (simp add: rescanDevice_def Let_def ExistingBucketTimestamps_def ext_call_quiet table_of_def
      rows_between_def)

lemma catchUp_none:
  assumes "rd_faults w = []" "RewindMarkerKey d Resolution1h = Inr m" "rd_kv w m = None"
  shows "catchUpRewindMarker d c n w = (w, False)"
  using assms by (simp add: catchUpRewindMarker_def cs_PendingRewind_def get_int64_def redis_get_def bindS_def ext_call_quiet)

text \<open>A round over one empty hour whose grace is over, without repairs and without a marker, is its commit.\<close>
lemma idle_round:
  assumes "rd_faults w = []" "db_5m w = []" "rd_sets w (RepairSetKey d) = []"
    and "CursorKey d Resolution1h = Inr k" "RewindMarkerKey d Resolution1h = Inr m" "m \<noteq> k" "rd_kv w m = None"
    and "steps (c + 3600) upper 3600 = [h]" "\<not> emptyHourWithinGrace cfg h" "0 < quota" "h \<noteq> c"
    and "rd_kv w k = Some (itoa c')" "in_int64 c" "in_int64 c'" "in_int64 h" "c < h"
  shows "fst (rollup_from cfg d upper quota c w) = (if c' = c then w\<lparr>rd_kv := (rd_kv w)(k \<mapsto> itoa h)\<rparr> else w)"
proof -
  let ?acc = "hour_outcome cfg h (False, True) (hour_visit h (start_acc c [] zero_rstats))"
  define v where "v = (if c' = c then w\<lparr>rd_kv := (rd_kv w)(k \<mapsto> itoa h)\<rparr> else w)"
  have last: "hl_last ?acc = h" using assms(9) by (simp add: hour_outcome_def hour_visit_def Let_def)
  have wc: "rollup_writeCursor d c h w = (v, Inr ())"
  proof (cases "c' = c")
    case True
    then show ?thesis using Advance_quiet [OF assms(1,4) _ assms(13,15,16)] assms(12)
      by (simp add: rollup_writeCursor_def bindS_def v_def)
  next
    case False
    then show ?thesis using assms(1,4,12,13,14)
      by (simp add: rollup_writeCursor_def cs_Advance_def eval_script_def bindS_def ext_call_quiet
          advanceCursorScript_def itoa_inject_int64 v_def)
  qed
  have q: "rd_faults v = []" "db_5m v = []" "rd_kv v m = None" using assms(1,2,6,7) by (simp_all add: v_def)
  have fin: "fst (rollup_finish cfg d upper c ?acc w) = v"
    unfolding rollup_finish_eq last wc if_P [OF assms(11)]
    using catchUp_none [OF q(1) assms(5) q(3)] rescanDevice_empty [OF q(1,2)] by simp
  have rep: "repairHours d upper w = (w, Inr [])"
    using assms(1,3) by (simp add: repairHours_def redis_smembers_def bindS_def ext_call_quiet repairMembersByAge_def)
  have "hour_loop cfg d quota (steps (c + 3600) upper 3600) (start_acc c [] zero_rstats) w = (w, ?acc, None)"
    using assms(10) rollupHour_empty [OF assms(1,2)] by (simp add: assms(8))
  then show ?thesis using fin rep by (simp add: rollup_from_def v_def)
qed

text \<open>The interference pending at the start of a round runs before its first call.\<close>
lemma rollup_from_settle:
  assumes "settle (rd_faults w) (rd_kv w) = (kv, [])"
  shows "rollup_from cfg d upper quota c w = rollup_from cfg d upper quota c (w\<lparr>rd_kv := kv, rd_faults := []\<rparr>)"
  using assms by (simp add: rollup_from_def repairHours_def redis_smembers_def bindS_def ext_call_def)

lemma hour_demo_keys:
  "CursorKey 7 Resolution1h = Inr (historyKeyPrefix @ ''7:cursor_1h'')"
  "RewindMarkerKey 7 Resolution1h = Inr (historyKeyPrefix @ ''7:rewind_1h'')"
  "historyKeyPrefix @ ''7:rewind_1h'' \<noteq> historyKeyPrefix @ ''7:cursor_1h''"
  by code_simp+

lemma hour_demo_age: "\<not> emptyHourWithinGrace hour_cfg 10800"
  by code_simp

lemma hour_demo_kv:
  "rd_kv (hour_world fs c) = [historyKeyPrefix @ ''7:cursor_1h'' \<mapsto> itoa c]"
  "in_int64 c \<Longrightarrow> wm_valid (historyKeyPrefix @ ''7:cursor_1h'') (rd_kv (hour_world fs c))"
  "in_int64 c \<Longrightarrow> wm_val (historyKeyPrefix @ ''7:cursor_1h'') (rd_kv (hour_world fs c)) = c"
  by (simp_all add: hour_world_def demo_world_def wm_valid_def wm_val_def)

lemmas hour_demo = hour_demo_keys hour_demo_age

lemma rollup_never_undoes_rewind_witness:
  "wm_val (historyKeyPrefix @ ''7:cursor_1h'') (rd_kv (fst (rollup_from hour_cfg 7 14400 48 7200
     (hour_world [Meanwhile (FRewind (historyKeyPrefix @ ''7:cursor_1h'') (itoa 3600))] 7200)))) \<le> 3600"
proof -
  let ?k = "historyKeyPrefix @ ''7:cursor_1h''"
  let ?fs = "[Meanwhile (FRewind ?k (itoa 3600))]"
  let ?w = "hour_world ?fs 7200"
  obtain w' st err where f: "rollup_from hour_cfg 7 14400 48 7200 ?w = (w', st, err)" by (rule prod_cases3)
  define kv where "kv = fst (settle ?fs (rd_kv (hour_world [] 7200)))"
  have kv: "settle (rd_faults ?w) (rd_kv ?w) = (kv, [])" by (simp add: kv_def hour_world_def demo_world_def)
  have k: "kv ?k = Some (itoa 3600)" "kv (historyKeyPrefix @ ''7:rewind_1h'') = None"
    unfolding kv_def hour_demo_kv using hour_demo(3) by (simp_all add: rewindCursorScript_def tonumber_def in_int64_def)
  have "fst (rollup_from hour_cfg 7 14400 48 7200 (?w\<lparr>rd_kv := kv, rd_faults := []\<rparr>)) = ?w\<lparr>rd_kv := kv, rd_faults := []\<rparr>"
    by (subst idle_round [OF _ _ _ hour_demo(1-3) _ _ hour_demo(4), where c' = 3600])
      (simp_all add: k hour_world_def demo_world_def steps_Cons in_int64_def)
  then have fl: "rd_faults w' = []" using f rollup_from_settle [OF kv] by simp
  have "wm_val ?k (rd_kv w') \<le> 3600"
  proof (rule rollup_never_undoes_rewind [OF hour_demo(1) _ _ _ _ f, where pre = ?fs])
    show "wm_valid ?k (rd_kv ?w)" "rewinds_only ?k (rd_faults ?w)" by (simp_all add: hour_demo_kv hour_world_def demo_world_def in_int64_def)
    show "rd_faults ?w = ?fs @ rd_faults w'" by (simp add: hour_world_def demo_world_def fl)
  qed (auto simp: in_int64_def)
  then show ?thesis using f by simp
qed

text \<open>C5: the hour watermark only passes finished hours. When a round raised the watermark, every hour of
  the interval up to its new value is settled: the table holds the rollup of the five-minute rows on
  record for that hour, or there are no such rows and the grace for late data is over.\<close>
theorem rollup_advance_complete:
  assumes "CursorKey d Resolution1h = Inr k" "wm_valid k (rd_kv w)" "rewinds_only k (rd_faults w)"
    and "in_int64 cursor" "in_int64 upper"
    and "rollup_from cfg d upper quota cursor w = (w', st, err)"
    and "wm_val k (rd_kv w) < wm_val k (rd_kv w')"
    and "h \<in> set (steps (cursor + 3600) upper 3600)" "h \<le> wm_val k (rd_kv w')"
  shows "settled cfg d h w'"
  using assms(6,1)
proof (cases rule: rollup_from_shape)
  case still
  then have "wm_val k (rd_kv w') \<le> wm_val k (rd_kv w)"
    using assms(2,3) unfolding follows_def by blast
  then show ?thesis using assms(7) by simp
next
  case (commit repairs st0 w2 w3 acc v)
  note rng = hour_loop_range [OF commit(1,3)]
  have n: "in_int64 (hl_last acc)" using rng(2,3) assms(4,5) by (auto simp: in_int64_def)
  have "wm_val k (rd_kv w') \<le> hl_last acc"
    by (rule commit_raises [OF assms(1-4) n commit(2,4,5) assms(7)])
  then have "settled cfg d h w3" using rng(4) assms(8,9) by fastforce
  then show ?thesis by (rule settled_stable [OF commit(6)])
qed

lemma rollup_advance_complete_witness:
  "wm_val (historyKeyPrefix @ ''7:cursor_1h'') (rd_kv (fst (rollup_from hour_cfg 7 14400 48 7200 (hour_world [] 7200)))) = 10800
   \<and> settled hour_cfg 7 10800 (fst (rollup_from hour_cfg 7 14400 48 7200 (hour_world [] 7200)))"
proof -
  let ?k = "historyKeyPrefix @ ''7:cursor_1h''" and ?w = "hour_world [] 7200"
  obtain w' st err where f: "rollup_from hour_cfg 7 14400 48 7200 ?w = (w', st, err)" by (rule prod_cases3)
  have "fst (rollup_from hour_cfg 7 14400 48 7200 ?w) = ?w\<lparr>rd_kv := (rd_kv ?w)(?k \<mapsto> itoa 10800)\<rparr>"
    by (subst idle_round [OF _ _ _ hour_demo(1-3) _ _ hour_demo(4), where c' = 7200])
      (simp_all add: hour_world_def demo_world_def steps_Cons in_int64_def historyKeyPrefix_def)
  then have v: "wm_val ?k (rd_kv w') = 10800" using f by (simp add: wm_val_def in_int64_def)
  have "settled hour_cfg 7 10800 w'"
    by (rule rollup_advance_complete [OF hour_demo(1) _ _ _ _ f])
      (simp_all add: in_int64_def v hour_demo_kv steps_Cons hour_world_def demo_world_def)
  then show ?thesis using v f by simp
qed

end
