(* ===== verification/RollupMarks.thy ===== *)
theory RollupMarks
  imports RollupSafety
begin

text \<open>
  The bookkeeping of an hour round: its quota and what it reports as deferred, the bound of the repair
  set, and the marker of a rewind. The last part shows a round that reports a rewind as caught up and
  removes its marker although no hour of the rewind has been worked off.
\<close>

section \<open>Calls on a quiet connection\<close>

text \<open>A call that leaves the strings of Redis alone when nothing interferes.\<close>
definition quiet_kv :: "metrics_world \<Rightarrow> metrics_world \<Rightarrow> bool" where
  "quiet_kv w w' \<longleftrightarrow> (rd_faults w = [] \<longrightarrow> rd_faults w' = [] \<and> rd_kv w' = rd_kv w)"

named_theorems quiet_kv

lemma quiet_kv_refl [simp]: "quiet_kv w w"
  by (simp add: quiet_kv_def)

lemma quiet_kv_trans: "quiet_kv u v \<Longrightarrow> quiet_kv v w \<Longrightarrow> quiet_kv u w"
  by (simp add: quiet_kv_def)

lemma ext_call_quiet_kv:
  "(\<And>w. rd_faults (fst (f w)) = rd_faults w \<and> rd_kv (fst (f w)) = rd_kv w) \<Longrightarrow> quiet_kv w (fst (ext_call f w))"
  by (simp add: quiet_kv_def ext_call_quiet)

lemma bindS_quiet_kv:
  assumes "\<And>w. quiet_kv w (fst (m w))" "\<And>x w. quiet_kv w (fst (f x w))"
  shows "quiet_kv w (fst (bindS m f w))"
proof -
  obtain w' r where m: "m w = (w', r)" by (cases "m w")
  then have "quiet_kv w w'" using assms(1) [of w] by simp
  then show ?thesis using m assms(2) quiet_kv_trans by (cases r) (auto simp: bindS_def)
qed

lemma basic_quiet_kv [quiet_kv]:
  "quiet_kv w (fst (ReadWideRows t d from to w))" "quiet_kv w (fst (ExistingBucketTimestamps t d from to w))"
  "quiet_kv w (fst (redis_smembers k w))" "quiet_kv w (fst (redis_scard k w))"
  "quiet_kv w (fst (redis_sadd k m w))" "quiet_kv w (fst (redis_srem k ms w))"
  "quiet_kv w (fst (WriteHour row w))" "quiet_kv w (fst (redis_get k w))"
  "quiet_kv w (fst (returnS x w))" "quiet_kv w (fst (failS e w))" "quiet_kv w (fst (liftS r w))"
  unfolding ReadWideRows_def ExistingBucketTimestamps_def redis_smembers_def redis_scard_def redis_sadd_def
    redis_srem_def WriteHour_def redis_get_def
  by (simp | intro ext_call_quiet_kv)+

lemma mapS_quiet_kv: "quiet_kv w (fst (mapS (\<lambda>e. liftS (g e)) xs w))"
proof (induction xs arbitrary: w)
  case (Cons x xs)
  then show ?case by (simp, intro bindS_quiet_kv) (auto intro: quiet_kv bindS_quiet_kv)
qed (simp add: quiet_kv)

lemma repairs_quiet_kv [quiet_kv]:
  "quiet_kv w (fst (addRepairHour d h w))" "quiet_kv w (fst (dropRepairHour d h w))"
  "quiet_kv w (fst (repairHours d upper w))"
proof -
  show "quiet_kv w (fst (addRepairHour d h w))"
    unfolding addRepairHour_def Let_def by (intro bindS_quiet_kv) (auto intro!: bindS_quiet_kv quiet_kv)
  show "quiet_kv w (fst (dropRepairHour d h w))"
    unfolding dropRepairHour_def by (rule quiet_kv)
  show "quiet_kv w (fst (repairHours d upper w))"
    unfolding repairHours_def by (intro bindS_quiet_kv) (auto intro!: quiet_kv)
qed

lemma rollupHour_quiet_kv [quiet_kv]: "quiet_kv w (fst (rollupHour d h fr w))"
  unfolding rollupHour_eq
  by (intro bindS_quiet_kv) (auto intro!: bindS_quiet_kv mapS_quiet_kv quiet_kv)

lemma loops_quiet_kv [quiet_kv]:
  "quiet_kv w (fst (repair_loop cfg d hs st w))" "quiet_kv w (fst (hour_loop cfg d quota hs acc w))"
  "quiet_kv w (fst (rescan_hours d hs n w))"
proof -
  show "quiet_kv w (fst (repair_loop cfg d hs st w))"
  proof (induction hs arbitrary: st w)
    case (Cons h hs)
    obtain v r where v: "rollupHour d h True w = (v, r)" by (cases "rollupHour d h True w")
    have "quiet_kv w v" using rollupHour_quiet_kv [of w d h True] v by simp
    then show ?case using Cons v quiet_kv_trans [of w v] by (cases r) (auto simp: Let_def split: prod.splits)
  qed simp
  show "quiet_kv w (fst (hour_loop cfg d quota hs acc w))"
  proof (induction hs arbitrary: acc w)
    case (Cons h hs)
    obtain v r where v: "rollupHour d h False w = (v, r)" by (cases "rollupHour d h False w")
    have "quiet_kv w v" using rollupHour_quiet_kv [of w d h False] v by simp
    then show ?case using Cons v quiet_kv_trans [of w v] by (cases r) (auto simp: Let_def split: prod.splits)
  qed simp
  show "quiet_kv w (fst (rescan_hours d hs n w))"
  proof (induction hs arbitrary: n w)
    case (Cons h hs)
    obtain v r where v: "rollupHour d h False w = (v, r)" by (cases "rollupHour d h False w")
    have "quiet_kv w v" using rollupHour_quiet_kv [of w d h False] v by simp
    then show ?case using Cons v quiet_kv_trans [of w v] by (cases r; cases n) (auto split: prod.splits)
  qed simp
qed

lemma rescanDevice_quiet_kv: "quiet_kv w (fst (rescanDevice cfg d upper xs w))"
proof -
  let ?from = "alignDown (mc_now cfg) 3600 - rescanWindowHours cfg * 3600" and ?to = "alignDown (mc_now cfg) 3600 - 1"
  obtain w1 r1 where 1: "ExistingBucketTimestamps Metric5m d ?from ?to w = (w1, r1)" by fastforce
  obtain w2 r2 where 2: "ExistingBucketTimestamps Metric1h d ?from ?to w1 = (w2, r2)" by fastforce
  have k1: "quiet_kv w w1" using quiet_kv(2) [of w Metric5m d ?from ?to] 1 by simp
  have "quiet_kv w1 w2" using quiet_kv(2) [of w1 Metric1h d ?from ?to] 2 by simp
  then have k2: "quiet_kv w w2" by (rule quiet_kv_trans [OF k1])
  have "quiet_kv w (fst (rescan_hours d hs n w2))" for hs n by (rule quiet_kv_trans [OF k2 loops_quiet_kv(3)])
  then show ?thesis using 1 2 k1 k2 by (cases r1; cases r2) (simp_all add: rescanDevice_def Let_def)
qed

section \<open>The quota\<close>

text \<open>The loop stops at the quota or after the last hour; it never counts an hour as deferred itself.\<close>
lemma hour_step_counts:
  "hl_processed (hour_outcome cfg h ws (hour_visit h acc)) = hl_processed acc + 1"
  "hl_cut (hour_outcome cfg h ws (hour_visit h acc)) = hl_cut acc"
  "rs_deferred (hl_stats (hour_outcome cfg h ws (hour_visit h acc))) = rs_deferred (hl_stats acc)"
  "rs_caughtUp (hl_stats (hour_outcome cfg h ws (hour_visit h acc))) = rs_caughtUp (hl_stats acc)"
  by (simp_all add: hour_outcome_def hour_visit_def countEmptyHour_def Let_def)

lemma hour_loop_counts:
  assumes "hour_loop cfg d quota hs acc w = (w', acc', None)" "hl_processed acc \<le> quota"
  shows "hl_cut acc' \<longleftrightarrow> hl_cut acc \<or> quota < hl_processed acc + int (length hs)"
    and "hl_processed acc' = min quota (hl_processed acc + int (length hs))"
    and "rs_deferred (hl_stats acc') = rs_deferred (hl_stats acc)"
    and "rs_caughtUp (hl_stats acc') = rs_caughtUp (hl_stats acc)"
proof -
  have "(hl_cut acc' \<longleftrightarrow> hl_cut acc \<or> quota < hl_processed acc + int (length hs))
    \<and> hl_processed acc' = min quota (hl_processed acc + int (length hs))
    \<and> rs_deferred (hl_stats acc') = rs_deferred (hl_stats acc) \<and> rs_caughtUp (hl_stats acc') = rs_caughtUp (hl_stats acc)"
    using assms
  proof (induction hs arbitrary: acc w)
    case (Cons h hs)
    show ?case
    proof (cases "quota \<le> hl_processed acc")
      case True
      then show ?thesis using Cons.prems by auto
    next
      case False
      obtain v r where v: "rollupHour d h False w = (v, r)" by (cases "rollupHour d h False w")
      then obtain ws where r: "r = Inr ws" using Cons.prems(1) False by (cases r) auto
      show ?thesis
        using Cons.IH [of "hour_outcome cfg h ws (hour_visit h acc)" v] Cons.prems False v r
        by (simp add: hour_step_counts add.assoc)
    qed
  qed simp
  then show "hl_cut acc' \<longleftrightarrow> hl_cut acc \<or> quota < hl_processed acc + int (length hs)"
    "hl_processed acc' = min quota (hl_processed acc + int (length hs))"
    "rs_deferred (hl_stats acc') = rs_deferred (hl_stats acc)" "rs_caughtUp (hl_stats acc') = rs_caughtUp (hl_stats acc)"
    by blast+
qed

text \<open>The watermark of a cut round stays below the hour it was cut at.\<close>
lemma hour_loop_cut_last:
  assumes "hour_loop cfg d quota hs acc w = (w', acc', None)" "hl_cut acc'" "\<not> hl_cut acc"
    and "sorted_wrt (<) (hl_last acc # hs)"
  shows "\<exists>h\<in>set hs. hl_last acc' < h"
  using assms
proof (induction hs arbitrary: acc w)
  case (Cons h hs)
  show ?case
  proof (cases "quota \<le> hl_processed acc")
    case True
    then show ?thesis using Cons.prems by auto
  next
    case False
    obtain v r where v: "rollupHour d h False w = (v, r)" by (cases "rollupHour d h False w")
    then obtain ws where r: "r = Inr ws" using Cons.prems(1) False by (cases r) auto
    let ?a = "hour_outcome cfg h ws (hour_visit h acc)"
    have "hl_last ?a = hl_last acc \<or> hl_last ?a = h"
      by (simp add: hour_outcome_def hour_visit_def Let_def)
    then have "sorted_wrt (<) (hl_last ?a # hs)" using Cons.prems(4) by auto
    then show ?thesis
      using Cons.IH [of ?a v] Cons.prems False v r by (simp add: hour_step_counts)
  qed
qed simp

lemma repair_loop_counts:
  "repair_loop cfg d hs st w = (w', st', e) \<Longrightarrow> rs_deferred st' = rs_deferred st \<and> rs_caughtUp st' = rs_caughtUp st"
proof (induction hs arbitrary: st w)
  case (Cons h hs)
  obtain v r where v: "rollupHour d h True w = (v, r)" by (cases "rollupHour d h True w")
  show ?case
  proof (cases r)
    case (Inl e)
    then show ?thesis using Cons.prems v by (auto simp: Let_def)
  next
    case (Inr ws)
    then show ?thesis using Cons.prems v by (cases ws) (auto simp: Let_def countEmptyHour_def dest!: Cons.IH)
  qed
qed simp

section \<open>A round that returns without error\<close>

lemma rollup_finish_stats:
  "fst (snd (rollup_finish cfg d upper cursor acc w)) = st \<Longrightarrow>
   rs_deferred st = (if hl_cut acc then quot64 (upper - hl_last acc) 3600 else rs_deferred (hl_stats acc))
   \<and> (rs_caughtUp st = rs_caughtUp (hl_stats acc)
      \<or> rs_caughtUp st = rs_caughtUp (hl_stats acc) + 1)"
  unfolding rollup_finish_def Let_def res_1h
  by (auto split: prod.splits sum.splits)

lemma rollup_from_ok:
  assumes "rollup_from cfg d upper quota cursor w = (w', st, None)"
  obtains repairs st0 w2 w3 acc where
    "hour_loop cfg d quota (steps (cursor + 3600) upper 3600) (start_acc cursor repairs st0) w2 = (w3, acc, None)"
    "rs_deferred st0 = 0" "rs_caughtUp st0 = 0"
    "rollup_finish cfg d upper cursor acc w3 = (w', st, None)" "quiet_kv w w3"
proof -
  obtain w1 r1 where 1: "repairHours d upper w = (w1, r1)" by fastforce
  then obtain repairs where r1: "r1 = Inr repairs" using assms by (cases r1) (simp_all add: rollup_from_def)
  obtain w2 st0 e2 where 2: "repair_loop cfg d repairs zero_rstats w1 = (w2, st0, e2)" by (rule prod_cases3)
  have e2: "e2 = None" using assms 1 r1 2 by (cases e2) (simp_all add: rollup_from_def)
  obtain w3 acc e3 where 3: "hour_loop cfg d quota (steps (cursor + 3600) upper 3600) (start_acc cursor repairs st0) w2 = (w3, acc, e3)"
    by (rule prod_cases3)
  have e3: "e3 = None" using assms 1 r1 2 e2 3 by (cases e3) (simp_all add: rollup_from_def)
  have fin: "rollup_finish cfg d upper cursor acc w3 = (w', st, None)"
    using assms 1 2 3 r1 e2 e3 by (simp add: rollup_from_def)
  have q1: "quiet_kv w w1" using repairs_quiet_kv(3) [of w d upper] 1 by simp
  have q2: "quiet_kv w1 w2" using loops_quiet_kv(1) [of w1 cfg d repairs zero_rstats] 2 by simp
  have "quiet_kv w2 w3"
    using loops_quiet_kv(2) [of w2 cfg d quota "steps (cursor + 3600) upper 3600" "start_acc cursor repairs st0"] 3 by simp
  then have q: "quiet_kv w w3" using q1 q2 quiet_kv_trans by blast
  have "rs_deferred st0 = 0" "rs_caughtUp st0 = 0" using repair_loop_counts [OF 2] by (simp_all add: zero_rstats_def)
  then show thesis using that 3 e3 fin q by simp
qed

lemma steps_gap:
  fixes step :: int
  assumes "h \<in> set (steps lo hi step)" "h' \<in> set (steps lo hi step) \<or> h' = lo - step" "h' < h" "0 < step"
  shows "h' + step \<le> h"
proof -
  have "step dvd h - lo" "step dvd h' - lo" using assms(1,2,4) by (auto simp: steps_mem)
  then have "step dvd (h - lo) - (h' - lo)" by (rule dvd_diff)
  then have "step dvd h - h'" by simp
  then show ?thesis using zdvd_imp_le [of step "h - h'"] assms(3) by simp
qed

text \<open>C18: \<open>HoursDeferred\<close> is zero exactly when the quota sufficed. A device round without error works off
  the closed hours above its watermark in order, as many as the quota allows; the count of deferred
  hours it reports is zero if and only if that was all of them.\<close>
theorem rollup_deferred_exact:
  assumes "rollup_from cfg d upper quota cursor w = (w', st, None)" "0 \<le> quota"
  shows "rs_deferred st = 0 \<longleftrightarrow> int (length (steps (cursor + 3600) upper 3600)) \<le> quota"
proof -
  let ?hs = "steps (cursor + 3600) upper 3600"
  obtain repairs st0 w2 w3 acc where
    l: "hour_loop cfg d quota ?hs (start_acc cursor repairs st0) w2 = (w3, acc, None)"
    and d0: "rs_deferred st0 = 0" and fin: "rollup_finish cfg d upper cursor acc w3 = (w', st, None)"
    by (rule rollup_from_ok [OF assms(1)])
  note c = hour_loop_counts [OF l, simplified, OF assms(2)]
  have st: "rs_deferred st = (if hl_cut acc then quot64 (upper - hl_last acc) 3600 else rs_deferred (hl_stats acc))"
    using rollup_finish_stats [of cfg d upper cursor acc w3 st] fin by simp
  show ?thesis
  proof (cases "hl_cut acc")
    case True
    have b: "\<forall>h\<in>set ?hs. cursor < h \<and> h < upper" by (auto simp: steps_mem)
    then have "sorted_wrt (<) (hl_last (start_acc cursor repairs st0) # ?hs)" using steps_sorted by simp
    then obtain h where h: "h \<in> set ?hs" "hl_last acc < h"
      using hour_loop_cut_last [OF l True] by auto
    have "hl_last acc \<in> set ?hs \<or> hl_last acc = cursor + 3600 - 3600"
      using hour_loop_range(1) [OF l] by auto
    then have "hl_last acc + 3600 \<le> h" using steps_gap [OF h(1) _ h(2)] by simp
    then have "3600 \<le> upper - hl_last acc" using b h(1) by fastforce
    then have "1 \<le> quot64 (upper - hl_last acc) 3600" by (simp add: quot64_pos)
    then show ?thesis using st True c(1) by simp
  next
    case False
    then show ?thesis using st c d0 by simp
  qed
qed

text \<open>Two empty hours wait above the watermark and the quota is one.\<close>
lemma rollup_deferred_exact_witness:
  "\<exists>w' st. rollup_from hour_cfg 7 14400 1 3600 (hour_world [] 3600) = (w', st, None) \<and> rs_deferred st \<noteq> 0"
proof -
  let ?w = "hour_world [] 3600" and ?k = "historyKeyPrefix @ ''7:cursor_1h''"
  let ?acc = "(hour_outcome hour_cfg 7200 (False, True) (hour_visit 7200 (start_acc 3600 [] zero_rstats)))\<lparr>hl_cut := True\<rparr>"
  let ?v = "?w\<lparr>rd_kv := (rd_kv ?w)(?k \<mapsto> itoa 7200)\<rparr>"
  have q: "rd_faults ?w = []" "db_5m ?w = []" "rd_sets ?w (RepairSetKey 7) = []" by (simp_all add: hour_world_def demo_world_def)
  have age: "\<not> emptyHourWithinGrace hour_cfg 7200" by code_simp
  have st: "steps 7200 14400 3600 = [7200, 10800]" by (simp add: steps_Cons)
  have acc: "hl_last ?acc = 7200" "hl_cut ?acc" using age by (simp_all add: hour_outcome_def hour_visit_def Let_def)
  have loop: "hour_loop hour_cfg 7 1 [7200, 10800] (start_acc 3600 [] zero_rstats) ?w = (?w, ?acc, None)"
    using rollupHour_empty [OF q(1,2)] by (simp add: hour_step_counts)
  have rep: "repairHours 7 14400 ?w = (?w, Inr [])"
    using q by (simp add: repairHours_def redis_smembers_def bindS_def ext_call_quiet repairMembersByAge_def)
  have wc: "rollup_writeCursor 7 3600 7200 ?w = (?v, Inr ())"
    using Advance_quiet [OF q(1) hour_demo(1), of 3600 7200]
    by (simp add: rollup_writeCursor_def bindS_def hour_demo_kv in_int64_def)
  have "rd_faults ?v = []" "db_5m ?v = []" "rd_kv ?v (historyKeyPrefix @ ''7:rewind_1h'') = None"
    using q hour_demo(3) by (simp_all add: hour_demo_kv)
  then have "snd (snd (rollup_finish hour_cfg 7 14400 3600 ?acc ?w)) = None"
    unfolding rollup_finish_def Let_def acc(1) using wc catchUp_none [OF _ hour_demo(2), of ?v] rescanDevice_empty [of ?v]
    by (simp split: prod.splits)
  then obtain w' s where fin: "rollup_from hour_cfg 7 14400 1 3600 ?w = (w', s, None)"
    using rep loop
    by (cases "rollup_finish hour_cfg 7 14400 3600 ?acc ?w") (simp add: rollup_from_def st del: hour_loop.simps)
  have "rs_deferred s \<noteq> 0" using rollup_deferred_exact [OF fin] by (simp add: st)
  then show ?thesis using fin by blast
qed

section \<open>The bound of the repair set\<close>

lemma map_sort_key: "map g (sort_key (\<lambda>x. f (g x)) xs) = sort_key f (map g xs)"
proof -
  have "map g (insort_key (\<lambda>x. f (g x)) x ys) = insort_key f (g x) (map g ys)" for x ys
    by (induction ys) auto
  then show ?thesis by (induction xs) auto
qed

lemma raw_to_member [simp]: "rm_raw (to_member s) = s"
  by (simp add: to_member_def split: option.splits)

definition member_age :: "string \<Rightarrow> int" where
  "member_age s = repairAge (to_member s)"

lemma raw_by_age: "map rm_raw (repairMembersByAge xs) = sort_key member_age xs"
proof -
  have "repairMembersByAge xs = map to_member (sort_key member_age xs)"
    using map_sort_key [of to_member repairAge xs] by (simp add: repairMembersByAge_def member_age_def [abs_def])
  then show ?thesis by (simp add: comp_def)
qed

lemma sort_key_split:
  fixes f :: "'a \<Rightarrow> int" and n :: nat
  assumes "distinct xs"
  defines "old \<equiv> take n (sort_key f xs)"
  shows "length (filter (\<lambda>x. x \<notin> set old) xs) = length xs - n"
    and "x \<in> set old \<Longrightarrow> y \<in> set xs \<Longrightarrow> y \<notin> set old \<Longrightarrow> f x \<le> f y"
proof -
  let ?s = "sort_key f xs"
  have d: "distinct ?s" using assms(1) by simp
  have "set (filter (\<lambda>x. x \<notin> set old) xs) = set ?s - set old" by auto
  moreover have "set old \<subseteq> set ?s" unfolding old_def by (rule set_take_subset)
  ultimately have "card (set (filter (\<lambda>x. x \<notin> set old) xs)) = card (set ?s) - card (set old)"
    by (simp add: card_Diff_subset)
  then show "length (filter (\<lambda>x. x \<notin> set old) xs) = length xs - n"
    using assms(1) d distinct_card [of "filter (\<lambda>x. x \<notin> set old) xs"] distinct_card [of old] distinct_card [of ?s]
    by (simp add: old_def)
  have "sorted_wrt (\<lambda>a b. f a \<le> f b) (old @ drop n ?s)"
    using sorted_sort_key [of f xs] by (simp add: sorted_map old_def)
  moreover have "set xs = set old \<union> set (drop n ?s)"
    unfolding old_def using set_append [of "take n ?s" "drop n ?s"] by simp
  ultimately show "x \<in> set old \<Longrightarrow> y \<in> set xs \<Longrightarrow> y \<notin> set old \<Longrightarrow> f x \<le> f y"
    unfolding sorted_wrt_append by blast
qed

text \<open>The repair set stays within its bound and gives up the oldest hours first. Adding an hour on a
  quiet connection leaves the set with the hour and its previous members, or, when these are more than
  720, with 720 of them; every member it drops is at most as old a date as every member it keeps, and
  a member that is no number goes before any hour.\<close>
theorem repair_set_bounded:
  assumes "rd_faults w = []" "distinct (rd_sets w (RepairSetKey d))"
    and "addRepairHour d h w = (w', r)"
  defines "members \<equiv> List.insert (itoa h) (rd_sets w (RepairSetKey d))" and "kept \<equiv> rd_sets w' (RepairSetKey d)"
  shows "r = Inr () \<and> distinct kept \<and> set kept \<subseteq> set members
     \<and> length kept = min 720 (length members)
     \<and> (\<forall>x\<in>set members - set kept. \<forall>y\<in>set kept. member_age x \<le> member_age y)"
proof -
  let ?drop = "length members - 720"
  have dm: "distinct members" using assms(2) by (simp add: members_def)
  have "length (repairMembersByAge members) = length members" by (simp add: repairMembersByAge_def)
  then have dn: "nat (min (int (length members) - 720) (int (length (repairMembersByAge members)))) = ?drop" by simp
  define old where "old = take ?drop (sort_key member_age members)"
  have tk: "map rm_raw (take ?drop (repairMembersByAge members)) = old"
    by (simp add: old_def raw_by_age [symmetric] take_map)
  have nd: "nat (int n - 720) = n - 720" for n :: nat by simp
  have run: "r = Inr () \<and> kept = (if length members \<le> 720 then members else filter (\<lambda>m. m \<notin> set old) members)"
    using assms(1,3) tk dn nd
    by (auto simp: addRepairHour_def Let_def redis_sadd_def redis_scard_def redis_smembers_def redis_srem_def
        bindS_def ext_call_quiet defaultMaxRepairHours_def kept_def members_def split: if_splits)
  show ?thesis
  proof (cases "length members \<le> 720")
    case True
    then show ?thesis using run dm by simp
  next
    case False
    then have k: "kept = filter (\<lambda>m. m \<notin> set old) members" using run by simp
    have "length kept = length members - ?drop" using sort_key_split(1) [OF dm] by (simp add: k old_def)
    moreover have "member_age x \<le> member_age y" if "x \<in> set members - set kept" "y \<in> set kept" for x y
      using sort_key_split(2) [OF dm, of x ?drop member_age y] that by (auto simp: k old_def)
    ultimately show ?thesis using run dm False by (auto simp: k)
  qed
qed

text \<open>A set of two hours.\<close>
lemma repair_set_bounded_witness:
  "length (rd_sets (fst (addRepairHour 7 7200 (hour_world [] 3600))) (RepairSetKey 7)) = 1"
proof -
  obtain w' r where a: "addRepairHour 7 7200 (hour_world [] 3600) = (w', r)" by fastforce
  have q: "rd_faults (hour_world [] 3600) = []" "rd_sets (hour_world [] 3600) (RepairSetKey 7) = []"
    by (simp_all add: hour_world_def demo_world_def)
  show ?thesis using repair_set_bounded [OF q(1) _ a] q a by simp
qed

section \<open>The marker of a rewind\<close>

text \<open>C15: a round can report a rewind as caught up that nobody has worked off. A round has read the
  watermark; then an operator rewinds the device to t below it and leaves the marker t. If nothing else
  interferes and the quota suffices, the round counts the rewind as caught up and removes the marker
  although its own commit was refused and the watermark is still at t.\<close>
theorem rollup_false_caught_up:
  assumes "CursorKey d Resolution1h = Inr k" "RewindMarkerKey d Resolution1h = Inr m"
    and "rd_faults w = []" "rd_kv w k = Some (itoa t)" "rd_kv w m = Some (itoa t)"
    and "in_int64 t" "in_int64 cursor" "in_int64 upper" "t < cursor"
    and "rollup_from cfg d upper quota cursor w = (w', st, None)"
    and "0 \<le> quota" "int (length (steps (cursor + 3600) upper 3600)) \<le> quota"
  shows "rs_caughtUp st = 1 \<and> rd_kv w' m = None \<and> wm_val k (rd_kv w') = t"
proof -
  let ?hs = "steps (cursor + 3600) upper 3600"
  obtain repairs st0 w2 w3 acc where
    l: "hour_loop cfg d quota ?hs (start_acc cursor repairs st0) w2 = (w3, acc, None)"
    and d0: "rs_deferred st0 = 0" and c0: "rs_caughtUp st0 = 0"
    and fin: "rollup_finish cfg d upper cursor acc w3 = (w', st, None)" and q: "quiet_kv w w3"
    by (rule rollup_from_ok [OF assms(10)])
  note c = hour_loop_counts [OF l, simplified, OF assms(11)]
  have cut: "\<not> hl_cut acc" "rs_deferred (hl_stats acc) = 0" "rs_caughtUp (hl_stats acc) = 0"
    using c assms(12) d0 c0 by simp_all
  have w3: "rd_faults w3 = []" "rd_kv w3 = rd_kv w" using q assms(3) by (simp_all add: quiet_kv_def)
  have km: "m \<noteq> k"
    using assms(1,2) by (auto simp: RewindMarkerKey_def CursorKey_def rewindMarkerSuffixes_def cursorKeySuffixes_def
        Resolution1h_def split: if_splits)
  have last: "cursor \<le> hl_last acc" using hour_loop_range(2) [OF l] by fastforce
  have wc: "(if hl_last acc \<noteq> cursor then rollup_writeCursor d cursor (hl_last acc) w3 else (w3, Inr ())) = (w3, Inr ())"
    using assms(1,4,6,7,9) w3
    by (simp add: rollup_writeCursor_def cs_Advance_def eval_script_def bindS_def ext_call_quiet
        advanceCursorScript_def itoa_inject_int64)
  define v where "v = w3\<lparr>rd_kv := (rd_kv w3)(m := None)\<rparr>"
  have cu: "catchUpRewindMarker d (hl_last acc) 0 w3 = (v, True)"
    using assms(2,5,6,9) w3 last
    by (simp add: catchUpRewindMarker_def cs_PendingRewind_def cs_ClearRewind_def get_int64_def redis_get_def
        eval_script_def bindS_def ext_call_quiet clearRewindScript_def rewindCaughtUp_def v_def)
  have st: "rs_caughtUp st = 1" and w': "w' = fst (rescanDevice cfg d upper (hl_done acc) v)"
    using fin cut cu unfolding rollup_finish_def Let_def wc
    by (auto split: prod.splits)
  have "quiet_kv v w'" unfolding w' by (rule rescanDevice_quiet_kv)
  then have "rd_kv w' = (rd_kv w)(m := None)" using w3 by (simp add: quiet_kv_def v_def)
  then show ?thesis using st km assms(4,6) by (simp add: wm_val_def)
qed

text \<open>A round that read 14400 and has no closed hour left; the rewind went to 3600.\<close>
lemma rollup_false_caught_up_witness:
  "\<exists>w w' st. rd_kv w (historyKeyPrefix @ ''7:cursor_1h'') = Some (itoa 3600)
     \<and> rollup_from hour_cfg 7 14400 48 14400 w = (w', st, None)
     \<and> rs_caughtUp st = 1 \<and> wm_val (historyKeyPrefix @ ''7:cursor_1h'') (rd_kv w') = 3600"
proof -
  let ?k = "historyKeyPrefix @ ''7:cursor_1h''" and ?m = "historyKeyPrefix @ ''7:rewind_1h''"
  define w where "w = (hour_world [] 3600)\<lparr>rd_kv := (rd_kv (hour_world [] 3600))(?m \<mapsto> itoa 3600)\<rparr>"
  define v where "v = w\<lparr>rd_kv := (rd_kv w)(?m := None)\<rparr>"
  have q: "rd_faults w = []" "db_5m w = []" "rd_sets w (RepairSetKey 7) = []" "rd_kv w ?k = Some (itoa 3600)"
    "rd_kv w ?m = Some (itoa 3600)"
    using hour_demo(3) by (simp_all add: w_def hour_demo_kv) (simp_all add: hour_world_def demo_world_def)
  have st: "steps (14400 + 3600) 14400 3600 = []" by simp
  have rep: "repairHours 7 14400 w = (w, Inr [])"
    using q by (simp add: repairHours_def redis_smembers_def bindS_def ext_call_quiet repairMembersByAge_def)
  have cu: "catchUpRewindMarker 7 14400 0 w = (v, True)"
    using q hour_demo(2)
    by (simp add: catchUpRewindMarker_def cs_PendingRewind_def cs_ClearRewind_def get_int64_def redis_get_def
        eval_script_def bindS_def ext_call_quiet clearRewindScript_def rewindCaughtUp_def v_def in_int64_def)
  have "rescanDevice hour_cfg 7 14400 [] v = (v, (0, 0), None)"
    by (rule rescanDevice_empty) (simp_all add: v_def q)
  then have "snd (snd (rollup_from hour_cfg 7 14400 48 14400 w)) = None"
    using rep cu by (simp add: rollup_from_def rollup_finish_def Let_def zero_rstats_def)
  then obtain w' s where f: "rollup_from hour_cfg 7 14400 48 14400 w = (w', s, None)"
    by (cases "rollup_from hour_cfg 7 14400 48 14400 w") auto
  have "rs_caughtUp s = 1 \<and> rd_kv w' ?m = None \<and> wm_val ?k (rd_kv w') = 3600"
    by (rule rollup_false_caught_up [OF hour_demo(1,2) q(1,4,5) _ _ _ _ f]) (simp_all add: in_int64_def)
  then show ?thesis using f q(4) by blast
qed

end
