(* ===== verification/Backfill.thy ===== *)
theory Backfill
  imports FlushLive
begin

text \<open>
  The replay entry points: \<open>src/uni_core/internal/service/agent_metrics_backfill.go\<close>. \<open>BackfillOnce\<close> moves the
  five-minute watermarks back and replays the window in paced batches; \<open>RewindHours\<close> only moves the
  watermarks of a resolution back and leaves a marker for the hour rollup.
\<close>

section \<open>The window\<close>

record BackfillStats =
  bs_devices :: int
  bs_rewound :: int
  bs_window :: int
  bs_batches :: int
  bs_waits :: int
  bs_flush :: FlushStats

definition defaultBackfillHours :: int where "defaultBackfillHours = RawBootstrapWindow div hour"

definition maxBackfillHours :: int where "maxBackfillHours = defaultBackfillHours"

definition defaultBackfillBatchDevices :: int where "defaultBackfillBatchDevices = 50"

definition clampBackfillHours :: "int \<Rightarrow> int" where
  "clampBackfillHours hours =
     (if hours \<le> 0 then defaultBackfillHours
      else if maxBackfillHours < hours then maxBackfillHours
      else hours)"

text \<open>\<open>now().Add(-time.Duration(hours)*time.Hour).Unix()\<close>: the duration is an int64 of nanoseconds.\<close>
definition hours_ago :: "metrics_cfg \<Rightarrow> int \<Rightarrow> int" where
  "hours_ago cfg hours = mc_now cfg + wrap64 (- wrap64 (hours * hour)) div second"

definition backfillTarget :: "metrics_cfg \<Rightarrow> int \<Rightarrow> int" where
  "backfillTarget cfg hours =
     (let target = alignDown (hours_ago cfg hours) (resolutionSeconds Resolution5m)
      in if target < 0 then 0 else target)"

definition deviceScope :: "int list \<Rightarrow> (int \<Rightarrow> bool) option" where
  "deviceScope deviceIDs = (if deviceIDs = [] then None else Some (\<lambda>d. d \<in> set deviceIDs))"

definition in_scope :: "(int \<Rightarrow> bool) option \<Rightarrow> int \<Rightarrow> bool" where
  "in_scope scope d = (case scope of None \<Rightarrow> True | Some f \<Rightarrow> f d)"

function chunks :: "'a list \<Rightarrow> int \<Rightarrow> 'a list list" where
  "chunks xs n = (if xs = [] \<or> n \<le> 0 then [] else take (nat n) xs # chunks (drop (nat n) xs) n)"
  by pat_completeness auto
termination
  by (relation "measure (\<lambda>(xs, n). length xs)") auto

declare chunks.simps [simp del]

definition splitDevices :: "int list \<Rightarrow> int \<Rightarrow> int list list" where
  "splitDevices devices n =
     (if n \<le> 0 \<or> devices = [] then (if devices = [] then [] else [devices]) else chunks devices n)"

section \<open>Replay\<close>

text \<open>The watermarks of a batch that move back, with the count of those that did.\<close>
fun backfill_rewinds ::
  "metrics_cfg \<Rightarrow> (int \<Rightarrow> bool) option \<Rightarrow> int \<Rightarrow> int list \<Rightarrow> int \<Rightarrow> metrics_world
   \<Rightarrow> metrics_world \<times> int \<times> svc_err option" where
  "backfill_rewinds cfg scope target [] n w = (w, n, None)"
| "backfill_rewinds cfg scope target (d # ds) n w =
     (if \<not> in_scope scope d then backfill_rewinds cfg scope target ds n w
      else case flush_readCursor cfg d w of
             (w1, Inl e) \<Rightarrow> (w1, n, Some e)
           | (w1, Inr cursor) \<Rightarrow>
               if cursor \<le> target then backfill_rewinds cfg scope target ds n w1
               else (case cs_Rewind d Resolution5m target w1 of
                       (w2, Inl e) \<Rightarrow> (w2, n, Some e)
                     | (w2, Inr applied) \<Rightarrow>
                         backfill_rewinds cfg scope target ds (if applied then n + 1 else n) w2))"

text \<open>The batches: a batch is rewound, then flushed; the failure of a batch is remembered, a missing
  partition ends the round. \<open>first\<close> says that no batch has run, so that no pause comes before it.\<close>
fun backfill_batches ::
  "metrics_cfg \<Rightarrow> (int \<Rightarrow> bool) option \<Rightarrow> int \<Rightarrow> int \<Rightarrow> bool \<Rightarrow> int list list \<Rightarrow> BackfillStats \<Rightarrow> svc_err option
   \<Rightarrow> metrics_world \<Rightarrow> metrics_world \<times> BackfillStats \<times> svc_err option" where
  "backfill_batches cfg scope target upper first [] st flushErr w =
     (w, st, if flushErr = None then None
             else Some (ErrFlushPartial (fs_errors (bs_flush st)) (fs_devices (bs_flush st))))"
| "backfill_batches cfg scope target upper first (b # bs) st flushErr w =
     (let st1 = (if first then st else st\<lparr>bs_waits := bs_waits st + 1\<rparr>) in
      case backfill_rewinds cfg scope target b (bs_rewound st1) w of
        (w1, n, Some e) \<Rightarrow> (w1, st1\<lparr>bs_rewound := n\<rparr>, Some e)
      | (w1, n, None) \<Rightarrow>
          (case flushDeviceSet cfg b upper w1 of
             (w2, part, perr) \<Rightarrow>
               (let st2 = st1\<lparr>bs_rewound := n, bs_flush := accrue (bs_flush st1) part\<rparr>
                in if perr = Some ErrMetricPartitionMissing then (w2, st2, perr)
                   else backfill_batches cfg scope target upper False bs st2
                          (if perr = None then flushErr else perr) w2)))"

definition BackfillOnce ::
  "metrics_cfg \<Rightarrow> int list \<Rightarrow> int \<Rightarrow> metrics_world \<Rightarrow> metrics_world \<times> BackfillStats \<times> svc_err option" where
  "BackfillOnce cfg deviceIDs hours w =
     (let window = clampBackfillHours hours;
          st = \<lparr>bs_devices = 0, bs_rewound = 0, bs_window = window, bs_batches = 0, bs_waits = 0, bs_flush = zero_stats\<rparr>
      in case raw_Index w of
           (w1, Inl e) \<Rightarrow> (w1, st, Some e)
         | (w1, Inr devices) \<Rightarrow>
             (let batches = splitDevices devices defaultBackfillBatchDevices
              in backfill_batches cfg (deviceScope deviceIDs) (backfillTarget cfg window) (closedBucketUpper cfg)
                   True batches (st\<lparr>bs_devices := int (length devices), bs_batches := int (length batches)\<rparr>) None w1))"

section \<open>Rewind\<close>

record RewindStats =
  ws_devices :: int
  ws_rewound :: int
  ws_window :: int
  ws_resolution :: Resolution

text \<open>A failure of the marker is logged only.\<close>
definition markRewindPending :: "int \<Rightarrow> Resolution \<Rightarrow> int \<Rightarrow> metrics_world \<Rightarrow> metrics_world" where
  "markRewindPending d res target w =
     (if res \<noteq> Resolution1h then w else fst (cs_MarkRewind d res target w))"

definition rewindBoundHours :: "metrics_cfg \<Rightarrow> Resolution \<Rightarrow> int" where
  "rewindBoundHours cfg res =
     (if res \<noteq> Resolution1h then defaultBackfillHours else wrap64 (agentHistoryRetentionDays cfg * 24))"

definition clampRewindHours :: "metrics_cfg \<Rightarrow> Resolution \<Rightarrow> int \<Rightarrow> int" where
  "clampRewindHours cfg res hours =
     (let bound = rewindBoundHours cfg res in if hours \<le> 0 \<or> bound < hours then bound else hours)"

definition rewindTarget :: "metrics_cfg \<Rightarrow> Resolution \<Rightarrow> int \<Rightarrow> int" where
  "rewindTarget cfg res hours =
     (if res \<noteq> Resolution1h then backfillTarget cfg hours
      else let target = alignDown (hours_ago cfg hours) (resolutionSeconds Resolution1h) - resolutionSeconds Resolution1h
           in if target < 0 then 0 else target)"

fun rewind_loop ::
  "(int \<Rightarrow> bool) option \<Rightarrow> Resolution \<Rightarrow> int \<Rightarrow> int list \<Rightarrow> int \<Rightarrow> metrics_world
   \<Rightarrow> metrics_world \<times> int \<times> svc_err option" where
  "rewind_loop scope res target [] n w = (w, n, None)"
| "rewind_loop scope res target (d # ds) n w =
     (if \<not> in_scope scope d then rewind_loop scope res target ds n w
      else case cs_Read d res w of
             (w1, Inl e) \<Rightarrow> (w1, n, Some e)
           | (w1, Inr None) \<Rightarrow> rewind_loop scope res target ds n w1
           | (w1, Inr (Some cursor)) \<Rightarrow>
               if cursor \<le> target then rewind_loop scope res target ds n w1
               else (case cs_Rewind d res target w1 of
                       (w2, Inl e) \<Rightarrow> (w2, n, Some e)
                     | (w2, Inr applied) \<Rightarrow>
                         if applied then rewind_loop scope res target ds (n + 1) (markRewindPending d res target w2)
                         else rewind_loop scope res target ds n w2))"

definition RewindHours ::
  "metrics_cfg \<Rightarrow> int list \<Rightarrow> Resolution \<Rightarrow> int \<Rightarrow> metrics_world \<Rightarrow> metrics_world \<times> RewindStats \<times> svc_err option" where
  "RewindHours cfg deviceIDs res hours w =
     (let window = clampRewindHours cfg res hours;
          st = \<lparr>ws_devices = 0, ws_rewound = 0, ws_window = window, ws_resolution = res\<rparr>
      in case raw_Index w of
           (w1, Inl e) \<Rightarrow> (w1, st, Some e)
         | (w1, Inr devices) \<Rightarrow>
             (case rewind_loop (deviceScope deviceIDs) res (rewindTarget cfg res window) devices 0 w1 of
                (w2, n, e) \<Rightarrow> (w2, st\<lparr>ws_devices := int (length devices), ws_rewound := n\<rparr>, e)))"

section \<open>Batches\<close>

lemma chunks_Nil [simp]: "chunks [] n = []"
  by (simp add: chunks.simps)

lemma chunks_props:
  "0 < n \<Longrightarrow> concat (chunks xs n) = xs \<and> (\<forall>b\<in>set (chunks xs n). b \<noteq> [] \<and> int (length b) \<le> n)
     \<and> int (length (chunks xs n)) = (int (length xs) + n - 1) div n"
proof (induction xs n rule: chunks.induct)
  case (1 xs n)
  show ?case
  proof (cases "xs = []")
    case True
    then show ?thesis using 1(2) by (simp add: div_pos_pos_trivial)
  next
    case False
    then have c: "chunks xs n = take (nat n) xs # chunks (drop (nat n) xs) n" using 1(2) by (simp add: chunks.simps [of xs])
    have ih: "concat (chunks (drop (nat n) xs) n) = drop (nat n) xs"
      "\<forall>b\<in>set (chunks (drop (nat n) xs) n). b \<noteq> [] \<and> int (length b) \<le> n"
      "int (length (chunks (drop (nat n) xs) n)) = (int (length (drop (nat n) xs)) + n - 1) div n"
      using 1 False by auto
    have "1 + (int (length (drop (nat n) xs)) + n - 1) div n = (int (length xs) + n - 1) div n"
    proof (cases "n \<le> int (length xs)")
      case True
      then have "int (length (drop (nat n) xs)) + n - 1 = int (length xs) - 1" using 1(2) by (simp add: of_nat_diff)
      moreover have "(int (length xs) + n - 1) div n = (int (length xs) - 1 + 1 * n) div n" by (simp add: algebra_simps)
      ultimately show ?thesis using 1(2) by simp
    next
      case len: False
      have "0 < int (length xs)" using False by simp
      have "(int (length xs) + n - 1) div n = ((int (length xs) - 1) + n) div n" by (rule arg_cong [where f = "\<lambda>x. x div n"]) simp
      also have "\<dots> = (int (length xs) - 1) div n + 1" using 1(2) by (intro div_add_self2) simp
      also have "(int (length xs) - 1) div n = 0" using len \<open>0 < int (length xs)\<close> by (intro div_pos_pos_trivial) simp_all
      finally have "(int (length xs) + n - 1) div n = 1" by simp
      then show ?thesis using len 1(2) by (simp add: div_pos_pos_trivial)
    qed
    then show ?thesis using c ih 1(2) False by (auto simp: min_def)
  qed
qed

lemma backfill_batches_stats:
  "backfill_batches cfg scope target upper first bs st fe w = (w', st', None) \<Longrightarrow>
     bs_waits st' = bs_waits st + (if first \<and> bs \<noteq> [] then int (length bs) - 1 else int (length bs))
     \<and> bs_batches st' = bs_batches st \<and> bs_devices st' = bs_devices st \<and> bs_window st' = bs_window st
     \<and> fe = None"
proof (induction bs arbitrary: first st fe w)
  case (Cons b bs)
  define st1 where "st1 = (if first then st else st\<lparr>bs_waits := bs_waits st + 1\<rparr>)"
  obtain w1 n e1 where r: "backfill_rewinds cfg scope target b (bs_rewound st1) w = (w1, n, e1)" by (rule prod_cases3)
  have e1: "e1 = None" using Cons.prems r by (cases e1) (auto simp: st1_def)
  obtain w2 part perr where f: "flushDeviceSet cfg b upper w1 = (w2, part, perr)" by (rule prod_cases3)
  define st2 where "st2 = st1\<lparr>bs_rewound := n, bs_flush := accrue (bs_flush st1) part\<rparr>"
  have "perr \<noteq> Some ErrMetricPartitionMissing"
    "backfill_batches cfg scope target upper False bs st2 (if perr = None then fe else perr) w2 = (w', st', None)"
    using Cons.prems r e1 f by (auto simp: st1_def [symmetric] st2_def Let_def split: if_splits)
  from Cons.IH [OF this(2)] show ?case by (auto simp: st2_def st1_def split: if_splits)
qed (auto split: if_splits)

text \<open>A replay is paced. When a replay round ends without error, its devices were cut, in order, into
  batches of at most fifty with a pause before every batch but the first, and the statistics say so:
  the number of batches is the number of devices over fifty, rounded up.\<close>
theorem backfill_paced:
  assumes "BackfillOnce cfg ids hours w = (w', st, None)"
  shows "bs_batches st = (bs_devices st + 49) div 50 \<and> bs_waits st = max 0 (bs_batches st - 1)
     \<and> 1 \<le> bs_window st \<and> bs_window st \<le> 24"
proof -
  obtain w1 r where r: "raw_Index w = (w1, r)" by fastforce
  then obtain ds where ds: "r = Inr ds" using assms by (cases r) (simp_all add: BackfillOnce_def Let_def)
  let ?bs = "splitDevices ds 50"
  have len: "int (length ?bs) = (int (length ds) + 49) div 50"
    using chunks_props [of 50 ds] by (simp add: splitDevices_def add.commute)
  have nz: "?bs = [] \<or> 1 \<le> (int (length ds) + 49) div 50" using len by (cases ?bs) auto
  have win: "1 \<le> clampBackfillHours hours \<and> clampBackfillHours hours \<le> 24"
    by (simp add: clampBackfillHours_def maxBackfillHours_def defaultBackfillHours_def RawBootstrapWindow_def hour_def second_def)
  note b = backfill_batches_stats [of cfg "deviceScope ids" "backfillTarget cfg (clampBackfillHours hours)"
      "closedBucketUpper cfg" True ?bs _ None w1 w' st]
  show ?thesis
    using b assms r ds len win nz
    by (auto simp: BackfillOnce_def Let_def defaultBackfillBatchDevices_def)
qed

text \<open>An empty index.\<close>
lemma backfill_paced_witness:
  "\<exists>w' st. BackfillOnce demo_cfg [] 0 (demo_world [] 600 []) = (w', st, None) \<and> bs_batches st = 0"
proof -
  have "raw_Index (demo_world [] 600 []) = (demo_world [] 600 [], Inr [])"
    by (simp add: raw_Index_def redis_smembers_def bindS_def ext_call_quiet demo_world_def)
  then obtain w' st where b: "BackfillOnce demo_cfg [] 0 (demo_world [] 600 []) = (w', st, None)" "bs_devices st = 0"
    by (simp add: BackfillOnce_def splitDevices_def)
  show ?thesis using backfill_paced [OF b(1)] b by auto
qed

section \<open>What a rewind does\<close>

abbreviation hour_key :: "int \<Rightarrow> string" where
  "hour_key d \<equiv> historyKeyPrefix @ itoa d @ '':cursor_1h''"

abbreviation mark_key :: "int \<Rightarrow> string" where
  "mark_key d \<equiv> historyKeyPrefix @ itoa d @ '':rewind_1h''"

lemma hour_keys:
  "CursorKey d Resolution1h = Inr (hour_key d)" "RewindMarkerKey d Resolution1h = Inr (mark_key d)"
  by (simp_all add: CursorKey_def RewindMarkerKey_def cursorKeySuffixes_def rewindMarkerSuffixes_def Resolution1h_def)

lemma keys_apart: "hour_key d \<noteq> mark_key d'"
proof
  assume "hour_key d = mark_key d'"
  then have "rev (hour_key d) = rev (mark_key d')" by simp
  then show False by simp
qed

lemma itoa_inject_nonneg: "0 \<le> d \<Longrightarrow> 0 \<le> d' \<Longrightarrow> itoa d = itoa d' \<longleftrightarrow> d = d'"
  by (auto simp: itoa_def nat_dec_inject)

text \<open>A key that is free or holds the decimal form of an int64.\<close>
abbreviation num_key :: "kv_store \<Rightarrow> string \<Rightarrow> bool" where
  "num_key kv k \<equiv> num_cell k kv"

text \<open>What a device looks like after a rewind to the target.\<close>
definition rewound :: "int \<Rightarrow> kv_store \<Rightarrow> kv_store \<Rightarrow> int \<Rightarrow> bool" where
  "rewound target kv kv' d \<longleftrightarrow>
     (case kv (hour_key d) of
        None \<Rightarrow> kv' (hour_key d) = None
      | Some _ \<Rightarrow> kv' (hour_key d) = Some (itoa (min (wm_val (hour_key d) kv) target))
           \<and> (target < wm_val (hour_key d) kv \<longrightarrow> wm_valid (mark_key d) kv' \<and> wm_val (mark_key d) kv' \<le> target))"

lemma Rewind_quiet:
  assumes "rd_faults w = []" "wm_valid (hour_key d) (rd_kv w)" "in_int64 t" "t < wm_val (hour_key d) (rd_kv w)"
  shows "cs_Rewind d Resolution1h t w = (w\<lparr>rd_kv := (rd_kv w)(hour_key d \<mapsto> itoa t)\<rparr>, Inr True)"
  using assms rewind_script_valid [OF assms(2,3)]
  by (simp add: cs_Rewind_def hour_keys eval_script_def bindS_def ext_call_quiet)

lemma Mark_quiet:
  assumes "rd_faults w = []" "num_key (rd_kv w) (mark_key d)" "in_int64 t"
  obtains m where "markRewindPending d Resolution1h t w = w\<lparr>rd_kv := (rd_kv w)(mark_key d \<mapsto> itoa m)\<rparr>"
    "m \<le> t" "in_int64 m"
proof (cases "rd_kv w (mark_key d)")
  case None
  then show ?thesis using that [of t] assms
    by (simp add: markRewindPending_def cs_MarkRewind_def hour_keys eval_script_def bindS_def ext_call_quiet rewindCursorScript_def)
next
  case (Some s)
  then have v: "wm_valid (mark_key d) (rd_kv w)" using assms(2) by (simp add: num_cell_def)
  note kv = wm_valid_kv [OF v]
  let ?m = "min t (wm_val (mark_key d) (rd_kv w))"
  have "(rd_kv w)(mark_key d \<mapsto> itoa (wm_val (mark_key d) (rd_kv w))) = rd_kv w" using kv by (simp add: fun_upd_idem)
  then show ?thesis using that [of ?m] assms rewind_script_valid [OF v assms(3)] kv
    by (simp add: markRewindPending_def cs_MarkRewind_def hour_keys eval_script_def bindS_def ext_call_quiet min_def
        split: if_splits)
qed

lemma rewind_step:
  assumes "rd_faults w = []" "num_key (rd_kv w) (hour_key d)" "num_key (rd_kv w) (mark_key d)" "in_int64 t"
    and "in_scope scope d"
  obtains kv n' where "rewind_loop scope Resolution1h t (d # ds) n w = rewind_loop scope Resolution1h t ds n' (w\<lparr>rd_kv := kv\<rparr>)"
    "rewound t (rd_kv w) kv d" "\<forall>k. k \<noteq> hour_key d \<and> k \<noteq> mark_key d \<longrightarrow> kv k = rd_kv w k"
proof (cases "rd_kv w (hour_key d)")
  case None
  then have "cs_Read d Resolution1h w = (w, Inr None)"
    using assms(1) by (simp add: cs_Read_def hour_keys get_int64_def bindS_def redis_get_def ext_call_quiet)
  then show ?thesis using that [of n "rd_kv w"] None assms(5) by (simp add: rewound_def)
next
  case (Some s)
  then have v: "wm_valid (hour_key d) (rd_kv w)" using assms(2) by (simp add: num_cell_def)
  define c where "c = wm_val (hour_key d) (rd_kv w)"
  have c: "rd_kv w (hour_key d) = Some (itoa c)" "in_int64 c" using wm_valid_kv [OF v] by (simp_all add: c_def)
  have rd: "cs_Read d Resolution1h w = (w, Inr (Some c))" by (rule Read_quiet [OF assms(1) hour_keys(1) c])
  show ?thesis
  proof (cases "c \<le> t")
    case True
    then show ?thesis using that [of n "rd_kv w"] rd c assms(5) by (simp add: rewound_def c_def [symmetric] min_def)
  next
    case False
    let ?w2 = "w\<lparr>rd_kv := (rd_kv w)(hour_key d \<mapsto> itoa t)\<rparr>"
    have rw: "cs_Rewind d Resolution1h t w = (?w2, Inr True)" using Rewind_quiet [OF assms(1) v assms(4)] False by (simp add: c_def)
    have nk: "num_key (rd_kv ?w2) (mark_key d)"
      using assms(3) keys_apart [of d d] by (simp add: num_cell_def wm_valid_def del: append_assoc)
    obtain m where m: "markRewindPending d Resolution1h t ?w2 = ?w2\<lparr>rd_kv := (rd_kv ?w2)(mark_key d \<mapsto> itoa m)\<rparr>"
      "m \<le> t" "in_int64 m" by (rule Mark_quiet [OF _ nk assms(4)]) (simp_all add: assms(1))
    show ?thesis
      by (rule that [of "n + 1" "(rd_kv w)(hour_key d \<mapsto> itoa t, mark_key d \<mapsto> itoa m)"])
        (use rd rw m False assms(5) c keys_apart [of d d] in
          \<open>simp_all add: rewound_def c_def [symmetric] min_def del: append_assoc\<close>)
  qed
qed

lemma keys_inject:
  assumes "0 \<le> d" "0 \<le> d'" "d \<noteq> d'"
  shows "hour_key d \<noteq> hour_key d'" "mark_key d \<noteq> mark_key d'"
  using assms itoa_inject_nonneg by simp_all

lemma rewound_cong:
  assumes "kv (hour_key d) = kv2 (hour_key d)" "kv' (hour_key d) = kv2' (hour_key d)" "kv' (mark_key d) = kv2' (mark_key d)"
  shows "rewound t kv kv' d \<longleftrightarrow> rewound t kv2 kv2' d"
  unfolding rewound_def wm_val_def wm_valid_def assms ..

lemma rewind_loop_quiet:
  assumes "rd_faults w = []" "distinct ds" "\<forall>d\<in>set ds. 0 \<le> d \<and> num_key (rd_kv w) (hour_key d) \<and> num_key (rd_kv w) (mark_key d)"
    and "in_int64 t"
  shows "\<exists>kv n'. rewind_loop scope Resolution1h t ds n w = (w\<lparr>rd_kv := kv\<rparr>, n', None)
     \<and> (\<forall>d\<in>set ds. in_scope scope d \<longrightarrow> rewound t (rd_kv w) kv d)
     \<and> (\<forall>k. (\<forall>d\<in>set ds. in_scope scope d \<longrightarrow> k \<noteq> hour_key d \<and> k \<noteq> mark_key d) \<longrightarrow> kv k = rd_kv w k)"
  using assms
proof (induction ds arbitrary: n w)
  case Nil
  show ?case by (rule exI [of _ "rd_kv w"]) simp
next
  case (Cons d ds)
  show ?case
  proof (cases "in_scope scope d")
    case False
    then show ?thesis using Cons.IH [of w n] Cons.prems by auto
  next
    case True
    have nk: "num_key (rd_kv w) (hour_key d)" "num_key (rd_kv w) (mark_key d)" using Cons.prems(3) by auto
    obtain kv1 n1 where one: "rewind_loop scope Resolution1h t (d # ds) n w = rewind_loop scope Resolution1h t ds n1 (w\<lparr>rd_kv := kv1\<rparr>)"
      and r1: "rewound t (rd_kv w) kv1 d" and f1: "\<forall>k. k \<noteq> hour_key d \<and> k \<noteq> mark_key d \<longrightarrow> kv1 k = rd_kv w k"
      by (rule rewind_step [OF Cons.prems(1) nk Cons.prems(4) True])
    have other: "kv1 (hour_key x) = rd_kv w (hour_key x) \<and> kv1 (mark_key x) = rd_kv w (mark_key x)" if "x \<in> set ds" for x
    proof -
      have "0 \<le> x" "0 \<le> d" "x \<noteq> d" using Cons.prems(2,3) that by auto
      then show ?thesis using f1 keys_inject keys_apart by (metis (no_types, lifting))
    qed
    have "\<forall>x\<in>set ds. 0 \<le> x \<and> num_key kv1 (hour_key x) \<and> num_key kv1 (mark_key x)"
      using Cons.prems(3) other by (auto simp: num_cell_def wm_valid_def simp del: append_assoc)
    then obtain kv n' where rest: "rewind_loop scope Resolution1h t ds n1 (w\<lparr>rd_kv := kv1\<rparr>) = (w\<lparr>rd_kv := kv\<rparr>, n', None)"
      and r2: "\<forall>x\<in>set ds. in_scope scope x \<longrightarrow> rewound t kv1 kv x"
      and f2: "\<forall>k. (\<forall>x\<in>set ds. in_scope scope x \<longrightarrow> k \<noteq> hour_key x \<and> k \<noteq> mark_key x) \<longrightarrow> kv k = kv1 k"
      using Cons.IH [of "w\<lparr>rd_kv := kv1\<rparr>" n1] Cons.prems by auto
    have d_later: "kv (hour_key d) = kv1 (hour_key d)" "kv (mark_key d) = kv1 (mark_key d)"
    proof -
      have "\<forall>x\<in>set ds. 0 \<le> x \<and> 0 \<le> d \<and> x \<noteq> d" using Cons.prems(2,3) by auto
      then have "\<forall>x\<in>set ds. hour_key d \<noteq> hour_key x \<and> hour_key d \<noteq> mark_key x \<and> mark_key d \<noteq> hour_key x \<and> mark_key d \<noteq> mark_key x"
        using keys_inject keys_apart by (metis (no_types, lifting))
      then show "kv (hour_key d) = kv1 (hour_key d)" "kv (mark_key d) = kv1 (mark_key d)" using f2 by blast+
    qed
    have "rewound t (rd_kv w) kv d" using r1 rewound_cong [of "rd_kv w" d "rd_kv w" kv kv1 t] d_later by simp
    moreover have "\<forall>x\<in>set ds. in_scope scope x \<longrightarrow> rewound t (rd_kv w) kv x"
      using r2 other rewound_cong by (metis (no_types, lifting))
    moreover have "\<forall>k. (\<forall>x\<in>set (d # ds). in_scope scope x \<longrightarrow> k \<noteq> hour_key x \<and> k \<noteq> mark_key x) \<longrightarrow> kv k = rd_kv w k"
      using f1 f2 True by simp
    ultimately show ?thesis using one rest by auto
  qed
qed

lemma wrap64_bounds: "- (2 ^ 63) \<le> wrap64 x" "wrap64 x < 2 ^ 63"
  using signed_take_bit_int_greater_eq_minus_exp [of 63 x] signed_take_bit_int_less_exp [of 63 x]
  by (simp_all add: wrap64_def)

lemma rewindTarget_int64:
  assumes "0 \<le> mc_now cfg" "mc_now cfg < 2 ^ 62"
  shows "in_int64 (rewindTarget cfg Resolution1h hours)"
proof -
  have "wrap64 (- wrap64 (hours * hour)) div second \<le> 2 ^ 63 div second"
    using wrap64_bounds(2) [of "- wrap64 (hours * hour)"] by (intro zdiv_mono1) (simp_all add: second_def)
  then have "hours_ago cfg hours < 2 ^ 63" using assms by (simp add: hours_ago_def second_def)
  moreover have "alignDown (hours_ago cfg hours) 3600 \<le> hours_ago cfg hours" by (rule alignDown_props) simp
  ultimately show ?thesis
    by (simp add: rewindTarget_def in_int64_def Let_def resolutionSeconds_def BucketSeconds_def)
qed

text \<open>A rewind of the hour watermark moves exactly the devices it names, and only back. On a quiet
  connection, for every device of the index that is in the scope (or any, when no scope is given), a
  watermark above the target is set to the target with a marker at most the target, any other stays,
  and a missing one stays missing; no other key of the store changes.\<close>
theorem rewind_hours_exact:
  assumes "rd_faults w = []" "raw_Index w = (w, Inr ds)" "distinct ds"
    and "\<forall>d\<in>set ds. 0 \<le> d \<and> num_key (rd_kv w) (hour_key d) \<and> num_key (rd_kv w) (mark_key d)"
    and "0 \<le> mc_now cfg" "mc_now cfg < 2 ^ 62"
    and "RewindHours cfg ids Resolution1h hours w = (w', st, e)"
  defines "t \<equiv> rewindTarget cfg Resolution1h (ws_window st)"
  shows "e = None
     \<and> (\<forall>d\<in>set ds. ids = [] \<or> d \<in> set ids \<longrightarrow> rewound t (rd_kv w) (rd_kv w') d)
     \<and> (\<forall>k. (\<forall>d\<in>set ds. ids = [] \<or> d \<in> set ids \<longrightarrow> k \<noteq> hour_key d \<and> k \<noteq> mark_key d) \<longrightarrow> rd_kv w' k = rd_kv w k)"
proof -
  let ?t = "rewindTarget cfg Resolution1h (clampRewindHours cfg Resolution1h hours)"
  have sc: "in_scope (deviceScope ids) d \<longleftrightarrow> ids = [] \<or> d \<in> set ids" for d
    by (simp add: in_scope_def deviceScope_def)
  obtain kv n where l: "rewind_loop (deviceScope ids) Resolution1h ?t ds 0 w = (w\<lparr>rd_kv := kv\<rparr>, n, None)"
    and p: "\<forall>d\<in>set ds. in_scope (deviceScope ids) d \<longrightarrow> rewound ?t (rd_kv w) kv d"
      "\<forall>k. (\<forall>d\<in>set ds. in_scope (deviceScope ids) d \<longrightarrow> k \<noteq> hour_key d \<and> k \<noteq> mark_key d) \<longrightarrow> kv k = rd_kv w k"
    using rewind_loop_quiet [OF assms(1,3,4) rewindTarget_int64 [OF assms(5,6)], of "deviceScope ids"] by blast
  have "w' = w\<lparr>rd_kv := kv\<rparr>" "e = None" "t = ?t"
    using assms(2,7) l by (auto simp: RewindHours_def Let_def t_def)
  then show ?thesis using p unfolding sc by simp
qed

text \<open>One device at 7200 is rewound to the start of the clock.\<close>
definition rewind_world :: metrics_world where
  "rewind_world = (demo_world [] 0 [])\<lparr>rd_kv := [hour_key 7 \<mapsto> itoa 7200], rd_sets := (\<lambda>k. if k = DeviceIndexKey then [itoa 7] else [])\<rparr>"

lemma rewind_hours_exact_witness:
  "wm_val (hour_key 7) (rd_kv (fst (RewindHours demo_cfg [] Resolution1h 0 rewind_world))) = 0"
proof -
  obtain w' st e where r: "RewindHours demo_cfg [] Resolution1h 0 rewind_world = (w', st, e)" by (rule prod_cases3)
  have "sort (map (int \<circ> digits_val) (filter (\<lambda>s. s \<noteq> []) (map (takeWhile is_digit) [itoa 7]))) = [7]" by code_simp
  then have ix: "raw_Index rewind_world = (rewind_world, Inr [7])"
    by (simp add: raw_Index_def redis_smembers_def bindS_def ext_call_quiet rewind_world_def demo_world_def del: filter.simps list.map)
  have q: "rd_faults rewind_world = []" by (simp add: rewind_world_def demo_world_def)
  have kv: "rd_kv rewind_world = [hour_key 7 \<mapsto> itoa 7200]" by (simp add: rewind_world_def)
  have t: "rewindTarget demo_cfg Resolution1h (clampRewindHours demo_cfg Resolution1h 0) = 0" by code_simp
  have st: "ws_window st = clampRewindHours demo_cfg Resolution1h 0"
    using r ix by (auto simp: RewindHours_def Let_def split: prod.splits)
  have "rewound 0 (rd_kv rewind_world) (rd_kv w') 7"
    using rewind_hours_exact [OF q ix _ _ _ _ r] keys_apart [of 7 7] t st
    by (simp add: demo_cfg_def kv num_cell_def in_int64_def del: append_assoc)
  then show ?thesis using r by (simp add: rewound_def kv wm_val_def in_int64_def del: append_assoc)
qed

text \<open>What the window of a rewind reaches. For the hour resolution the first hour the rollup works off
  after a rewind is the one that holds the start of the window; for five minutes the first bucket it
  works off begins after the start of the window, so that the bucket of the start is left out.\<close>
theorem rewind_window:
  assumes "mc_retention cfg \<le> 3650" "0 < hours" "hours \<le> 24" "86400 + 3600 \<le> mc_now cfg"
  shows "rewindTarget cfg Resolution1h hours + 3600 = alignDown (mc_now cfg - hours * 3600) 3600
     \<and> mc_now cfg - hours * 3600 < rewindTarget cfg Resolution5m hours + 300"
proof -
  have a: "hours_ago cfg hours = mc_now cfg - hours * 3600"
  proof -
    have "wrap64 (hours * hour) = hours * hour" "wrap64 (- (hours * hour)) = - (hours * hour)"
      using assms(2,3) by (intro wrap64_id; simp add: hour_def second_def)+
    then show ?thesis by (simp add: hours_ago_def hour_def second_def)
  qed
  define up where "up = alignDown (mc_now cfg - hours * 3600) 3600"
  have "3600 dvd up" "mc_now cfg - hours * 3600 - 3600 < up" using alignDown_props [of 3600] by (simp_all add: up_def)
  then have "0 \<le> up - 3600" using assms(3,4) zdvd_imp_le [of 3600 up] by simp
  moreover have "mc_now cfg - hours * 3600 - 300 < alignDown (mc_now cfg - hours * 3600) 300"
    by (rule alignDown_props) simp
  ultimately show ?thesis
    by (simp add: rewindTarget_def backfillTarget_def a Let_def resolutionSeconds_def BucketSeconds_def
        Resolution1h_def Resolution5m_def up_def)
qed

lemma rewind_window_witness:
  "rewindTarget (demo_cfg\<lparr>mc_now := 180000\<rparr>) Resolution5m 1 + 300 = 176700
   \<and> 176400 < rewindTarget (demo_cfg\<lparr>mc_now := 180000\<rparr>) Resolution5m 1 + 300"
proof -
  have "rewindTarget (demo_cfg\<lparr>mc_now := 180000\<rparr>) Resolution5m 1 + 300 = 176700" by code_simp
  then show ?thesis using rewind_window [of "demo_cfg\<lparr>mc_now := 180000\<rparr>" 1] by (simp add: demo_cfg_def)
qed

end
