(* ===== verification/AgentUpgrade.thy ===== *)
theory AgentUpgrade
  imports Payload
begin

text \<open>
  The self-upgrade of the agent: \<open>src/uni_agent/internal/upgrade/upgrade.go\<close> and \<open>transaction.go\<close>. The disk is
  an explicit state, and every operation on it takes an entry of a script: it works, fails, is denied,
  or the process dies before it; a write of a file can also end, or the process die, in the middle. The JSON files are their values, since they are written to a temporary
  file and renamed. The server, the hash and the self-check of a program are parameters. Log lines, the
  free text of a reason, the jitter and the throttled progress reports are left out.
\<close>

section \<open>State\<close>

record transaction =
  tx_from :: string
  tx_to :: string
  tx_backup :: string
  tx_request :: string
  tx_phase :: string
  tx_at :: int
  tx_attempts :: int
  tx_probes :: int
  tx_reason :: string
  tx_previous :: string

record attemptRecord =
  ar_request :: string
  ar_version :: string
  ar_at :: int
  ar_result :: string

text \<open>\<open>IoCut n died\<close> ends a write of a file after its first n bytes, with an error or with the process.\<close>
datatype io_event = IoOk | IoFail | IoDenied | IoCrash | IoCut nat bool

datatype io_result = RetOk | RetFail | RetDenied

text \<open>The disk, the memory of the process and what it has sent. \<open>ag_image\<close> is the program the process
  runs, \<open>ag_up\<close> says that there is a process, and times are nanoseconds.\<close>
record agent =
  ag_files :: "string \<Rightarrow> string option"
  ag_tx :: "transaction option"
  ag_attempt :: "attemptRecord option"
  ag_last :: "attemptRecord option"
  ag_running :: bool
  ag_sent :: "UpgradeStatus list"
  ag_image :: string
  ag_up :: bool
  ag_now :: int
  ag_io :: "io_event list"

datatype http_reply = HttpError | HttpReply int string bool

text \<open>The dependencies of the runtime: the version a program was built with, the state directory, the platform, the path
  of the program and of the temporary file, the reply of the server to a directive (with a flag for a
  body that breaks off), the hash in hexadecimal, the output of the self-check, the token, the windows,
  and whether a program accepts its configuration.\<close>
record upgrade_deps =
  dp_version :: "string \<Rightarrow> string"
  dp_state_dir :: string
  dp_goos :: string
  dp_exe :: "string option"
  dp_tmp :: string
  dp_fetch :: "UpgradeDirective \<Rightarrow> http_reply"
  dp_sha :: "string \<Rightarrow> string"
  dp_smoke :: "string \<Rightarrow> string option"
  dp_token :: string
  dp_trial :: int
  dp_probe :: int
  dp_config :: "string \<Rightarrow> bool"

section \<open>Programs that may end\<close>

text \<open>A process step ends with a value, or with the end of the process.\<close>
datatype 'a outcome = Ended | Done 'a

type_synonym 'a prog = "agent \<Rightarrow> agent \<times> 'a outcome"

definition bindP :: "'a prog \<Rightarrow> ('a \<Rightarrow> 'b prog) \<Rightarrow> 'b prog" where
  "bindP m k s = (case m s of (s', Ended) \<Rightarrow> (s', Ended) | (s', Done x) \<Rightarrow> k x s')"

definition doneP :: "'a \<Rightarrow> 'a prog" where
  "doneP x s = (s, Done x)"

definition endP :: "(agent \<Rightarrow> agent) \<Rightarrow> 'a prog" where
  "endP f s = ((f s)\<lparr>ag_up := False\<rparr>, Ended)"

definition modP :: "(agent \<Rightarrow> agent) \<Rightarrow> unit prog" where
  "modP f s = (f s, Done ())"

text \<open>One operation on the disk; it can also fail by itself.\<close>
definition io :: "(agent \<Rightarrow> agent option) \<Rightarrow> io_result prog" where
  "io f s0 =
     (let s = s0\<lparr>ag_io := tl (ag_io s0)\<rparr> in
      case ag_io s0 of
        IoFail # _ \<Rightarrow> (s, Done RetFail)
      | IoDenied # _ \<Rightarrow> (s, Done RetDenied)
      | IoCrash # _ \<Rightarrow> (s\<lparr>ag_up := False\<rparr>, Ended)
      | IoCut _ died # _ \<Rightarrow> if died then (s\<lparr>ag_up := False\<rparr>, Ended) else (s, Done RetFail)
      | _ \<Rightarrow> (case f s of Some s' \<Rightarrow> (s', Done RetOk) | None \<Rightarrow> (s, Done RetFail)))"

definition fs_write :: "string \<Rightarrow> string \<Rightarrow> io_result prog" where
  "fs_write path content = io (\<lambda>s. Some (s\<lparr>ag_files := (ag_files s)(path \<mapsto> content)\<rparr>))"

text \<open>The bytes of a file, which may only partly get there.\<close>
definition fs_fill :: "string \<Rightarrow> string \<Rightarrow> io_result prog" where
  "fs_fill path content s =
     (case ag_io s of
        IoCut n died # es \<Rightarrow>
          (let s' = s\<lparr>ag_io := es, ag_files := (ag_files s)(path \<mapsto> take n content)\<rparr>
           in if died then (s'\<lparr>ag_up := False\<rparr>, Ended) else (s', Done RetFail))
      | _ \<Rightarrow> fs_write path content s)"

definition fs_remove :: "string \<Rightarrow> io_result prog" where
  "fs_remove path =
     io (\<lambda>s. if ag_files s path = None then None else Some (s\<lparr>ag_files := (ag_files s)(path := None)\<rparr>))"

definition fs_rename :: "string \<Rightarrow> string \<Rightarrow> io_result prog" where
  "fs_rename src dst =
     io (\<lambda>s. case ag_files s src of
               None \<Rightarrow> None
             | Some c \<Rightarrow> Some (s\<lparr>ag_files := (ag_files s)(src := None, dst := Some c)\<rparr>))"

section \<open>Files\<close>

definition phasePending :: string where "phasePending = ''pending''"
definition phaseRolledBack :: string where "phaseRolledBack = ''rolled_back''"

definition readTransaction :: "string \<Rightarrow> transaction option prog" where
  "readTransaction dir =
     (if dir = [] then doneP None
      else bindP (io Some) (\<lambda>r s. (s, Done (if r = RetOk then ag_tx s else None))))"

definition writeTransaction :: "string \<Rightarrow> transaction \<Rightarrow> bool prog" where
  "writeTransaction dir tx =
     (if dir = [] then doneP False
      else bindP (io (\<lambda>s. Some (s\<lparr>ag_tx := Some tx\<rparr>))) (\<lambda>r. doneP (r = RetOk)))"

definition clearTransaction :: "string \<Rightarrow> bool prog" where
  "clearTransaction dir =
     (if dir = [] then doneP True
      else bindP (io (\<lambda>s. Some (s\<lparr>ag_tx := None\<rparr>))) (\<lambda>r. doneP (r = RetOk)))"

definition readAttemptRecord :: "string \<Rightarrow> attemptRecord option prog" where
  "readAttemptRecord dir =
     (if dir = [] then doneP None
      else bindP (io Some) (\<lambda>r s. (s, Done (if r = RetOk then ag_attempt s else None))))"

definition writeAttemptRecord :: "string \<Rightarrow> attemptRecord \<Rightarrow> unit prog" where
  "writeAttemptRecord dir rec =
     (if dir = [] then doneP ()
      else bindP (io (\<lambda>s. Some (s\<lparr>ag_attempt := Some rec\<rparr>))) (\<lambda>_. doneP ()))"

text \<open>The target is truncated first; a copy that fails leaves it so, or with what it had written.\<close>
definition copyFile :: "string \<Rightarrow> string \<Rightarrow> bool prog" where
  "copyFile src dst s =
     (case ag_files s src of
        None \<Rightarrow> (s, Done False)
      | Some c \<Rightarrow>
          bindP (fs_write dst []) (\<lambda>r.
            if r \<noteq> RetOk then doneP False
            else bindP (fs_fill dst c) (\<lambda>r. doneP (r = RetOk))) s)"

section \<open>Constants\<close>

definition trialWindow :: int where "trialWindow = 180 * 1000000000"
definition probeWindow :: int where "probeWindow = 90 * 1000000000"
definition maxStartAttempts :: int where "maxStartAttempts = 3"
definition probeBudget :: int where "probeBudget = 3"
definition retryBackoff :: int where "retryBackoff = 10 * 60 * 1000000000"
definition downloadCap :: int where "downloadCap = 512 * 2 ^ 20"

text \<open>The defaults \<open>New\<close> fills in.\<close>
definition upgrade_New :: "upgrade_deps \<Rightarrow> upgrade_deps" where
  "upgrade_New dp =
     dp\<lparr>dp_trial := (if dp_trial dp \<le> 0 then trialWindow else dp_trial dp),
        dp_probe := (if dp_probe dp \<le> 0 then probeWindow else dp_probe dp)\<rparr>"

section \<open>Reports\<close>

definition sendStatus :: "UpgradeStatus \<Rightarrow> unit prog" where
  "sendStatus st = modP (\<lambda>s. s\<lparr>ag_sent := st # ag_sent s\<rparr>)"

definition setAttempt :: "upgrade_deps \<Rightarrow> attemptRecord \<Rightarrow> unit prog" where
  "setAttempt dp rec =
     bindP (modP (\<lambda>s. s\<lparr>ag_last := Some rec\<rparr>)) (\<lambda>_. writeAttemptRecord (dp_state_dir dp) rec)"

definition upgrade_report :: "upgrade_deps \<Rightarrow> UpgradeDirective \<Rightarrow> string \<Rightarrow> unit prog" where
  "upgrade_report dp d state s =
     sendStatus \<lparr>us_request_id = ud_request_id d, us_state = state, us_target = ud_target d,
       us_from = dp_version dp (ag_image s), us_progress = None, us_reason_code = [], us_reason_detail = []\<rparr> s"

definition upgrade_fail :: "upgrade_deps \<Rightarrow> UpgradeDirective \<Rightarrow> string \<Rightarrow> unit prog" where
  "upgrade_fail dp d code s =
     bindP (sendStatus \<lparr>us_request_id = ud_request_id d, us_state = ''failed'', us_target = ud_target d,
        us_from = dp_version dp (ag_image s), us_progress = None, us_reason_code = code, us_reason_detail = []\<rparr>) (\<lambda>_.
     setAttempt dp \<lparr>ar_request = ud_request_id d, ar_version = ud_target d, ar_at = ag_now s, ar_result = code\<rparr>) s"

definition inBackoff :: "UpgradeDirective \<Rightarrow> agent \<Rightarrow> bool" where
  "inBackoff d s =
     (case ag_last s of
        None \<Rightarrow> False
      | Some rec \<Rightarrow> ar_request rec = ud_request_id d \<and> ag_now s - ar_at rec < retryBackoff)"

section \<open>The pipeline\<close>

text \<open>The hash of what was downloaded, or the reason code of the failure.\<close>
definition download :: "upgrade_deps \<Rightarrow> UpgradeDirective \<Rightarrow> string \<Rightarrow> (string, string) result prog" where
  "download dp d dst =
     (case dp_fetch dp d of
        HttpError \<Rightarrow> doneP (Inl ''download_failed'')
      | HttpReply code body broken \<Rightarrow>
          if code \<noteq> 200 then doneP (Inl ''download_failed'')
          else
            (let limit = (if 0 < ud_size d \<and> ud_size d < downloadCap then ud_size d else downloadCap);
                 n = min (int (length body)) (limit + 1);
                 got = take (nat n) body
             in bindP (fs_write dst []) (\<lambda>r.
                if r = RetDenied then doneP (Inl ''no_write_permission'')
                else if r \<noteq> RetOk then doneP (Inl ''download_failed'')
                else bindP (fs_fill dst got) (\<lambda>r.
                if r \<noteq> RetOk \<or> (broken \<and> int (length body) \<le> limit) then doneP (Inl ''download_failed'')
                else if limit < n \<or> n \<noteq> ud_size d then doneP (Inl ''download_failed'')
                else doneP (Inr (dp_sha dp got))))))"

text \<open>\<open>strings.Contains\<close>.\<close>
definition contains :: "string \<Rightarrow> string \<Rightarrow> bool" where
  "contains hay needle = list_ex (\<lambda>i. take (length needle) (drop i hay) = needle) [0..<Suc (length hay)]"

definition to_lower :: "string \<Rightarrow> string" where
  "to_lower = map (\<lambda>c. if 65 \<le> byte c \<and> byte c \<le> 90 then char_of (byte c + 32) else c)"

text \<open>The steps that reject a download: the temporary file is removed, the failure reported.\<close>
definition discard :: "upgrade_deps \<Rightarrow> UpgradeDirective \<Rightarrow> string \<Rightarrow> unit prog" where
  "discard dp d code = bindP (fs_remove (dp_tmp dp)) (\<lambda>_. upgrade_fail dp d code)"

text \<open>The restart into the new program: a successful exec replaces the process, a failed one restores the backup.\<close>
definition upgrade_restart :: "upgrade_deps \<Rightarrow> UpgradeDirective \<Rightarrow> string \<Rightarrow> unit prog" where
  "upgrade_restart dp d exe =
     bindP (\<lambda>s. setAttempt dp \<lparr>ar_request = ud_request_id d, ar_version = ud_target d, ar_at = ag_now s, ar_result = ''installed''\<rparr> s) (\<lambda>_.
     bindP (upgrade_report dp d ''restarting'') (\<lambda>_.
     bindP (if dp_token dp = [] then doneP RetOk else io Some) (\<lambda>_.
     bindP (io Some) (\<lambda>r.
     if r = RetOk then endP (\<lambda>s. s)
     else bindP (fs_rename (exe @ ''.prev'') exe) (\<lambda>_. bindP (clearTransaction (dp_state_dir dp)) (\<lambda>_.
       upgrade_fail dp d ''exec_failed''))))))"

text \<open>The replacement of the program by the temporary file.\<close>
definition upgrade_replace :: "upgrade_deps \<Rightarrow> UpgradeDirective \<Rightarrow> string \<Rightarrow> unit prog" where
  "upgrade_replace dp d exe =
     bindP (fs_rename (dp_tmp dp) exe) (\<lambda>r.
     if r \<noteq> RetOk then bindP (fs_remove (dp_tmp dp)) (\<lambda>_. bindP (clearTransaction (dp_state_dir dp)) (\<lambda>_.
       upgrade_fail dp d ''replace_failed''))
     else upgrade_restart dp d exe)"

text \<open>Backup and transaction come before the replacement of a program that passed its checks.\<close>
definition upgrade_install :: "upgrade_deps \<Rightarrow> UpgradeDirective \<Rightarrow> string \<Rightarrow> unit prog" where
  "upgrade_install dp d exe =
     bindP (upgrade_report dp d ''installing'') (\<lambda>_.
     bindP (copyFile exe (exe @ ''.prev'')) (\<lambda>ok.
     if \<not> ok then discard dp d ''replace_failed''
     else bindP (\<lambda>s. writeTransaction (dp_state_dir dp)
            \<lparr>tx_from = dp_version dp (ag_image s), tx_to = ud_target d, tx_backup = exe @ ''.prev'', tx_request = ud_request_id d,
             tx_phase = phasePending, tx_at = ag_now s, tx_attempts = 0, tx_probes = 0, tx_reason = [], tx_previous = []\<rparr> s) (\<lambda>ok.
     if \<not> ok then discard dp d ''replace_failed''
     else upgrade_replace dp d exe)))"

text \<open>The self-check of the temporary file, and the checks of what was downloaded.\<close>
definition upgrade_smoke :: "upgrade_deps \<Rightarrow> UpgradeDirective \<Rightarrow> string \<Rightarrow> unit prog" where
  "upgrade_smoke dp d exe s =
     (case Option.bind (ag_files s (dp_tmp dp)) (dp_smoke dp) of
        None \<Rightarrow> discard dp d ''smoke_test_failed''
      | Some v \<Rightarrow>
          if \<not> contains v (ud_target d) then discard dp d ''smoke_test_failed''
          else upgrade_install dp d exe) s"

definition upgrade_verify :: "upgrade_deps \<Rightarrow> UpgradeDirective \<Rightarrow> string \<Rightarrow> (string, string) result \<Rightarrow> unit prog" where
  "upgrade_verify dp d exe r =
     (case r of
        Inl code \<Rightarrow> discard dp d code
      | Inr digest \<Rightarrow>
          if digest \<noteq> to_lower (ud_sha256 d) then discard dp d ''checksum_mismatch''
          else bindP (upgrade_report dp d ''verifying'') (\<lambda>_.
               bindP (io Some) (\<lambda>r.
               if r \<noteq> RetOk then discard dp d ''no_write_permission'' else upgrade_smoke dp d exe)))"

definition upgrade_run :: "upgrade_deps \<Rightarrow> UpgradeDirective \<Rightarrow> unit prog" where
  "upgrade_run dp d s =
     (if inBackoff d s then doneP ()
      else if (if dp_goos dp = [] then ''linux'' else dp_goos dp) \<noteq> ''linux'' then upgrade_fail dp d ''platform_unsupported''
      else case dp_exe dp of
        None \<Rightarrow> upgrade_fail dp d ''replace_failed''
      | Some exe \<Rightarrow> bindP (download dp d (dp_tmp dp)) (upgrade_verify dp d exe)) s"

definition OnDirective :: "upgrade_deps \<Rightarrow> UpgradeDirective \<Rightarrow> unit prog" where
  "OnDirective dp d s =
     (if ag_running s then (s, Done ())
      else if ud_target d = dp_version dp (ag_image s) then (s, Done ())
      else bindP (modP (\<lambda>s. s\<lparr>ag_running := True\<rparr>)) (\<lambda>_.
           bindP (upgrade_run dp d) (\<lambda>_. modP (\<lambda>s. s\<lparr>ag_running := False\<rparr>))) s)"

section \<open>Rollback\<close>

definition rollback :: "upgrade_deps \<Rightarrow> bool \<Rightarrow> transaction \<Rightarrow> string \<Rightarrow> unit prog" where
  "rollback dp send tx reasonCode =
     (case dp_exe dp of
        None \<Rightarrow> doneP ()
      | Some exe \<Rightarrow>
          bindP (io (\<lambda>s. if ag_files s (tx_backup tx) = None then None else Some s)) (\<lambda>r.
          if r \<noteq> RetOk then
            bindP (clearTransaction (dp_state_dir dp)) (\<lambda>_.
            if send then sendStatus \<lparr>us_request_id = tx_request tx, us_state = ''failed'', us_target = tx_to tx,
              us_from = tx_from tx, us_progress = None, us_reason_code = ''replace_failed'', us_reason_detail = []\<rparr>
            else doneP ())
          else bindP (fs_rename (tx_backup tx) exe) (\<lambda>r.
          if r \<noteq> RetOk then doneP ()
          else bindP (writeTransaction (dp_state_dir dp)
                 (tx\<lparr>tx_phase := phaseRolledBack, tx_reason := reasonCode, tx_previous := exe\<rparr>)) (\<lambda>_.
               bindP (io Some) (\<lambda>r. if r = RetOk then endP (\<lambda>s. s) else doneP ())))))"

definition reportRolledBack :: "upgrade_deps \<Rightarrow> transaction \<Rightarrow> unit prog" where
  "reportRolledBack dp tx s0 =
     bindP (sendStatus \<lparr>us_request_id = tx_request tx, us_state = ''rolled_back'', us_target = tx_to tx, us_from = tx_from tx,
        us_progress = None, us_reason_code = (if tx_reason tx = [] then ''not_connected_after_upgrade'' else tx_reason tx),
        us_reason_detail = []\<rparr>) (\<lambda>_.
     bindP (setAttempt dp \<lparr>ar_request = tx_request tx, ar_version = tx_to tx, ar_at = ag_now s0, ar_result = ''rolled_back''\<rparr>) (\<lambda>_.
     bindP (clearTransaction (dp_state_dir dp)) (\<lambda>_. doneP ()))) s0"

section \<open>Probation\<close>

text \<open>The result says that the process must exit. The startup check has no connection to send on.\<close>
definition CheckOnStartup :: "upgrade_deps \<Rightarrow> bool prog" where
  "CheckOnStartup dp =
     bindP (readTransaction (dp_state_dir dp)) (\<lambda>t.
     case t of
       None \<Rightarrow> doneP False
     | Some tx0 \<Rightarrow>
         if tx_phase tx0 = phasePending then
           (let tx = tx0\<lparr>tx_attempts := tx_attempts tx0 + 1\<rparr> in
            if maxStartAttempts \<le> tx_attempts tx
            then bindP (rollback dp False tx ''not_connected_after_upgrade'') (\<lambda>_. doneP True)
            else bindP (writeTransaction (dp_state_dir dp) tx) (\<lambda>_. doneP False))
         else doneP False)"

definition OnConnected :: "upgrade_deps \<Rightarrow> unit prog" where
  "OnConnected dp =
     bindP (readTransaction (dp_state_dir dp)) (\<lambda>t.
     case t of
       None \<Rightarrow> doneP ()
     | Some tx \<Rightarrow>
         if tx_phase tx = phasePending then bindP (clearTransaction (dp_state_dir dp)) (\<lambda>_. doneP ())
         else if tx_phase tx = phaseRolledBack then reportRolledBack dp tx
         else doneP ())"

definition OnConnectFailed :: "upgrade_deps \<Rightarrow> unit prog" where
  "OnConnectFailed dp =
     bindP (readTransaction (dp_state_dir dp)) (\<lambda>t s.
     (case t of
        None \<Rightarrow> doneP ()
      | Some tx0 \<Rightarrow>
          if tx_phase tx0 \<noteq> phasePending then doneP ()
          else if ag_now s < tx_at tx0 + dp_trial dp then doneP ()
          else (let tx = tx0\<lparr>tx_probes := tx_probes tx0 + 1\<rparr> in
                bindP (writeTransaction (dp_state_dir dp) tx) (\<lambda>_.
                if tx_probes tx < probeBudget then doneP ()
                else rollback dp True tx ''not_connected_after_upgrade''))) s)"

text \<open>One tick of the watchdog; the result says that it goes on.\<close>
definition probation_tick :: "upgrade_deps \<Rightarrow> bool prog" where
  "probation_tick dp =
     bindP (readTransaction (dp_state_dir dp)) (\<lambda>t s.
     (case t of
        None \<Rightarrow> doneP False
      | Some tx \<Rightarrow>
          if tx_phase tx \<noteq> phasePending then doneP False
          else
            (let deadline = tx_at tx + dp_trial dp + (if 0 < tx_probes tx then tx_probes tx * dp_probe dp else 0) in
             if ag_now s < deadline then doneP True
             else if tx_probes tx = 0 then bindP (rollback dp True tx ''not_connected_after_upgrade'') (\<lambda>_. doneP False)
             else if tx_probes tx < probeBudget then doneP True
             else bindP (rollback dp True tx ''not_connected_after_upgrade'') (\<lambda>_. doneP False))) s)"

text \<open>The start of a process, as \<open>main.go\<close> orders it: the configuration is read, then the startup check
  runs, then the runtime loads the last attempt. The process exits after a rollback.\<close>
definition agent_start :: "upgrade_deps \<Rightarrow> unit prog" where
  "agent_start dp s0 =
     (case Option.bind (dp_exe dp) (ag_files s0) of
        None \<Rightarrow> (s0\<lparr>ag_up := False\<rparr>, Ended)
      | Some c \<Rightarrow>
          (let s = s0\<lparr>ag_image := c, ag_up := True, ag_running := False, ag_last := None\<rparr> in
           if \<not> dp_config dp c then endP (\<lambda>s. s) s
           else bindP (CheckOnStartup dp) (\<lambda>restart.
                if restart then endP (\<lambda>s. s)
                else bindP (readAttemptRecord (dp_state_dir dp)) (\<lambda>rec.
                     modP (\<lambda>s. s\<lparr>ag_last := rec\<rparr>))) s))"

end
