(* ===== verification/UpgradeSafety.thy ===== *)
theory UpgradeSafety
  imports AgentUpgrade
begin

text \<open>
  What the self-upgrade guarantees although any operation can fail and the process can die before any of
  them: a small logic of crash conditions, the step relation of a device, and the invariant that its
  program is always one that passed the checks.
\<close>

section \<open>Triples with a crash condition\<close>

type_synonym disk = "(string \<Rightarrow> string option) \<Rightarrow> transaction option \<Rightarrow> bool"

text \<open>From P, the step ends in Q with its value, or the process ends in C.\<close>
definition triple :: "disk \<Rightarrow> 'a prog \<Rightarrow> ('a \<Rightarrow> disk) \<Rightarrow> disk \<Rightarrow> bool" where
  "triple P m Q C \<longleftrightarrow>
     (\<forall>s. P (ag_files s) (ag_tx s) \<longrightarrow>
        (case snd (m s) of
           Ended \<Rightarrow> C (ag_files (fst (m s))) (ag_tx (fst (m s)))
         | Done x \<Rightarrow> Q x (ag_files (fst (m s))) (ag_tx (fst (m s)))))"

lemma triple_bind:
  assumes "triple P m Q C" "\<And>x. triple (Q x) (k x) R C"
  shows "triple P (bindP m k) R C"
  unfolding triple_def
proof (intro allI impI)
  fix s :: agent
  assume P: "P (ag_files s) (ag_tx s)"
  show "case snd (bindP m k s) of
           Ended \<Rightarrow> C (ag_files (fst (bindP m k s))) (ag_tx (fst (bindP m k s)))
         | Done x \<Rightarrow> R x (ag_files (fst (bindP m k s))) (ag_tx (fst (bindP m k s)))"
  proof (cases "m s")
    case (Pair s' out)
    have 1: "case out of Ended \<Rightarrow> C (ag_files s') (ag_tx s') | Done x \<Rightarrow> Q x (ag_files s') (ag_tx s')"
      using assms(1) P Pair unfolding triple_def by (metis fst_conv snd_conv)
    show ?thesis
    proof (cases out)
      case Ended
      then show ?thesis using 1 Pair by (simp add: bindP_def)
    next
      case (Done x)
      then have Q: "Q x (ag_files s') (ag_tx s')" using 1 by simp
      have e: "bindP m k s = k x s'" using Pair Done by (simp add: bindP_def)
      show ?thesis unfolding e using assms(2) [of x] Q unfolding triple_def by blast
    qed
  qed
qed

lemma triple_weaken:
  "triple P m Q C \<Longrightarrow> (\<And>f t. P' f t \<Longrightarrow> P f t) \<Longrightarrow> (\<And>x f t. Q x f t \<Longrightarrow> Q' x f t) \<Longrightarrow> triple P' m Q' C"
  unfolding triple_def by (auto split: outcome.splits)

lemma triple_state:
  assumes "\<And>s :: agent. P (ag_files s) (ag_tx s) \<Longrightarrow> triple P (m s) Q C"
  shows "triple P (\<lambda>s. m s s) Q C"
  using assms unfolding triple_def by blast

text \<open>A state read into a step, with what is known of the disk at that moment.\<close>
lemma triple_read:
  assumes "\<And>s :: agent. P (ag_files s) (ag_tx s) \<Longrightarrow> triple (\<lambda>f t. P f t \<and> f = ag_files s \<and> t = ag_tx s) (m s) Q C"
  shows "triple P (\<lambda>s. m s s) Q C"
  using assms unfolding triple_def by blast

lemma triple_if:
  "(b \<Longrightarrow> triple P m Q C) \<Longrightarrow> (\<not> b \<Longrightarrow> triple P n Q C) \<Longrightarrow> triple P (if b then m else n) Q C"
  by simp

lemma triple_done: "(\<And>f t. P f t \<Longrightarrow> Q x f t) \<Longrightarrow> triple P (doneP x) Q C"
  by (simp add: triple_def doneP_def)

lemma triple_Done: "(\<And>f t. P f t \<Longrightarrow> Q x f t) \<Longrightarrow> triple P (\<lambda>s. (s, Done x)) Q C"
  by (simp add: triple_def)

lemma triple_end: "(\<And>f t. P f t \<Longrightarrow> C f t) \<Longrightarrow> triple P (endP (\<lambda>s. s)) Q C"
  by (simp add: triple_def endP_def)

lemma triple_mod:
  "(\<And>s. ag_files (g s) = ag_files s \<and> ag_tx (g s) = ag_tx s) \<Longrightarrow> (\<And>f t. P f t \<Longrightarrow> Q () f t) \<Longrightarrow> triple P (modP g) Q C"
  by (simp add: triple_def modP_def)

lemma triple_io:
  assumes "\<And>f t. P f t \<Longrightarrow> C f t"
    and "\<And>f t r. P f t \<Longrightarrow> r \<noteq> RetOk \<Longrightarrow> Q r f t"
    and "\<And>s s'. P (ag_files s) (ag_tx s) \<Longrightarrow> g s = Some s' \<Longrightarrow> Q RetOk (ag_files s') (ag_tx s')"
  shows "triple P (io g) Q C"
  unfolding triple_def
proof (intro allI impI)
  fix s :: agent
  assume P: "P (ag_files s) (ag_tx s)"
  let ?s = "s\<lparr>ag_io := tl (ag_io s)\<rparr>"
  have P': "P (ag_files ?s) (ag_tx ?s)" using P by simp
  show "case snd (io g s) of
           Ended \<Rightarrow> C (ag_files (fst (io g s))) (ag_tx (fst (io g s)))
         | Done x \<Rightarrow> Q x (ag_files (fst (io g s))) (ag_tx (fst (io g s)))"
    using assms(1) [OF P'] assms(2) [OF P', of RetFail] assms(2) [OF P', of RetDenied] assms(3) [of ?s, OF P']
    by (auto simp: io_def Let_def split: list.splits io_event.splits option.splits)
qed

section \<open>The invariant\<close>

text \<open>A program the device may run: the one it started with, or one that has the size and the hash of a directive it
  was given and whose self-check names the version of that directive.\<close>
definition trusted :: "upgrade_deps \<Rightarrow> string \<Rightarrow> UpgradeDirective list \<Rightarrow> string \<Rightarrow> bool" where
  "trusted dp first ds c \<longleftrightarrow>
     c = first
     \<or> (\<exists>d\<in>set ds. \<exists>v. int (length c) = ud_size d \<and> dp_sha dp c = to_lower (ud_sha256 d)
          \<and> dp_smoke dp c = Some v \<and> contains v (ud_target d))"

text \<open>The directive admits a program into a set of programs.\<close>
definition admits :: "upgrade_deps \<Rightarrow> (string \<Rightarrow> bool) \<Rightarrow> UpgradeDirective \<Rightarrow> bool" where
  "admits dp T d \<longleftrightarrow>
     (\<forall>c v. int (length c) = ud_size d \<and> dp_sha dp c = to_lower (ud_sha256 d) \<and> dp_smoke dp c = Some v \<and> contains v (ud_target d) \<longrightarrow> T c)"

text \<open>A set of programs that holds with a program what a cut copy leaves of it.\<close>
definition cuts :: "(string \<Rightarrow> bool) \<Rightarrow> bool" where
  "cuts T \<longleftrightarrow> (\<forall>c n. T c \<longrightarrow> T (take n c))"

definition pending :: "transaction option \<Rightarrow> bool" where
  "pending t \<longleftrightarrow> (case t of None \<Rightarrow> False | Some tx \<Rightarrow> tx_phase tx = phasePending)"

text \<open>The program is in place and in the set, and so is the backup a pending transaction would restore.\<close>
definition sound :: "(string \<Rightarrow> bool) \<Rightarrow> string \<Rightarrow> disk" where
  "sound T exe f t \<longleftrightarrow>
     (\<exists>c. f exe = Some c \<and> T c)
     \<and> (case t of None \<Rightarrow> True | Some tx \<Rightarrow> tx_phase tx = phasePending \<longrightarrow>
          tx_backup tx = exe @ ''.prev'' \<and> (\<forall>c. f (exe @ ''.prev'') = Some c \<longrightarrow> T c))"

text \<open>A disk on which the backup may be written over: no transaction needs it, or a cut one does no harm.\<close>
definition ready :: "(string \<Rightarrow> bool) \<Rightarrow> string \<Rightarrow> disk" where
  "ready T exe f t \<longleftrightarrow> sound T exe f t \<and> (\<not> pending t \<or> cuts T)"

lemma ready_sound: "ready T exe f t \<Longrightarrow> sound T exe f t"
  by (simp add: ready_def)

lemma phases [simp]: "phaseRolledBack \<noteq> phasePending"
  by (simp add: phaseRolledBack_def phasePending_def)

section \<open>Steps that leave the disk of the program alone\<close>

lemma triple_same: "triple P (doneP x) (\<lambda>_. P) C"
  by (rule triple_done)

lemma io_noop: "(\<And>f t. P f t \<Longrightarrow> C f t) \<Longrightarrow> triple P (io Some) (\<lambda>_. P) C"
  by (rule triple_io) auto

lemma send_triple: "triple P (sendStatus st) (\<lambda>_. P) C"
  unfolding sendStatus_def by (rule triple_mod) auto

lemma writeAttempt_triple: "(\<And>f t. P f t \<Longrightarrow> C f t) \<Longrightarrow> triple P (writeAttemptRecord dir rec) (\<lambda>_. P) C"
  unfolding writeAttemptRecord_def
  by (auto intro!: triple_bind [where Q = "\<lambda>_. P"] triple_same triple_io)

lemma setAttempt_triple: "(\<And>f t. P f t \<Longrightarrow> C f t) \<Longrightarrow> triple P (setAttempt dp rec) (\<lambda>_. P) C"
  unfolding setAttempt_def
  by (rule triple_bind [where Q = "\<lambda>_. P"]) (auto intro!: triple_mod writeAttempt_triple)

lemma report_triple: "triple P (upgrade_report dp d st) (\<lambda>_. P) C"
  unfolding upgrade_report_def by (rule triple_state, rule send_triple)

lemma fail_triple: "(\<And>f t. P f t \<Longrightarrow> C f t) \<Longrightarrow> triple P (upgrade_fail dp d code) (\<lambda>_. P) C"
  unfolding upgrade_fail_def
  by (rule triple_state, rule triple_bind [where Q = "\<lambda>_. P"]) (auto intro!: send_triple setAttempt_triple)

lemma read_triple:
  "(\<And>f t. P f t \<Longrightarrow> C f t) \<Longrightarrow> (\<And>f t x. P f t \<Longrightarrow> x = None \<or> x = t \<Longrightarrow> Q x f t) \<Longrightarrow> triple P (readTransaction dir) Q C"
  unfolding readTransaction_def
  by (auto intro!: triple_done triple_bind [where Q = "\<lambda>_. P"] triple_io) (auto simp: triple_def)

lemma clear_triple:
  assumes "\<And>f t. P f t \<Longrightarrow> C f t" "\<And>f t x. P f t \<Longrightarrow> Q x f t \<and> Q x f None"
  shows "triple P (clearTransaction dir) Q C"
proof -
  have "triple P (io (\<lambda>s. Some (s\<lparr>ag_tx := None\<rparr>))) (\<lambda>r f t. \<forall>x. Q x f t) C"
    by (rule triple_io) (use assms in auto)
  then show ?thesis
    unfolding clearTransaction_def using assms(2)
    by (auto intro!: triple_done triple_bind [where Q = "\<lambda>r f t. \<forall>x. Q x f t"])
qed

lemma writeTx_triple:
  assumes "\<And>f t. P f t \<Longrightarrow> C f t" "\<And>f t. P f t \<Longrightarrow> Q False f t" "\<And>f t. P f t \<Longrightarrow> Q True f (Some tx)"
  shows "triple P (writeTransaction dir tx) Q C"
proof -
  have "triple P (io (\<lambda>s. Some (s\<lparr>ag_tx := Some tx\<rparr>))) (\<lambda>r. Q (r = RetOk)) C"
    by (rule triple_io) (use assms in auto)
  then show ?thesis
    unfolding writeTransaction_def using assms(2)
    by (auto intro!: triple_done triple_bind [where Q = "\<lambda>r. Q (r = RetOk)"])
qed

lemma write_triple:
  assumes "\<And>f t. P f t \<Longrightarrow> C f t" "\<And>f t r. P f t \<Longrightarrow> r \<noteq> RetOk \<Longrightarrow> Q r f t" "\<And>f t. P f t \<Longrightarrow> Q RetOk (f(p \<mapsto> c)) t"
  shows "triple P (fs_write p c) Q C"
  unfolding fs_write_def by (rule triple_io) (use assms in auto)

lemma fill_triple:
  assumes "\<And>f t n. P f t \<Longrightarrow> C f t \<and> C (f(p \<mapsto> take n c)) t"
    and "\<And>f t n r. P f t \<Longrightarrow> r \<noteq> RetOk \<Longrightarrow> Q r f t \<and> Q r (f(p \<mapsto> take n c)) t" "\<And>f t. P f t \<Longrightarrow> Q RetOk (f(p \<mapsto> c)) t"
  shows "triple P (fs_fill p c) Q C"
proof -
  have "triple P (fs_write p c) Q C" by (rule write_triple) (use assms in auto)
  then show ?thesis using assms(1,2) unfolding triple_def fs_fill_def by (auto simp: Let_def split: list.splits io_event.splits)
qed

lemma remove_triple:
  assumes "\<And>f t. P f t \<Longrightarrow> C f t" "\<And>f t. P f t \<Longrightarrow> P (f(p := None)) t"
  shows "triple P (fs_remove p) (\<lambda>_. P) C"
  unfolding fs_remove_def by (rule triple_io) (use assms in \<open>auto split: if_splits\<close>)

lemma rename_triple:
  assumes "\<And>f t. P f t \<Longrightarrow> C f t" "\<And>f t r. P f t \<Longrightarrow> r \<noteq> RetOk \<Longrightarrow> Q r f t"
    and "\<And>f t c. P f t \<Longrightarrow> f src = Some c \<Longrightarrow> Q RetOk (f(src := None, dst := Some c)) t"
  shows "triple P (fs_rename src dst) Q C"
  unfolding fs_rename_def by (rule triple_io) (use assms in \<open>auto split: option.splits\<close>)

section \<open>The operations keep the invariant\<close>

text \<open>The backup of the program, and a disk where it can be restored.\<close>
abbreviation prev :: "string \<Rightarrow> string" where
  "prev exe \<equiv> exe @ ''.prev''"

definition restorable :: "(string \<Rightarrow> bool) \<Rightarrow> string \<Rightarrow> disk" where
  "restorable T exe f t \<longleftrightarrow> sound T exe f t \<and> (\<forall>c. f (prev exe) = Some c \<longrightarrow> T c)"

lemma sound_files:
  "sound T exe f t \<Longrightarrow> p \<noteq> exe \<Longrightarrow> p \<noteq> prev exe \<Longrightarrow> sound T exe (f(p := x)) t"
  "restorable T exe f t \<Longrightarrow> p \<noteq> exe \<Longrightarrow> p \<noteq> prev exe \<Longrightarrow> restorable T exe (f(p := x)) t"
  by (auto simp: sound_def restorable_def split: option.splits)

lemma sound_none: "sound T exe f t \<Longrightarrow> sound T exe f None"
  by (auto simp: sound_def)

lemma ready_backup:
  assumes "ready T exe f t" "f exe = Some c"
  shows "ready T exe (f(prev exe \<mapsto> take n c)) t"
  using assms by (auto simp: ready_def sound_def pending_def cuts_def split: option.splits)

lemma ready_files: "ready T exe f t \<Longrightarrow> p \<noteq> exe \<Longrightarrow> p \<noteq> prev exe \<Longrightarrow> ready T exe (f(p := x)) t"
  by (simp add: ready_def sound_files)

lemma restorable_restore:
  "restorable T exe f t \<Longrightarrow> f (prev exe) = Some c \<Longrightarrow> restorable T exe (f(prev exe := None, exe := Some c)) t"
  by (auto simp: sound_def restorable_def split: option.splits)

lemma sound_restorable: "sound T exe f t \<Longrightarrow> pending t \<Longrightarrow> restorable T exe f t"
  by (auto simp: sound_def restorable_def pending_def split: option.splits)

lemma restorable_sound: "restorable T exe f t \<Longrightarrow> sound T exe f t"
  by (simp add: restorable_def)

text \<open>The device knows where its program is, and the temporary file is neither it nor its backup.\<close>
definition placed :: "upgrade_deps \<Rightarrow> string \<Rightarrow> bool" where
  "placed dp exe \<longleftrightarrow> dp_exe dp = Some exe \<and> dp_tmp dp \<noteq> exe \<and> dp_tmp dp \<noteq> prev exe"

lemma discard_triple:
  assumes "placed dp exe"
  shows "triple (sound T exe) (discard dp d code) (\<lambda>_. sound T exe) (sound T exe)"
  unfolding discard_def using assms
  by (intro triple_bind [where Q = "\<lambda>_. sound T exe"] remove_triple fail_triple)
    (auto intro: sound_files(1) simp: placed_def)

lemma discard_from:
  assumes "placed dp exe" "\<And>f t. P f t \<Longrightarrow> sound T exe f t"
  shows "triple P (discard dp d code) (\<lambda>_. sound T exe) (sound T exe)"
  by (rule triple_weaken [OF discard_triple [OF assms(1)]]) (use assms(2) in auto)

lemma copyFile_eq:
  "copyFile src dst = (\<lambda>s. (case ag_files s src of None \<Rightarrow> doneP False
     | Some c \<Rightarrow> bindP (fs_write dst []) (\<lambda>r. if r \<noteq> RetOk then doneP False
         else bindP (fs_fill dst c) (\<lambda>r. doneP (r = RetOk)))) s)"
  by (auto simp: copyFile_def doneP_def fun_eq_iff split: option.splits)

lemma copy_triple:
  assumes "placed dp exe"
  shows "triple (\<lambda>f t. ready T exe f t \<and> f (dp_tmp dp) = x) (copyFile exe (prev exe))
     (\<lambda>ok f t. ready T exe f t \<and> f (dp_tmp dp) = x \<and> (ok \<longrightarrow> f (prev exe) = f exe)) (sound T exe)"
  unfolding copyFile_eq
proof (rule triple_read [where m = "\<lambda>s. case ag_files s exe of None \<Rightarrow> doneP False
     | Some c \<Rightarrow> bindP (fs_write (prev exe) []) (\<lambda>r. if r \<noteq> RetOk then doneP False
         else bindP (fs_fill (prev exe) c) (\<lambda>r. doneP (r = RetOk)))"])
  fix s :: agent
  assume "ready T exe (ag_files s) (ag_tx s) \<and> ag_files s (dp_tmp dp) = x"
  then obtain c where c: "ag_files s exe = Some c" by (auto simp: ready_def sound_def)
  let ?P = "\<lambda>f t. ready T exe f t \<and> f (dp_tmp dp) = x \<and> f exe = Some c"
  let ?R = "\<lambda>ok f t. ?P f t \<and> (ok \<longrightarrow> f (prev exe) = f exe)"
  have part: "?P (f(prev exe \<mapsto> take n c)) t" if "?P f t" for f t n
    using that assms ready_backup [of T exe f t c n] by (auto simp: placed_def)
  have whole: "?P (f(prev exe \<mapsto> c)) t" if "?P f t" for f t using part [OF that, of "length c"] by simp
  have empty: "?P (f(prev exe \<mapsto> [])) t" if "?P f t" for f t using part [OF that, of 0] by simp
  have fill: "triple ?P (bindP (fs_fill (prev exe) c) (\<lambda>r. doneP (r = RetOk))) ?R (sound T exe)"
  proof (rule triple_bind [where Q = "\<lambda>r. ?R (r = RetOk)"])
    show "triple ?P (fs_fill (prev exe) c) (\<lambda>r. ?R (r = RetOk)) (sound T exe)"
      by (rule fill_triple) (use part whole ready_sound in auto)
  qed (rule triple_done)
  have "triple ?P (bindP (fs_write (prev exe) []) (\<lambda>r. if r \<noteq> RetOk then doneP False
         else bindP (fs_fill (prev exe) c) (\<lambda>r. doneP (r = RetOk)))) ?R (sound T exe)"
  proof (rule triple_bind [where Q = "\<lambda>_. ?P"])
    show "triple ?P (fs_write (prev exe) []) (\<lambda>_. ?P) (sound T exe)"
      by (rule write_triple) (use empty ready_sound in auto)
  qed (rule triple_if, rule triple_done, simp, rule fill)
  then show "triple (\<lambda>f t. (ready T exe f t \<and> f (dp_tmp dp) = x) \<and> f = ag_files s \<and> t = ag_tx s)
     (case ag_files s exe of None \<Rightarrow> doneP False
     | Some c \<Rightarrow> bindP (fs_write (prev exe) []) (\<lambda>r. if r \<noteq> RetOk then doneP False
         else bindP (fs_fill (prev exe) c) (\<lambda>r. doneP (r = RetOk))))
     (\<lambda>ok f t. ready T exe f t \<and> f (dp_tmp dp) = x \<and> (ok \<longrightarrow> f (prev exe) = f exe)) (sound T exe)"
    unfolding c option.case by (rule triple_weaken) (use c in auto)
qed

lemma clear_fail_triple:
  "triple (sound T exe) (bindP (clearTransaction dir) (\<lambda>_. upgrade_fail dp' d code)) (\<lambda>_. sound T exe) (sound T exe)"
  by (intro triple_bind [where Q = "\<lambda>_. sound T exe"] clear_triple fail_triple) (auto intro: sound_none)

lemma remove_clear_fail_triple:
  assumes "placed dp exe"
  shows "triple (sound T exe) (bindP (fs_remove (dp_tmp dp)) (\<lambda>_. bindP (clearTransaction dir) (\<lambda>_. upgrade_fail dp d code)))
     (\<lambda>_. sound T exe) (sound T exe)"
proof (rule triple_bind [where Q = "\<lambda>_. sound T exe"])
  show "triple (sound T exe) (fs_remove (dp_tmp dp)) (\<lambda>_. sound T exe) (sound T exe)"
    by (rule remove_triple) (use assms in \<open>auto intro: sound_files(1) simp: placed_def\<close>)
qed (rule clear_fail_triple)

text \<open>The end of the installation: the new program is in place and a backup can be restored.\<close>
lemma restart_triple:
  assumes "placed dp exe"
  shows "triple (restorable T exe) (upgrade_restart dp d exe) (\<lambda>_. sound T exe) (sound T exe)"
    (is "triple ?R _ ?S ?C")
proof -
  have undo: "triple ?R (bindP (fs_rename (prev exe) exe) (\<lambda>_. bindP (clearTransaction (dp_state_dir dp)) (\<lambda>_.
        upgrade_fail dp d ''exec_failed''))) ?S ?C"
  proof (rule triple_bind [where Q = "\<lambda>_. sound T exe"])
    show "triple ?R (fs_rename (prev exe) exe) (\<lambda>_. sound T exe) ?C"
      by (rule rename_triple) (auto intro: restorable_sound restorable_sound [OF restorable_restore])
  qed (rule clear_fail_triple)
  have last: "triple ?R (if r = RetOk then endP (\<lambda>s. s) else bindP (fs_rename (prev exe) exe)
      (\<lambda>_. bindP (clearTransaction (dp_state_dir dp)) (\<lambda>_. upgrade_fail dp d ''exec_failed''))) ?S ?C" for r
    by (rule triple_if, rule triple_end, erule restorable_sound, rule undo)
  have tok: "triple ?R (if dp_token dp = [] then doneP RetOk else io Some) (\<lambda>_. ?R) ?C"
    by (rule triple_if, rule triple_same, rule io_noop, erule restorable_sound)
  have att: "triple ?R (\<lambda>s. setAttempt dp \<lparr>ar_request = ud_request_id d, ar_version = ud_target d, ar_at = ag_now s,
      ar_result = ''installed''\<rparr> s) (\<lambda>_. ?R) ?C"
    by (rule triple_state, rule setAttempt_triple, erule restorable_sound)
  have ex: "triple ?R (io Some) (\<lambda>_. ?R) ?C" by (rule io_noop, erule restorable_sound)
  show ?thesis unfolding upgrade_restart_def
    by (rule triple_bind [OF att], rule triple_bind [OF report_triple], rule triple_bind [OF tok], rule triple_bind [OF ex], rule last)
qed

lemma replace_triple:
  assumes "placed dp exe" "T c0"
  shows "triple (\<lambda>f t. restorable T exe f t \<and> f (dp_tmp dp) = Some c0) (upgrade_replace dp d exe)
     (\<lambda>_. sound T exe) (sound T exe)" (is "triple ?P _ ?S ?C")
proof -
  let ?P3 = "\<lambda>r. restorable T exe"
  have rn: "triple ?P (fs_rename (dp_tmp dp) exe) ?P3 ?C"
    by (rule rename_triple) (use assms in \<open>auto simp: sound_def restorable_def placed_def split: option.splits\<close>)
  have bad: "triple (?P3 r) (bindP (fs_remove (dp_tmp dp)) (\<lambda>_. bindP (clearTransaction (dp_state_dir dp)) (\<lambda>_.
       upgrade_fail dp d ''replace_failed''))) ?S ?C" for r
    by (rule triple_weaken [OF remove_clear_fail_triple [OF assms(1)]]) (auto intro: restorable_sound)
  show ?thesis unfolding upgrade_replace_def
    by (rule triple_bind [OF rn], rule triple_if, rule bad, rule restart_triple [OF assms(1)])
qed

lemma install_triple:
  assumes "placed dp exe" "T c0"
  shows "triple (\<lambda>f t. ready T exe f t \<and> f (dp_tmp dp) = Some c0) (upgrade_install dp d exe)
     (\<lambda>_. sound T exe) (sound T exe)" (is "triple ?P _ ?S ?C")
proof -
  let ?P1 = "\<lambda>ok f t. ready T exe f t \<and> f (dp_tmp dp) = Some c0 \<and> (ok \<longrightarrow> f (prev exe) = f exe)"
  let ?P2 = "\<lambda>ok f t. sound T exe f t \<and> (ok \<longrightarrow> restorable T exe f t \<and> f (dp_tmp dp) = Some c0)"
  let ?tx = "\<lambda>s. \<lparr>tx_from = dp_version dp (ag_image s), tx_to = ud_target d, tx_backup = prev exe, tx_request = ud_request_id d,
             tx_phase = phasePending, tx_at = ag_now s, tx_attempts = 0, tx_probes = 0, tx_reason = [], tx_previous = []\<rparr>"
  have disc: "triple P (discard dp d code) ?S ?C" if "\<And>f t. P f t \<Longrightarrow> sound T exe f t" for P code
    using discard_from [OF assms(1)] that by blast
  have wt: "triple (?P1 ok) (\<lambda>s. writeTransaction (dp_state_dir dp) (?tx s) s) ?P2 ?C" if ok for ok
    by (rule triple_state, rule writeTx_triple) (use that in \<open>auto simp: ready_def sound_def restorable_def\<close>)
  have rp: "triple (?P2 ok) (upgrade_replace dp d exe) ?S ?C" if ok for ok
    by (rule triple_weaken [OF replace_triple [of dp exe T c0, OF assms]]) (use that in auto)
  have fin: "triple (?P1 ok) (bindP (\<lambda>s. writeTransaction (dp_state_dir dp) (?tx s) s) (\<lambda>ok.
     if \<not> ok then discard dp d ''replace_failed'' else upgrade_replace dp d exe)) ?S ?C" if ok for ok
    by (rule triple_bind [OF wt [OF that]], rule triple_if, rule disc, simp, rule rp, simp)
  show ?thesis unfolding upgrade_install_def
    by (rule triple_bind [OF report_triple], rule triple_bind [OF copy_triple [OF assms(1)]], rule triple_if,
        rule disc, simp add: ready_sound, rule fin, simp)
qed

text \<open>The download touches the temporary file only, and what it accepts has the size of the directive and the
  hash it returns.\<close>
definition fetched :: "upgrade_deps \<Rightarrow> UpgradeDirective \<Rightarrow> string \<Rightarrow> (string \<Rightarrow> string option) \<Rightarrow> bool" where
  "fetched dp d h f \<longleftrightarrow> (\<exists>c. f (dp_tmp dp) = Some c \<and> int (length c) = ud_size d \<and> dp_sha dp c = h)"

lemma download_triple:
  assumes "placed dp exe"
  shows "triple (ready T exe) (download dp d (dp_tmp dp))
     (\<lambda>r f t. ready T exe f t \<and> (\<forall>h. r = Inr h \<longrightarrow> fetched dp d h f)) (sound T exe)"
    (is "triple ?P _ ?Q ?C")
proof (cases "dp_fetch dp d")
  case HttpError
  then show ?thesis by (auto simp: download_def intro!: triple_done)
next
  case (HttpReply code body broken)
  have tmp: "?P (f(dp_tmp dp \<mapsto> x)) t" if "?P f t" for f t x
    using that assms by (auto intro: ready_files simp: placed_def)
  have w0: "triple ?P (fs_write (dp_tmp dp) []) (\<lambda>_. ?P) ?C"
    by (rule write_triple) (use tmp ready_sound in auto)
  have w: "triple ?P (fs_fill (dp_tmp dp) x) (\<lambda>r f t. ?P f t \<and> (r = RetOk \<longrightarrow> f (dp_tmp dp) = Some x)) ?C" for x
    by (rule fill_triple) (use tmp ready_sound in auto)
  let ?limit = "if 0 < ud_size d \<and> ud_size d < downloadCap then ud_size d else downloadCap"
  let ?n = "min (int (length body)) (?limit + 1)"
  have n: "int (length (take (nat ?n) body)) = ?n" by (auto simp: downloadCap_def)
  show ?thesis unfolding download_def HttpReply http_reply.case Let_def
    apply (rule triple_if, rule triple_done, simp)
    apply (rule triple_bind [OF w0], rule triple_if, rule triple_done, simp, rule triple_if, rule triple_done, simp)
    apply (rule triple_bind [OF w], rule triple_if, rule triple_done, simp, rule triple_if, rule triple_done, simp)
    apply (rule triple_done)
    using n apply (auto simp: fetched_def)
    done
qed

lemma smoke_triple:
  assumes "placed dp exe" "admits dp T d"
  shows "triple (\<lambda>f t. ready T exe f t \<and> fetched dp d (to_lower (ud_sha256 d)) f)
     (upgrade_smoke dp d exe) (\<lambda>_. sound T exe) (sound T exe)" (is "triple ?P _ ?S ?C")
  unfolding upgrade_smoke_def
proof (rule triple_read [where m = "\<lambda>s. case Option.bind (ag_files s (dp_tmp dp)) (dp_smoke dp) of
                None \<Rightarrow> discard dp d ''smoke_test_failed''
              | Some v \<Rightarrow>
                  if \<not> contains v (ud_target d) then discard dp d ''smoke_test_failed''
                  else upgrade_install dp d exe"])
  fix s :: agent
  assume "?P (ag_files s) (ag_tx s)"
  then obtain c where c: "ag_files s (dp_tmp dp) = Some c" "int (length c) = ud_size d" "dp_sha dp c = to_lower (ud_sha256 d)"
    by (auto simp: fetched_def)
  let ?R = "\<lambda>f t. ?P f t \<and> f = ag_files s \<and> t = ag_tx s"
  have disc: "triple ?R (discard dp d code) ?S ?C" for code
    by (rule discard_from [OF assms(1)]) (simp add: ready_sound)
  show "triple ?R (case Option.bind (ag_files s (dp_tmp dp)) (dp_smoke dp) of
                None \<Rightarrow> discard dp d ''smoke_test_failed''
              | Some v \<Rightarrow>
                  if \<not> contains v (ud_target d) then discard dp d ''smoke_test_failed''
                  else upgrade_install dp d exe) ?S ?C"
  proof (cases "dp_smoke dp c")
    case None
    then show ?thesis using disc c by simp
  next
    case (Some v)
    have "triple ?R (upgrade_install dp d exe) ?S ?C" if v: "contains v (ud_target d)"
    proof -
      have "T c" using assms(2) c Some v by (auto simp: admits_def)
      then show ?thesis by (intro triple_weaken [OF install_triple [of dp exe T c, OF assms(1)]]) (use c in auto)
    qed
    then show ?thesis using disc c Some by simp
  qed
qed

lemma verify_triple:
  assumes "placed dp exe" "admits dp T d"
  shows "triple (\<lambda>f t. ready T exe f t \<and> (\<forall>h. r = Inr h \<longrightarrow> fetched dp d h f))
     (upgrade_verify dp d exe r) (\<lambda>_. sound T exe) (sound T exe)" (is "triple ?Q _ ?S ?C")
proof (cases r)
  case (Inl code)
  then show ?thesis by (simp add: upgrade_verify_def) (rule discard_from [OF assms(1)], simp add: ready_sound)
next
  case (Inr digest)
  show ?thesis unfolding upgrade_verify_def Inr sum.case
  proof (rule triple_if, rule discard_from [OF assms(1)], simp add: ready_sound, rule triple_bind [OF report_triple], rule triple_bind [OF io_noop],
      simp add: ready_sound, rule triple_if, rule discard_from [OF assms(1)], simp add: ready_sound)
    assume "\<not> digest \<noteq> to_lower (ud_sha256 d)"
    then show "triple (\<lambda>f t. ready T exe f t \<and> (\<forall>h. (Inr digest :: (string, string) result) = Inr h \<longrightarrow> fetched dp d h f))
       (upgrade_smoke dp d exe) ?S ?C"
      by (intro triple_weaken [OF smoke_triple [OF assms]]) auto
  qed
qed

lemma run_triple:
  assumes "placed dp exe" "admits dp T d"
  shows "triple (ready T exe) (upgrade_run dp d) (\<lambda>_. sound T exe) (sound T exe)"
    (is "triple ?P _ ?S ?C")
proof -
  have fl: "triple ?P (upgrade_fail dp d code) ?S ?C" for code
    by (rule triple_weaken [OF fail_triple [where P = "sound T exe"]]) (auto intro: ready_sound)
  have exe: "dp_exe dp = Some exe" using assms by (simp add: placed_def)
  show ?thesis unfolding upgrade_run_def exe option.case
    by (rule triple_state, rule triple_if, rule triple_done, erule ready_sound, rule triple_if, rule fl,
      rule triple_bind [OF download_triple [OF assms(1)] verify_triple [OF assms]])
qed

lemma OnDirective_triple:
  assumes "placed dp exe" "admits dp T d"
  shows "triple (ready T exe) (OnDirective dp d) (\<lambda>_. sound T exe) (sound T exe)"
    (is "triple ?P _ ?S ?C")
proof -
  have r: "triple ?P (bindP (modP (\<lambda>s. s\<lparr>ag_running := True\<rparr>)) (\<lambda>_.
           bindP (upgrade_run dp d) (\<lambda>_. modP (\<lambda>s. s\<lparr>ag_running := False\<rparr>)))) ?S ?C"
    by (rule triple_bind [where Q = "\<lambda>_. ?P"], rule triple_mod, simp, simp,
        rule triple_bind [OF run_triple [OF assms]], rule triple_mod) auto
  then show ?thesis unfolding triple_def OnDirective_def by (auto simp: ready_sound)
qed

definition loaded :: "(string \<Rightarrow> bool) \<Rightarrow> string \<Rightarrow> transaction option \<Rightarrow> disk" where
  "loaded T exe x f t \<longleftrightarrow> sound T exe f t
     \<and> (\<forall>tx. x = Some tx \<and> tx_phase tx = phasePending \<longrightarrow> restorable T exe f t \<and> tx_backup tx = prev exe)"

lemma load_triple: "triple (sound T exe) (readTransaction dir) (loaded T exe) (sound T exe)"
  by (rule read_triple) (auto simp: loaded_def sound_def restorable_def)

lemma loaded_sound: "loaded T exe x f t \<Longrightarrow> sound T exe f t"
  by (simp add: loaded_def)

lemma rollback_triple:
  assumes "placed dp exe" "tx_backup tx = prev exe"
  shows "triple (restorable T exe) (rollback dp send tx code) (\<lambda>_. sound T exe) (sound T exe)"
    (is "triple ?R _ ?S ?C")
proof -
  have exe: "dp_exe dp = Some exe" using assms(1) by (simp add: placed_def)
  have st: "triple ?R (io (\<lambda>s. if ag_files s (tx_backup tx) = None then None else Some s)) (\<lambda>_. ?R) ?C"
    by (rule triple_io) (auto intro: restorable_sound split: if_splits)
  have sd: "triple (sound T exe) (if send then sendStatus st else doneP ()) ?S ?C" for st
    by (rule triple_if, rule send_triple, rule triple_same)
  have rn: "triple ?R (fs_rename (tx_backup tx) exe) (\<lambda>_. ?R) ?C"
    unfolding assms(2) by (rule rename_triple) (auto intro: restorable_sound restorable_restore)
  have ex: "triple (sound T exe) (bindP (io Some) (\<lambda>r. if r = RetOk then endP (\<lambda>s. s) else doneP ())) ?S ?C"
    by (rule triple_bind [OF io_noop], simp, rule triple_if, rule triple_end, simp, rule triple_same)
  show ?thesis unfolding rollback_def exe option.case
    by (rule triple_bind [OF st], rule triple_if, rule triple_bind [where Q = "\<lambda>_. sound T exe"],
      rule clear_triple, erule restorable_sound, drule restorable_sound, simp add: sound_none, rule sd,
      rule triple_bind [OF rn], rule triple_if, rule triple_done, erule restorable_sound,
      rule triple_bind [where Q = "\<lambda>_. sound T exe"], rule writeTx_triple, erule restorable_sound,
      erule restorable_sound, simp add: restorable_def sound_def, rule ex)
qed

lemma OnConnected_triple:
  "triple (sound T exe) (OnConnected dp) (\<lambda>_. sound T exe) (sound T exe)" (is "triple ?S' _ ?S ?C")
proof -
  have cl: "triple (sound T exe) (bindP (clearTransaction (dp_state_dir dp)) (\<lambda>_. doneP ())) ?S ?C"
    by (rule triple_bind [where Q = "\<lambda>_. sound T exe"], rule clear_triple) (auto intro: sound_none triple_same)
  have rb: "triple (sound T exe) (reportRolledBack dp tx) ?S ?C" for tx
    unfolding reportRolledBack_def
    by (rule triple_state, rule triple_bind [OF send_triple], rule triple_bind [OF setAttempt_triple], simp, rule cl)
  show ?thesis unfolding OnConnected_def
  proof (rule triple_bind [OF load_triple])
    fix x
    have "triple (sound T exe) (case x of None \<Rightarrow> doneP ()
     | Some tx \<Rightarrow>
         if tx_phase tx = phasePending then bindP (clearTransaction (dp_state_dir dp)) (\<lambda>_. doneP ())
         else if tx_phase tx = phaseRolledBack then reportRolledBack dp tx
         else doneP ()) ?S ?C"
      using cl rb by (cases x) (auto intro: triple_same)
    then show "triple (loaded T exe x) (case x of None \<Rightarrow> doneP ()
     | Some tx \<Rightarrow>
         if tx_phase tx = phasePending then bindP (clearTransaction (dp_state_dir dp)) (\<lambda>_. doneP ())
         else if tx_phase tx = phaseRolledBack then reportRolledBack dp tx
         else doneP ()) ?S ?C"
      by (rule triple_weaken) (auto intro: loaded_sound)
  qed
qed

text \<open>A step on the transaction that was read: without a pending one the invariant is enough.\<close>
lemma loaded_cases:
  assumes "triple (sound T exe) none Q C"
    and "\<And>tx. x = Some tx \<Longrightarrow> tx_phase tx = phasePending \<Longrightarrow> tx_backup tx = prev exe \<Longrightarrow> triple (restorable T exe) (some tx) Q C"
    and "\<And>tx. x = Some tx \<Longrightarrow> tx_phase tx \<noteq> phasePending \<Longrightarrow> triple (sound T exe) (some tx) Q C"
  shows "triple (loaded T exe x) (case x of None \<Rightarrow> none | Some tx \<Rightarrow> some tx) Q C"
proof (cases x)
  case None
  then show ?thesis using triple_weaken [OF assms(1)] loaded_sound by fastforce
next
  case (Some tx)
  show ?thesis
  proof (cases "tx_phase tx = phasePending")
    case True
    show ?thesis
    proof (cases "tx_backup tx = prev exe")
      case b: True
      show ?thesis unfolding Some option.case
        by (rule triple_weaken [OF assms(2) [OF Some True b]]) (simp_all add: loaded_def True)
    next
      case False
      then have "\<not> loaded T exe x f t" for f t using Some True by (simp add: loaded_def)
      then show ?thesis by (simp add: triple_def)
    qed
  next
    case False
    show ?thesis unfolding Some option.case
      by (rule triple_weaken [OF assms(3) [OF Some False]]) (simp_all add: loaded_def)
  qed
qed

lemma rollback_then:
  assumes "placed dp exe" "tx_backup tx = prev exe"
  shows "triple (restorable T exe) (bindP (rollback dp send tx code) (\<lambda>_. doneP b)) (\<lambda>_. sound T exe) (sound T exe)"
  by (rule triple_bind [OF rollback_triple [OF assms]], rule triple_same)

lemma OnConnectFailed_triple:
  assumes "placed dp exe"
  shows "triple (sound T exe) (OnConnectFailed dp) (\<lambda>_. sound T exe) (sound T exe)"
  unfolding OnConnectFailed_def
proof (rule triple_bind [OF load_triple], rule triple_state, rule loaded_cases, goal_cases)
  case (2 x s tx)
  let ?tx = "tx\<lparr>tx_probes := tx_probes tx + 1\<rparr>"
  have w: "triple (restorable T exe) (writeTransaction (dp_state_dir dp) ?tx) (\<lambda>_. restorable T exe) (sound T exe)"
    by (rule writeTx_triple) (use 2 in \<open>auto simp: restorable_def sound_def\<close>)
  have b: "tx_backup ?tx = prev exe" using 2 by simp
  have d: "triple (restorable T exe) (doneP ()) (\<lambda>_. sound T exe) (sound T exe)"
    by (rule triple_done) (rule restorable_sound)
  show ?case unfolding Let_def
    by (rule triple_if, rule d, rule triple_if, rule d, rule triple_bind [OF w], rule triple_if, rule d,
        rule rollback_triple [OF assms b])
qed (auto intro: triple_same)

lemma tick_triple:
  assumes "placed dp exe"
  shows "triple (sound T exe) (probation_tick dp) (\<lambda>_. sound T exe) (sound T exe)"
  unfolding probation_tick_def
proof (rule triple_bind [OF load_triple], rule triple_state, rule loaded_cases, goal_cases)
  case (2 x s tx)
  have b: "tx_backup tx = prev exe" using 2 by simp
  have d: "triple (restorable T exe) (doneP b) (\<lambda>_. sound T exe) (sound T exe)" for b :: bool
    by (rule triple_done) (rule restorable_sound)
  show ?case unfolding Let_def
    by (rule triple_if, rule d, rule triple_if, rule d, rule triple_if, rule rollback_then [OF assms b],
        rule triple_if, rule d, rule rollback_then [OF assms b])
qed (auto intro: triple_same)

lemma startup_triple:
  assumes "placed dp exe"
  shows "triple (sound T exe) (CheckOnStartup dp) (\<lambda>_. sound T exe) (sound T exe)"
  unfolding CheckOnStartup_def
proof (rule triple_bind [OF load_triple], rule loaded_cases, goal_cases)
  case (2 x tx)
  let ?tx = "tx\<lparr>tx_attempts := tx_attempts tx + 1\<rparr>"
  have b: "tx_backup ?tx = prev exe" using 2 by simp
  have w: "triple (restorable T exe) (writeTransaction (dp_state_dir dp) ?tx) (\<lambda>_. sound T exe) (sound T exe)"
    by (rule writeTx_triple) (use 2 in \<open>auto simp: restorable_def sound_def\<close>)
  have d: "triple (restorable T exe) (doneP r) (\<lambda>_. sound T exe) (sound T exe)" for r :: bool
    by (rule triple_done) (rule restorable_sound)
  show ?case unfolding Let_def
    by (rule triple_if, rule triple_if, rule rollback_then [OF assms b], rule triple_bind [OF w], rule triple_same, rule d)
qed (auto intro: triple_same)

lemma start_triple:
  assumes "placed dp exe"
  shows "triple (sound T exe) (agent_start dp) (\<lambda>_. sound T exe) (sound T exe)"
proof -
  have up: "triple (sound T exe) (bindP (CheckOnStartup dp) (\<lambda>restart.
                if restart then endP (\<lambda>s. s)
                else bindP (readAttemptRecord (dp_state_dir dp)) (\<lambda>rec. modP (\<lambda>s. s\<lparr>ag_last := rec\<rparr>))))
     (\<lambda>_. sound T exe) (sound T exe)"
  proof (rule triple_bind [OF startup_triple [OF assms]], rule triple_if, rule triple_end, simp,
      rule triple_bind [where Q = "\<lambda>_. sound T exe"])
    show "triple (sound T exe) (readAttemptRecord (dp_state_dir dp)) (\<lambda>_. sound T exe) (sound T exe)"
      unfolding readAttemptRecord_def
      by (rule triple_if, rule triple_same, rule triple_bind [OF io_noop], simp) (simp add: triple_def)
  qed (rule triple_mod, simp, simp)
  show ?thesis
    unfolding triple_def
  proof (intro allI impI)
    fix s :: agent
    assume S: "sound T exe (ag_files s) (ag_tx s)"
    then obtain c where c: "ag_files s exe = Some c" by (auto simp: sound_def)
    let ?s = "s\<lparr>ag_image := c, ag_up := True, ag_running := False, ag_last := None\<rparr>"
    have e: "agent_start dp s = (if \<not> dp_config dp c then endP (\<lambda>s. s) ?s
        else bindP (CheckOnStartup dp) (\<lambda>restart.
                if restart then endP (\<lambda>s. s)
                else bindP (readAttemptRecord (dp_state_dir dp)) (\<lambda>rec. modP (\<lambda>s. s\<lparr>ag_last := rec\<rparr>))) ?s)"
      using assms c by (simp add: agent_start_def placed_def Let_def)
    have S': "sound T exe (ag_files ?s) (ag_tx ?s)" using S by simp
    show "case snd (agent_start dp s) of
       Ended \<Rightarrow> sound T exe (ag_files (fst (agent_start dp s))) (ag_tx (fst (agent_start dp s)))
     | Done x \<Rightarrow> sound T exe (ag_files (fst (agent_start dp s))) (ag_tx (fst (agent_start dp s)))"
    proof (cases "dp_config dp c")
      case True
      then show ?thesis using up S' unfolding triple_def e by simp
    next
      case False
      then show ?thesis using S unfolding e by (simp add: endP_def)
    qed
  qed
qed

section \<open>A device\<close>

text \<open>The steps of a device under an arbitrary script of the disk: a process starts, dies, or handles an
  event; time passes. A directive may come at any time, and each may meet another reply of the server and another
  temporary file. The history holds the directives the device was given, newest first, and whether an upgrade was
  pending when they came.\<close>
inductive device :: "upgrade_deps \<Rightarrow> string \<Rightarrow> agent \<Rightarrow> (UpgradeDirective \<times> bool) list \<Rightarrow> agent \<Rightarrow> bool" for dp exe s0 where
  start: "device dp exe s0 [] s0"
| process: "device dp exe s0 h s \<Longrightarrow> \<not> ag_up s \<Longrightarrow> device dp exe s0 h (fst (agent_start dp (s\<lparr>ag_io := ios\<rparr>)))"
| directive: "device dp exe s0 h s \<Longrightarrow> ag_up s \<Longrightarrow> tmp \<noteq> exe \<Longrightarrow> tmp \<noteq> prev exe \<Longrightarrow>
    device dp exe s0 ((d, pending (ag_tx s)) # h) (fst (OnDirective (dp\<lparr>dp_fetch := fetch, dp_tmp := tmp\<rparr>) d (s\<lparr>ag_io := ios\<rparr>)))"
| connected: "device dp exe s0 h s \<Longrightarrow> ag_up s \<Longrightarrow> device dp exe s0 h (fst (OnConnected dp (s\<lparr>ag_io := ios\<rparr>)))"
| failed: "device dp exe s0 h s \<Longrightarrow> ag_up s \<Longrightarrow> device dp exe s0 h (fst (OnConnectFailed dp (s\<lparr>ag_io := ios\<rparr>)))"
| tick: "device dp exe s0 h s \<Longrightarrow> ag_up s \<Longrightarrow> device dp exe s0 h (fst (probation_tick dp (s\<lparr>ag_io := ios\<rparr>)))"
| killed: "device dp exe s0 h s \<Longrightarrow> device dp exe s0 h (s\<lparr>ag_up := False\<rparr>)"
| clock: "device dp exe s0 h s \<Longrightarrow> ag_now s \<le> n \<Longrightarrow> device dp exe s0 h (s\<lparr>ag_now := n\<rparr>)"

lemma triple_final:
  assumes "triple P m (\<lambda>_. Q) Q" "P (ag_files s) (ag_tx s)"
  shows "Q (ag_files (fst (m s))) (ag_tx (fst (m s)))"
proof -
  have "case snd (m s) of Ended \<Rightarrow> Q (ag_files (fst (m s))) (ag_tx (fst (m s)))
     | Done x \<Rightarrow> Q (ag_files (fst (m s))) (ag_tx (fst (m s)))"
    using assms unfolding triple_def by blast
  then show ?thesis by (cases "snd (m s)") simp_all
qed

lemma triple_step:
  assumes "triple P m (\<lambda>_. P) P" "P (ag_files s) (ag_tx s)"
  shows "P (ag_files (fst (m (s\<lparr>ag_io := ios\<rparr>)))) (ag_tx (fst (m (s\<lparr>ag_io := ios\<rparr>))))"
  by (rule triple_final [OF assms(1)]) (simp add: assms(2))

lemma device_sound:
  assumes "device dp exe s0 h s" "placed dp exe" "sound T exe (ag_files s0) (ag_tx s0)"
    and "\<forall>(d, p)\<in>set h. admits dp T d \<and> (p \<longrightarrow> cuts T)"
  shows "sound T exe (ag_files s) (ag_tx s)"
  using assms(1,4)
proof (induction rule: device.induct)
  case start
  show ?case by (rule assms(3))
next
  case (process h s ios)
  show ?case by (rule triple_step [OF start_triple [OF assms(2)]]) (rule process.IH [OF process.prems])
next
  case (directive h s tmp d fetch ios)
  let ?dp = "dp\<lparr>dp_fetch := fetch, dp_tmp := tmp\<rparr>"
  have "placed ?dp exe" "admits ?dp T d" using assms(2) directive by (simp_all add: placed_def admits_def)
  note t = OnDirective_triple [OF this]
  show ?case by (rule triple_final [OF t]) (use directive in \<open>auto simp: ready_def\<close>)
next
  case (connected h s ios)
  show ?case by (rule triple_step [OF OnConnected_triple]) (rule connected.IH [OF connected.prems])
next
  case (failed h s ios)
  show ?case by (rule triple_step [OF OnConnectFailed_triple [OF assms(2)]]) (rule failed.IH [OF failed.prems])
next
  case (tick h s ios)
  show ?case by (rule triple_step [OF tick_triple [OF assms(2)]]) (rule tick.IH [OF tick.prems])
qed auto

section \<open>Quiet steps\<close>

lemma io_quiet: "ag_io s = [] \<Longrightarrow> io g s = (case g s of Some s' \<Rightarrow> (s', Done RetOk) | None \<Rightarrow> (s, Done RetFail))"
  by (cases s) (auto simp: io_def split: option.splits)

lemma read_quiet: "ag_io s = [] \<Longrightarrow> dir \<noteq> [] \<Longrightarrow> readTransaction dir s = (s, Done (ag_tx s))"
  by (simp add: readTransaction_def bindP_def io_quiet)

lemma write_quiet: "ag_io s = [] \<Longrightarrow> dir \<noteq> [] \<Longrightarrow> writeTransaction dir tx s = (s\<lparr>ag_tx := Some tx\<rparr>, Done True)"
  by (simp add: writeTransaction_def bindP_def io_quiet doneP_def)

text \<open>A rollback on a quiet disk restores the backup, says so in the transaction and ends the process.\<close>
lemma rollback_quiet:
  assumes "ag_io s = []" "dp_state_dir dp \<noteq> []" "dp_exe dp = Some exe" "ag_files s (tx_backup tx) = Some old"
  shows "rollback dp send tx code s =
     (s\<lparr>ag_files := (ag_files s)(tx_backup tx := None, exe := Some old),
        ag_tx := Some (tx\<lparr>tx_phase := phaseRolledBack, tx_reason := code, tx_previous := exe\<rparr>), ag_up := False\<rparr>, Ended)"
  using assms by (simp add: rollback_def bindP_def io_quiet fs_rename_def write_quiet endP_def)

text \<open>A process that starts on a quiet disk and dies again.\<close>
definition restart :: "upgrade_deps \<Rightarrow> agent \<Rightarrow> agent" where
  "restart dp s = (fst (agent_start dp (s\<lparr>ag_io := []\<rparr>)))\<lparr>ag_up := False\<rparr>"

lemma restart_config:
  assumes "dp_exe dp = Some exe" "ag_files s exe = Some c" "\<not> dp_config dp c"
  shows "ag_files (restart dp s) = ag_files s \<and> ag_tx (restart dp s) = ag_tx s"
  using assms by (simp add: restart_def agent_start_def Let_def endP_def)

lemma restart_pending:
  assumes "dp_exe dp = Some exe" "dp_state_dir dp \<noteq> []" "ag_files s exe = Some c" "dp_config dp c"
    and "ag_tx s = Some tx" "tx_phase tx = phasePending"
  shows "tx_attempts tx + 1 < 3 \<Longrightarrow>
      ag_files (restart dp s) = ag_files s \<and> ag_tx (restart dp s) = Some (tx\<lparr>tx_attempts := tx_attempts tx + 1\<rparr>)"
    and "3 \<le> tx_attempts tx + 1 \<Longrightarrow> ag_files s (tx_backup tx) = Some old \<Longrightarrow>
      ag_files (restart dp s) = (ag_files s)(tx_backup tx := None, exe := Some old)
      \<and> (\<exists>tx'. ag_tx (restart dp s) = Some tx' \<and> tx_phase tx' = phaseRolledBack \<and> tx_request tx' = tx_request tx)"
proof -
  let ?s = "s\<lparr>ag_io := [], ag_image := c, ag_up := True, ag_running := False, ag_last := None\<rparr>"
  let ?tx = "tx\<lparr>tx_attempts := tx_attempts tx + 1\<rparr>"
  have e: "agent_start dp (s\<lparr>ag_io := []\<rparr>) = bindP (CheckOnStartup dp) (\<lambda>restart.
                if restart then endP (\<lambda>s. s)
                else bindP (readAttemptRecord (dp_state_dir dp)) (\<lambda>rec. modP (\<lambda>s. s\<lparr>ag_last := rec\<rparr>))) ?s"
    using assms by (simp add: agent_start_def Let_def)
  have io: "ag_io ?s = []" "ag_tx ?s = Some tx" using assms(5) by simp_all
  show "tx_attempts tx + 1 < 3 \<Longrightarrow>
      ag_files (restart dp s) = ag_files s \<and> ag_tx (restart dp s) = Some ?tx"
    unfolding restart_def e using assms(2,6) io
    by (simp add: bindP_def CheckOnStartup_def read_quiet write_quiet maxStartAttempts_def doneP_def
        readAttemptRecord_def io_quiet modP_def)
  show "3 \<le> tx_attempts tx + 1 \<Longrightarrow> ag_files s (tx_backup tx) = Some old \<Longrightarrow>
      ag_files (restart dp s) = (ag_files s)(tx_backup tx := None, exe := Some old)
      \<and> (\<exists>tx'. ag_tx (restart dp s) = Some tx' \<and> tx_phase tx' = phaseRolledBack \<and> tx_request tx' = tx_request tx)"
    unfolding restart_def e using assms(1,2,6) io rollback_quiet [of ?s dp exe ?tx old False]
    by (simp add: bindP_def CheckOnStartup_def read_quiet maxStartAttempts_def)
qed

section \<open>Properties\<close>

text \<open>C12: whatever operation on the disk fails and wherever the process dies, across any number of upgrades, failed
  connections, restarts and rollbacks, the file of the program holds a program the device may run: the one it
  started with, or one with the size and the hash of a directive it was given, whose self-check named the version
  of that directive. Only a directive that comes while an upgrade is pending can do worse: then the file holds
  such a program or its beginning, since the backup a rollback restores may have been cut.\<close>
theorem program_always_trusted:
  assumes "device dp exe s0 h s" "placed dp exe" "ag_files s0 exe = Some first" "ag_tx s0 = None"
  shows "\<exists>c n. ag_files s exe = Some (take n c) \<and> trusted dp first (map fst h) c
    \<and> (list_all (\<lambda>x. \<not> snd x) h \<longrightarrow> length c \<le> n)"
proof -
  let ?T = "trusted dp first (map fst h)" and ?U = "\<lambda>c. \<exists>c' n. c = take n c' \<and> trusted dp first (map fst h) c'"
  have adm: "admits dp ?T d" if "(d, p) \<in> set h" for d p
    using that by (force simp: admits_def trusted_def)
  have T: "sound ?T exe (ag_files s) (ag_tx s)" if "list_all (\<lambda>x. \<not> snd x) h"
    by (rule device_sound [OF assms(1,2)]) (use assms(3,4) that adm in \<open>auto simp: sound_def trusted_def list_all_iff\<close>)
  have cut: "cuts ?U" unfolding cuts_def by (metis take_take)
  have weak: "?T c \<Longrightarrow> ?U c" for c by (rule exI [of _ c], rule exI [of _ "length c"]) simp
  then have "admits dp ?U d" if "(d, p) \<in> set h" for d p using adm [OF that] unfolding admits_def by blast
  then have U: "sound ?U exe (ag_files s) (ag_tx s)"
    by (intro device_sound [OF assms(1,2)]) (use assms(3,4) cut weak in \<open>auto simp: sound_def trusted_def\<close>)
  show ?thesis
  proof (cases "list_all (\<lambda>x. \<not> snd x) h")
    case True
    then obtain c where "ag_files s exe = Some c" "?T c" using T by (auto simp: sound_def)
    then show ?thesis by (intro exI [of _ c] exI [of _ "length c"]) simp
  qed (use U in \<open>auto simp: sound_def\<close>)
qed

text \<open>A device whose disk dies in the middle of the copy of the backup.\<close>
definition demo_deps :: upgrade_deps where
  "demo_deps = \<lparr>dp_version = (\<lambda>c. ''1.0.0''), dp_state_dir = ''/s'', dp_goos = ''linux'', dp_exe = Some ''/bin/a'',
     dp_tmp = ''/bin/t'', dp_fetch = (\<lambda>d. HttpReply 200 ''new'' False), dp_sha = (\<lambda>c. ''aa''), dp_smoke = (\<lambda>c. Some ''uni_agent 2.0.0''),
     dp_token = ''t'', dp_trial = trialWindow, dp_probe = probeWindow, dp_config = (\<lambda>c. True)\<rparr>"

definition demo_agent :: agent where
  "demo_agent = \<lparr>ag_files = [''/bin/a'' \<mapsto> ''old''], ag_tx = None, ag_attempt = None, ag_last = None, ag_running = False,
     ag_sent = [], ag_image = ''old'', ag_up = True, ag_now = 0, ag_io = []\<rparr>"

definition demo_directive :: UpgradeDirective where
  "demo_directive = \<lparr>ud_request_id = ''7'', ud_target = ''2.0.0'', ud_sha256 = ''AA'', ud_size = 3\<rparr>"

lemma program_always_trusted_witness:
  "\<exists>c n. ag_files (fst (OnDirective (demo_deps\<lparr>dp_fetch := dp_fetch demo_deps, dp_tmp := ''/bin/t''\<rparr>) demo_directive
      (demo_agent\<lparr>ag_io := [IoOk, IoOk, IoOk, IoOk, IoCut 1 True]\<rparr>))) ''/bin/a'' = Some (take n c)
    \<and> trusted demo_deps ''old'' [demo_directive] c \<and> length c \<le> n"
proof -
  have "device demo_deps ''/bin/a'' demo_agent [(demo_directive, pending (ag_tx demo_agent))]
      (fst (OnDirective (demo_deps\<lparr>dp_fetch := dp_fetch demo_deps, dp_tmp := ''/bin/t''\<rparr>)
      demo_directive (demo_agent\<lparr>ag_io := [IoOk, IoOk, IoOk, IoOk, IoCut 1 True]\<rparr>)))"
    by (rule device.directive [OF device.start]) (simp_all add: demo_agent_def)
  from program_always_trusted [OF this, of "''old''"] show ?thesis
    by (simp add: placed_def demo_deps_def demo_agent_def pending_def)
qed

text \<open>C14: a new program that keeps dying before it connects is replaced by its predecessor at its third
  start. The first two starts of a pending upgrade count an attempt and leave the files alone; the third
  puts the backup in the place of the program and marks the transaction as rolled back.\<close>
theorem crash_loop_rolls_back:
  assumes "dp_exe dp = Some exe" "dp_state_dir dp \<noteq> []" "ag_files s exe = Some c" "dp_config dp c"
    and "ag_tx s = Some tx" "tx_phase tx = phasePending" "tx_attempts tx = 0" "ag_files s (tx_backup tx) = Some old"
  shows "ag_files (restart dp s) = ag_files s \<and> ag_files (restart dp (restart dp s)) = ag_files s
     \<and> ag_files (restart dp (restart dp (restart dp s))) exe = Some old
     \<and> (\<exists>tx'. ag_tx (restart dp (restart dp (restart dp s))) = Some tx' \<and> tx_phase tx' = phaseRolledBack
          \<and> tx_request tx' = tx_request tx)"
proof -
  let ?s1 = "restart dp s" and ?s2 = "restart dp (restart dp s)"
  have 1: "ag_files ?s1 = ag_files s \<and> ag_tx ?s1 = Some (tx\<lparr>tx_attempts := 1\<rparr>)"
    using restart_pending(1) [OF assms(1-6)] assms(7) by simp
  then have 2: "ag_files ?s2 = ag_files s \<and> ag_tx ?s2 = Some (tx\<lparr>tx_attempts := 2\<rparr>)"
    using restart_pending(1) [OF assms(1,2), of ?s1 c "tx\<lparr>tx_attempts := 1\<rparr>"] assms(3,4,6) by simp
  then have "ag_files (restart dp ?s2) = (ag_files s)(tx_backup tx := None, exe := Some old)
      \<and> (\<exists>tx'. ag_tx (restart dp ?s2) = Some tx' \<and> tx_phase tx' = phaseRolledBack \<and> tx_request tx' = tx_request tx)"
    using restart_pending(2) [OF assms(1,2), of ?s2 c "tx\<lparr>tx_attempts := 2\<rparr>" old] assms(3,4,6,8) by simp
  then show ?thesis using 1 2 by simp
qed

definition demo_tx :: transaction where
  "demo_tx = \<lparr>tx_from = ''1.0.0'', tx_to = ''2.0.0'', tx_backup = ''/bin/a.prev'', tx_request = ''7'', tx_phase = phasePending,
     tx_at = 0, tx_attempts = 0, tx_probes = 0, tx_reason = [], tx_previous = []\<rparr>"

definition demo_upgraded :: agent where
  "demo_upgraded = demo_agent\<lparr>ag_files := [''/bin/a'' \<mapsto> ''new'', ''/bin/a.prev'' \<mapsto> ''old''], ag_tx := Some demo_tx, ag_image := ''new''\<rparr>"

lemma crash_loop_rolls_back_witness:
  "ag_files (restart demo_deps (restart demo_deps (restart demo_deps demo_upgraded))) ''/bin/a'' = Some ''old''"
  using crash_loop_rolls_back [of demo_deps "''/bin/a''" demo_upgraded "''new''" demo_tx "''old''"]
  by (simp add: demo_deps_def demo_upgraded_def demo_tx_def)

text \<open>A new program that does not get past its configuration is never rolled back. The startup check
  counts the attempts after the configuration is read, so that the starts of such a program change
  neither the files nor the transaction, however many there are.\<close>
theorem config_failure_never_rolls_back:
  assumes "dp_exe dp = Some exe" "ag_files s exe = Some c" "\<not> dp_config dp c"
  shows "ag_files ((restart dp ^^ n) s) = ag_files s \<and> ag_tx ((restart dp ^^ n) s) = ag_tx s"
proof (induction n)
  case (Suc n)
  then show ?case using restart_config [of dp exe "(restart dp ^^ n) s" c] assms by simp
qed simp

lemma config_failure_never_rolls_back_witness:
  "ag_files ((restart (demo_deps\<lparr>dp_config := (\<lambda>c. c \<noteq> ''new'')\<rparr>) ^^ 100) demo_upgraded) ''/bin/a'' = Some ''new''"
  using config_failure_never_rolls_back [of "demo_deps\<lparr>dp_config := (\<lambda>c. c \<noteq> ''new'')\<rparr>" "''/bin/a''" demo_upgraded "''new''" 100]
  by (simp add: demo_deps_def demo_upgraded_def)

end
