(* ===== verification/UpgradeWatch.thy ===== *)
theory UpgradeWatch
  imports UpgradeSafety
begin

text \<open>
  The probation of an upgrade over time, and what the reports of an upgrade are worth: when the watchdog
  rolls back, what an outage of the server does to a healthy program, and which reports the server
  accepts.
\<close>

section \<open>The watchdog\<close>

text \<open>The deadline of a probation and the state after its rollback.\<close>
definition probation_deadline :: "upgrade_deps \<Rightarrow> transaction \<Rightarrow> int" where
  "probation_deadline dp tx = tx_at tx + dp_trial dp + tx_probes tx * dp_probe dp"

definition rolled_back :: "transaction \<Rightarrow> string \<Rightarrow> string \<Rightarrow> agent \<Rightarrow> agent" where
  "rolled_back tx exe old s =
     s\<lparr>ag_files := (ag_files s)(tx_backup tx := None, exe := Some old),
       ag_tx := Some (tx\<lparr>tx_phase := phaseRolledBack, tx_reason := ''not_connected_after_upgrade'', tx_previous := exe\<rparr>),
       ag_up := False\<rparr>"

lemma tick_pending:
  assumes "ag_io s = []" "dp_state_dir dp \<noteq> []" "ag_tx s = Some tx" "tx_phase tx = phasePending" "0 \<le> tx_probes tx"
  shows "probation_tick dp s =
     (if ag_now s < probation_deadline dp tx \<or> 0 < tx_probes tx \<and> tx_probes tx < 3 then (s, Done True)
      else bindP (rollback dp True tx ''not_connected_after_upgrade'') (\<lambda>_. doneP False) s)"
  using assms
  by (simp add: probation_tick_def bindP_def [of "readTransaction _"] read_quiet Let_def probation_deadline_def
      probeBudget_def doneP_def)

text \<open>Exactly when the watchdog rolls back. At a tick on a quiet disk it keeps waiting before the
  deadline, and at any time after it as long as one or two failed connections are on record; otherwise,
  with none or with three of them, it restores the backup and ends the process.\<close>
theorem watchdog_exact:
  assumes "ag_io s = []" "dp_state_dir dp \<noteq> []" "dp_exe dp = Some exe"
    and "ag_tx s = Some tx" "tx_phase tx = phasePending" "0 \<le> tx_probes tx" "ag_files s (tx_backup tx) = Some old"
  shows "probation_tick dp s =
     (if ag_now s < probation_deadline dp tx \<or> 0 < tx_probes tx \<and> tx_probes tx < 3 then (s, Done True)
      else (rolled_back tx exe old s, Ended))"
  unfolding tick_pending [OF assms(1,2,4,5,6)]
  by (simp add: bindP_def rollback_quiet [OF assms(1,2,3,7)] rolled_back_def)

text \<open>One failed connection long ago.\<close>
lemma watchdog_exact_witness:
  "snd (probation_tick demo_deps (demo_upgraded\<lparr>ag_tx := Some (demo_tx\<lparr>tx_probes := 1\<rparr>), ag_now := 10 ^ 20\<rparr>)) = Done True"
  using watchdog_exact [of "demo_upgraded\<lparr>ag_tx := Some (demo_tx\<lparr>tx_probes := 1\<rparr>), ag_now := 10 ^ 20\<rparr>" demo_deps
      "''/bin/a''" "demo_tx\<lparr>tx_probes := 1\<rparr>" "''old''"]
  by (simp add: demo_deps_def demo_upgraded_def demo_agent_def demo_tx_def)

section \<open>An outage of the server\<close>

text \<open>Failed connections at the given times.\<close>
definition fail_at :: "upgrade_deps \<Rightarrow> int \<Rightarrow> agent \<Rightarrow> agent" where
  "fail_at dp t s = fst (OnConnectFailed dp (s\<lparr>ag_now := t, ag_io := []\<rparr>))"

lemma fail_in_trial:
  assumes "dp_state_dir dp \<noteq> []" "ag_tx s = Some tx" "t < tx_at tx + dp_trial dp"
  shows "fail_at dp t s = s\<lparr>ag_now := t, ag_io := []\<rparr>"
  using assms by (simp add: fail_at_def OnConnectFailed_def bindP_def read_quiet doneP_def)

lemma fails_in_trial:
  assumes "dp_state_dir dp \<noteq> []" "ag_tx s = Some tx" "\<forall>t\<in>set ts. t < tx_at tx + dp_trial dp"
  shows "ag_files (fold (fail_at dp) ts s) = ag_files s \<and> ag_tx (fold (fail_at dp) ts s) = Some tx"
  using assms(2,3)
proof (induction ts arbitrary: s)
  case (Cons t ts)
  then show ?case using Cons.IH [of "fail_at dp t s"] fail_in_trial [OF assms(1), of s tx t] by simp
qed simp

text \<open>C17: an outage of the server that covers the trial rolls a healthy program back. Failed connections
  during the trial, however many, leave no trace; the first tick at or after its end therefore finds
  none on record and restores the backup at once, without using the budget of probes.\<close>
theorem outage_rolls_back:
  assumes "dp_state_dir dp \<noteq> []" "dp_exe dp = Some exe"
    and "ag_tx s = Some tx" "tx_phase tx = phasePending" "tx_probes tx = 0" "ag_files s (tx_backup tx) = Some old"
    and "\<forall>t\<in>set ts. t < tx_at tx + dp_trial dp" "tx_at tx + dp_trial dp \<le> now"
  shows "ag_files (fst (probation_tick dp ((fold (fail_at dp) ts s)\<lparr>ag_now := now, ag_io := []\<rparr>))) exe = Some old"
proof -
  let ?s = "(fold (fail_at dp) ts s)\<lparr>ag_now := now, ag_io := []\<rparr>"
  have q: "ag_files ?s = ag_files s" "ag_tx ?s = Some tx"
    using fails_in_trial [OF assms(1,3,7)] by simp_all
  have "probation_tick dp ?s = bindP (rollback dp True tx ''not_connected_after_upgrade'') (\<lambda>_. doneP False) ?s"
    using tick_pending [of ?s dp tx] q assms(1,4,5,8) by (simp add: probation_deadline_def)
  moreover have "rollback dp True tx ''not_connected_after_upgrade'' ?s = (rolled_back tx exe old ?s, Ended)"
    using rollback_quiet [of ?s dp exe tx old] q assms(1,2,6) by (simp add: rolled_back_def)
  ultimately show ?thesis by (simp add: bindP_def rolled_back_def)
qed

text \<open>Two connections fail in the first three minutes.\<close>
lemma outage_rolls_back_witness:
  "ag_files (fst (probation_tick demo_deps ((fold (fail_at demo_deps) [10, 20] demo_upgraded)\<lparr>ag_now := trialWindow, ag_io := []\<rparr>)))
     ''/bin/a'' = Some ''old''"
  by (rule outage_rolls_back [where tx = demo_tx])
    (simp_all add: demo_deps_def demo_upgraded_def demo_tx_def trialWindow_def)

section \<open>The reports\<close>

text \<open>From a process of the program im, the step sends only reports that satisfy K, and runs on as im.\<close>
definition sends :: "string \<Rightarrow> 'a prog \<Rightarrow> (UpgradeStatus \<Rightarrow> bool) \<Rightarrow> bool" where
  "sends im m K \<longleftrightarrow>
     (\<forall>s. ag_image s = im \<longrightarrow> ag_image (fst (m s)) = im
        \<and> (\<exists>new. ag_sent (fst (m s)) = new @ ag_sent s \<and> (\<forall>st\<in>set new. K st)))"

named_theorems sends

lemma sends_bind_of:
  assumes "sends im m K" "\<And>s x. snd (m s) = Done x \<Longrightarrow> sends im (k x) K"
  shows "sends im (bindP m k) K"
  unfolding sends_def
proof (intro allI impI)
  fix s :: agent
  assume im: "ag_image s = im"
  obtain s' out where m: "m s = (s', out)" by fastforce
  obtain n1 where 1: "ag_image s' = im" "ag_sent s' = n1 @ ag_sent s" "\<forall>st\<in>set n1. K st"
    using assms(1) im m unfolding sends_def by (metis fst_conv)
  show "ag_image (fst (bindP m k s)) = im \<and> (\<exists>new. ag_sent (fst (bindP m k s)) = new @ ag_sent s \<and> (\<forall>st\<in>set new. K st))"
  proof (cases out)
    case Ended
    then show ?thesis using m 1 by (auto simp: bindP_def)
  next
    case (Done x)
    then have e: "bindP m k s = k x s'" using m by (simp add: bindP_def)
    obtain n2 where "ag_image (fst (k x s')) = im" "ag_sent (fst (k x s')) = n2 @ ag_sent s'" "\<forall>st\<in>set n2. K st"
      using assms(2) [of s x] m Done 1(1) unfolding sends_def by fastforce
    then show ?thesis unfolding e using 1 by (intro conjI exI [of _ "n2 @ n1"]) auto
  qed
qed

lemma sends_bind: "sends im m K \<Longrightarrow> (\<And>x. sends im (k x) K) \<Longrightarrow> sends im (bindP m k) K"
  by (rule sends_bind_of)

lemma sends_io:
  assumes "\<And>s s'. g s = Some s' \<Longrightarrow> ag_image s' = ag_image s \<and> ag_sent s' = ag_sent s"
  shows "sends im (io g) K"
  unfolding sends_def io_def Let_def
  using assms by (fastforce split: list.splits io_event.splits option.splits)

lemma sends_if [sends]: "sends im m K \<Longrightarrow> sends im n K \<Longrightarrow> sends im (if b then m else n) K"
  by simp

lemma sends_basic [sends]:
  "sends im (doneP x) K" "sends im (io Some) K" "sends im (fs_write p c) K" "sends im (fs_remove p) K"
  "sends im (fs_rename p q) K" "sends im (endP (\<lambda>s. s)) K"
  unfolding fs_write_def fs_remove_def fs_rename_def
  by (auto intro!: sends_io split: if_splits option.splits) (auto simp: sends_def doneP_def endP_def)

lemma sends_fill [sends]: "sends im (fs_fill p c) K"
  using sends_basic(3) [of im p c K]
  by (auto simp: sends_def fs_fill_def Let_def split: list.split io_event.split)

lemma sends_files [sends]:
  "sends im (writeTransaction dir tx) K" "sends im (clearTransaction dir) K" "sends im (writeAttemptRecord dir rec) K"
  unfolding writeTransaction_def clearTransaction_def writeAttemptRecord_def
  by (auto intro!: sends sends_bind sends_io)

lemma sends_set: "sends im (setAttempt dp rec) K"
  unfolding setAttempt_def by (rule sends_bind [OF _ sends_files(3)]) (simp add: sends_def modP_def)

lemma sends_state:
  "(\<And>s. ag_image s = im \<Longrightarrow> sends im (m s) K) \<Longrightarrow> sends im (\<lambda>s. m s s) K"
  by (simp add: sends_def)

text \<open>The server accepts a report exactly when the version it comes from is empty or a version number.\<close>
definition fair :: "upgrade_deps \<Rightarrow> string \<Rightarrow> UpgradeStatus \<Rightarrow> bool" where
  "fair dp im st \<longleftrightarrow> (status_validate st = None \<longleftrightarrow> dp_version dp im = [] \<or> IsSemver (dp_version dp im))"

lemma directive_fields: "directive_validate d = None \<Longrightarrow> isDecimalID (ud_request_id d) \<and> IsSemver (ud_target d)"
  by (simp add: directive_validate_def)

lemma report_fair:
  assumes "directive_validate d = None" "state \<in> {''verifying'', ''installing'', ''restarting''}"
  shows "sends im (upgrade_report dp d state) (fair dp im)"
  using directive_fields [OF assms(1)] assms(2)
  by (auto simp: upgrade_report_def sendStatus_def modP_def sends_def fair_def status_validate_def
      IsUpgradeState_def upgradeStates_def)

lemma fail_fair:
  assumes "directive_validate d = None" "IsUpgradeReasonCode code" "code \<noteq> []"
  shows "sends im (upgrade_fail dp d code) (fair dp im)"
proof -
  have st: "sends im (sendStatus \<lparr>us_request_id = ud_request_id d, us_state = ''failed'', us_target = ud_target d,
        us_from = dp_version dp im, us_progress = None, us_reason_code = code, us_reason_detail = []\<rparr>) (fair dp im)"
    using directive_fields [OF assms(1)] assms(2,3)
    by (auto simp: sendStatus_def modP_def sends_def fair_def status_validate_def IsUpgradeState_def upgradeStates_def)
  show ?thesis unfolding upgrade_fail_def
    by (rule sends_state, simp, rule sends_bind [OF st sends_set])
qed

lemma discard_fair:
  "directive_validate d = None \<Longrightarrow> IsUpgradeReasonCode code \<Longrightarrow> code \<noteq> [] \<Longrightarrow> sends im (discard dp d code) (fair dp im)"
  unfolding discard_def by (rule sends_bind [OF sends_basic(4) fail_fair])

lemma codes [simp]:
  "IsUpgradeReasonCode ''download_failed''" "IsUpgradeReasonCode ''checksum_mismatch''" "IsUpgradeReasonCode ''smoke_test_failed''"
  "IsUpgradeReasonCode ''no_write_permission''" "IsUpgradeReasonCode ''replace_failed''" "IsUpgradeReasonCode ''exec_failed''"
  "IsUpgradeReasonCode ''platform_unsupported''"
  by (simp_all add: IsUpgradeReasonCode_def upgradeReasonCodes_def)

lemma install_fair:
  assumes "directive_validate d = None"
  shows "sends im (upgrade_install dp d exe) (fair dp im)"
proof -
  note f = fail_fair [OF assms] discard_fair [OF assms] report_fair [OF assms]
  have at: "sends im (\<lambda>s. setAttempt dp (rec s) s) (fair dp im)" for rec
    by (rule sends_state, rule sends_set)
  have cp: "sends im (copyFile exe (prev exe)) (fair dp im)"
    unfolding copyFile_eq by (rule sends_state) (auto intro!: sends sends_bind split: option.split)
  have rs: "sends im (upgrade_restart dp d exe) (fair dp im)"
    unfolding upgrade_restart_def by (intro sends_bind at f sends) simp_all
  have rp: "sends im (upgrade_replace dp d exe) (fair dp im)"
    unfolding upgrade_replace_def by (intro sends_bind f sends rs) simp_all
  have wt: "sends im (\<lambda>s. writeTransaction (dp_state_dir dp) (tx s) s) (fair dp im)" for tx
    by (rule sends_state, rule sends_files)
  show ?thesis unfolding upgrade_install_def
    by (rule sends_bind [OF f(3)], simp, rule sends_bind [OF cp], rule sends_if, rule f(2), simp, simp,
        rule sends_bind [OF wt], rule sends_if, rule f(2), simp, simp, rule rp)
qed

text \<open>Which reports of an upgrade the server accepts. For a valid directive, every report the pipeline
  sends, whatever fails on the way, passes the validation of the server if the program was built with a
  version number or with none; a program built with anything else has every report rejected.\<close>
theorem upgrade_reports_accepted:
  assumes "directive_validate d = None"
  shows "\<exists>new. ag_sent (fst (upgrade_run dp d s)) = new @ ag_sent s
     \<and> (\<forall>st\<in>set new. status_validate st = None \<longleftrightarrow> dp_version dp (ag_image s) = [] \<or> IsSemver (dp_version dp (ag_image s)))"
proof -
  let ?im = "ag_image s"
  note f = fail_fair [OF assms] discard_fair [OF assms] report_fair [OF assms]
  have dl: "sends ?im (download dp d p) (fair dp ?im)" for p
    unfolding download_def Let_def by (auto intro!: sends sends_bind split: http_reply.split)
  have dc: "sends ?im (upgrade_verify dp d exe (Inl code)) (fair dp ?im)" if "IsUpgradeReasonCode code" "code \<noteq> []" for exe code
    using f(2) that by (simp add: upgrade_verify_def)
  have sm: "sends ?im (upgrade_smoke dp d exe) (fair dp ?im)" for exe
    unfolding upgrade_smoke_def
    by (rule sends_state) (auto intro!: f install_fair [OF assms] split: option.split)
  have vf: "sends ?im (upgrade_verify dp d exe (Inr h)) (fair dp ?im)" for exe h
    unfolding upgrade_verify_def sum.case by (intro sends_if sends_bind f sends sm) simp_all
  have code: "code = ''download_failed'' \<or> code = ''no_write_permission''" if "snd (download dp d p v) = Done (Inl code)" for p v code
    using that by (auto simp: download_def Let_def bindP_def doneP_def split: http_reply.splits if_splits prod.splits outcome.splits)
  have v: "sends ?im (upgrade_verify dp d exe x) (fair dp ?im)" if "snd (download dp d p v) = Done x" for exe x p v
    using dc vf code that by (cases x) fastforce+
  have "sends ?im (upgrade_run dp d) (fair dp ?im)"
    unfolding upgrade_run_def
    by (rule sends_state) (auto intro!: sends f sends_bind_of [OF dl v] split: option.split)
  then show ?thesis unfolding sends_def fair_def by blast
qed

text \<open>A development build on a platform without self-replacement.\<close>
lemma upgrade_reports_accepted_witness:
  "\<exists>st. ag_sent (fst (upgrade_run (demo_deps\<lparr>dp_version := (\<lambda>c. ''dev''), dp_goos := ''windows''\<rparr>)
      (demo_directive\<lparr>ud_sha256 := replicate 64 CHR ''a''\<rparr>) demo_agent)) = [st] \<and> status_validate st \<noteq> None"
proof -
  let ?dp = "demo_deps\<lparr>dp_version := (\<lambda>c. ''dev''), dp_goos := ''windows''\<rparr>"
  let ?d = "demo_directive\<lparr>ud_sha256 := replicate 64 CHR ''a''\<rparr>"
  have d: "directive_validate ?d = None" by code_simp
  have dev: "\<not> IsSemver ''dev''" by code_simp
  have one: "\<exists>st. ag_sent (fst (upgrade_run ?dp ?d demo_agent)) = [st]"
    by (simp add: upgrade_run_def inBackoff_def demo_agent_def demo_deps_def upgrade_fail_def bindP_def sendStatus_def modP_def
        setAttempt_def writeAttemptRecord_def io_quiet doneP_def)
  obtain new where "ag_sent (fst (upgrade_run ?dp ?d demo_agent)) = new @ ag_sent demo_agent"
    "\<forall>st\<in>set new. status_validate st = None \<longleftrightarrow> dp_version ?dp (ag_image demo_agent) = [] \<or> IsSemver (dp_version ?dp (ag_image demo_agent))"
    using upgrade_reports_accepted [OF d, of ?dp demo_agent] by blast
  then show ?thesis using one dev by (auto simp: demo_agent_def)
qed

section \<open>The truncated backup\<close>

text \<open>C18: a failed backup can cost the device its program. If the transaction of an upgrade is still pending
  when the next directive arrives, because the disk refused to remove it, and the copy of the backup
  then fails after the old backup was truncated, the pending transaction still names that backup; the
  next rollback puts an empty file in the place of the program.\<close>
theorem truncated_backup_restored:
  assumes "dp_exe dp = Some exe" "dp_state_dir dp \<noteq> []" "ag_files s exe = Some c" "ag_io s = IoOk # IoFail # ios"
    and "ag_tx s = Some tx" "tx_phase tx = phasePending" "tx_attempts tx = 2" "tx_backup tx = prev exe" "dp_config dp c"
  shows "snd (copyFile exe (prev exe) s) = Done False
     \<and> ag_files (restart dp (fst (copyFile exe (prev exe) s))) exe = Some []"
proof -
  let ?s = "s\<lparr>ag_io := ios, ag_files := (ag_files s)(prev exe \<mapsto> [])\<rparr>"
  have c: "copyFile exe (prev exe) s = (?s, Done False)"
    using assms(3,4) by (simp add: copyFile_def bindP_def fs_fill_def fs_write_def io_def Let_def doneP_def)
  have "ag_files (restart dp ?s) = (ag_files ?s)(tx_backup tx := None, exe := Some [])"
    using restart_pending(2) [OF assms(1,2), of ?s c tx "[]"] assms by simp
  then show ?thesis unfolding c by simp
qed

lemma truncated_backup_restored_witness:
  "ag_files (restart demo_deps (fst (copyFile ''/bin/a'' ''/bin/a.prev''
     (demo_upgraded\<lparr>ag_tx := Some (demo_tx\<lparr>tx_attempts := 2\<rparr>), ag_io := [IoOk, IoFail]\<rparr>)))) ''/bin/a'' = Some []"
  using truncated_backup_restored [of demo_deps "''/bin/a''" "demo_upgraded\<lparr>ag_tx := Some (demo_tx\<lparr>tx_attempts := 2\<rparr>), ag_io := [IoOk, IoFail]\<rparr>"
      "''new''" "[]" "demo_tx\<lparr>tx_attempts := 2\<rparr>"]
  by (simp add: demo_deps_def demo_upgraded_def demo_tx_def)

end
