(* ===== verification/AgentHub.thy ===== *)
theory AgentHub
  imports Payload "HOL-Library.AList"
begin

text \<open>
  The agent channel of the server: \<open>types.go\<close>, \<open>ratelimit.go\<close>, \<open>hub.go\<close> and \<open>conn.go\<close> of
  \<open>src/uni_core/internal/pkg/agenthub\<close>, with the serving handler (\<open>handler/agent_ws.go\<close>) and the upgrade notifier
  (\<open>wireup/wireup.go\<close>). Connections live in a store and are named by numbers, so that the registry can share them.
  The services a connection calls are functions on an abstract world; every call is kept in a trace. The
  JSON library is a parameter. Log lines and connections without a socket (a test device) are left out.
\<close>

section \<open>Options\<close>

text \<open>Durations are nanoseconds.\<close>
record Options =
  op_write_timeout :: int
  op_pong_wait :: int
  op_ping_interval :: int
  op_max_bytes :: int
  op_send_queue :: int

definition second :: int where "second = 1000000000"

definition withDefaults :: "Options \<Rightarrow> Options" where
  "withDefaults o1 =
     (let pong = (if op_pong_wait o1 \<le> 0 then 90 * second else op_pong_wait o1) in
      \<lparr>op_write_timeout = (if op_write_timeout o1 \<le> 0 then 10 * second else op_write_timeout o1),
       op_pong_wait = pong,
       op_ping_interval = (if op_ping_interval o1 \<le> 0 then pong div 3 else op_ping_interval o1),
       op_max_bytes = (if op_max_bytes o1 \<le> 0 then int MaxMessageBytes else op_max_bytes o1),
       op_send_queue = (if op_send_queue o1 \<le> 0 then 64 else op_send_queue o1)\<rparr>)"

definition isRegisteredCloseCode :: "int \<Rightarrow> bool" where
  "isRegisteredCloseCode code \<longleftrightarrow> list_ex (\<lambda>c. c = code) AllCloseCodes"

section \<open>Rate limit keys\<close>

definition FrameLimitKey :: "64 word \<Rightarrow> string \<Rightarrow> string" where
  "FrameLimitKey deviceID remoteIP =
     (if deviceID \<noteq> 0 then ''agent:device:'' @ itoa (uint deviceID) @ '':frames''
      else ''agent:ws:preauth:'' @ remoteIP)"

text \<open>The host of \<open>net.SplitHostPort\<close>; None is its error. \<open>last_colon\<close> is the text before the last colon.\<close>
definition last_colon :: "string \<Rightarrow> string option" where
  "last_colon s = (case cut_at (CHR '':'') (rev s) of None \<Rightarrow> None | Some (_, r) \<Rightarrow> Some (rev r))"

definition split_host :: "string \<Rightarrow> string option" where
  "split_host s =
     (case last_colon s of
        None \<Rightarrow> None
      | Some before \<Rightarrow>
          if hd s = CHR ''['' then
            (case cut_at (CHR '']'') s of
               None \<Rightarrow> None
             | Some (l, r) \<Rightarrow>
                 if before \<noteq> l @ [CHR '']''] then None
                 else if CHR ''['' \<in> set (tl s) \<or> CHR '']'' \<in> set r then None
                 else Some (tl l))
          else if CHR '':'' \<in> set before \<or> CHR ''['' \<in> set s \<or> CHR '']'' \<in> set s then None
          else Some before)"

definition remoteIPOf :: "string option \<Rightarrow> string" where
  "remoteIPOf addr =
     (case addr of
        None \<Rightarrow> []
      | Some s \<Rightarrow> (case split_host s of Some host \<Rightarrow> if host \<noteq> [] then host else s | None \<Rightarrow> s))"

section \<open>Connections\<close>

datatype ConnState = StateAwaitHello | StateEnrolling | StateActive | StateDraining | StateClosed

text \<open>What a handshake knows when it is registered: the id of the message, the device, the new token, the kind of its
  credential and the hello.\<close>
record hello_ctx =
  hc_id :: string
  hc_dev :: "64 word"
  hc_token :: string
  hc_kind :: CredentialKind
  hc_hello :: Hello

text \<open>Where the reader of a connection stands: in \<open>ReadMessage\<close>, in \<open>Register\<close> about to close the connection it
  replaced, in \<open>handleHello\<close> after that, out of its loop, before \<open>Unregister\<close>, or finished.\<close>
datatype pc = PcRead | PcReplace "nat option" hello_ctx | PcAck hello_ctx | PcExit | PcLeave | PcGone

text \<open>\<open>cn_done\<close> says that the closing of \<open>once\<close> has run, \<open>cn_expired\<close> that it pushed the read deadline to the
  present, \<open>cn_closes\<close> holds the close frames handed to the socket, and \<open>cn_buffered\<close> counts the frames the reader of the
  socket holds in memory.\<close>
record conn =
  cn_state :: ConnState
  cn_dev :: "64 word"
  cn_remote :: string
  cn_observed :: string
  cn_queue :: "string list"
  cn_done :: bool
  cn_closes :: "(int \<times> string) list"
  cn_expired :: bool
  cn_buffered :: nat
  cn_dropped :: "64 word"
  cn_skew :: "64 word"
  cn_limited :: "64 word"
  cn_pc :: pc

datatype call =
    CallAllow "64 word" string "bool option"
  | CallEnroll Hello string "64 word option"
  | CallAuth Hello "64 word option"
  | CallAccepting "64 word" "bool option"
  | CallReconcile "64 word"
  | CallIngest "64 word" MetricsSample
  | CallStatus "64 word" UpgradeStatus
  | CallTouch "64 word"

text \<open>The registry, the connections, the world of the services and the calls made to them, latest first.\<close>
record 'w hub =
  hb_cfg :: Options
  hb_conns :: "(64 word \<times> nat) list"
  hb_conn :: "nat \<Rightarrow> conn"
  hb_next :: nat
  hb_world :: 'w
  hb_calls :: "(nat \<times> call) list"

text \<open>A missing dependency is None; a failing call answers None.\<close>
record 'w conn_deps =
  dep_enroll :: "(Hello \<Rightarrow> string \<Rightarrow> 'w \<Rightarrow> 'w \<times> (64 word \<times> string) option) option"
  dep_auth :: "(Hello \<Rightarrow> 'w \<Rightarrow> 'w \<times> 64 word option) option"
  dep_ingest :: "(64 word \<Rightarrow> MetricsSample \<Rightarrow> 'w \<Rightarrow> 'w) option"
  dep_touch :: "(64 word \<Rightarrow> 'w \<Rightarrow> 'w) option"
  dep_accepting :: "(64 word \<Rightarrow> 'w \<Rightarrow> 'w \<times> bool option) option"
  dep_policy :: "(int \<times> int) option"
  dep_reconcile :: "(64 word \<Rightarrow> Hello \<Rightarrow> 'w \<Rightarrow> 'w \<times> UpgradeDirective option) option"
  dep_status :: "(64 word \<Rightarrow> UpgradeStatus \<Rightarrow> 'w \<Rightarrow> 'w) option"
  dep_limiter :: "(64 word \<Rightarrow> string \<Rightarrow> 'w \<Rightarrow> 'w \<times> bool option) option"

record wire =
  wr_json :: json_codec
  wr_dec :: payload_codec
  wr_enc :: "Payload \<Rightarrow> string + string"

datatype send_error =
    ErrConnClosed | ErrSendQueueFull | ErrMessage DecodeError | ErrDeviceOffline

definition on_conn :: "nat \<Rightarrow> (conn \<Rightarrow> conn) \<Rightarrow> 'w hub \<Rightarrow> 'w hub" where
  "on_conn i f h = h\<lparr>hb_conn := (hb_conn h)(i := f (hb_conn h i))\<rparr>"

definition set_pc :: "nat \<Rightarrow> pc \<Rightarrow> 'w hub \<Rightarrow> 'w hub" where
  "set_pc i p = on_conn i (\<lambda>c. c\<lparr>cn_pc := p\<rparr>)"

text \<open>A call to a service, with its answer.\<close>
definition ask :: "nat \<Rightarrow> ('a \<Rightarrow> call) \<Rightarrow> ('w \<Rightarrow> 'w \<times> 'a) \<Rightarrow> 'w hub \<Rightarrow> 'w hub \<times> 'a" where
  "ask i note f h =
     (let (w, r) = f (hb_world h) in (h\<lparr>hb_world := w, hb_calls := (i, note r) # hb_calls h\<rparr>, r))"

definition tell :: "nat \<Rightarrow> call \<Rightarrow> ('w \<Rightarrow> 'w) \<Rightarrow> 'w hub \<Rightarrow> 'w hub" where
  "tell i c f h = fst (ask i (\<lambda>_. c) (\<lambda>w. (f w, ())) h)"

definition newConn :: "string option \<Rightarrow> string \<Rightarrow> 'w hub \<Rightarrow> 'w hub" where
  "newConn addr observedIP h =
     h\<lparr>hb_conn := (hb_conn h)(hb_next h :=
         \<lparr>cn_state = StateAwaitHello, cn_dev = 0, cn_remote = remoteIPOf addr, cn_observed = observedIP, cn_queue = [],
          cn_done = False, cn_closes = [], cn_expired = False, cn_buffered = 0, cn_dropped = 0, cn_skew = 0, cn_limited = 0, cn_pc = PcRead\<rparr>),
       hb_next := Suc (hb_next h)\<rparr>"

definition setState :: "nat \<Rightarrow> ConnState \<Rightarrow> 'w hub \<Rightarrow> 'w hub" where
  "setState i st = on_conn i (\<lambda>c. c\<lparr>cn_state := st\<rparr>)"

definition bindDevice :: "nat \<Rightarrow> 64 word \<Rightarrow> 'w hub \<Rightarrow> 'w hub" where
  "bindDevice i d = on_conn i (\<lambda>c. c\<lparr>cn_dev := d\<rparr>)"

definition countSkew :: "nat \<Rightarrow> 'w hub \<Rightarrow> 'w hub" where
  "countSkew i = on_conn i (\<lambda>c. c\<lparr>cn_skew := cn_skew c + 1\<rparr>)"

definition countRateLimited :: "nat \<Rightarrow> 'w hub \<Rightarrow> 'w hub" where
  "countRateLimited i = on_conn i (\<lambda>c. c\<lparr>cn_limited := cn_limited c + 1\<rparr>)"

section \<open>Closing\<close>

text \<open>The body of \<open>once\<close>; None stands for a closing without a close frame.\<close>
definition conn_finish :: "nat \<Rightarrow> int option \<Rightarrow> 'w hub \<Rightarrow> 'w hub" where
  "conn_finish i frame =
     on_conn i (\<lambda>c. c\<lparr>cn_state := StateClosed, cn_expired := True, cn_done := True,
       cn_closes := cn_closes c @ (case frame of None \<Rightarrow> [] | Some code \<Rightarrow> [(code, CloseReason code)])\<rparr>)"

definition CloseWith :: "nat \<Rightarrow> int \<Rightarrow> 'w hub \<Rightarrow> 'w hub" where
  "CloseWith i code h = (if cn_done (hb_conn h i) then h else conn_finish i (Some code) h)"

definition teardown :: "nat \<Rightarrow> 'w hub \<Rightarrow> 'w hub" where
  "teardown i h = (if cn_done (hb_conn h i) then h else conn_finish i None h)"

section \<open>Sending\<close>

definition enqueue :: "nat \<Rightarrow> string \<Rightarrow> 'w hub \<Rightarrow> 'w hub \<times> send_error option" where
  "enqueue i b h =
     (let c = hb_conn h i in
      if cn_done c then (h, Some ErrConnClosed)
      else if int (length (cn_queue c)) < op_send_queue (hb_cfg h)
      then (on_conn i (\<lambda>c. c\<lparr>cn_queue := cn_queue c @ [b]\<rparr>) h, None)
      else (on_conn i (\<lambda>c. c\<lparr>cn_dropped := cn_dropped c + 1\<rparr>) h, Some ErrSendQueueFull))"

definition SendMessage :: "wire \<Rightarrow> nat \<Rightarrow> Message \<Rightarrow> 'w hub \<Rightarrow> 'w hub \<times> send_error option" where
  "SendMessage wr i m h =
     (case Marshal (wr_json wr) m of Inl e \<Rightarrow> (h, Some (ErrMessage e)) | Inr b \<Rightarrow> enqueue i b h)"

text \<open>One data frame of the writer; \<open>ok\<close> says whether the socket took it.\<close>
definition write_frame :: "nat \<Rightarrow> bool \<Rightarrow> 'w hub \<Rightarrow> 'w hub" where
  "write_frame i ok h =
     (let h1 = on_conn i (\<lambda>c. c\<lparr>cn_queue := tl (cn_queue c)\<rparr>) h in if ok then h1 else teardown i h1)"

definition pingInterval :: "'w conn_deps \<Rightarrow> Options \<Rightarrow> int" where
  "pingInterval dp opts =
     (case dep_policy dp of
        None \<Rightarrow> op_ping_interval opts
      | Some (_, hb) \<Rightarrow> if 0 < hb \<and> hb < op_ping_interval opts then hb else op_ping_interval opts)"

text \<open>The division of int64 truncates.\<close>
definition reportIntervalSeconds :: "'w conn_deps \<Rightarrow> int" where
  "reportIntervalSeconds dp =
     (case dep_policy dp of
        None \<Rightarrow> 10
      | Some (ri, _) \<Rightarrow>
          (let secs = (if ri < 0 then - ((- ri) div second) else ri div second) in if secs < 2 then 10 else secs))"

section \<open>The registry\<close>

definition NewHub :: "Options \<Rightarrow> 'w \<Rightarrow> 'w hub" where
  "NewHub opts w = \<lparr>hb_cfg = withDefaults opts, hb_conns = [], hb_conn = (\<lambda>_. undefined), hb_next = 0, hb_world = w, hb_calls = []\<rparr>"

definition hub_Get :: "64 word \<Rightarrow> 'w hub \<Rightarrow> nat option" where
  "hub_Get d h = map_of (hb_conns h) d"

text \<open>\<open>Register\<close> up to its unlocking, with the connection that was there.\<close>
definition register_swap :: "nat \<Rightarrow> 'w hub \<Rightarrow> 'w hub \<times> nat option" where
  "register_swap i h =
     (let d = cn_dev (hb_conn h i) in (h\<lparr>hb_conns := AList.update d i (hb_conns h)\<rparr>, map_of (hb_conns h) d))"

text \<open>The rest of \<open>Register\<close>.\<close>
definition close_replaced :: "nat \<Rightarrow> nat option \<Rightarrow> 'w hub \<Rightarrow> 'w hub" where
  "close_replaced i old h = (case old of Some j \<Rightarrow> if j \<noteq> i then CloseWith j 4004 h else h | None \<Rightarrow> h)"

text \<open>False stands for \<open>errNilConn\<close>.\<close>
definition hub_Register :: "nat option \<Rightarrow> 'w hub \<Rightarrow> 'w hub \<times> bool" where
  "hub_Register c h =
     (case c of None \<Rightarrow> (h, False) | Some i \<Rightarrow> (let (h1, old) = register_swap i h in (close_replaced i old h1, True)))"

definition hub_Unregister :: "64 word \<Rightarrow> nat option \<Rightarrow> 'w hub \<Rightarrow> 'w hub" where
  "hub_Unregister d c h =
     (case map_of (hb_conns h) d of
        None \<Rightarrow> h
      | Some cur \<Rightarrow> if c = None \<or> c = Some cur then h\<lparr>hb_conns := AList.delete d (hb_conns h)\<rparr> else h)"

definition OnlineCount :: "'w hub \<Rightarrow> nat" where
  "OnlineCount h = length (hb_conns h)"

definition DeviceIDs :: "'w hub \<Rightarrow> 64 word list" where
  "DeviceIDs h = sort (map fst (hb_conns h))"

definition SendToDevice :: "wire \<Rightarrow> 64 word \<Rightarrow> Message \<Rightarrow> 'w hub \<Rightarrow> 'w hub \<times> send_error option" where
  "SendToDevice wr d m h =
     (case hub_Get d h of None \<Rightarrow> (h, Some ErrDeviceOffline) | Some i \<Rightarrow> SendMessage wr i m h)"

definition CloseDevice :: "64 word \<Rightarrow> int \<Rightarrow> 'w hub \<Rightarrow> 'w hub \<times> bool" where
  "CloseDevice d code h =
     (case map_of (hb_conns h) d of None \<Rightarrow> (h, False) | Some i \<Rightarrow> (CloseWith i code h, True))"

definition DrainAll :: "'w hub \<Rightarrow> 'w hub \<times> nat" where
  "DrainAll h = (let cs = map snd (hb_conns h) in (fold (\<lambda>i. CloseWith i 4007) cs h, length cs))"

text \<open>The notifier of the upgrade domain; None is success.\<close>
definition NotifyUpgrade :: "wire \<Rightarrow> int \<Rightarrow> 64 word \<Rightarrow> UpgradeDirective \<Rightarrow> 'w hub \<Rightarrow> 'w hub \<times> send_error option" where
  "NotifyUpgrade wr now d dir h =
     (case NewMessage (wr_json wr) now (ud_request_id dir) ''core.agent.upgrade'' (MarshalPayload (wr_enc wr) (Some (PDirective dir))) of
        Inl e \<Rightarrow> (h, Some (ErrMessage e))
      | Inr m \<Rightarrow>
          (case SendToDevice wr d m h of
             (h1, None) \<Rightarrow> (h1, None)
           | (h1, Some ErrDeviceOffline) \<Rightarrow> (h1, Some ErrDeviceOffline)
           | (h1, Some e) \<Rightarrow> (fst (CloseDevice d 4009 h1), Some e)))"

section \<open>The guards of a frame\<close>

definition allowFrame :: "'w conn_deps \<Rightarrow> nat \<Rightarrow> 'w hub \<Rightarrow> 'w hub \<times> bool" where
  "allowFrame dp i h =
     (case dep_limiter dp of
        None \<Rightarrow> (h, True)
      | Some allow \<Rightarrow>
          (let d = cn_dev (hb_conn h i); ip = cn_remote (hb_conn h i); (h1, r) = ask i (CallAllow d ip) (allow d ip) h
           in (h1, case r of None \<Rightarrow> True | Some ok \<Rightarrow> ok)))"

definition conn_accept :: "'w conn_deps \<Rightarrow> nat \<Rightarrow> 64 word \<Rightarrow> 'w hub \<Rightarrow> 'w hub \<times> bool" where
  "conn_accept dp i d h =
     (case dep_accepting dp of
        None \<Rightarrow> (h, False)
      | Some accepting \<Rightarrow> (let (h1, r) = ask i (CallAccepting d) (accepting d) h in (h1, r = Some True)))"

definition conn_touch :: "'w conn_deps \<Rightarrow> nat \<Rightarrow> 'w hub \<Rightarrow> 'w hub" where
  "conn_touch dp i h =
     (let d = cn_dev (hb_conn h i) in
      if d = 0 then h else case dep_touch dp of None \<Rightarrow> h | Some t \<Rightarrow> tell i (CallTouch d) (t d) h)"

definition refreshReadDeadline :: "nat \<Rightarrow> 'w hub \<Rightarrow> 'w hub" where
  "refreshReadDeadline i h =
     (if cn_state (hb_conn h i) = StateClosed then h else on_conn i (\<lambda>c. c\<lparr>cn_expired := False\<rparr>) h)"

section \<open>The handshake\<close>

text \<open>The answer of \<open>Enroll\<close> or \<open>Authenticate\<close>: the device and its new token, or None for every way to fail.\<close>
definition hello_identify :: "'w conn_deps \<Rightarrow> nat \<Rightarrow> CredentialKind \<Rightarrow> Hello \<Rightarrow> 'w hub \<Rightarrow> 'w hub \<times> (64 word \<times> string) option" where
  "hello_identify dp i kind hl h =
     (case kind of
        CredentialEnroll \<Rightarrow>
          (case dep_enroll dp of
             None \<Rightarrow> (h, None)
           | Some enroll \<Rightarrow> (let ip = cn_observed (hb_conn h i) in
               ask i (\<lambda>r. CallEnroll hl ip (map_option fst r)) (enroll hl ip) h))
      | CredentialAgent \<Rightarrow>
          (case dep_auth dp of
             None \<Rightarrow> (h, None)
           | Some auth \<Rightarrow> (let (h1, r) = ask i (CallAuth hl) (auth hl) h in (h1, map_option (\<lambda>d. (d, [])) r)))
      | CredentialNone \<Rightarrow> (h, Some (0, [])))"

text \<open>How far a frame gets: the connection is over, it goes on, or a handshake was put into the registry, with the
  connection it replaced.\<close>
datatype progress = LoopEnd | LoopOn | Registered "nat option" hello_ctx

definition end_with :: "nat \<Rightarrow> int \<Rightarrow> 'w hub \<Rightarrow> 'w hub \<times> progress" where
  "end_with i code h = (CloseWith i code h, LoopEnd)"

text \<open>\<open>handleHello\<close> up to the swap in the registry.\<close>
definition hello_auth :: "'w conn_deps \<Rightarrow> wire \<Rightarrow> nat \<Rightarrow> Message \<Rightarrow> 'w hub \<Rightarrow> 'w hub \<times> progress" where
  "hello_auth dp wr i m h =
     (if cn_state (hb_conn h i) \<noteq> StateAwaitHello then end_with i 4008 h
      else case DecodeData (wr_dec wr) (msg_data m) (PHello zero_hello) of
        Inr (PHello hl) \<Rightarrow>
          (case Credential hl of
             Inl _ \<Rightarrow> end_with i 4001 h
           | Inr kind \<Rightarrow>
               if hello_validate hl \<noteq> None then end_with i 4002 h
               else case hello_identify dp i kind hl (setState i StateEnrolling h) of
                 (h1, None) \<Rightarrow> end_with i 4001 h1
               | (h1, Some (d, token)) \<Rightarrow>
                   if d = 0 then end_with i 4001 h1
                   else let (h2, ok) = conn_accept dp i d h1 in
                     if \<not> ok then end_with i 4001 h2
                     else let (h3, old) = register_swap i (bindDevice i d h2) in
                       (h3, Registered old \<lparr>hc_id = msg_id m, hc_dev = d, hc_token = token, hc_kind = kind, hc_hello = hl\<rparr>))
      | _ \<Rightarrow> end_with i 4002 h)"

definition hello_ack :: "'w conn_deps \<Rightarrow> hello_ctx \<Rightarrow> int \<Rightarrow> UpgradeDirective option \<Rightarrow> HelloAck" where
  "hello_ack dp k now dir =
     \<lparr>a_accepted = True, a_device_id = itoa (uint (hc_dev k)),
      a_agent_token = (if hc_kind k = CredentialEnroll then hc_token k else []),
      a_report_interval = reportIntervalSeconds dp, a_reject_reason = [], a_server_time = now, a_v = CurrentVersion,
      a_upgrade = dir\<rparr>"

text \<open>\<open>handleHello\<close> after \<open>Register\<close>; the clock is read for the answer and for its envelope.\<close>
definition hello_finish :: "'w conn_deps \<Rightarrow> wire \<Rightarrow> nat \<Rightarrow> hello_ctx \<Rightarrow> int \<Rightarrow> int \<Rightarrow> 'w hub \<Rightarrow> 'w hub \<times> bool" where
  "hello_finish dp wr i k now now' h =
     (let (h1, dir) = (case dep_reconcile dp of
            None \<Rightarrow> (h, None)
          | Some rec \<Rightarrow> ask i (\<lambda>_. CallReconcile (hc_dev k)) (rec (hc_dev k) (hc_hello k)) h)
      in case NewMessage (wr_json wr) now' (hc_id k) ''core.hello_ack''
                (MarshalPayload (wr_enc wr) (Some (PHelloAck (hello_ack dp k now dir)))) of
           Inl _ \<Rightarrow> (CloseWith i 4007 h1, False)
         | Inr m \<Rightarrow> (setState i StateActive (fst (SendMessage wr i m h1)), True))"

section \<open>The other messages\<close>

definition handleMetrics :: "'w conn_deps \<Rightarrow> wire \<Rightarrow> nat \<Rightarrow> Message \<Rightarrow> 'w hub \<Rightarrow> 'w hub \<times> bool" where
  "handleMetrics dp wr i m h =
     (case DecodeTypedFor (wr_dec wr) m DirAgentToCore of
        Inr (PMetrics s) \<Rightarrow>
          (case dep_ingest dp of
             None \<Rightarrow> (h, True)
           | Some ingest \<Rightarrow> (let d = cn_dev (hb_conn h i) in (tell i (CallIngest d s) (ingest d s) h, True)))
      | _ \<Rightarrow> (CloseWith i 4002 h, False))"

definition handleUpgradeStatus :: "'w conn_deps \<Rightarrow> wire \<Rightarrow> nat \<Rightarrow> Message \<Rightarrow> 'w hub \<Rightarrow> 'w hub \<times> bool" where
  "handleUpgradeStatus dp wr i m h =
     (case DecodeTypedFor (wr_dec wr) m DirAgentToCore of
        Inr (PStatus st) \<Rightarrow>
          (case dep_status dp of
             None \<Rightarrow> (h, True)
           | Some report \<Rightarrow> (let d = cn_dev (hb_conn h i) in (tell i (CallStatus d st) (report d st) h, True)))
      | _ \<Rightarrow> (CloseWith i 4002 h, False))"

text \<open>A heartbeat only logs.\<close>
definition handleHeartbeat :: "'w hub \<Rightarrow> 'w hub \<times> bool" where
  "handleHeartbeat h = (h, True)"

definition then_touch :: "'w conn_deps \<Rightarrow> nat \<Rightarrow> 'w hub \<times> bool \<Rightarrow> 'w hub \<times> progress" where
  "then_touch dp i r = (case r of (h, ok) \<Rightarrow> if ok then (conn_touch dp i h, LoopOn) else (h, LoopEnd))"

text \<open>The table \<open>agentHandlers\<close>.\<close>
definition agentHandlers :: "'w conn_deps \<Rightarrow> wire \<Rightarrow> nat \<Rightarrow> Message \<Rightarrow> 'w hub \<Rightarrow> 'w hub \<times> progress" where
  "agentHandlers dp wr i m h =
     (if msg_type m = ''agent.hello'' then hello_auth dp wr i m h
      else if msg_type m = ''agent.heartbeat'' then then_touch dp i (handleHeartbeat h)
      else if msg_type m = ''agent.report.metrics'' then then_touch dp i (handleMetrics dp wr i m h)
      else if msg_type m = ''agent.upgrade.status'' then then_touch dp i (handleUpgradeStatus dp wr i m h)
      else end_with i 4003 h)"

section \<open>Frames\<close>

text \<open>\<open>handleFrame\<close> up to the point where a handshake enters the registry; \<open>now\<close> is the clock in milliseconds.\<close>
definition frame_begin :: "'w conn_deps \<Rightarrow> wire \<Rightarrow> nat \<Rightarrow> string \<Rightarrow> int \<Rightarrow> 'w hub \<Rightarrow> 'w hub \<times> progress" where
  "frame_begin dp wr i raw now h =
     (case Decode (wr_json wr) raw of
        Inl e \<Rightarrow> end_with i (if de_sentinel e = ErrUnsupportedVersion then 4000 else 4002) h
      | Inr m \<Rightarrow>
          (let (h1, ok) = allowFrame dp i h in
           if \<not> ok then end_with i 4006 (countRateLimited i h1)
           else if LookupType (msg_type m) = None then end_with i 4003 h1
           else if DirectionOf (msg_type m) \<noteq> DirAgentToCore then end_with i 4003 h1
           else if cn_state (hb_conn h1 i) = StateAwaitHello \<and> msg_type m \<noteq> ''agent.hello'' then end_with i 4008 h1
           else if msg_type m \<noteq> ''agent.hello'' \<and> ExceedsClockSkew (word_of_int (msg_ts m)) (word_of_int now)
           then (countSkew i h1, LoopOn)
           else agentHandlers dp wr i m h1))"

text \<open>The steps of \<open>handleFrame\<close> that follow a swap in the registry.\<close>
definition frame_finish :: "'w conn_deps \<Rightarrow> wire \<Rightarrow> nat \<Rightarrow> hello_ctx \<Rightarrow> int \<Rightarrow> int \<Rightarrow> 'w hub \<Rightarrow> 'w hub \<times> bool" where
  "frame_finish dp wr i k now now' h =
     (let (h1, ok) = hello_finish dp wr i k now now' h in if ok then (conn_touch dp i h1, True) else (h1, False))"

definition handleFrame :: "'w conn_deps \<Rightarrow> wire \<Rightarrow> nat \<Rightarrow> string \<Rightarrow> int \<Rightarrow> int \<Rightarrow> int \<Rightarrow> 'w hub \<Rightarrow> 'w hub \<times> bool" where
  "handleFrame dp wr i raw now t t' h =
     (case frame_begin dp wr i raw now h of
        (h1, LoopEnd) \<Rightarrow> (h1, False)
      | (h1, LoopOn) \<Rightarrow> (h1, True)
      | (h1, Registered old k) \<Rightarrow> frame_finish dp wr i k t t' (close_replaced i old h1))"

text \<open>The end of the loop on an error of \<open>ReadMessage\<close>.\<close>
definition handleReadError :: "nat \<Rightarrow> bool \<Rightarrow> 'w hub \<Rightarrow> 'w hub" where
  "handleReadError i timeout h =
     (if cn_state (hb_conn h i) = StateClosed then h else if timeout then CloseWith i 4005 h else h)"

section \<open>The channel as a transition system\<close>

text \<open>Connections, notifications, the drain and the world of the services interleave. A reader whose deadline
  is over only gets frames that are already in memory; otherwise a read may fetch any number of them. What one
  handler does between two points where another goroutine can change its connection is one step.\<close>
definition readable :: "conn \<Rightarrow> bool" where
  "readable c \<longleftrightarrow> cn_pc c = PcRead \<and> (cn_expired c \<longrightarrow> 0 < cn_buffered c)"

definition read_one :: "nat \<Rightarrow> nat \<Rightarrow> 'w hub \<Rightarrow> 'w hub" where
  "read_one i n = on_conn i (\<lambda>c. c\<lparr>cn_buffered := (if cn_expired c then cn_buffered c - 1 else n)\<rparr>)"

definition after :: "nat \<Rightarrow> 'w hub \<times> progress \<Rightarrow> 'w hub" where
  "after i r =
     (case r of (h, LoopEnd) \<Rightarrow> set_pc i PcExit h | (h, LoopOn) \<Rightarrow> set_pc i PcRead h
      | (h, Registered old k) \<Rightarrow> set_pc i (PcReplace old k) h)"

inductive hub_step :: "'w conn_deps \<Rightarrow> wire \<Rightarrow> 'w hub \<Rightarrow> 'w hub \<Rightarrow> bool" for dp wr where
  connect: "hub_step dp wr h (newConn addr ip h)"
| frame: "i < hb_next h \<Longrightarrow> readable (hb_conn h i) \<Longrightarrow>
    hub_step dp wr h (after i (frame_begin dp wr i raw now (refreshReadDeadline i (read_one i n h))))"
| binary: "i < hb_next h \<Longrightarrow> readable (hb_conn h i) \<Longrightarrow>
    hub_step dp wr h (set_pc i PcExit (CloseWith i 4002 (read_one i n h)))"
| read_error: "i < hb_next h \<Longrightarrow> cn_pc (hb_conn h i) = PcRead \<Longrightarrow>
    hub_step dp wr h (set_pc i PcExit (handleReadError i timeout h))"
| pong: "i < hb_next h \<Longrightarrow> readable (hb_conn h i) \<Longrightarrow> hub_step dp wr h (refreshReadDeadline i (read_one i n h))"
| replace: "i < hb_next h \<Longrightarrow> cn_pc (hb_conn h i) = PcReplace old k \<Longrightarrow>
    hub_step dp wr h (set_pc i (PcAck k) (close_replaced i old h))"
| ack: "i < hb_next h \<Longrightarrow> cn_pc (hb_conn h i) = PcAck k \<Longrightarrow> frame_finish dp wr i k now now' h = (h', ok) \<Longrightarrow>
    hub_step dp wr h (set_pc i (if ok then PcRead else PcExit) h')"
| leave: "i < hb_next h \<Longrightarrow> cn_pc (hb_conn h i) = PcExit \<Longrightarrow> hub_step dp wr h (set_pc i PcLeave (teardown i h))"
| unregister: "i < hb_next h \<Longrightarrow> cn_pc (hb_conn h i) = PcLeave \<Longrightarrow>
    hub_step dp wr h (set_pc i PcGone (hub_Unregister (cn_dev (hb_conn h i)) (Some i) h))"
| written: "i < hb_next h \<Longrightarrow> \<not> cn_done (hb_conn h i) \<Longrightarrow> cn_queue (hb_conn h i) \<noteq> [] \<Longrightarrow> hub_step dp wr h (write_frame i ok h)"
| notify: "hub_step dp wr h (fst (NotifyUpgrade wr now d dir h))"
| drain: "hub_step dp wr h (fst (DrainAll h))"
| world: "hub_step dp wr h (h\<lparr>hb_world := w\<rparr>)"

inductive hub_run :: "'w conn_deps \<Rightarrow> wire \<Rightarrow> 'w hub \<Rightarrow> 'w hub \<Rightarrow> bool" for dp wr h0 where
  hub_start: "hub_run dp wr h0 h0"
| hub_next_step: "hub_run dp wr h0 h \<Longrightarrow> hub_step dp wr h h' \<Longrightarrow> hub_run dp wr h0 h'"

end
