(* ===== verification/HubSafety.thy ===== *)
theory HubSafety
  imports AgentHub
begin

text \<open>
  What the agent channel guarantees under every interleaving of its connections: the close frames, the registry, and
  who may deliver samples. One invariant carries them; it is kept by each operation and so along every run.
\<close>

section \<open>The invariant\<close>

text \<open>Connection \<open>j\<close> was identified as device \<open>d\<close> and the device was accepted.\<close>
definition admitted :: "nat \<Rightarrow> 64 word \<Rightarrow> (nat \<times> call) list \<Rightarrow> bool" where
  "admitted j d xs \<longleftrightarrow>
     (j, CallAccepting d (Some True)) \<in> set xs
     \<and> ((\<exists>hl. (j, CallAuth hl (Some d)) \<in> set xs) \<or> (\<exists>hl ip. (j, CallEnroll hl ip (Some d)) \<in> set xs))"

text \<open>A call that writes for a device comes after the admission of its connection, and carries valid data.\<close>
fun call_ok :: "nat \<times> call \<Rightarrow> (nat \<times> call) list \<Rightarrow> bool" where
  "call_ok (j, CallIngest d s) xs \<longleftrightarrow> d \<noteq> 0 \<and> admitted j d xs \<and> metrics_validate s = None"
| "call_ok (j, CallStatus d st) xs \<longleftrightarrow> d \<noteq> 0 \<and> admitted j d xs \<and> status_validate st = None"
| "call_ok (j, CallTouch d) xs \<longleftrightarrow> d \<noteq> 0 \<and> admitted j d xs"
| "call_ok _ xs \<longleftrightarrow> True"

fun trace_ok :: "(nat \<times> call) list \<Rightarrow> bool" where
  "trace_ok [] \<longleftrightarrow> True"
| "trace_ok (x # xs) \<longleftrightarrow> call_ok x xs \<and> trace_ok xs"

definition conn_ok :: "(nat \<times> call) list \<Rightarrow> nat \<Rightarrow> conn \<Rightarrow> bool" where
  "conn_ok xs j c \<longleftrightarrow>
     length (cn_closes c) \<le> 1 \<and> (cn_closes c \<noteq> [] \<longrightarrow> cn_done c)
     \<and> (\<forall>(code, r)\<in>set (cn_closes c). isRegisteredCloseCode code \<and> r = CloseReason code)
     \<and> (cn_state c = StateClosed \<longrightarrow> cn_done c)
     \<and> (cn_dev c = 0 \<longrightarrow> cn_queue c = []) \<and> (cn_dev c \<noteq> 0 \<longrightarrow> admitted j (cn_dev c) xs)"

definition rest_ok :: "conn \<Rightarrow> bool" where
  "rest_ok c \<longleftrightarrow>
     (case cn_pc c of
        PcRead \<Rightarrow> if cn_dev c = 0 then cn_state c = StateAwaitHello \<and> \<not> cn_done c else cn_state c \<noteq> StateAwaitHello
      | PcReplace _ k \<Rightarrow> cn_dev c = hc_dev k \<and> cn_dev c \<noteq> 0 \<and> cn_state c \<noteq> StateAwaitHello
      | PcAck k \<Rightarrow> cn_dev c = hc_dev k \<and> cn_dev c \<noteq> 0 \<and> cn_state c \<noteq> StateAwaitHello
      | PcExit \<Rightarrow> True
      | _ \<Rightarrow> cn_done c)"

definition reg_ok :: "'w hub \<Rightarrow> bool" where
  "reg_ok h \<longleftrightarrow> distinct (map fst (hb_conns h))
     \<and> (\<forall>(d, i)\<in>set (hb_conns h). i < hb_next h \<and> d \<noteq> 0 \<and> cn_dev (hb_conn h i) = d)"

definition replacing :: "'w hub \<Rightarrow> nat \<Rightarrow> bool" where
  "replacing h j \<longleftrightarrow> (\<exists>i<hb_next h. i \<noteq> j \<and> (\<exists>k. cn_pc (hb_conn h i) = PcReplace (Some j) k))"

text \<open>The connections of \<open>X\<close> are in the middle of a step, those of \<open>R\<close> about to be named by one.\<close>
definition hub_inv :: "nat set \<Rightarrow> nat set \<Rightarrow> 'w hub \<Rightarrow> bool" where
  "hub_inv X R h \<longleftrightarrow>
     (\<forall>j<hb_next h. conn_ok (hb_calls h) j (hb_conn h j))
     \<and> (\<forall>j<hb_next h. j \<notin> X \<longrightarrow> rest_ok (hb_conn h j))
     \<and> reg_ok h
     \<and> (\<forall>j. replacing h j \<longrightarrow> j < hb_next h \<and> cn_dev (hb_conn h j) \<noteq> 0)
     \<and> (\<forall>j<hb_next h. cn_dev (hb_conn h j) \<noteq> 0 \<and> \<not> cn_done (hb_conn h j) \<longrightarrow>
          map_of (hb_conns h) (cn_dev (hb_conn h j)) = Some j \<or> replacing h j \<or> j \<in> R)
     \<and> trace_ok (hb_calls h)"

section \<open>Updates of a connection\<close>

lemma on_conn_sel [simp]:
  "hb_conns (on_conn i f h) = hb_conns h" "hb_next (on_conn i f h) = hb_next h" "hb_calls (on_conn i f h) = hb_calls h"
  "hb_cfg (on_conn i f h) = hb_cfg h" "hb_world (on_conn i f h) = hb_world h"
  "hb_conn (on_conn i f h) i = f (hb_conn h i)" "j \<noteq> i \<Longrightarrow> hb_conn (on_conn i f h) j = hb_conn h j"
  by (simp_all add: on_conn_def)

lemma hub_invD:
  assumes "hub_inv X R h" "j < hb_next h"
  shows "conn_ok (hb_calls h) j (hb_conn h j)" "j \<notin> X \<Longrightarrow> rest_ok (hb_conn h j)"
  using assms by (simp_all add: hub_inv_def)

lemma reg_okD: "reg_ok h \<Longrightarrow> map_of (hb_conns h) d = Some i \<Longrightarrow> i < hb_next h \<and> d \<noteq> 0 \<and> cn_dev (hb_conn h i) = d"
  unfolding reg_ok_def by (auto dest: map_of_SomeD)

lemma hub_inv_reg: "hub_inv X R h \<Longrightarrow> map_of (hb_conns h) d = Some i \<Longrightarrow> i < hb_next h \<and> d \<noteq> 0 \<and> cn_dev (hb_conn h i) = d"
  by (auto simp: hub_inv_def dest: reg_okD)

lemma on_conn_inv:
  assumes inv: "hub_inv X R h"
    and ok: "i < hb_next h \<Longrightarrow> conn_ok (hb_calls h) i (hb_conn h i) \<Longrightarrow> conn_ok (hb_calls h) i (f (hb_conn h i))"
    and rest: "i < hb_next h \<Longrightarrow> i \<notin> X \<Longrightarrow> rest_ok (hb_conn h i) \<Longrightarrow> rest_ok (f (hb_conn h i))"
    and same: "cn_dev (f (hb_conn h i)) = cn_dev (hb_conn h i)" "cn_pc (f (hb_conn h i)) = cn_pc (hb_conn h i)"
    and grow: "cn_done (hb_conn h i) \<Longrightarrow> cn_done (f (hb_conn h i))"
  shows "hub_inv X R (on_conn i f h)"
proof -
  have c: "hb_conn (on_conn i f h) j = (if j = i then f (hb_conn h i) else hb_conn h j)" for j
    by (cases "j = i") simp_all
  have d: "cn_dev (hb_conn (on_conn i f h) j) = cn_dev (hb_conn h j)" for j using same by (simp add: c)
  have p: "cn_pc (hb_conn (on_conn i f h) j) = cn_pc (hb_conn h j)" for j using same by (simp add: c)
  have r: "replacing (on_conn i f h) j = replacing h j" for j by (simp add: replacing_def p)
  have "reg_ok (on_conn i f h)" using inv by (simp add: hub_inv_def reg_ok_def d)
  moreover have "\<forall>j<hb_next h. conn_ok (hb_calls h) j (hb_conn (on_conn i f h) j)"
    using inv ok by (simp add: hub_inv_def c)
  moreover have "\<forall>j<hb_next h. j \<notin> X \<longrightarrow> rest_ok (hb_conn (on_conn i f h) j)"
    using inv rest by (simp add: hub_inv_def c)
  moreover have "\<not> cn_done (hb_conn (on_conn i f h) j) \<Longrightarrow> \<not> cn_done (hb_conn h j)" for j
    using grow by (auto simp: c split: if_splits)
  ultimately show ?thesis using inv unfolding hub_inv_def by (simp add: d r)
qed

text \<open>Updates of fields no invariant looks at.\<close>
lemma counter_inv:
  assumes "hub_inv X R h"
    and "\<And>c. cn_state (f c) = cn_state c \<and> cn_dev (f c) = cn_dev c \<and> cn_queue (f c) = cn_queue c \<and> cn_done (f c) = cn_done c
           \<and> cn_closes (f c) = cn_closes c \<and> cn_pc (f c) = cn_pc c"
  shows "hub_inv X R (on_conn i f h)"
  using assms(2) [of "hb_conn h i"]
  by (intro on_conn_inv [OF assms(1)]) (auto simp: conn_ok_def rest_ok_def split: pc.splits)

lemma finish_inv:
  assumes "hub_inv X R h" "\<not> cn_done (hb_conn h i)" "i < hb_next h" "i \<in> X \<or> cn_dev (hb_conn h i) \<noteq> 0"
    and "\<And>code. frame = Some code \<Longrightarrow> isRegisteredCloseCode code"
  shows "hub_inv X R (conn_finish i frame h)"
  unfolding conn_finish_def
proof (rule on_conn_inv [OF assms(1)])
  let ?f = "\<lambda>c. c\<lparr>cn_state := StateClosed, cn_expired := True, cn_done := True,
       cn_closes := cn_closes c @ (case frame of None \<Rightarrow> [] | Some code \<Rightarrow> [(code, CloseReason code)])\<rparr>"
  show "conn_ok (hb_calls h) i (?f (hb_conn h i))" if "conn_ok (hb_calls h) i (hb_conn h i)"
    using that assms(2,5) by (auto simp: conn_ok_def split: option.splits)
  show "rest_ok (?f (hb_conn h i))" if "i \<notin> X" "rest_ok (hb_conn h i)"
    using that assms(4) by (auto simp: rest_ok_def split: pc.splits)
qed auto

lemma close_inv:
  assumes "hub_inv X R h" "i < hb_next h" "i \<in> X \<or> cn_dev (hb_conn h i) \<noteq> 0" "isRegisteredCloseCode code"
  shows "hub_inv X R (CloseWith i code h)"
  using finish_inv [OF assms(1) _ assms(2,3)] assms by (auto simp: CloseWith_def)

lemma teardown_inv:
  assumes "hub_inv X R h" "i < hb_next h" "i \<in> X \<or> cn_dev (hb_conn h i) \<noteq> 0"
  shows "hub_inv X R (teardown i h)"
  using finish_inv [OF assms(1) _ assms(2,3)] assms by (auto simp: teardown_def)

lemma close_sel [simp]:
  "hb_conns (CloseWith i code h) = hb_conns h" "hb_next (CloseWith i code h) = hb_next h"
  "hb_calls (CloseWith i code h) = hb_calls h" "hb_cfg (CloseWith i code h) = hb_cfg h"
  "cn_dev (hb_conn (CloseWith i code h) j) = cn_dev (hb_conn h j)"
  "cn_pc (hb_conn (CloseWith i code h) j) = cn_pc (hb_conn h j)"
  "cn_done (hb_conn (CloseWith i code h) j) \<longleftrightarrow> j = i \<or> cn_done (hb_conn h j)"
  by (auto simp: CloseWith_def conn_finish_def on_conn_def)

lemma teardown_sel [simp]:
  "hb_conns (teardown i h) = hb_conns h" "hb_next (teardown i h) = hb_next h" "hb_calls (teardown i h) = hb_calls h"
  "cn_dev (hb_conn (teardown i h) j) = cn_dev (hb_conn h j)" "cn_pc (hb_conn (teardown i h) j) = cn_pc (hb_conn h j)"
  "cn_done (hb_conn (teardown i h) j) \<longleftrightarrow> j = i \<or> cn_done (hb_conn h j)"
  by (auto simp: teardown_def conn_finish_def on_conn_def)

lemma registered_codes [simp]:
  "isRegisteredCloseCode 4000" "isRegisteredCloseCode 4001" "isRegisteredCloseCode 4002" "isRegisteredCloseCode 4003"
  "isRegisteredCloseCode 4004" "isRegisteredCloseCode 4005" "isRegisteredCloseCode 4006" "isRegisteredCloseCode 4007"
  "isRegisteredCloseCode 4008" "isRegisteredCloseCode 4009"
  by (simp_all add: isRegisteredCloseCode_def AllCloseCodes_def closeReasons_def)

section \<open>Calls to the services\<close>

lemma admitted_mono: "admitted j d xs \<Longrightarrow> admitted j d (x # xs)"
  by (auto simp: admitted_def)

lemma conn_ok_mono: "conn_ok xs j c \<Longrightarrow> conn_ok (x # xs) j c"
  by (auto simp: conn_ok_def intro: admitted_mono)

lemma ask_sel:
  assumes "ask i note f h = (h', r)"
  shows "hb_conns h' = hb_conns h" "hb_next h' = hb_next h" "hb_conn h' = hb_conn h" "hb_calls h' = (i, note r) # hb_calls h"
    "hb_cfg h' = hb_cfg h"
  using assms by (auto simp: ask_def Let_def split: prod.splits)

lemma ask_inv:
  assumes "hub_inv X R h" "ask i note f h = (h', r)" "call_ok (i, note r) (hb_calls h)"
  shows "hub_inv X R h'"
  using assms(1,3) by (auto simp: hub_inv_def ask_sel [OF assms(2)] reg_ok_def replacing_def intro: conn_ok_mono)

lemma tell_sel [simp]:
  "hb_conns (tell i c f h) = hb_conns h" "hb_next (tell i c f h) = hb_next h" "hb_conn (tell i c f h) = hb_conn h"
  "hb_calls (tell i c f h) = (i, c) # hb_calls h"
  by (simp_all add: tell_def ask_def)

lemma tell_inv: "hub_inv X R h \<Longrightarrow> call_ok (i, c) (hb_calls h) \<Longrightarrow> hub_inv X R (tell i c f h)"
  using ask_inv [of X R h i "\<lambda>_. c" "\<lambda>w. (f w, ())"] by (cases "ask i (\<lambda>_. c) (\<lambda>w. (f w, ())) h") (auto simp: tell_def)

section \<open>The operations keep the invariant\<close>

lemma enqueue_inv:
  assumes "hub_inv X R h" "cn_dev (hb_conn h i) \<noteq> 0"
  shows "hub_inv X R (fst (enqueue i b h))"
proof -
  have q: "hub_inv X R (on_conn i (\<lambda>c. c\<lparr>cn_queue := cn_queue c @ [b]\<rparr>) h)"
    using assms(2) by (intro on_conn_inv [OF assms(1)]) (auto simp: conn_ok_def rest_ok_def split: pc.splits)
  have d: "hub_inv X R (on_conn i (\<lambda>c. c\<lparr>cn_dropped := cn_dropped c + 1\<rparr>) h)"
    by (rule counter_inv [OF assms(1)]) simp
  show ?thesis using q d assms(1) by (simp add: enqueue_def Let_def)
qed

lemma enqueue_sel [simp]:
  "hb_conns (fst (enqueue i b h)) = hb_conns h" "hb_next (fst (enqueue i b h)) = hb_next h"
  "hb_calls (fst (enqueue i b h)) = hb_calls h"
  "cn_dev (hb_conn (fst (enqueue i b h)) j) = cn_dev (hb_conn h j)"
  "cn_pc (hb_conn (fst (enqueue i b h)) j) = cn_pc (hb_conn h j)"
  "cn_done (hb_conn (fst (enqueue i b h)) j) = cn_done (hb_conn h j)"
  "cn_state (hb_conn (fst (enqueue i b h)) j) = cn_state (hb_conn h j)"
  by (auto simp: enqueue_def Let_def on_conn_def)

lemma send_inv: "hub_inv X R h \<Longrightarrow> cn_dev (hb_conn h i) \<noteq> 0 \<Longrightarrow> hub_inv X R (fst (SendMessage wr i m h))"
  by (auto simp: SendMessage_def intro: enqueue_inv split: sum.splits)

lemma send_sel [simp]:
  "hb_conns (fst (SendMessage wr i m h)) = hb_conns h" "hb_next (fst (SendMessage wr i m h)) = hb_next h"
  "hb_calls (fst (SendMessage wr i m h)) = hb_calls h"
  "cn_dev (hb_conn (fst (SendMessage wr i m h)) j) = cn_dev (hb_conn h j)"
  "cn_pc (hb_conn (fst (SendMessage wr i m h)) j) = cn_pc (hb_conn h j)"
  "cn_done (hb_conn (fst (SendMessage wr i m h)) j) = cn_done (hb_conn h j)"
  "cn_state (hb_conn (fst (SendMessage wr i m h)) j) = cn_state (hb_conn h j)"
  by (auto simp: SendMessage_def split: sum.splits)

lemma close_device_inv: "hub_inv X R h \<Longrightarrow> isRegisteredCloseCode code \<Longrightarrow> hub_inv X R (fst (CloseDevice d code h))"
  by (auto simp: CloseDevice_def intro!: close_inv dest: hub_inv_reg split: option.splits)

lemma send_device_inv: "hub_inv X R h \<Longrightarrow> hub_inv X R (fst (SendToDevice wr d m h))"
  by (auto simp: SendToDevice_def hub_Get_def intro!: send_inv dest: hub_inv_reg split: option.splits)

lemma notify_inv: "hub_inv X R h \<Longrightarrow> hub_inv X R (fst (NotifyUpgrade wr now d dir h))"
  using send_device_inv [of X R h wr d]
  by (auto simp: NotifyUpgrade_def intro!: close_device_inv split: sum.splits prod.splits option.splits send_error.splits)
    (metis fst_conv)+

lemma drain_inv:
  assumes "hub_inv X R h"
  shows "hub_inv X R (fst (DrainAll h))"
proof -
  have "hub_inv X R (fold (\<lambda>i. CloseWith i 4007) is h)" if "hub_inv X R h" "\<forall>i\<in>set is. i < hb_next h \<and> cn_dev (hb_conn h i) \<noteq> 0" for "is"
    using that
  proof (induction "is" arbitrary: h)
    case (Cons a as)
    then show ?case using Cons.IH [of "CloseWith a 4007 h"] by (simp add: close_inv)
  qed simp
  moreover have "\<forall>i\<in>set (map snd (hb_conns h)). i < hb_next h \<and> cn_dev (hb_conn h i) \<noteq> 0"
    using assms by (auto simp: hub_inv_def reg_ok_def)
  ultimately show ?thesis using assms by (simp add: DrainAll_def Let_def)
qed

lemma refresh_inv: "hub_inv X R h \<Longrightarrow> hub_inv X R (refreshReadDeadline i h)"
  by (auto simp: refreshReadDeadline_def intro: counter_inv)

lemma refresh_sel [simp]:
  "hb_conns (refreshReadDeadline i h) = hb_conns h" "hb_next (refreshReadDeadline i h) = hb_next h"
  "hb_calls (refreshReadDeadline i h) = hb_calls h"
  "cn_dev (hb_conn (refreshReadDeadline i h) j) = cn_dev (hb_conn h j)"
  "cn_pc (hb_conn (refreshReadDeadline i h) j) = cn_pc (hb_conn h j)"
  "cn_done (hb_conn (refreshReadDeadline i h) j) = cn_done (hb_conn h j)"
  "cn_state (hb_conn (refreshReadDeadline i h) j) = cn_state (hb_conn h j)"
  by (auto simp: refreshReadDeadline_def on_conn_def)

lemma read_inv: "hub_inv X R h \<Longrightarrow> hub_inv X R (read_one i n h)"
  unfolding read_one_def by (rule counter_inv) auto

lemma read_sel [simp]:
  "hb_conns (read_one i n h) = hb_conns h" "hb_next (read_one i n h) = hb_next h" "hb_calls (read_one i n h) = hb_calls h"
  "cn_dev (hb_conn (read_one i n h) j) = cn_dev (hb_conn h j)" "cn_pc (hb_conn (read_one i n h) j) = cn_pc (hb_conn h j)"
  "cn_done (hb_conn (read_one i n h) j) = cn_done (hb_conn h j)"
  "cn_state (hb_conn (read_one i n h) j) = cn_state (hb_conn h j)"
  by (auto simp: read_one_def on_conn_def)

text \<open>A step may stop looking at a connection, and must look again at its end.\<close>
lemma hub_inv_open: "hub_inv {} R h \<Longrightarrow> hub_inv {i} R h"
  by (simp add: hub_inv_def)

lemma set_pc_sel [simp]:
  "hb_conns (set_pc i p h) = hb_conns h" "hb_next (set_pc i p h) = hb_next h" "hb_calls (set_pc i p h) = hb_calls h"
  "cn_dev (hb_conn (set_pc i p h) j) = cn_dev (hb_conn h j)" "cn_done (hb_conn (set_pc i p h) j) = cn_done (hb_conn h j)"
  by (auto simp: set_pc_def on_conn_def)

lemma set_pc_inv:
  assumes inv: "hub_inv {i} R h" and rest: "rest_ok ((hb_conn h i)\<lparr>cn_pc := p\<rparr>)"
    and was: "\<And>old k. cn_pc (hb_conn h i) = PcReplace (Some old) k \<Longrightarrow> old \<noteq> i \<Longrightarrow> cn_done (hb_conn h old)"
    and will: "\<And>j k. p = PcReplace (Some j) k \<Longrightarrow> j < hb_next h \<and> cn_dev (hb_conn h j) \<noteq> 0"
    and left: "i \<notin> R" "R \<subseteq> (case p of PcReplace (Some j) _ \<Rightarrow> {j} | _ \<Rightarrow> {})" and i: "i < hb_next h"
  shows "hub_inv {} {} (set_pc i p h)"
proof -
  have c: "hb_conn (set_pc i p h) j = (if j = i then (hb_conn h i)\<lparr>cn_pc := p\<rparr> else hb_conn h j)" for j
    by (cases "j = i") (simp_all add: set_pc_def)
  have sub: "replacing (set_pc i p h) j \<Longrightarrow> replacing h j \<or> (\<exists>k. p = PcReplace (Some j) k)" for j
    unfolding replacing_def by (auto simp: c split: if_splits)
  have "\<forall>j. replacing (set_pc i p h) j \<longrightarrow> j < hb_next h \<and> cn_dev (hb_conn h j) \<noteq> 0"
    using sub will inv unfolding hub_inv_def by blast
  moreover have "replacing (set_pc i p h) j" if "replacing h j" "\<not> cn_done (hb_conn h j)" for j
    using that was unfolding replacing_def by (auto simp: c) (metis pc.distinct)
  moreover have "replacing (set_pc i p h) j" if "j \<in> R" for j
    using that left i unfolding replacing_def by (force simp: c split: pc.splits option.splits)
  moreover have "\<forall>j<hb_next h. rest_ok (hb_conn (set_pc i p h) j)"
    using inv rest by (simp add: hub_inv_def c)
  moreover have "\<forall>j<hb_next h. conn_ok (hb_calls h) j (hb_conn (set_pc i p h) j)"
    using inv by (auto simp: hub_inv_def c conn_ok_def)
  moreover have "reg_ok (set_pc i p h)" using inv by (simp add: hub_inv_def reg_ok_def)
  ultimately show ?thesis using inv will unfolding hub_inv_def by auto
qed

section \<open>Frames\<close>

text \<open>What is known of a connection while its frame is handled: it can be told from the others and has the same place in its loop.\<close>
definition handling :: "nat \<Rightarrow> nat set \<Rightarrow> 'w hub \<Rightarrow> bool" where
  "handling i R h \<longleftrightarrow> hub_inv {i} R h \<and> i < hb_next h \<and> (\<forall>old k. cn_pc (hb_conn h i) \<noteq> PcReplace old k)"

lemma handling_ask:
  "handling i R h \<Longrightarrow> ask i note f h = (h', r) \<Longrightarrow> call_ok (i, note r) (hb_calls h) \<Longrightarrow> handling i R h'"
  by (auto simp: handling_def ask_sel intro: ask_inv)

lemma handling_tell: "handling i R h \<Longrightarrow> call_ok (i, c) (hb_calls h) \<Longrightarrow> handling i R (tell i c f h)"
  by (auto simp: handling_def intro: tell_inv)

lemma handling_close: "handling i R h \<Longrightarrow> isRegisteredCloseCode code \<Longrightarrow> handling i R (CloseWith i code h)"
  by (auto simp: handling_def intro!: close_inv)

lemma handling_set:
  assumes "handling i R h" "cn_state (f (hb_conn h i)) \<noteq> StateClosed \<or> cn_done (hb_conn h i)"
    and "cn_dev (f (hb_conn h i)) = cn_dev (hb_conn h i)" "cn_pc (f (hb_conn h i)) = cn_pc (hb_conn h i)"
    and "cn_done (f (hb_conn h i)) = cn_done (hb_conn h i)" "cn_closes (f (hb_conn h i)) = cn_closes (hb_conn h i)"
    and "cn_queue (f (hb_conn h i)) = cn_queue (hb_conn h i)"
  shows "handling i R (on_conn i f h)"
  using assms unfolding handling_def by (auto intro!: on_conn_inv simp: conn_ok_def)

lemma handling_admitted:
  assumes "handling i R h" "cn_dev (hb_conn h i) \<noteq> 0"
  shows "admitted i (cn_dev (hb_conn h i)) (hb_calls h)"
  using assms by (auto simp: handling_def hub_inv_def conn_ok_def)

lemma handling_touch: "handling i R h \<Longrightarrow> handling i R (conn_touch dp i h)"
  by (auto simp: conn_touch_def Let_def handling_admitted intro!: handling_tell split: option.splits)

lemma touch_sel [simp]:
  "hb_conn (conn_touch dp i h) = hb_conn h" "hb_next (conn_touch dp i h) = hb_next h" "hb_conns (conn_touch dp i h) = hb_conns h"
  by (auto simp: conn_touch_def Let_def split: option.splits)

text \<open>How a frame leaves its connection.\<close>
definition left_at :: "nat \<Rightarrow> 'w hub \<Rightarrow> progress \<Rightarrow> bool" where
  "left_at i h p \<longleftrightarrow>
     (case p of
        LoopEnd \<Rightarrow> handling i {} h
      | LoopOn \<Rightarrow> handling i {} h \<and> rest_ok ((hb_conn h i)\<lparr>cn_pc := PcRead\<rparr>)
      | Registered old k \<Rightarrow> handling i (set_option old) h \<and> cn_dev (hb_conn h i) = hc_dev k \<and> hc_dev k \<noteq> 0
          \<and> cn_state (hb_conn h i) \<noteq> StateAwaitHello
          \<and> (\<forall>j. old = Some j \<longrightarrow> j \<noteq> i \<and> j < hb_next h \<and> cn_dev (hb_conn h j) \<noteq> 0))"

lemma end_with_left: "handling i {} h \<Longrightarrow> isRegisteredCloseCode code \<Longrightarrow> end_with i code h = (h', p) \<Longrightarrow> left_at i h' p"
  by (auto simp: end_with_def left_at_def intro: handling_close)

lemma after_inv:
  assumes "left_at i h p"
  shows "hub_inv {} {} (after i (h, p))"
proof (cases p)
  case LoopEnd
  then show ?thesis using assms by (auto simp: left_at_def after_def handling_def rest_ok_def intro!: set_pc_inv)
next
  case LoopOn
  then show ?thesis using assms by (auto simp: left_at_def after_def handling_def intro!: set_pc_inv)
next
  case (Registered old k)
  then have h: "hub_inv {i} (set_option old) h" "i < hb_next h" "\<forall>old k. cn_pc (hb_conn h i) \<noteq> PcReplace old k"
    "rest_ok ((hb_conn h i)\<lparr>cn_pc := PcReplace old k\<rparr>)"
    "\<forall>j. old = Some j \<longrightarrow> j \<noteq> i \<and> j < hb_next h \<and> cn_dev (hb_conn h j) \<noteq> 0"
    using assms by (auto simp: left_at_def handling_def rest_ok_def)
  have "hub_inv {} {} (set_pc i (PcReplace old k) h)"
    using h by (intro set_pc_inv [OF h(1,4)]) (auto split: option.splits)
  then show ?thesis using Registered by (simp add: after_def)
qed

section \<open>The handlers\<close>

lemma swap_left:
  assumes h: "handling i {} h" and d: "cn_dev (hb_conn h i) = 0" "d \<noteq> 0" "admitted i d (hb_calls h)"
    and st: "cn_state (hb_conn h i) \<noteq> StateAwaitHello"
    and e: "register_swap i (bindDevice i d h) = (h', old)" "hc_dev k = d"
  shows "left_at i h' (Registered old k)"
proof -
  have inv: "hub_inv {i} {} h" and i: "i < hb_next h" and pc: "\<forall>old k. cn_pc (hb_conn h i) \<noteq> PcReplace old k"
    using h by (simp_all add: handling_def)
  have h': "hb_conns h' = AList.update d i (hb_conns h)" "hb_next h' = hb_next h" "hb_calls h' = hb_calls h"
    and old: "old = map_of (hb_conns h) d"
    using e(1) by (auto simp: register_swap_def bindDevice_def Let_def)
  have c: "hb_conn h' j = (if j = i then (hb_conn h i)\<lparr>cn_dev := d\<rparr> else hb_conn h j)" for j
    using e(1) by (cases "j = i") (auto simp: register_swap_def bindDevice_def Let_def)
  have reg: "reg_ok h" using inv by (simp add: hub_inv_def)
  have fresh: "map_of (hb_conns h) x \<noteq> Some i" for x using reg_okD [OF reg] d(1) by blast
  have "cn_pc (hb_conn h' j) = cn_pc (hb_conn h j)" for j by (simp add: c)
  then have r: "replacing h' j = replacing h j" for j by (simp add: replacing_def h'(2))
  have "reg_ok h'"
    unfolding reg_ok_def h'
  proof (intro conjI ballI, goal_cases)
    case 1 then show ?case using reg by (simp add: reg_ok_def distinct_update)
  next
    case (2 x)
    have "map_of (AList.update d i (hb_conns h)) (fst x) = Some (snd x)"
      using 2 reg by (simp add: reg_ok_def distinct_update)
    then show ?case using reg_okD [OF reg, of "fst x" "snd x"] i d(2) fresh
      by (auto simp: update_conv' c split: if_splits prod.splits)
  qed
  moreover have "\<forall>j<hb_next h. conn_ok (hb_calls h) j (hb_conn h' j)"
    using inv d by (auto simp: hub_inv_def c conn_ok_def)
  moreover have "map_of (hb_conns h') (cn_dev (hb_conn h' j)) = Some j \<or> replacing h' j \<or> j \<in> set_option old"
    if "j < hb_next h" "cn_dev (hb_conn h' j) \<noteq> 0" "\<not> cn_done (hb_conn h' j)" for j
    using that inv by (auto simp: hub_inv_def c r h' old update_conv' split: if_splits)
  moreover have "\<forall>j. replacing h' j \<longrightarrow> j < hb_next h \<and> cn_dev (hb_conn h' j) \<noteq> 0"
    using inv d by (auto simp: hub_inv_def r c)
  ultimately have "hub_inv {i} (set_option old) h'"
    using inv unfolding hub_inv_def h'(2,3) by (simp add: c)
  then have "handling i (set_option old) h'" using i pc by (simp add: handling_def c h')
  moreover have "\<forall>j. old = Some j \<longrightarrow> j \<noteq> i \<and> j < hb_next h' \<and> cn_dev (hb_conn h' j) \<noteq> 0"
    using reg_okD [OF reg, of d] d(2) fresh by (auto simp: old h' c)
  ultimately show ?thesis using st e(2) d(2) by (auto simp: left_at_def c)
qed

lemma identify_props:
  assumes "handling i R h" "hello_identify dp i kind hl h = (h', r)" "kind \<noteq> CredentialNone"
  shows "handling i R h' \<and> hb_conn h' = hb_conn h
     \<and> (\<forall>d t. r = Some (d, t) \<longrightarrow> (i, CallAuth hl (Some d)) \<in> set (hb_calls h') \<or> (\<exists>ip. (i, CallEnroll hl ip (Some d)) \<in> set (hb_calls h')))"
  using assms
  by (auto simp: hello_identify_def Let_def ask_sel split: CredentialKind.splits option.splits prod.splits
      intro: handling_ask)

lemma accept_props:
  assumes "handling i R h" "conn_accept dp i d h = (h', ok)"
  shows "handling i R h' \<and> hb_conn h' = hb_conn h \<and> set (hb_calls h) \<subseteq> set (hb_calls h')
     \<and> (ok \<longrightarrow> (i, CallAccepting d (Some True)) \<in> set (hb_calls h'))"
  using assms
  by (auto simp: conn_accept_def Let_def ask_sel split: option.splits prod.splits intro: handling_ask)

text \<open>A hello that passed its checks.\<close>
lemma hello_known_left:
  assumes h: "handling i {} h" and st: "cn_state (hb_conn h i) = StateAwaitHello" and d: "cn_dev (hb_conn h i) = 0"
    and hl: "DecodeData (wr_dec wr) (msg_data m) (PHello zero_hello) = Inr (PHello hl)" "Credential hl = Inr kind"
      "hello_validate hl = None"
    and e: "hello_auth dp wr i m h = (h', p)"
  shows "left_at i h' p"
proof -
  let ?h0 = "setState i StateEnrolling h"
  have h0: "handling i {} ?h0" unfolding setState_def by (rule handling_set [OF h]) simp_all
  have s0: "cn_state (hb_conn ?h0 i) = StateEnrolling" "cn_dev (hb_conn ?h0 i) = 0" by (simp_all add: setState_def d)
  have k: "kind \<noteq> CredentialNone" using hl(2) by (auto simp: Credential_def Let_def split: if_splits)
  obtain h1 a where i1: "hello_identify dp i kind hl ?h0 = (h1, a)" by fastforce
  note p1 = identify_props [OF h0 i1 k]
  show ?thesis
  proof (cases "\<exists>d t. a = Some (d, t) \<and> d \<noteq> 0")
    case False
    then have "end_with i 4001 h1 = (h', p)" using e st hl i1 by (cases a) (auto simp: hello_auth_def)
    then show ?thesis using end_with_left p1 by (metis registered_codes(2))
  next
    case True
    then obtain d t where a: "a = Some (d, t)" "d \<noteq> 0" by blast
    obtain h2 ok where i2: "conn_accept dp i d h1 = (h2, ok)" by fastforce
    have p2: "handling i {} h2" "hb_conn h2 = hb_conn ?h0" "set (hb_calls h1) \<subseteq> set (hb_calls h2)"
      "ok \<longrightarrow> (i, CallAccepting d (Some True)) \<in> set (hb_calls h2)"
      using accept_props [OF _ i2, of "{}"] p1 by auto
    obtain h3 old where i3: "register_swap i (bindDevice i d h2) = (h3, old)" by fastforce
    show ?thesis
    proof (cases ok)
      case False
      then have "end_with i 4001 h2 = (h', p)" using e st hl i1 i2 a by (simp add: hello_auth_def)
      then show ?thesis using end_with_left p2(1) by (metis registered_codes(2))
    next
      case True
      have "h' = h3" "\<exists>k. p = Registered old k \<and> hc_dev k = d"
        using e st hl i1 i2 i3 a True by (auto simp: hello_auth_def)
      moreover have "admitted i d (hb_calls h2)" using p1 p2 True a unfolding admitted_def by blast
      ultimately show ?thesis using swap_left [OF p2(1) _ a(2) _ _ i3] s0 p2(2) by auto
    qed
  qed
qed

lemma hello_auth_left:
  assumes h: "handling i {} h" and r: "cn_state (hb_conn h i) = StateAwaitHello \<Longrightarrow> cn_dev (hb_conn h i) = 0"
    and e: "hello_auth dp wr i m h = (h', p)"
  shows "left_at i h' p"
proof (cases "\<exists>hl kind. DecodeData (wr_dec wr) (msg_data m) (PHello zero_hello) = Inr (PHello hl) \<and> Credential hl = Inr kind
     \<and> hello_validate hl = None \<and> cn_state (hb_conn h i) = StateAwaitHello")
  case True
  then show ?thesis using hello_known_left [OF h _ _ _ _ _ e] r by blast
next
  case False
  then have "end_with i 4008 h = (h', p) \<or> end_with i 4002 h = (h', p) \<or> end_with i 4001 h = (h', p)"
    using e by (auto simp: hello_auth_def split: sum.splits Payload.Payload.splits if_splits)
  then show ?thesis using end_with_left [OF h] by (metis registered_codes)
qed

lemma decoded_valid:
  assumes "DecodeTypedFor dec m dir = Inr v" "msg_type m \<noteq> ''agent.heartbeat''"
  shows "payload_validate v = None"
  using assms
  by (auto simp: DecodeTypedFor_def decodeSpecPayload_def LookupType_cases spec_def Let_def split: if_splits sum.splits option.splits)

lemma then_touch_left:
  assumes "handling i {} (fst r)" "snd r \<Longrightarrow> rest_ok ((hb_conn (fst r) i)\<lparr>cn_pc := PcRead\<rparr>)" "then_touch dp i r = (h', p)"
  shows "left_at i h' p"
  using assms by (cases r) (auto simp: then_touch_def left_at_def intro: handling_touch split: if_splits)

lemma metrics_left:
  assumes "handling i {} h" "cn_dev (hb_conn h i) \<noteq> 0" "cn_state (hb_conn h i) \<noteq> StateAwaitHello" "msg_type m = ''agent.report.metrics''"
  shows "handling i {} (fst (handleMetrics dp wr i m h))"
    "snd (handleMetrics dp wr i m h) \<Longrightarrow> rest_ok ((hb_conn (fst (handleMetrics dp wr i m h)) i)\<lparr>cn_pc := PcRead\<rparr>)"
  using assms decoded_valid [of "wr_dec wr" m DirAgentToCore]
  by (auto simp: handleMetrics_def Let_def rest_ok_def handling_admitted intro!: handling_close handling_tell
      split: sum.splits Payload.Payload.splits option.splits)

lemma status_left:
  assumes "handling i {} h" "cn_dev (hb_conn h i) \<noteq> 0" "cn_state (hb_conn h i) \<noteq> StateAwaitHello" "msg_type m = ''agent.upgrade.status''"
  shows "handling i {} (fst (handleUpgradeStatus dp wr i m h))"
    "snd (handleUpgradeStatus dp wr i m h) \<Longrightarrow> rest_ok ((hb_conn (fst (handleUpgradeStatus dp wr i m h)) i)\<lparr>cn_pc := PcRead\<rparr>)"
  using assms decoded_valid [of "wr_dec wr" m DirAgentToCore]
  by (auto simp: handleUpgradeStatus_def Let_def rest_ok_def handling_admitted intro!: handling_close handling_tell
      split: sum.splits Payload.Payload.splits option.splits)

lemma handlers_left:
  assumes "handling i {} h" "rest_ok ((hb_conn h i)\<lparr>cn_pc := PcRead\<rparr>)"
    and "cn_state (hb_conn h i) = StateAwaitHello \<Longrightarrow> msg_type m = ''agent.hello''"
    and e: "agentHandlers dp wr i m h = (h', p)"
  shows "left_at i h' p"
proof -
  have d: "cn_state (hb_conn h i) = StateAwaitHello \<Longrightarrow> cn_dev (hb_conn h i) = 0"
    "cn_state (hb_conn h i) \<noteq> StateAwaitHello \<Longrightarrow> cn_dev (hb_conn h i) \<noteq> 0"
    using assms(2) by (auto simp: rest_ok_def split: if_splits)
  consider "msg_type m = ''agent.hello''" | "msg_type m = ''agent.heartbeat''" | "msg_type m = ''agent.report.metrics''"
    | "msg_type m = ''agent.upgrade.status''" | "agentHandlers dp wr i m h = end_with i 4003 h"
    by (metis agentHandlers_def)
  then show ?thesis
  proof cases
    case 1 then show ?thesis using hello_auth_left [OF assms(1)] d e by (auto simp: agentHandlers_def)
  next
    case 2 then show ?thesis
      using then_touch_left [of i "handleHeartbeat h"] assms(1,2) e by (simp add: agentHandlers_def handleHeartbeat_def)
  next
    case 3
    then have "cn_state (hb_conn h i) \<noteq> StateAwaitHello" using assms(3) by auto
    with 3 show ?thesis
      using then_touch_left [OF metrics_left [OF assms(1)]] d(2) e by (simp add: agentHandlers_def)
  next
    case 4
    then have "cn_state (hb_conn h i) \<noteq> StateAwaitHello" using assms(3) by auto
    with 4 show ?thesis
      using then_touch_left [OF status_left [OF assms(1)]] d(2) e by (simp add: agentHandlers_def)
  next
    case 5 show ?thesis by (rule end_with_left [OF assms(1) _ trans [OF 5 [symmetric] e]]) simp
  qed
qed

lemma allow_props:
  assumes "handling i R h" "allowFrame dp i h = (h', ok)"
  shows "handling i R h' \<and> hb_conn h' = hb_conn h"
  using assms by (auto simp: allowFrame_def Let_def ask_sel split: option.splits prod.splits intro: handling_ask)

lemma frame_begin_left:
  assumes h: "handling i {} h" and r: "rest_ok ((hb_conn h i)\<lparr>cn_pc := PcRead\<rparr>)"
    and e: "frame_begin dp wr i raw now h = (h', p)"
  shows "left_at i h' p"
proof (cases "Decode (wr_json wr) raw")
  case (Inl er)
  then show ?thesis using e by (auto intro!: end_with_left [OF h] simp: frame_begin_def)
next
  case (Inr m)
  obtain h1 ok where a: "allowFrame dp i h = (h1, ok)" by fastforce
  have h1: "handling i {} h1" "hb_conn h1 = hb_conn h" using allow_props [OF h a] by auto
  have lim: "handling i {} (countRateLimited i h1)"
    unfolding countRateLimited_def using h1 by (auto simp: handling_def intro: counter_inv)
  have skew: "left_at i (countSkew i h1) LoopOn"
    unfolding countSkew_def left_at_def using h1 r
    by (auto simp: handling_def rest_ok_def intro!: counter_inv split: if_splits)
  consider "end_with i 4006 (countRateLimited i h1) = (h', p)" | "end_with i 4003 h1 = (h', p)" | "end_with i 4008 h1 = (h', p)"
    | "(countSkew i h1, LoopOn) = (h', p)"
    | "agentHandlers dp wr i m h1 = (h', p)" "cn_state (hb_conn h1 i) = StateAwaitHello \<Longrightarrow> msg_type m = ''agent.hello''"
    using e Inr a by (auto simp: frame_begin_def split: if_splits)
  then show ?thesis
  proof cases
    case 1 show ?thesis by (rule end_with_left [OF lim _ 1]) simp
  next
    case 2 show ?thesis by (rule end_with_left [OF h1(1) _ 2]) simp
  next
    case 3 show ?thesis by (rule end_with_left [OF h1(1) _ 3]) simp
  next
    case 4 then show ?thesis using skew by auto
  next
    case 5 show ?thesis using handlers_left [OF h1(1) _ 5(2,1)] r h1(2) by simp
  qed
qed

lemma reconcile_props:
  assumes "handling i R h"
    and "(case dep_reconcile dp of None \<Rightarrow> (h, None) | Some rec \<Rightarrow> ask i (\<lambda>_. CallReconcile d) (rec d hl) h) = (h', dir)"
  shows "handling i R h' \<and> hb_conn h' = hb_conn h"
  using assms by (auto simp: ask_sel split: option.splits intro: handling_ask)

lemma frame_finish_left:
  assumes h: "handling i {} h" and d: "cn_dev (hb_conn h i) \<noteq> 0" and e: "frame_finish dp wr i k now now' h = (h', ok)"
  shows "handling i {} h' \<and> (ok \<longrightarrow> rest_ok ((hb_conn h' i)\<lparr>cn_pc := PcRead\<rparr>))"
proof -
  obtain h1 dir where rc: "(case dep_reconcile dp of None \<Rightarrow> (h, None)
      | Some rec \<Rightarrow> ask i (\<lambda>_. CallReconcile (hc_dev k)) (rec (hc_dev k) (hc_hello k)) h) = (h1, dir)" by fastforce
  note h1 = reconcile_props [OF h rc]
  let ?new = "NewMessage (wr_json wr) now' (hc_id k) ''core.hello_ack''
                (MarshalPayload (wr_enc wr) (Some (PHelloAck (hello_ack dp k now dir))))"
  show ?thesis
  proof (cases ?new)
    case (Inl er)
    then have "h' = CloseWith i 4007 h1 \<and> \<not> ok"
      using e rc by (simp add: frame_finish_def hello_finish_def)
    then show ?thesis using h1 by (auto intro: handling_close)
  next
    case (Inr m)
    let ?h2 = "fst (SendMessage wr i m h1)"
    have h2: "handling i {} ?h2" "cn_dev (hb_conn ?h2 i) \<noteq> 0" using h1 d by (auto simp: handling_def intro: send_inv)
    have "handling i {} (setState i StateActive ?h2)" unfolding setState_def by (rule handling_set [OF h2(1)]) simp_all
    moreover have "h' = conn_touch dp i (setState i StateActive ?h2) \<and> ok"
      using e rc Inr by (simp add: frame_finish_def hello_finish_def)
    ultimately show ?thesis using h2(2) by (auto simp: setState_def rest_ok_def intro: handling_touch)
  qed
qed

section \<open>Runs\<close>

lemma handling_of_inv: "hub_inv {} {} h \<Longrightarrow> i < hb_next h \<Longrightarrow> \<forall>old k. cn_pc (hb_conn h i) \<noteq> PcReplace old k \<Longrightarrow> handling i {} h"
  by (simp add: handling_def hub_inv_open)

lemma new_conn_inv: "hub_inv {} {} h \<Longrightarrow> hub_inv {} {} (newConn addr ip h)"
proof -
  assume inv: "hub_inv {} {} h"
  have c: "hb_conn (newConn addr ip h) j = hb_conn h j" if "j < hb_next h" for j using that by (simp add: newConn_def)
  have nx: "hb_next (newConn addr ip h) = Suc (hb_next h)" "hb_conns (newConn addr ip h) = hb_conns h"
    "hb_calls (newConn addr ip h) = hb_calls h" by (simp_all add: newConn_def)
  have n: "cn_dev (hb_conn (newConn addr ip h) (hb_next h)) = 0" "cn_pc (hb_conn (newConn addr ip h) (hb_next h)) = PcRead"
    "conn_ok xs (hb_next h) (hb_conn (newConn addr ip h) (hb_next h))" "rest_ok (hb_conn (newConn addr ip h) (hb_next h))" for xs
    by (simp_all add: newConn_def conn_ok_def rest_ok_def)
  have r: "replacing (newConn addr ip h) j = replacing h j" for j
    using n(2) by (auto simp: replacing_def nx less_Suc_eq c)
  have "reg_ok (newConn addr ip h)" using inv by (auto simp: hub_inv_def reg_ok_def newConn_def)
  then show ?thesis using inv n c unfolding hub_inv_def by (auto simp: r nx less_Suc_eq)
qed

lemma close_replaced_inv:
  assumes inv: "hub_inv {} {} h" and i: "i < hb_next h" "cn_pc (hb_conn h i) = PcReplace old k"
  shows "hub_inv {} {} (set_pc i (PcAck k) (close_replaced i old h))"
proof -
  let ?h = "close_replaced i old h"
  have o: "j < hb_next h \<and> cn_dev (hb_conn h j) \<noteq> 0" if "old = Some j" "j \<noteq> i" for j
  proof -
    have "replacing h j" using i that unfolding replacing_def by blast
    then show ?thesis using inv by (simp add: hub_inv_def)
  qed
  have sel: "cn_pc (hb_conn ?h x) = cn_pc (hb_conn h x)" "cn_dev (hb_conn ?h x) = cn_dev (hb_conn h x)" "hb_next ?h = hb_next h" for x
    by (auto simp: close_replaced_def split: option.splits)
  have inv': "hub_inv {} {} ?h"
  proof (cases "\<exists>j. old = Some j \<and> j \<noteq> i")
    case True
    then show ?thesis using close_inv [OF inv, where code = 4004] o by (auto simp: close_replaced_def)
  next
    case False
    then show ?thesis using inv by (auto simp: close_replaced_def split: option.splits)
  qed
  have "rest_ok (hb_conn ?h i)" using inv' i(1) by (simp add: hub_inv_def sel)
  then have "rest_ok ((hb_conn ?h i)\<lparr>cn_pc := PcAck k\<rparr>)" by (auto simp: rest_ok_def sel i(2))
  moreover have "cn_done (hb_conn ?h j)" if "old = Some j" "j \<noteq> i" for j using that by (simp add: close_replaced_def)
  ultimately show ?thesis
    using i inv' by (intro set_pc_inv [OF hub_inv_open]) (auto simp: sel)
qed

lemma unregister_inv:
  assumes inv: "hub_inv {} {} h" and i: "cn_done (hb_conn h i)"
  shows "hub_inv {} {} (hub_Unregister d (Some i) h)"
proof (cases "map_of (hb_conns h) d = Some i")
  case True
  let ?h = "h\<lparr>hb_conns := AList.delete d (hb_conns h)\<rparr>"
  have reg: "reg_ok h" using inv by (simp add: hub_inv_def)
  have "reg_ok ?h" using reg by (auto simp: reg_ok_def AList.delete_eq distinct_map_filter)
  moreover have "replacing ?h j = replacing h j" for j by (simp add: replacing_def)
  moreover have "map_of (AList.delete d (hb_conns h)) (cn_dev (hb_conn h j)) = Some j"
    if "map_of (hb_conns h) (cn_dev (hb_conn h j)) = Some j" "\<not> cn_done (hb_conn h j)" for j
    using that True i by (auto simp: delete_conv')
  ultimately have "hub_inv {} {} ?h" using inv unfolding hub_inv_def by (simp) metis
  then show ?thesis using True by (simp add: hub_Unregister_def)
next
  case False
  then show ?thesis using inv by (auto simp: hub_Unregister_def split: option.splits)
qed

lemma exit_inv: "handling i {} h \<Longrightarrow> hub_inv {} {} (set_pc i PcExit h)"
  using after_inv [of i h LoopEnd] by (simp add: left_at_def after_def)

lemma read_on_inv: "handling i {} h \<Longrightarrow> rest_ok ((hb_conn h i)\<lparr>cn_pc := PcRead\<rparr>) \<Longrightarrow> hub_inv {} {} (set_pc i PcRead h)"
  using after_inv [of i h LoopOn] by (simp add: left_at_def after_def)

lemma hub_step_inv:
  assumes "hub_step dp wr h h'" "hub_inv {} {} h"
  shows "hub_inv {} {} h'"
  using assms
proof (induction rule: hub_step.induct)
  case (frame i h raw now n)
  let ?h = "refreshReadDeadline i (read_one i n h)"
  have pc: "cn_pc (hb_conn ?h i) = PcRead" using frame(2) by (simp add: readable_def)
  have inv: "hub_inv {} {} ?h" by (intro refresh_inv read_inv frame.prems)
  then have r: "rest_ok (hb_conn ?h i)" using frame(1) by (auto simp: hub_inv_def)
  have "(hb_conn ?h i)\<lparr>cn_pc := PcRead\<rparr> = hb_conn ?h i" using pc by simp
  then have "left_at i h1 p" if "frame_begin dp wr i raw now ?h = (h1, p)" for h1 p
    using frame_begin_left [OF handling_of_inv [OF inv] _ that] frame(1) pc r by simp
  then show ?case by (cases "frame_begin dp wr i raw now ?h") (simp add: after_inv)
next
  case (binary i h n)
  have "handling i {} (read_one i n h)"
    using binary by (intro handling_of_inv read_inv) (simp_all add: readable_def)
  then show ?case by (intro exit_inv handling_close) simp_all
next
  case (read_error i h timeout)
  then have "handling i {} h" by (intro handling_of_inv) simp_all
  then show ?case by (auto simp: handleReadError_def intro!: exit_inv handling_close)
next
  case (ack i h k now now' h' ok)
  have "cn_dev (hb_conn h i) \<noteq> 0" using hub_invD(2) [OF ack(4,1)] ack(2) by (auto simp: rest_ok_def)
  moreover have "handling i {} h" using ack by (intro handling_of_inv) simp_all
  ultimately show ?case using frame_finish_left [OF _ _ ack(3)] by (auto intro: exit_inv read_on_inv)
next
  case (leave i h)
  then have "hub_inv {i} {} (teardown i h)" by (intro teardown_inv hub_inv_open) simp_all
  then show ?case using leave by (intro set_pc_inv [where R = "{}"]) (simp_all add: rest_ok_def)
next
  case (unregister i h)
  let ?h = "hub_Unregister (cn_dev (hb_conn h i)) (Some i) h"
  have d: "cn_done (hb_conn h i)" using hub_invD(2) [OF unregister(3,1)] unregister(2) by (simp add: rest_ok_def)
  have c: "hb_conn ?h = hb_conn h" "hb_next ?h = hb_next h" by (auto simp: hub_Unregister_def split: option.splits)
  have "hub_inv {i} {} ?h" by (intro hub_inv_open unregister_inv unregister.prems d)
  then show ?case using unregister d by (intro set_pc_inv [where R = "{}"]) (simp_all add: rest_ok_def c)
next
  case (written i h ok)
  have d: "cn_dev (hb_conn h i) \<noteq> 0" using hub_invD(1) [OF written(4,1)] written(3) by (auto simp: conn_ok_def)
  have "hub_inv {} {} (on_conn i (\<lambda>c. c\<lparr>cn_queue := tl (cn_queue c)\<rparr>) h)"
    by (rule on_conn_inv [OF written(4)]) (auto simp: conn_ok_def rest_ok_def split: pc.splits)
  then show ?case using written(1) d by (auto simp: write_frame_def Let_def intro!: teardown_inv)
next
  case (world h w)
  have "reg_ok (h\<lparr>hb_world := w\<rparr>) = reg_ok h" "replacing (h\<lparr>hb_world := w\<rparr>) j = replacing h j" for j
    by (simp_all add: reg_ok_def replacing_def)
  then show ?case using world unfolding hub_inv_def by simp
qed (auto intro: new_conn_inv refresh_inv read_inv close_replaced_inv notify_inv drain_inv)

lemma new_hub_inv: "hub_inv {} {} (NewHub opts w)"
  by (simp add: NewHub_def hub_inv_def reg_ok_def replacing_def)

lemma hub_run_inv: "hub_run dp wr h0 h \<Longrightarrow> hub_inv {} {} h0 \<Longrightarrow> hub_inv {} {} h"
  by (induction rule: hub_run.induct) (auto intro: hub_step_inv)

end
