(* ===== verification/HubProps.thy ===== *)
theory HubProps
  imports HubSafety
begin

text \<open>
  The properties of the agent channel, over every run of \<open>hub_run\<close> from an empty registry, with a run of two
  connections of one device as their witness.
\<close>

section \<open>A run\<close>

definition demo_hello :: Hello where
  "demo_hello = zero_hello\<lparr>h_instance_id := ''i'', h_hostname := ''n'', h_os := ''linux'', h_arch := ''amd64'',
     h_agent_version := ''1.0.0'', h_agent_token := ''t''\<rparr>"

definition demo_msg :: "string \<Rightarrow> string \<Rightarrow> Message" where
  "demo_msg typ data = \<lparr>msg_v = 1, msg_id = ''1'', msg_type = typ, msg_ts = 1000, msg_data = data\<rparr>"

text \<open>A codec with two frames: a hello and a sample.\<close>
definition demo_wire :: wire where
  "demo_wire = \<lparr>
     wr_json = \<lparr>unmarshal_msg = (\<lambda>b. if b = ''h'' then Inr (demo_msg ''agent.hello'' ''{}'') else Inr (demo_msg ''agent.report.metrics'' ''{}'')),
        marshal_msg = (\<lambda>m. Inr (msg_type m)), json_valid = (\<lambda>_. True)\<rparr>,
     wr_dec = (\<lambda>_ out. case out of PHello _ \<Rightarrow> Inr (PHello demo_hello) | PMetrics _ \<Rightarrow> Inr (PMetrics sample1) | p \<Rightarrow> Inr p),
     wr_enc = (\<lambda>_. Inr ''{}'')\<rparr>"

text \<open>The world is the set of device 7 being enabled.\<close>
definition demo_channel :: "bool conn_deps" where
  "demo_channel = \<lparr>dep_enroll = None, dep_auth = Some (\<lambda>_ w. (w, Some 7)), dep_ingest = Some (\<lambda>_ _ w. w), dep_touch = None,
     dep_accepting = Some (\<lambda>_ w. (w, Some w)), dep_policy = None, dep_reconcile = None, dep_status = None, dep_limiter = None\<rparr>"

definition demo_frame :: "nat \<Rightarrow> string \<Rightarrow> nat \<Rightarrow> bool hub \<Rightarrow> bool hub" where
  "demo_frame i raw n h = after i (frame_begin demo_channel demo_wire i raw 1000 (refreshReadDeadline i (read_one i n h)))"

definition demo_replace :: "nat \<Rightarrow> bool hub \<Rightarrow> bool hub" where
  "demo_replace i h = (case cn_pc (hb_conn h i) of PcReplace old k \<Rightarrow> set_pc i (PcAck k) (close_replaced i old h) | _ \<Rightarrow> h)"

definition demo_ack :: "nat \<Rightarrow> bool hub \<Rightarrow> bool hub" where
  "demo_ack i h = (case cn_pc (hb_conn h i) of
     PcAck k \<Rightarrow> (let (h', ok) = frame_finish demo_channel demo_wire i k 1000 1000 h in set_pc i (if ok then PcRead else PcExit) h')
   | _ \<Rightarrow> h)"

abbreviation demo_run :: "bool hub \<Rightarrow> bool hub \<Rightarrow> bool" where
  "demo_run \<equiv> hub_run demo_channel demo_wire"

lemma demo_frame_run: "demo_run h0 h \<Longrightarrow> i < hb_next h \<Longrightarrow> readable (hb_conn h i) \<Longrightarrow> demo_run h0 (demo_frame i raw n h)"
  unfolding demo_frame_def by (rule hub_next_step, assumption, rule hub_step.frame)

lemma demo_replace_run: "demo_run h0 h \<Longrightarrow> i < hb_next h \<Longrightarrow> demo_run h0 (demo_replace i h)"
  by (auto simp: demo_replace_def intro: hub_next_step hub_step.replace split: pc.splits)

lemma demo_ack_run:
  assumes "demo_run h0 h" "i < hb_next h"
  shows "demo_run h0 (demo_ack i h)"
proof (cases "cn_pc (hb_conn h i)")
  case (PcAck k)
  obtain h' ok where "frame_finish demo_channel demo_wire i k 1000 1000 h = (h', ok)" by fastforce
  then show ?thesis
    using hub_next_step [OF assms(1) hub_step.ack [OF assms(2) PcAck]] PcAck by (simp add: demo_ack_def)
qed (use assms in \<open>simp_all add: demo_ack_def\<close>)

definition demo_0 :: "bool hub" where
  "demo_0 = NewHub \<lparr>op_write_timeout = 0, op_pong_wait = 0, op_ping_interval = 0, op_max_bytes = 0, op_send_queue = 0\<rparr> True"

text \<open>Both connections say hello; the second replaces the first before the first has sent its answer.\<close>
definition demo_1 :: "bool hub" where
  "demo_1 = demo_replace 0 (demo_frame 0 ''h'' 1 (newConn None [] (newConn None [] demo_0)))"

definition demo_2 :: "bool hub" where
  "demo_2 = demo_replace 1 (demo_frame 1 ''h'' 0 demo_1)"

definition demo_3 :: "bool hub" where
  "demo_3 = demo_frame 0 ''m'' 0 (demo_ack 0 demo_2)"

definition demo_ctx :: hello_ctx where
  "demo_ctx = \<lparr>hc_id = ''1'', hc_dev = 7, hc_token = [], hc_kind = CredentialAgent, hc_hello = demo_hello\<rparr>"

lemma demo_trim: "trim_space ''{}'' = ''{}''"
  by code_simp

lemma demo_decode:
  "Decode (wr_json demo_wire) ''h'' = Inr (demo_msg ''agent.hello'' ''{}'')"
  "Decode (wr_json demo_wire) ''m'' = Inr (demo_msg ''agent.report.metrics'' ''{}'')"
  by (simp_all add: Decode_Inr demo_wire_def demo_msg_def envelope_ok_def MaxMessageBytes_def isDecimalID_def ValidTypeName_def
      MaxTypeLen_def is_digit_def is_lower_def byte_def isDataEmpty_def demo_trim)

lemma demo_hello_ok:
  "Credential demo_hello = Inr CredentialAgent" "hello_validate demo_hello = None"
  "DecodeData (wr_dec demo_wire) ''{}'' (PHello zero_hello) = Inr (PHello demo_hello)"
  by code_simp+

lemma demo_skew: "\<not> ExceedsClockSkew 1000 1000"
  by code_simp

lemma demo_hello_frame:
  assumes "cn_state (hb_conn h i) = StateAwaitHello" "\<not> cn_expired (hb_conn h i)" "hb_world h"
  shows "demo_frame i ''h'' n h = h\<lparr>hb_conns := AList.update 7 i (hb_conns h),
     hb_conn := (hb_conn h)(i := (hb_conn h i)\<lparr>cn_buffered := n, cn_expired := False, cn_state := StateEnrolling, cn_dev := 7,
        cn_pc := PcReplace (map_of (hb_conns h) 7) demo_ctx\<rparr>),
     hb_calls := (i, CallAccepting 7 (Some True)) # (i, CallAuth demo_hello (Some 7)) # hb_calls h\<rparr>"
proof (rule hub.equality)
qed (use assms in \<open>simp_all add: demo_frame_def frame_begin_def demo_decode allowFrame_def demo_channel_def LookupType_cases DirectionOf_def
      spec_def demo_msg_def agentHandlers_def hello_auth_def demo_hello_ok hello_identify_def ask_def conn_accept_def
      register_swap_def bindDevice_def setState_def on_conn_def refreshReadDeadline_def read_one_def after_def set_pc_def
      demo_ctx_def fun_upd_def cong: if_cong\<close>)

lemma demo_sample: "metrics_validate sample1 = None"
  by (simp add: metrics_validate_None checkDisk_None checkCounts_def checkAgent_None sample1_def
      zero_sample_def zero_agent_def percent_f_def nonneg_f_def)

lemma demo_decode_sample:
  "DecodeTypedFor (wr_dec demo_wire) (demo_msg ''agent.report.metrics'' ''{}'') DirAgentToCore = Inr (PMetrics sample1)"
  by (simp add: DecodeTypedFor_def LookupType_cases spec_def decodeSpecPayload_def demo_wire_def DecodeData_def
      isDataEmpty_def demo_trim demo_sample demo_msg_def)

lemma demo_msg_sel [simp]: "msg_type (demo_msg t d) = t" "msg_ts (demo_msg t d) = 1000"
  by (simp_all add: demo_msg_def)

lemma demo_sample_frame:
  assumes "cn_state (hb_conn h i) = StateActive"
  shows "hb_calls (demo_frame i ''m'' n h) = (i, CallIngest (cn_dev (hb_conn h i)) sample1) # hb_calls h"
  using assms
  by (simp add: demo_frame_def frame_begin_def demo_decode allowFrame_def demo_channel_def LookupType_cases DirectionOf_def
      spec_def agentHandlers_def demo_skew refreshReadDeadline_def handleMetrics_def then_touch_def
      demo_decode_sample after_def conn_touch_def read_one_def Let_def)

lemma demo_envelope: "envelope_ok (wr_json demo_wire)
    \<lparr>msg_v = 1, msg_id = ''1'', msg_type = ''core.hello_ack'', msg_ts = 1000, msg_data = ''{}''\<rparr>"
  by (simp add: demo_wire_def envelope_ok_def isDecimalID_def ValidTypeName_def
      MaxTypeLen_def is_digit_def is_lower_def byte_def isDataEmpty_def demo_trim)

lemma demo_finish:
  assumes "cn_pc (hb_conn h i) = PcAck demo_ctx"
  shows "cn_state (hb_conn (demo_ack i h) i) = StateActive" "cn_done (hb_conn (demo_ack i h) j) = cn_done (hb_conn h j)"
    "cn_dev (hb_conn (demo_ack i h) j) = cn_dev (hb_conn h j)" "cn_buffered (hb_conn (demo_ack i h) j) = cn_buffered (hb_conn h j)"
    "hb_conns (demo_ack i h) = hb_conns h"
    "hb_calls (demo_ack i h) = hb_calls h" "hb_next (demo_ack i h) = hb_next h" "cn_pc (hb_conn (demo_ack i h) i) = PcRead"
proof -
  let ?m = "\<lparr>msg_v = 1, msg_id = ''1'', msg_type = ''core.hello_ack'', msg_ts = 1000, msg_data = ''{}''\<rparr>"
  have "frame_finish demo_channel demo_wire i demo_ctx 1000 1000 h = (setState i StateActive (fst (SendMessage demo_wire i ?m h)), True)"
    using demo_envelope
    by (simp add: frame_finish_def hello_finish_def demo_channel_def NewMessage_def MarshalPayload_def demo_wire_def
        demo_ctx_def CurrentVersion_def Validate_None [symmetric] conn_touch_def Let_def)
  then have e: "demo_ack i h = set_pc i PcRead (setState i StateActive (fst (SendMessage demo_wire i ?m h)))"
    using assms by (simp add: demo_ack_def)
  show "cn_state (hb_conn (demo_ack i h) i) = StateActive" "hb_conns (demo_ack i h) = hb_conns h"
    "hb_calls (demo_ack i h) = hb_calls h" "hb_next (demo_ack i h) = hb_next h" "cn_pc (hb_conn (demo_ack i h) i) = PcRead"
    unfolding e by (simp_all add: set_pc_def setState_def)
  have "cn_buffered (hb_conn (fst (SendMessage wr i m h)) j) = cn_buffered (hb_conn h j)" for wr m
    by (auto simp: SendMessage_def enqueue_def Let_def on_conn_def split: sum.splits)
  then show "cn_buffered (hb_conn (demo_ack i h) j) = cn_buffered (hb_conn h j)"
    unfolding e by (cases "j = i") (simp_all add: setState_def set_pc_def)
  show "cn_done (hb_conn (demo_ack i h) j) = cn_done (hb_conn h j)" "cn_dev (hb_conn (demo_ack i h) j) = cn_dev (hb_conn h j)"
    unfolding e by (cases "j = i"; simp add: setState_def)+
qed

lemma demo_1_props:
  "hb_next demo_1 = 2" "hb_conns demo_1 = [(7, 0)]" "hb_world demo_1" "cn_pc (hb_conn demo_1 0) = PcAck demo_ctx"
  "\<not> cn_done (hb_conn demo_1 0)" "cn_closes (hb_conn demo_1 0) = []" "cn_dev (hb_conn demo_1 0) = 7" "cn_buffered (hb_conn demo_1 0) = 1"
  "cn_state (hb_conn demo_1 1) = StateAwaitHello" "\<not> cn_expired (hb_conn demo_1 1)" "cn_pc (hb_conn demo_1 1) = PcRead"
  "hb_calls demo_1 = [(0, CallAccepting 7 (Some True)), (0, CallAuth demo_hello (Some 7))]"
  "\<not> cn_done (hb_conn demo_1 1)"
  by (simp_all add: demo_1_def demo_replace_def demo_hello_frame newConn_def demo_0_def NewHub_def close_replaced_def set_pc_def on_conn_def)

lemma demo_2_props:
  "hb_next demo_2 = 2" "hb_conns demo_2 = [(7, 1)]" "cn_pc (hb_conn demo_2 0) = PcAck demo_ctx" "cn_state (hb_conn demo_2 0) = StateClosed"
  "cn_done (hb_conn demo_2 0)" "cn_closes (hb_conn demo_2 0) = [(4004, CloseReason 4004)]" "cn_buffered (hb_conn demo_2 0) = 1"
  "cn_dev (hb_conn demo_2 0) = 7" "cn_dev (hb_conn demo_2 1) = 7"
  "hb_calls demo_2 = (1, CallAccepting 7 (Some True)) # (1, CallAuth demo_hello (Some 7)) # hb_calls demo_1"
  using demo_1_props
  by (simp_all add: demo_2_def demo_replace_def demo_hello_frame close_replaced_def CloseWith_def conn_finish_def set_pc_def on_conn_def)

lemma demo_runs: "demo_run demo_0 demo_1" "demo_run demo_0 demo_2" "demo_run demo_0 demo_3"
proof -
  have 0: "demo_run demo_0 (newConn None [] (newConn None [] demo_0))"
    by (rule hub_next_step [OF hub_next_step [OF hub_start hub_step.connect] hub_step.connect])
  show 1: "demo_run demo_0 demo_1" unfolding demo_1_def
    by (intro demo_replace_run demo_frame_run 0)
      (simp_all add: newConn_def demo_0_def NewHub_def readable_def demo_hello_frame)
  show 2: "demo_run demo_0 demo_2" unfolding demo_2_def
    using demo_1_props by (intro demo_replace_run demo_frame_run 1) (simp_all add: readable_def demo_hello_frame)
  have "cn_pc (hb_conn (demo_ack 0 demo_2) 0) = PcRead" "hb_next (demo_ack 0 demo_2) = 2"
    using demo_finish(7,8) demo_2_props by simp_all
  moreover have "cn_buffered (hb_conn (demo_ack 0 demo_2) 0) = 1" using demo_finish(4) demo_2_props by simp
  ultimately show "demo_run demo_0 demo_3" unfolding demo_3_def using demo_2_props
    by (intro demo_frame_run demo_ack_run 2) (simp_all add: readable_def)
qed

section \<open>Properties\<close>

lemma run_inv: "hub_run dp wr (NewHub opts w) h \<Longrightarrow> hub_inv {} {} h"
  by (rule hub_run_inv [OF _ new_hub_inv])

lemma trace_split: "trace_ok (xs @ x # ys) \<Longrightarrow> call_ok x ys"
  by (induction xs) auto

text \<open>C6: nothing is stored for a device that was not let in. In every run of the channel, under every
  interleaving of connections, notifications, drains and changes of the services, a sample is only handed on
  when it passed its validation and when the same connection had before been identified as that device, by its
  token or by an enrolment, and the device had been found enabled.\<close>
theorem deliveries_admitted:
  assumes "hub_run dp wr (NewHub opts w) h" "hb_calls h = later @ (i, CallIngest d s) # earlier"
  shows "metrics_validate s = None \<and> d \<noteq> 0 \<and> (i, CallAccepting d (Some True)) \<in> set earlier
     \<and> ((\<exists>hl. (i, CallAuth hl (Some d)) \<in> set earlier) \<or> (\<exists>hl ip. (i, CallEnroll hl ip (Some d)) \<in> set earlier))"
proof -
  have "trace_ok (hb_calls h)" using run_inv [OF assms(1)] by (simp add: hub_inv_def)
  then show ?thesis using trace_split assms(2) by (fastforce simp: admitted_def)
qed

lemma deliveries_admitted_witness:
  "metrics_validate sample1 = None \<and> (0, CallAccepting 7 (Some True)) \<in> set (hb_calls demo_2)"
proof -
  have c: "hb_calls demo_3 = [] @ (0, CallIngest 7 sample1) # hb_calls demo_2"
    using demo_sample_frame [OF demo_finish(1)] demo_finish [of demo_2 0] demo_2_props by (simp add: demo_3_def)
  show ?thesis using deliveries_admitted [OF demo_runs(3) [unfolded demo_0_def] c] by blast
qed

text \<open>A connection gets at most one close frame, its code is one the protocol lists and its reason is the
  protocol's own text for that code, in every run of the channel.\<close>
theorem close_frame_once:
  assumes "hub_run dp wr (NewHub opts w) h" "i < hb_next h"
  shows "length (cn_closes (hb_conn h i)) \<le> 1
     \<and> (\<forall>(code, r)\<in>set (cn_closes (hb_conn h i)). isRegisteredCloseCode code \<and> r = CloseReason code \<and> cn_done (hb_conn h i))"
  using hub_invD(1) [OF run_inv [OF assms(1)] assms(2)] unfolding conn_ok_def by (auto split: prod.splits)

lemma close_frame_once_witness:
  "isRegisteredCloseCode 4004 \<and> length (cn_closes (hb_conn demo_2 0)) = 1"
  using close_frame_once [OF demo_runs(2) [unfolded demo_0_def], of 0] demo_2_props by simp

text \<open>C7: a device has one connection. In every run, of two connections of the same device that have not
  been closed, one is being replaced at this moment: some handshake has put itself into the registry in its
  place and is about to close it. An open connection that is not being replaced is the one the registry gives
  for its device, so that notifications and the drain reach it.\<close>
theorem one_live_connection:
  assumes "hub_run dp wr (NewHub opts w) h" "i < hb_next h" "cn_dev (hb_conn h i) \<noteq> 0" "\<not> cn_done (hb_conn h i)"
  shows "(hub_Get (cn_dev (hb_conn h i)) h = Some i \<or> replacing h i)
     \<and> (\<forall>j<hb_next h. j \<noteq> i \<and> cn_dev (hb_conn h j) = cn_dev (hb_conn h i) \<and> \<not> cn_done (hb_conn h j) \<longrightarrow> replacing h i \<or> replacing h j)"
proof -
  have *: "map_of (hb_conns h) (cn_dev (hb_conn h j)) = Some j \<or> replacing h j"
    if "j < hb_next h" "cn_dev (hb_conn h j) \<noteq> 0" "\<not> cn_done (hb_conn h j)" for j
    using run_inv [OF assms(1)] that unfolding hub_inv_def by blast
  show ?thesis using * [OF assms(2-4)] * assms(3) by (fastforce simp: hub_Get_def)
qed

lemma one_live_connection_witness: "hub_Get 7 demo_1 = Some 0 \<or> replacing demo_1 0"
  using one_live_connection [OF demo_runs(1) [unfolded demo_0_def], of 0] demo_1_props by simp

lemma finish_shape:
  assumes "frame_finish dp wr i k now now' h = (h', True)"
  obtains x where "h' = conn_touch dp i (setState i StateActive x)" "cn_done (hb_conn x i) = cn_done (hb_conn h i)" "hb_conns x = hb_conns h"
proof -
  obtain h1 dir where rc: "(case dep_reconcile dp of None \<Rightarrow> (h, None)
      | Some rec \<Rightarrow> ask i (\<lambda>_. CallReconcile (hc_dev k)) (rec (hc_dev k) (hc_hello k)) h) = (h1, dir)" by fastforce
  then have "hb_conn h1 = hb_conn h" "hb_conns h1 = hb_conns h" by (auto simp: ask_sel split: option.splits)
  then show ?thesis
    using assms rc by (auto simp: frame_finish_def hello_finish_def split: sum.splits intro!: that)
qed

lemma drain_done:
  assumes "cn_done (hb_conn h i)"
  shows "hb_conn (fst (DrainAll h)) i = hb_conn h i"
proof -
  have "hb_conn (fold (\<lambda>j. CloseWith j 4007) js y) i = hb_conn y i" if "cn_done (hb_conn y i)" for js and y :: "'a hub"
    using that
  proof (induction js arbitrary: y)
    case (Cons j js)
    have "hb_conn (CloseWith j 4007 y) i = hb_conn y i"
      using Cons.prems by (cases "j = i") (auto simp: CloseWith_def conn_finish_def)
    then show ?case using Cons by simp
  qed simp
  then show ?thesis using assms by (simp add: DrainAll_def Let_def)
qed

text \<open>C8: a connection that was replaced during its own handshake comes back to life. The end of the handshake
  sets the state to active although the connection was closed; nothing can close it any more, neither the
  registry nor the drain reaches it, and the first frame it already holds in memory opens its read deadline
  again, so that it goes on serving although its successor is registered.\<close>
theorem replaced_connection_revived:
  assumes "cn_done (hb_conn h i)" "hub_Get d h \<noteq> Some i" "frame_finish dp wr i k now now' h = (h', True)"
  shows "cn_state (hb_conn h' i) = StateActive \<and> hub_Get d h' \<noteq> Some i \<and> CloseWith i code h' = h'
     \<and> hb_conn (fst (DrainAll h')) i = hb_conn h' i
     \<and> \<not> cn_expired (hb_conn (refreshReadDeadline i (read_one i n h')) i)"
proof -
  obtain x where x: "h' = conn_touch dp i (setState i StateActive x)" "cn_done (hb_conn x i)" "hb_conns x = hb_conns h"
    using finish_shape [OF assms(3)] assms(1) by metis
  have st: "cn_state (hb_conn h' i) = StateActive" "cn_done (hb_conn h' i)" "hb_conns h' = hb_conns h"
    using x by (simp_all add: setState_def)
  then show ?thesis using assms(2) drain_done [of h' i]
    by (simp add: hub_Get_def CloseWith_def refreshReadDeadline_def read_one_def)
qed

text \<open>The first connection of the run: closed with 4004 for its successor, active again, and it delivers.\<close>
lemma replaced_connection_revived_witness:
  "cn_closes (hb_conn demo_2 0) = [(4004, CloseReason 4004)] \<and> cn_state (hb_conn (demo_ack 0 demo_2) 0) = StateActive
   \<and> hub_run demo_channel demo_wire demo_0 demo_3 \<and> hb_calls demo_3 = (0, CallIngest 7 sample1) # hb_calls demo_2"
proof -
  obtain h' ok where f: "frame_finish demo_channel demo_wire 0 demo_ctx 1000 1000 demo_2 = (h', ok)" by fastforce
  have e: "demo_ack 0 demo_2 = set_pc 0 (if ok then PcRead else PcExit) h'"
    using f demo_2_props by (simp add: demo_ack_def)
  have a: "cn_pc (hb_conn (demo_ack 0 demo_2) 0) = PcRead" "cn_state (hb_conn (demo_ack 0 demo_2) 0) = StateActive"
    using demo_finish [of demo_2 0] demo_2_props by simp_all
  then have "ok" by (auto simp: e set_pc_def split: if_splits)
  then have "cn_state (hb_conn h' 0) = StateActive"
    using replaced_connection_revived [of demo_2 0 7] f demo_2_props by (auto simp: hub_Get_def)
  then show ?thesis
    using demo_sample_frame [OF a(2)] demo_finish [of demo_2 0] demo_2_props demo_runs(3) by (simp add: demo_3_def a)
qed

text \<open>C16: disabling a device does not stop its reports. What the channel does with any frame but a hello is the
  same whatever the services would answer about the device being enabled: the answer is asked for in the
  handshake and never again, so that a connected device goes on reporting after it was disabled or deleted.\<close>
theorem disabling_not_enforced:
  assumes "Decode (wr_json wr) raw = Inr m" "msg_type m \<noteq> ''agent.hello''"
  shows "handleFrame (dp\<lparr>dep_accepting := f\<rparr>) wr i raw now t t' h = handleFrame dp wr i raw now t t' h"
proof -
  have "frame_begin (dp\<lparr>dep_accepting := f\<rparr>) wr i raw now h = frame_begin dp wr i raw now h"
  proof -
    let ?dp = "dp\<lparr>dep_accepting := f\<rparr>"
    have "then_touch ?dp i r = then_touch dp i r" for r
      by (cases r) (simp add: then_touch_def conn_touch_def Let_def)
    moreover have "handleMetrics ?dp wr i m y = handleMetrics dp wr i m y"
      "handleUpgradeStatus ?dp wr i m y = handleUpgradeStatus dp wr i m y" for y
      by (auto simp: handleMetrics_def handleUpgradeStatus_def split: sum.split Payload.Payload.split)
    ultimately have "agentHandlers ?dp wr i m y = agentHandlers dp wr i m y" for y
      using assms(2) by (simp add: agentHandlers_def)
    moreover have "allowFrame ?dp i h = allowFrame dp i h" by (simp add: allowFrame_def Let_def)
    ultimately show ?thesis using assms(1) by (cases "allowFrame dp i h") (simp add: frame_begin_def)
  qed
  moreover have "snd (frame_begin dp wr i raw now h) \<noteq> Registered old k" for old k
    using assms by (auto simp: frame_begin_def agentHandlers_def then_touch_def end_with_def split: prod.splits if_splits)
  ultimately show ?thesis
    by (cases "frame_begin dp wr i raw now h") (auto simp: handleFrame_def split: progress.splits)
qed

text \<open>The device of the run is disabled, and its sample is stored all the same.\<close>
lemma disabling_not_enforced_witness:
  "handleFrame (demo_channel\<lparr>dep_accepting := Some (\<lambda>_ w. (w, Some False))\<rparr>) demo_wire 0 ''m'' 1000 0 0 demo_3
   = handleFrame demo_channel demo_wire 0 ''m'' 1000 0 0 demo_3"
  by (rule disabling_not_enforced [OF demo_decode(2)]) simp

text \<open>The agent cannot tell why it was not let in. A hello with valid fields and one credential is admitted exactly
  when the credential names a device and the device is found enabled. A wrong token, an unknown device, a
  disabled one and a failing service all give the same: the frame 4001, nothing sent, the registry as it was.\<close>
theorem hello_rejected_alike:
  assumes "Decode (wr_json wr) raw = Inr m" "msg_type m = ''agent.hello''" "dep_limiter dp = None"
    and "cn_state (hb_conn h i) = StateAwaitHello" "\<not> cn_done (hb_conn h i)"
    and "DecodeData (wr_dec wr) (msg_data m) (PHello zero_hello) = Inr (PHello hl)" "Credential hl = Inr kind" "hello_validate hl = None"
    and "hello_identify dp i kind hl (setState i StateEnrolling h) = (h1, a)"
  shows "if (case a of Some (d, _) \<Rightarrow> d \<noteq> 0 \<and> snd (conn_accept dp i d h1) | None \<Rightarrow> False)
     then \<exists>old k. snd (frame_begin dp wr i raw now h) = Registered old k
     else let (h', on) = handleFrame dp wr i raw now t t' h in \<not> on \<and> hb_conns h' = hb_conns h
       \<and> cn_closes (hb_conn h' i) = cn_closes (hb_conn h i) @ [(4001, CloseReason 4001)] \<and> cn_queue (hb_conn h' i) = cn_queue (hb_conn h i)"
proof -
  have b: "frame_begin dp wr i raw now h = hello_auth dp wr i m h"
    using assms(1-4) by (simp add: frame_begin_def allowFrame_def LookupType_cases DirectionOf_def spec_def agentHandlers_def)
  have h1: "hb_conn h1 = hb_conn (setState i StateEnrolling h)" "hb_conns h1 = hb_conns h"
    using assms(9) by (auto simp: hello_identify_def Let_def ask_sel setState_def split: CredentialKind.splits option.splits prod.splits)
  have over: "hb_conns x = hb_conns h \<and> \<not> cn_done (hb_conn x i) \<and> cn_closes (hb_conn x i) = cn_closes (hb_conn h i)
      \<and> cn_queue (hb_conn x i) = cn_queue (hb_conn h i)" if "hb_conn x = hb_conn h1" "hb_conns x = hb_conns h1" for x :: "'a hub"
    using that h1 assms(5) by (simp add: setState_def)
  show ?thesis
  proof (cases "\<exists>d t. a = Some (d, t) \<and> d \<noteq> 0")
    case False
    then have "frame_begin dp wr i raw now h = end_with i 4001 h1"
      using assms(4,6-9) unfolding b by (cases a) (auto simp: hello_auth_def)
    then show ?thesis using False over [of h1]
      by (auto simp: handleFrame_def end_with_def CloseWith_def conn_finish_def split: option.splits)
  next
    case True
    then obtain d tok where a: "a = Some (d, tok)" "d \<noteq> 0" by blast
    obtain h2 ok where c: "conn_accept dp i d h1 = (h2, ok)" by fastforce
    have h2: "hb_conn h2 = hb_conn h1" "hb_conns h2 = hb_conns h1"
      using c by (auto simp: conn_accept_def Let_def ask_sel split: option.splits prod.splits)
    have "frame_begin dp wr i raw now h = end_with i 4001 h2" if "\<not> ok"
      using that assms(4,6-9) a c unfolding b by (simp add: hello_auth_def)
    moreover have "\<exists>old k. snd (frame_begin dp wr i raw now h) = Registered old k" if "ok"
      using that assms(4,6-9) a c unfolding b by (auto simp: hello_auth_def split: prod.splits)
    ultimately show ?thesis using over [OF h2] a c
      by (auto simp: handleFrame_def end_with_def CloseWith_def conn_finish_def)
  qed
qed

lemma hello_rejected_alike_witness:
  "snd (frame_begin demo_channel demo_wire 1 ''h'' 1000 demo_1) \<noteq> LoopEnd"
proof -
  have i: "hello_identify demo_channel 1 CredentialAgent demo_hello (setState 1 StateEnrolling demo_1)
     = ((setState 1 StateEnrolling demo_1)\<lparr>hb_calls := (1, CallAuth demo_hello (Some 7)) # hb_calls demo_1\<rparr>, Some (7, []))"
    by (simp add: hello_identify_def demo_channel_def ask_def setState_def)
  have "\<exists>old k. snd (frame_begin demo_channel demo_wire 1 ''h'' 1000 demo_1) = Registered old k"
    using hello_rejected_alike [OF demo_decode(1) _ _ demo_1_props(9) demo_1_props(13) _ demo_hello_ok(1,2) i, of 1000] demo_1_props
    by (simp add: demo_channel_def conn_accept_def ask_def demo_hello_ok demo_msg_def Let_def setState_def)
  then show ?thesis by auto
qed

end
