(* ===== verification/AgentIngest.thy ===== *)
theory AgentIngest
  imports AgentHub
begin

text \<open>
  Enrolment and authentication of agents: \<open>src/uni_core/internal/service/agent_ingest.go\<close> over the device table of
  \<open>repository/device.go\<close>. The table is the list of its rows, deleted ones included, since the unique indexes on the
  instance and on the token hash cover them. Every statement takes an entry of a script: it works, it fails, or
  another request inserts a row first. The random token, the identifiers of new rows and the hash are parameters.
\<close>

section \<open>The device table\<close>

record Device =
  dv_id :: "64 word"
  dv_instance :: string
  dv_hostname :: string
  dv_os :: string
  dv_platform :: string
  dv_platform_ver :: string
  dv_kernel :: string
  dv_arch :: string
  dv_cpu_model :: string
  dv_cpu_cores :: int
  dv_mem_total_mb :: F64
  dv_agent_version :: string
  dv_status :: int
  dv_token_hash :: string
  dv_boot_time :: int
  dv_last_seen :: "int option"
  dv_primary_ip :: string
  dv_group :: string
  dv_tags :: string
  dv_target :: string
  dv_up_state :: int
  dv_up_reason :: string
  dv_up_at :: "int option"
  dv_up_supported :: int
  dv_deleted :: bool

datatype db_event = DbOk | DbFail | DbInsert Device

record devdb =
  db_rows :: "Device list"
  db_script :: "db_event list"

datatype db_error = DbNotFound | DbDuplicate | DbBroken

definition DeviceStatusDisabled :: int where "DeviceStatusDisabled = 0"
definition DeviceStatusEnabled :: int where "DeviceStatusEnabled = 1"

definition clashes :: "Device list \<Rightarrow> Device \<Rightarrow> bool" where
  "clashes rows d \<longleftrightarrow>
     list_ex (\<lambda>r. dv_id r = dv_id d \<or> dv_instance r = dv_instance d \<or> dv_token_hash r = dv_token_hash d) rows"

definition insert_row :: "Device \<Rightarrow> Device list \<Rightarrow> Device list" where
  "insert_row d rows = (if clashes rows d then rows else rows @ [d])"

text \<open>One statement: the script decides first.\<close>
definition stmt :: "(Device list \<Rightarrow> Device list \<times> (db_error, 'a) result) \<Rightarrow> devdb \<Rightarrow> devdb \<times> (db_error, 'a) result" where
  "stmt f db =
     (let rest = db\<lparr>db_script := tl (db_script db)\<rparr>;
          run = (\<lambda>rows. let (rows', r) = f rows in (rest\<lparr>db_rows := rows'\<rparr>, r))
      in case db_script db of
           DbFail # _ \<Rightarrow> (rest, Inl DbBroken)
         | DbInsert d # _ \<Rightarrow> run (insert_row d (db_rows db))
         | _ \<Rightarrow> run (db_rows db))"

definition first_row :: "(Device \<Rightarrow> bool) \<Rightarrow> Device list \<Rightarrow> Device option" where
  "first_row p rows = find (\<lambda>d. \<not> dv_deleted d \<and> p d) rows"

definition dev_find :: "(Device \<Rightarrow> bool) \<Rightarrow> devdb \<Rightarrow> devdb \<times> (db_error, Device) result" where
  "dev_find p = stmt (\<lambda>rows. (rows, case first_row p rows of Some d \<Rightarrow> Inr d | None \<Rightarrow> Inl DbNotFound))"

definition FindByID :: "64 word \<Rightarrow> devdb \<Rightarrow> devdb \<times> (db_error, Device) result" where
  "FindByID i = dev_find (\<lambda>d. dv_id d = i)"

definition FindByInstanceID :: "string \<Rightarrow> devdb \<Rightarrow> devdb \<times> (db_error, Device) result" where
  "FindByInstanceID inst = dev_find (\<lambda>d. dv_instance d = inst)"

definition FindByTokenHash :: "string \<Rightarrow> devdb \<Rightarrow> devdb \<times> (db_error, Device) result" where
  "FindByTokenHash hash = dev_find (\<lambda>d. dv_token_hash d = hash)"

definition dev_Create :: "Device \<Rightarrow> devdb \<Rightarrow> devdb \<times> (db_error, unit) result" where
  "dev_Create d = stmt (\<lambda>rows. if clashes rows d then (rows, Inl DbDuplicate) else (rows @ [d], Inr ()))"

text \<open>An update by primary key reaches no deleted row.\<close>
definition dev_update :: "64 word \<Rightarrow> (Device \<Rightarrow> Device) \<Rightarrow> devdb \<Rightarrow> devdb \<times> (db_error, unit) result" where
  "dev_update i f = stmt (\<lambda>rows.
     if list_ex (\<lambda>d. \<not> dv_deleted d \<and> dv_id d = i) rows
     then (map (\<lambda>d. if \<not> dv_deleted d \<and> dv_id d = i then f d else d) rows, Inr ())
     else (rows, Inl DbNotFound))"

text \<open>The columns an agent reports about itself.\<close>
definition copy_static :: "Device \<Rightarrow> Device \<Rightarrow> Device" where
  "copy_static src d = d\<lparr>dv_hostname := dv_hostname src, dv_os := dv_os src, dv_arch := dv_arch src, dv_kernel := dv_kernel src,
     dv_agent_version := dv_agent_version src, dv_platform := dv_platform src, dv_platform_ver := dv_platform_ver src,
     dv_cpu_model := dv_cpu_model src, dv_cpu_cores := dv_cpu_cores src, dv_mem_total_mb := dv_mem_total_mb src,
     dv_boot_time := dv_boot_time src, dv_up_supported := dv_up_supported src\<rparr>"

definition UpdateEnroll :: "Device \<Rightarrow> devdb \<Rightarrow> devdb \<times> (db_error, unit) result" where
  "UpdateEnroll src = dev_update (dv_id src)
     (\<lambda>d. (copy_static src d)\<lparr>dv_token_hash := dv_token_hash src, dv_primary_ip := dv_primary_ip src\<rparr>)"

definition RefreshStaticFromHello :: "Device \<Rightarrow> devdb \<Rightarrow> devdb \<times> (db_error, unit) result" where
  "RefreshStaticFromHello src = dev_update (dv_id src) (copy_static src)"

definition dev_Touch :: "64 word \<Rightarrow> int \<Rightarrow> devdb \<Rightarrow> devdb \<times> (db_error, unit) result" where
  "dev_Touch i now = stmt (\<lambda>rows.
     (map (\<lambda>d. if \<not> dv_deleted d \<and> dv_id d = i then d\<lparr>dv_last_seen := Some now\<rparr> else d) rows, Inr ()))"

definition SetStatus :: "64 word \<Rightarrow> int \<Rightarrow> devdb \<Rightarrow> devdb \<times> (db_error, unit) result" where
  "SetStatus i st = dev_update i (\<lambda>d. d\<lparr>dv_status := st\<rparr>)"

definition SetUpgradeTarget :: "64 word \<Rightarrow> string \<Rightarrow> devdb \<Rightarrow> devdb \<times> (db_error, unit) result" where
  "SetUpgradeTarget i t = dev_update i (\<lambda>d. d\<lparr>dv_target := t\<rparr>)"

definition SetUpgradeTerminal :: "64 word \<Rightarrow> int \<Rightarrow> string \<Rightarrow> int \<Rightarrow> devdb \<Rightarrow> devdb \<times> (db_error, unit) result" where
  "SetUpgradeTerminal i st code now = dev_update i (\<lambda>d. d\<lparr>dv_up_state := st, dv_up_reason := code, dv_up_at := Some now\<rparr>)"

text \<open>A soft delete keeps the row.\<close>
definition dev_Delete :: "64 word \<Rightarrow> devdb \<Rightarrow> devdb \<times> (db_error, unit) result" where
  "dev_Delete i = dev_update i (\<lambda>d. d\<lparr>dv_deleted := True\<rparr>)"

section \<open>The service\<close>

datatype app_error = BadRequest | NotFound | Internal | Conflict

text \<open>The configured token, the hash of tokens, and what the random source and the identifier source give next.\<close>
record ingest_env =
  en_token :: string
  en_sha :: "string \<Rightarrow> string"
  en_random :: "string option"
  en_new_id :: "64 word"

definition hashToken :: "ingest_env \<Rightarrow> string \<Rightarrow> string" where
  "hashToken en = en_sha en"

definition newAgentToken :: "ingest_env \<Rightarrow> (string \<times> string) option" where
  "newAgentToken en = map_option (\<lambda>t. (t, hashToken en t)) (en_random en)"

definition from_hello :: "Hello \<Rightarrow> Device \<Rightarrow> Device" where
  "from_hello hl d = d\<lparr>dv_hostname := h_hostname hl, dv_os := h_os hl, dv_arch := h_arch hl, dv_kernel := h_kernel hl,
     dv_agent_version := h_agent_version hl, dv_platform := h_platform hl, dv_platform_ver := h_platform_ver hl,
     dv_cpu_model := h_cpu_model hl, dv_cpu_cores := h_cpu_cores hl, dv_mem_total_mb := h_mem_total_mb hl,
     dv_boot_time := h_boot_time hl, dv_up_supported := (if h_upgrade_supported hl then 1 else 0)\<rparr>"

definition new_device :: "ingest_env \<Rightarrow> Hello \<Rightarrow> string \<Rightarrow> string \<Rightarrow> Device" where
  "new_device en hl remoteIP hash =
     from_hello hl \<lparr>dv_id = en_new_id en, dv_instance = h_instance_id hl, dv_hostname = [], dv_os = [], dv_platform = [],
       dv_platform_ver = [], dv_kernel = [], dv_arch = [], dv_cpu_model = [], dv_cpu_cores = 0, dv_mem_total_mb = Fin 0,
       dv_agent_version = [], dv_status = DeviceStatusEnabled, dv_token_hash = hash, dv_boot_time = 0, dv_last_seen = None,
       dv_primary_ip = remoteIP, dv_group = [], dv_tags = [], dv_target = [], dv_up_state = 0, dv_up_reason = [],
       dv_up_at = None, dv_up_supported = 0, dv_deleted = False\<rparr>"

text \<open>The instance is known: its fields are refreshed and its token replaced.\<close>
definition enroll_known :: "Hello \<Rightarrow> string \<Rightarrow> string \<Rightarrow> string \<Rightarrow> Device \<Rightarrow> devdb \<Rightarrow> devdb \<times> (app_error, 64 word \<times> string) result" where
  "enroll_known hl remoteIP token hash existing db =
     (let d = (from_hello hl existing)\<lparr>dv_token_hash := hash\<rparr>;
          d = (if remoteIP \<noteq> [] then d\<lparr>dv_primary_ip := remoteIP\<rparr> else d)
      in case UpdateEnroll d db of
           (db, Inl _) \<Rightarrow> (db, Inl Internal)
         | (db, Inr _) \<Rightarrow> (db, Inr (dv_id existing, token)))"

text \<open>The insertion of a new device, and the reading back after a clash.\<close>
definition enroll_new :: "ingest_env \<Rightarrow> Hello \<Rightarrow> string \<Rightarrow> string \<Rightarrow> string \<Rightarrow> devdb \<Rightarrow> devdb \<times> (app_error, 64 word \<times> string) result" where
  "enroll_new en hl remoteIP token hash db =
     (case dev_Create (new_device en hl remoteIP hash) db of
        (db, Inr _) \<Rightarrow> (db, Inr (en_new_id en, token))
      | (db, Inl DbDuplicate) \<Rightarrow>
          (case FindByInstanceID (h_instance_id hl) db of
             (db, Inl _) \<Rightarrow> (db, Inl Internal)
           | (db, Inr again) \<Rightarrow>
               (case UpdateEnroll (again\<lparr>dv_token_hash := hash\<rparr>) db of
                  (db, Inl _) \<Rightarrow> (db, Inl Internal)
                | (db, Inr _) \<Rightarrow> (db, Inr (dv_id again, token))))
      | (db, Inl _) \<Rightarrow> (db, Inl Internal))"

definition Enroll :: "ingest_env \<Rightarrow> Hello \<Rightarrow> string \<Rightarrow> devdb \<Rightarrow> devdb \<times> (app_error, 64 word \<times> string) result" where
  "Enroll en hl remoteIP db =
     (if en_token en = [] then (db, Inl Internal)
      else if h_enroll_token hl \<noteq> en_token en then (db, Inl BadRequest)
      else case newAgentToken en of
        None \<Rightarrow> (db, Inl Internal)
      | Some (token, hash) \<Rightarrow>
          (case FindByInstanceID (h_instance_id hl) db of
             (db, Inr existing) \<Rightarrow> enroll_known hl remoteIP token hash existing db
           | (db, Inl _) \<Rightarrow> enroll_new en hl remoteIP token hash db))"

definition refreshStatic :: "Device \<Rightarrow> Hello \<Rightarrow> devdb \<Rightarrow> devdb" where
  "refreshStatic d hl db = fst (RefreshStaticFromHello (from_hello hl d) db)"

definition Authenticate :: "ingest_env \<Rightarrow> Hello \<Rightarrow> devdb \<Rightarrow> devdb \<times> (app_error, 64 word) result" where
  "Authenticate en hl db =
     (if h_agent_token hl = [] then (db, Inl BadRequest)
      else case FindByTokenHash (hashToken en (h_agent_token hl)) db of
        (db, Inl DbNotFound) \<Rightarrow> (db, Inl BadRequest)
      | (db, Inl _) \<Rightarrow> (db, Inl Internal)
      | (db, Inr d) \<Rightarrow> (refreshStatic d hl db, Inr (dv_id d)))"

definition AuthenticateDownload :: "ingest_env \<Rightarrow> string \<Rightarrow> devdb \<Rightarrow> devdb \<times> (app_error, Device) result" where
  "AuthenticateDownload en token db =
     (if token = [] then (db, Inl BadRequest)
      else case FindByTokenHash (hashToken en token) db of
        (db, Inl DbNotFound) \<Rightarrow> (db, Inl BadRequest)
      | (db, Inl _) \<Rightarrow> (db, Inl Internal)
      | (db, Inr d) \<Rightarrow> (db, if dv_status d \<noteq> DeviceStatusEnabled then Inl BadRequest else Inr d))"

definition IsAccepting :: "64 word \<Rightarrow> devdb \<Rightarrow> devdb \<times> (app_error, bool) result" where
  "IsAccepting i db =
     (case FindByID i db of
        (db, Inl DbNotFound) \<Rightarrow> (db, Inr False)
      | (db, Inl _) \<Rightarrow> (db, Inl Internal)
      | (db, Inr d) \<Rightarrow> (db, Inr (dv_status d = DeviceStatusEnabled)))"

definition ingest_Touch :: "64 word \<Rightarrow> int \<Rightarrow> devdb \<Rightarrow> devdb \<times> (db_error, unit) result" where
  "ingest_Touch = dev_Touch"

text \<open>The raw window and the latest sample are parameters; the latest is only written after the window.\<close>
definition Ingest :: "('w \<Rightarrow> 'w \<times> bool) \<Rightarrow> ('w \<Rightarrow> 'w \<times> bool) \<Rightarrow> 'w \<Rightarrow> 'w \<times> bool" where
  "Ingest to_raw set_latest w = (case to_raw w of (w, False) \<Rightarrow> (w, False) | (w, True) \<Rightarrow> set_latest w)"

section \<open>The management side\<close>

definition findDevice :: "64 word \<Rightarrow> devdb \<Rightarrow> devdb \<times> (app_error, Device) result" where
  "findDevice i db =
     (case FindByID i db of
        (db, Inl DbNotFound) \<Rightarrow> (db, Inl NotFound)
      | (db, Inl _) \<Rightarrow> (db, Inl Internal)
      | (db, Inr d) \<Rightarrow> (db, Inr d))"

definition setStatus :: "64 word \<Rightarrow> int \<Rightarrow> devdb \<Rightarrow> devdb \<times> app_error option" where
  "setStatus i st db =
     (case SetStatus i st db of
        (db, Inl DbNotFound) \<Rightarrow> (db, Some NotFound)
      | (db, Inl _) \<Rightarrow> (db, Some Internal)
      | (db, Inr _) \<Rightarrow> (db, None))"

definition device_Enable :: "64 word \<Rightarrow> devdb \<Rightarrow> devdb \<times> app_error option" where
  "device_Enable i = setStatus i DeviceStatusEnabled"

definition device_Disable :: "64 word \<Rightarrow> devdb \<Rightarrow> devdb \<times> app_error option" where
  "device_Disable i = setStatus i DeviceStatusDisabled"

text \<open>The removal of the resource rows is a parameter; a failing purge of Redis is only logged.\<close>
definition device_Delete :: "(64 word \<Rightarrow> bool) \<Rightarrow> 64 word \<Rightarrow> devdb \<Rightarrow> devdb \<times> app_error option" where
  "device_Delete resources_ok i db =
     (case findDevice i db of
        (db, Inl e) \<Rightarrow> (db, Some e)
      | (db, Inr _) \<Rightarrow>
          if \<not> resources_ok i then (db, Some Internal)
          else case dev_Delete i db of (db, Inl _) \<Rightarrow> (db, Some Internal) | (db, Inr _) \<Rightarrow> (db, None))"

end
