(* ===== verification/UpgradeTable.thy ===== *)
theory UpgradeTable
  imports AgentIngest
begin

text \<open>
  The tables of the upgrade domain: the attempts and the tasks of \<open>repository/agent_upgrade.go\<close> and
  \<open>model/entity/agent_upgrade.go\<close>, the releases of \<open>repository/agent_release.go\<close>, and beside them the device table and
  the site-wide target. Every statement takes an entry of a script: it works, it fails, or other requests write the
  attempts table first. The clock and the generator of identifiers are parameters of the world.
\<close>

section \<open>Rows\<close>

record Attempt =
  at_id :: "64 word"
  at_created :: int
  at_task :: "64 word option"
  at_device :: "64 word"
  at_from :: string
  at_to :: string
  at_request :: string
  at_state :: string
  at_progress :: "int option"
  at_reason :: string
  at_detail :: string
  at_started :: "int option"
  at_report :: "int option"
  at_finished :: "int option"

record UpgradeTask =
  tk_id :: "64 word"
  tk_version :: string
  tk_source :: string
  tk_actor :: string
  tk_total :: nat
  tk_finished :: "int option"

record Release =
  rl_id :: "64 word"
  rl_version :: string
  rl_os :: string
  rl_arch :: string
  rl_size :: int
  rl_sha256 :: string
  rl_key :: string
  rl_status :: int
  rl_published :: "int option"

definition AgentReleaseDraft :: int where "AgentReleaseDraft = 0"
definition AgentReleasePublished :: int where "AgentReleasePublished = 1"

definition DeviceUpgradeAchieved :: int where "DeviceUpgradeAchieved = 1"
definition DeviceUpgradeFailed :: int where "DeviceUpgradeFailed = 2"
definition DeviceUpgradeRolledBack :: int where "DeviceUpgradeRolledBack = 3"

definition attemptTerminalStates :: "string list" where
  "attemptTerminalStates = [''failed'', ''rolled_back'', ''succeeded'', ''timeout'', ''superseded'']"

definition IsAttemptTerminal :: "string \<Rightarrow> bool" where
  "IsAttemptTerminal s \<longleftrightarrow> s \<in> set attemptTerminalStates"

section \<open>The world of the upgrade domain\<close>

datatype up_event = UpOk | UpFail | UpOther "Attempt list \<Rightarrow> Attempt list"

record upworld =
  uw_dev :: devdb
  uw_att :: "Attempt list"
  uw_tasks :: "UpgradeTask list"
  uw_rel :: "Release list"
  uw_script :: "up_event list"
  uw_target :: string
  uw_clock :: "nat \<Rightarrow> int"
  uw_tick :: nat
  uw_ids :: "nat \<Rightarrow> 64 word"
  uw_made :: nat
  uw_seq :: "64 word"
  uw_sent :: "(64 word \<times> UpgradeDirective) list"

text \<open>One reading of the clock, in nanoseconds.\<close>
definition clock_now :: "upworld \<Rightarrow> upworld \<times> int" where
  "clock_now w = (w\<lparr>uw_tick := uw_tick w + 1\<rparr>, uw_clock w (uw_tick w))"

definition fresh_id :: "upworld \<Rightarrow> upworld \<times> 64 word" where
  "fresh_id w = (w\<lparr>uw_made := uw_made w + 1\<rparr>, uw_ids w (uw_made w))"

text \<open>The world a statement works on: the script is shorter, and the others have written.\<close>
definition arrive :: "upworld \<Rightarrow> upworld" where
  "arrive w =
     (let w' = w\<lparr>uw_script := tl (uw_script w)\<rparr>
      in case uw_script w of UpOther g # _ \<Rightarrow> w'\<lparr>uw_att := g (uw_att w)\<rparr> | _ \<Rightarrow> w')"

definition up_stmt :: "(upworld \<Rightarrow> upworld \<times> (db_error, 'a) result) \<Rightarrow> upworld \<Rightarrow> upworld \<times> (db_error, 'a) result" where
  "up_stmt f w = (case uw_script w of UpFail # _ \<Rightarrow> (arrive w, Inl DbBroken) | _ \<Rightarrow> f (arrive w))"

text \<open>A statement on the device table.\<close>
definition on_dev :: "(devdb \<Rightarrow> devdb \<times> 'b) \<Rightarrow> upworld \<Rightarrow> upworld \<times> 'b" where
  "on_dev f w = (case f (uw_dev w) of (db, r) \<Rightarrow> (w\<lparr>uw_dev := db\<rparr>, r))"

section \<open>Attempts\<close>

definition at_open :: "Attempt \<Rightarrow> bool" where
  "at_open a \<longleftrightarrow> \<not> IsAttemptTerminal (at_state a)"

definition by_id_desc :: "Attempt list \<Rightarrow> Attempt list" where
  "by_id_desc as = rev (sort_key at_id as)"

definition first_of :: "'a list \<Rightarrow> (db_error, 'a) result" where
  "first_of xs = (case xs of [] \<Rightarrow> Inl DbNotFound | x # _ \<Rightarrow> Inr x)"

text \<open>The identifier is made by the callback; the primary key and the pair of device and request are unique.\<close>
definition Attempt_Create :: "Attempt \<Rightarrow> upworld \<Rightarrow> upworld \<times> (db_error, Attempt) result" where
  "Attempt_Create a0 = up_stmt (\<lambda>w.
     let (w, i) = fresh_id w; a = a0\<lparr>at_id := i\<rparr>
     in if list_ex (\<lambda>r. at_id r = i \<or> (at_device r = at_device a \<and> at_request r = at_request a)) (uw_att w)
        then (w, Inl DbDuplicate) else (w\<lparr>uw_att := uw_att w @ [a]\<rparr>, Inr a))"

definition FindByRequestID :: "64 word \<Rightarrow> string \<Rightarrow> upworld \<Rightarrow> upworld \<times> (db_error, Attempt) result" where
  "FindByRequestID d rid = up_stmt (\<lambda>w.
     (w, first_of (sort_key at_id (filter (\<lambda>a. at_device a = d \<and> at_request a = rid) (uw_att w)))))"

definition FindOpenByDevice :: "64 word \<Rightarrow> upworld \<Rightarrow> upworld \<times> (db_error, Attempt) result" where
  "FindOpenByDevice d = up_stmt (\<lambda>w.
     (w, first_of (by_id_desc (filter (\<lambda>a. at_device a = d \<and> at_open a) (uw_att w)))))"

text \<open>The newest open row of each of the devices.\<close>
definition FindOpenByDevices :: "64 word list \<Rightarrow> upworld \<Rightarrow> upworld \<times> (db_error, 64 word \<Rightarrow> Attempt option) result" where
  "FindOpenByDevices ds w =
     (if ds = [] then (w, Inr Map.empty)
      else up_stmt (\<lambda>w. (w, Inr (foldl (\<lambda>m a. case m (at_device a) of None \<Rightarrow> m(at_device a \<mapsto> a) | Some _ \<Rightarrow> m) Map.empty
             (by_id_desc (filter (\<lambda>a. at_device a \<in> set ds \<and> at_open a) (uw_att w)))))) w)"

definition ListByDevice :: "64 word \<Rightarrow> int \<Rightarrow> upworld \<Rightarrow> upworld \<times> (db_error, Attempt list) result" where
  "ListByDevice d limit w =
     (if limit \<le> 0 then (w, Inr [])
      else up_stmt (\<lambda>w. (w, Inr (take (nat limit) (by_id_desc (filter (\<lambda>a. at_device a = d) (uw_att w)))))) w)"

definition FindLastSucceededFrom :: "64 word \<Rightarrow> upworld \<Rightarrow> upworld \<times> (db_error, string) result" where
  "FindLastSucceededFrom d = up_stmt (\<lambda>w.
     (w, Inr (case by_id_desc (filter (\<lambda>a. at_device a = d \<and> at_state a = ''succeeded'') (uw_att w)) of
                [] \<Rightarrow> [] | a # _ \<Rightarrow> at_from a)))"

definition VersionWasUsed :: "string \<Rightarrow> upworld \<Rightarrow> upworld \<times> (db_error, bool) result" where
  "VersionWasUsed v = up_stmt (\<lambda>w. (w, Inr (list_ex (\<lambda>a. at_to a = v \<or> at_from a = v) (uw_att w))))"

text \<open>The last sign of life of an attempt that has started.\<close>
definition last_sign :: "Attempt \<Rightarrow> int option" where
  "last_sign a = (case at_report a of Some t \<Rightarrow> Some t | None \<Rightarrow> at_started a)"

definition stale :: "int \<Rightarrow> Attempt \<Rightarrow> bool" where
  "stale before a \<longleftrightarrow> at_open a \<and> (case last_sign a of Some t \<Rightarrow> t < before | None \<Rightarrow> False)"

definition FindStale :: "int \<Rightarrow> nat \<Rightarrow> upworld \<Rightarrow> upworld \<times> (db_error, Attempt list) result" where
  "FindStale before limit = up_stmt (\<lambda>w. (w, Inr (take limit (sort_key at_id (filter (stale before) (uw_att w))))))"

text \<open>An update of the open rows a condition selects; the number of rows is the result.\<close>
definition upd_open :: "(Attempt \<Rightarrow> bool) \<Rightarrow> (Attempt \<Rightarrow> Attempt) \<Rightarrow> upworld \<Rightarrow> upworld \<times> (db_error, nat) result" where
  "upd_open p f = up_stmt (\<lambda>w.
     (w\<lparr>uw_att := map (\<lambda>a. if p a \<and> at_open a then f a else a) (uw_att w)\<rparr>,
      Inr (length (filter (\<lambda>a. p a \<and> at_open a) (uw_att w)))))"

definition finish :: "string \<Rightarrow> string \<Rightarrow> int \<Rightarrow> Attempt \<Rightarrow> Attempt" where
  "finish st code now a = a\<lparr>at_state := st, at_reason := code, at_progress := None, at_finished := Some now\<rparr>"

definition SupersedeOpen :: "64 word \<Rightarrow> int \<Rightarrow> upworld \<Rightarrow> upworld \<times> (db_error, nat) result" where
  "SupersedeOpen d now = upd_open (\<lambda>a. at_device a = d)
     (\<lambda>a. a\<lparr>at_state := ''superseded'', at_reason := ''superseded'', at_finished := Some now\<rparr>)"

definition FinishOpen :: "64 word \<Rightarrow> string \<Rightarrow> string \<Rightarrow> int \<Rightarrow> upworld \<Rightarrow> upworld \<times> (db_error, nat) result" where
  "FinishOpen d st code now = upd_open (\<lambda>a. at_device a = d) (finish st code now)"

definition FinishByID :: "64 word \<Rightarrow> string \<Rightarrow> string \<Rightarrow> int \<Rightarrow> upworld \<Rightarrow> upworld \<times> (db_error, nat) result" where
  "FinishByID i st code now = upd_open (\<lambda>a. at_id a = i) (finish st code now)"

text \<open>The columns a report writes.\<close>
definition report_cols :: "Attempt \<Rightarrow> Attempt \<Rightarrow> Attempt" where
  "report_cols src a = a\<lparr>at_state := at_state src, at_progress := at_progress src, at_reason := at_reason src,
     at_detail := at_detail src, at_report := at_report src, at_started := at_started src, at_finished := at_finished src\<rparr>"

definition UpdateReport :: "Attempt \<Rightarrow> upworld \<Rightarrow> upworld \<times> (db_error, unit) result" where
  "UpdateReport src w =
     (case upd_open (\<lambda>a. at_id a = at_id src) (report_cols src) w of
        (w, Inl e) \<Rightarrow> (w, Inl e)
      | (w, Inr n) \<Rightarrow> (w, if n = 0 then Inl DbNotFound else Inr ()))"

section \<open>Tasks\<close>

definition Task_Create :: "UpgradeTask \<Rightarrow> upworld \<Rightarrow> upworld \<times> (db_error, 64 word) result" where
  "Task_Create t0 = up_stmt (\<lambda>w.
     let (w, i) = fresh_id w
     in if list_ex (\<lambda>t. tk_id t = i) (uw_tasks w) then (w, Inl DbDuplicate)
        else (w\<lparr>uw_tasks := uw_tasks w @ [t0\<lparr>tk_id := i\<rparr>]\<rparr>, Inr i))"

definition Task_FindByID :: "64 word \<Rightarrow> upworld \<Rightarrow> upworld \<times> (db_error, UpgradeTask) result" where
  "Task_FindByID i = up_stmt (\<lambda>w. (w, first_of (filter (\<lambda>t. tk_id t = i) (uw_tasks w))))"

definition CountsByTask :: "64 word \<Rightarrow> upworld \<Rightarrow> upworld \<times> (db_error, string \<Rightarrow> nat) result" where
  "CountsByTask i = up_stmt (\<lambda>w. (w, Inr (\<lambda>s. length (filter (\<lambda>a. at_task a = Some i \<and> at_state a = s) (uw_att w)))))"

text \<open>No row of the task is open.\<close>
definition settled :: "64 word \<Rightarrow> Attempt list \<Rightarrow> bool" where
  "settled i as \<longleftrightarrow> \<not> list_ex (\<lambda>a. at_task a = Some i \<and> at_open a) as"

definition MarkFinishedIfSettled :: "64 word \<Rightarrow> int \<Rightarrow> upworld \<Rightarrow> upworld \<times> (db_error, bool) result" where
  "MarkFinishedIfSettled i now = up_stmt (\<lambda>w.
     let hit = (\<lambda>t. tk_id t = i \<and> tk_finished t = None \<and> settled i (uw_att w))
     in (w\<lparr>uw_tasks := map (\<lambda>t. if hit t then t\<lparr>tk_finished := Some now\<rparr> else t) (uw_tasks w)\<rparr>,
         Inr (list_ex hit (uw_tasks w))))"

section \<open>Releases\<close>

definition FindByPlatform :: "string \<Rightarrow> string \<Rightarrow> string \<Rightarrow> bool \<Rightarrow> upworld \<Rightarrow> upworld \<times> (db_error, Release) result" where
  "FindByPlatform v os arch onlyPublished = up_stmt (\<lambda>w.
     (w, first_of (sort_key rl_id (filter (\<lambda>r. rl_version r = v \<and> rl_os r = os \<and> rl_arch r = arch
           \<and> (onlyPublished \<longrightarrow> rl_status r = AgentReleasePublished)) (uw_rel w)))))"

definition ListByVersion :: "string \<Rightarrow> upworld \<Rightarrow> upworld \<times> (db_error, Release list) result" where
  "ListByVersion v = up_stmt (\<lambda>w.
     (w, Inr (filter (\<lambda>r. rl_version r = v \<and> rl_status r = AgentReleasePublished) (uw_rel w))))"

end
