(* ===== verification/DeviceUpgrade.thy ===== *)
theory DeviceUpgrade
  imports UpgradeTable
begin

text \<open>
  The upgrade domain of the core service: \<open>src/uni_core/internal/service/device_upgrade.go\<close>,
  \<open>device_upgrade_command.go\<close>, \<open>device_upgrade_query.go\<close> and the patrol task, over the tables of UpgradeTable. An
  agent's hello settles its open attempt and may fetch a directive, its reports advance the attempt, the console
  dispatches versions to devices, and the patrol times out the attempts that went silent. Log lines are left out;
  the name of the operator is an argument.
\<close>

section \<open>Selecting devices\<close>

record DeviceQuery =
  dq_hostname :: string
  dq_status :: "int option"
  dq_online :: "bool option"
  dq_ip :: string
  dq_version :: string
  dq_group :: string

definition any_device :: DeviceQuery where
  "any_device = \<lparr>dq_hostname = [], dq_status = None, dq_online = None, dq_ip = [], dq_version = [], dq_group = []\<rparr>"

text \<open>The database's pattern match on a fragment, whether a notifier is installed, and the offline threshold.\<close>
record upenv =
  ue_like :: "string \<Rightarrow> string \<Rightarrow> bool"
  ue_notifier :: bool
  ue_threshold :: int

definition applyFilters :: "upenv \<Rightarrow> DeviceQuery \<Rightarrow> int \<Rightarrow> Device \<Rightarrow> bool" where
  "applyFilters en q onlineSince d \<longleftrightarrow>
     (dq_hostname q \<noteq> [] \<longrightarrow> ue_like en (dq_hostname q) (dv_hostname d))
     \<and> (case dq_status q of None \<Rightarrow> True | Some st \<Rightarrow> dv_status d = st)
     \<and> (case dq_online q of None \<Rightarrow> True
         | Some True \<Rightarrow> (case dv_last_seen d of None \<Rightarrow> False | Some t \<Rightarrow> onlineSince \<le> t)
         | Some False \<Rightarrow> (case dv_last_seen d of None \<Rightarrow> True | Some t \<Rightarrow> t < onlineSince))
     \<and> (dq_ip q \<noteq> [] \<longrightarrow> ue_like en (dq_ip q) (dv_primary_ip d))
     \<and> (dq_version q \<noteq> [] \<longrightarrow> dv_agent_version d = dq_version q)
     \<and> (dq_group q \<noteq> [] \<longrightarrow> dv_group d = dq_group q)"

definition FindByIDs :: "64 word list \<Rightarrow> devdb \<Rightarrow> devdb \<times> (db_error, Device list) result" where
  "FindByIDs ids db =
     (if ids = [] then (db, Inr [])
      else stmt (\<lambda>rows. (rows, Inr (sort_key dv_id (filter (\<lambda>d. \<not> dv_deleted d \<and> dv_id d \<in> set ids) rows)))) db)"

definition FindByUpgradeFilter :: "upenv \<Rightarrow> DeviceQuery \<Rightarrow> int \<Rightarrow> devdb \<Rightarrow> devdb \<times> (db_error, Device list) result" where
  "FindByUpgradeFilter en q onlineSince =
     stmt (\<lambda>rows. (rows, Inr (sort_key dv_id (filter (\<lambda>d. \<not> dv_deleted d \<and> applyFilters en q onlineSince d) rows))))"

definition onlineSince :: "upenv \<Rightarrow> upworld \<Rightarrow> upworld \<times> int" where
  "onlineSince en w =
     (let sec = (if ue_threshold en \<le> 0 then 30 else ue_threshold en); (w, now) = clock_now w
      in (w, now - sec * 1000000000))"

section \<open>The effective target\<close>

definition ResolveTargetVersion :: "Device \<Rightarrow> upworld \<Rightarrow> string" where
  "ResolveTargetVersion d w = (if dv_target d \<noteq> [] then dv_target d else uw_target w)"

section \<open>Settling an attempt\<close>

definition attemptStarted :: "Attempt \<Rightarrow> bool" where
  "attemptStarted a \<longleftrightarrow> at_started a \<noteq> None \<or> at_state a \<noteq> ''pending''"

definition terminalState :: "string \<Rightarrow> int option" where
  "terminalState st =
     (if st = ''succeeded'' then Some DeviceUpgradeAchieved
      else if st = ''rolled_back'' then Some DeviceUpgradeRolledBack
      else if st = ''failed'' \<or> st = ''timeout'' then Some DeviceUpgradeFailed
      else None)"

definition syncDeviceTerminal :: "64 word \<Rightarrow> string \<Rightarrow> string \<Rightarrow> int \<Rightarrow> upworld \<Rightarrow> upworld" where
  "syncDeviceTerminal d st code now w =
     (case terminalState st of
        None \<Rightarrow> w
      | Some ds \<Rightarrow> fst (on_dev (SetUpgradeTerminal d ds code now) w))"

definition settleTask :: "64 word option \<Rightarrow> int \<Rightarrow> upworld \<Rightarrow> upworld" where
  "settleTask task now w = (case task of None \<Rightarrow> w | Some i \<Rightarrow> fst (MarkFinishedIfSettled i now w))"

definition finishAttempt :: "64 word \<Rightarrow> string \<Rightarrow> string \<Rightarrow> int \<Rightarrow> upworld \<Rightarrow> upworld" where
  "finishAttempt d st code now w =
     (let (w, found) = FindOpenByDevice d w;
          task = (case found of Inr a \<Rightarrow> at_task a | Inl _ \<Rightarrow> None);
          (w, n) = FinishOpen d st code now w
      in case n of
           Inl _ \<Rightarrow> w
         | Inr k \<Rightarrow> if k = 0 then w else settleTask task now (syncDeviceTerminal d st code now w))"

definition settleAttemptOnHello :: "64 word \<Rightarrow> Attempt \<Rightarrow> string \<Rightarrow> int \<Rightarrow> upworld \<Rightarrow> upworld" where
  "settleAttemptOnHello d a version now w =
     (if version = at_to a then finishAttempt d ''succeeded'' [] now w
      else if \<not> attemptStarted a then w
      else if version = at_from a then finishAttempt d ''rolled_back'' ''not_connected_after_upgrade'' now w
      else finishAttempt d ''failed'' ''unexpected_version'' now w)"

definition latestAttempt :: "64 word \<Rightarrow> upworld \<Rightarrow> upworld \<times> Attempt option" where
  "latestAttempt d w = (case ListByDevice d 1 w of (w, Inr (a # _)) \<Rightarrow> (w, Some a) | (w, _) \<Rightarrow> (w, None))"

definition suppressesAutoRetry :: "Attempt option \<Rightarrow> string \<Rightarrow> bool" where
  "suppressesAutoRetry prev target =
     (case prev of
        None \<Rightarrow> False
      | Some a \<Rightarrow> if at_to a \<noteq> target then False
                   else if \<not> IsAttemptTerminal (at_state a) then False
                   else at_state a \<noteq> ''succeeded'')"

text \<open>The nanoseconds of the clock followed by a number of the process.\<close>
definition newRequestID :: "upworld \<Rightarrow> upworld \<times> string" where
  "newRequestID w =
     (let (w, t) = clock_now w; n = uw_seq w + 1
      in (w\<lparr>uw_seq := n\<rparr>, itoa t @ nat_dec (unat n)))"

definition new_attempt :: "64 word option \<Rightarrow> 64 word \<Rightarrow> string \<Rightarrow> string \<Rightarrow> string \<Rightarrow> int \<Rightarrow> Attempt" where
  "new_attempt task d from_v to_v rid now =
     \<lparr>at_id = 0, at_created = now, at_task = task, at_device = d, at_from = from_v, at_to = to_v, at_request = rid,
      at_state = ''pending'', at_progress = None, at_reason = [], at_detail = [], at_started = None, at_report = None,
      at_finished = None\<rparr>"

definition directive_of :: "Attempt \<Rightarrow> Release \<Rightarrow> UpgradeDirective" where
  "directive_of a rel = \<lparr>ud_request_id = at_request a, ud_target = at_to a, ud_sha256 = rl_sha256 rel, ud_size = rl_size rel\<rparr>"

section \<open>The hello of an agent\<close>

text \<open>First the open attempt, if there is one, is settled by the version the agent reports.\<close>
definition reconcile_settle :: "64 word \<Rightarrow> string \<Rightarrow> int \<Rightarrow> upworld \<Rightarrow> upworld \<times> db_error option" where
  "reconcile_settle d version now w =
     (case FindOpenByDevice d w of
        (w, Inr a) \<Rightarrow> (settleAttemptOnHello d a version now w, None)
      | (w, Inl DbNotFound) \<Rightarrow> (w, None)
      | (w, Inl e) \<Rightarrow> (w, Some e))"

text \<open>The open attempt is used again; without one a new row is opened, unless the last one failed for this target.\<close>
definition reconcile_open :: "64 word \<Rightarrow> string \<Rightarrow> string \<Rightarrow> int \<Rightarrow> Release \<Rightarrow> upworld \<Rightarrow> upworld \<times> (db_error, UpgradeDirective option) result" where
  "reconcile_open d version target now rel w =
     (case FindOpenByDevice d w of
        (w, Inr a) \<Rightarrow> (w, Inr (Some (directive_of a rel)))
      | (w, Inl DbNotFound) \<Rightarrow>
          (case latestAttempt d w of (w, prev) \<Rightarrow>
             if suppressesAutoRetry prev target then (w, Inr None)
             else (case newRequestID w of (w, rid) \<Rightarrow>
               (case Attempt_Create (new_attempt None d version target rid now) w of
                  (w, Inl e) \<Rightarrow> (w, Inl e)
                | (w, Inr a) \<Rightarrow> (w, Inr (Some (directive_of a rel))))))
      | (w, Inl e) \<Rightarrow> (w, Inl e))"

definition reconcile_directive :: "64 word \<Rightarrow> Device \<Rightarrow> string \<Rightarrow> int \<Rightarrow> upworld \<Rightarrow> upworld \<times> (db_error, UpgradeDirective option) result" where
  "reconcile_directive d dev version now w =
     (let target = ResolveTargetVersion dev w
      in if target = [] \<or> target = version then (w, Inr None)
         else case FindByPlatform target (dv_os dev) (dv_arch dev) True w of
                (w, Inl DbNotFound) \<Rightarrow> (w, Inr None)
              | (w, Inl e) \<Rightarrow> (w, Inl e)
              | (w, Inr rel) \<Rightarrow> reconcile_open d version target now rel w)"

definition ReconcileOnHello :: "64 word \<Rightarrow> string \<Rightarrow> upworld \<Rightarrow> upworld \<times> (db_error, UpgradeDirective option) result" where
  "ReconcileOnHello d version w =
     (case on_dev (FindByID d) w of
        (w, Inl e) \<Rightarrow> (w, Inl e)
      | (w, Inr dev) \<Rightarrow>
          (case clock_now w of (w, now) \<Rightarrow>
             (case reconcile_settle d version now w of
                (w, Some e) \<Rightarrow> (w, Inl e)
              | (w, None) \<Rightarrow> reconcile_directive d dev version now w)))"

section \<open>The report of an agent\<close>

definition progressMinInterval :: int where "progressMinInterval = 5000000000"
definition progressMinStep :: int where "progressMinStep = 10"

text \<open>The decision takes a reading of the clock of its own, and only when it gets that far.\<close>
definition shouldPersist :: "Attempt \<Rightarrow> UpgradeStatus \<Rightarrow> upworld \<Rightarrow> upworld \<times> bool" where
  "shouldPersist a st w =
     (if at_state a \<noteq> us_state st \<or> at_reason a \<noteq> us_reason_code st then (w, True)
      else case us_progress st of
        None \<Rightarrow> (w, False)
      | Some p \<Rightarrow>
          (case at_report a of
             None \<Rightarrow> (w, True)
           | Some r \<Rightarrow>
               (case clock_now w of (w, t) \<Rightarrow>
                  if progressMinInterval \<le> t - r then (w, True)
                  else (w, progressMinStep \<le> \<bar>p - (case at_progress a of None \<Rightarrow> 0 | Some q \<Rightarrow> q)\<bar>))))"

definition reported :: "UpgradeStatus \<Rightarrow> int \<Rightarrow> Attempt \<Rightarrow> Attempt" where
  "reported st now a =
     (let a = a\<lparr>at_state := us_state st, at_progress := us_progress st, at_reason := us_reason_code st,
                at_detail := NormalizeReasonDetail (us_reason_detail st), at_report := Some now\<rparr>
      in if IsAttemptTerminal (us_state st) then a\<lparr>at_finished := Some now\<rparr> else a)"

definition ReportUpgradeStatus :: "64 word \<Rightarrow> UpgradeStatus \<Rightarrow> upworld \<Rightarrow> upworld \<times> db_error option" where
  "ReportUpgradeStatus d st w =
     (case FindByRequestID d (us_request_id st) w of
        (w, Inl DbNotFound) \<Rightarrow> (w, None)
      | (w, Inl e) \<Rightarrow> (w, Some e)
      | (w, Inr a) \<Rightarrow>
          if IsAttemptTerminal (at_state a) then (w, None)
          else if at_to a \<noteq> us_target st then (w, None)
          else (case clock_now w of (w, now) \<Rightarrow>
            let a = (if at_started a = None \<and> us_state st \<noteq> ''pending'' then a\<lparr>at_started := Some now\<rparr> else a)
            in (case shouldPersist a st w of
                  (w, False) \<Rightarrow> (w, None)
                | (w, True) \<Rightarrow>
                    (case UpdateReport (reported st now a) w of
                       (w, Inl e) \<Rightarrow> (w, Some e)
                     | (w, Inr _) \<Rightarrow>
                         if IsAttemptTerminal (us_state st)
                         then (settleTask (at_task a) now (syncDeviceTerminal d (us_state st) (us_reason_code st) now w), None)
                         else (w, None)))))"

end
