(* ===== verification/DeviceDispatch.thy ===== *)
theory DeviceDispatch
  imports DeviceUpgrade
begin

text \<open>
  The console side of the upgrade domain (\<open>service/device_upgrade_command.go\<close>, \<open>device_upgrade_query.go\<close> and
  \<open>task/tasks/agent_upgrade_patrol.go\<close>): the classification of devices, the dispatch to one device, to a selection
  and to the whole site, the preview, the summary, the snapshot of the list and the patrol of silent attempts.
\<close>

section \<open>Classification\<close>

record SkipCounts =
  sk_already :: nat
  sk_unsupported :: nat
  sk_no_artifact :: nat
  sk_disabled :: nat

definition skip_total :: "SkipCounts \<Rightarrow> nat" where
  "skip_total s = sk_already s + sk_unsupported s + sk_no_artifact s + sk_disabled s"

type_synonym releaseIndex = "string \<Rightarrow> Release option"

record upgradePlan =
  pl_devices :: "Device list"
  pl_skip :: SkipCounts
  pl_matched :: nat
  pl_releases :: releaseIndex
  pl_version :: string

definition releaseKey :: "string \<Rightarrow> string \<Rightarrow> string" where
  "releaseKey os arch = os @ ''/'' @ arch"

definition index_of :: "Release list \<Rightarrow> releaseIndex" where
  "index_of rows = foldl (\<lambda>m r. m(releaseKey (rl_os r) (rl_arch r) \<mapsto> r)) Map.empty rows"

definition releaseIndexFor :: "string \<Rightarrow> upworld \<Rightarrow> upworld \<times> (db_error, releaseIndex) result" where
  "releaseIndexFor v w = (case ListByVersion v w of (w, Inl e) \<Rightarrow> (w, Inl e) | (w, Inr rows) \<Rightarrow> (w, Inr (index_of rows)))"

text \<open>The first reason that applies counts.\<close>
definition classify_one :: "releaseIndex \<Rightarrow> string \<Rightarrow> Device \<Rightarrow> upgradePlan \<Rightarrow> upgradePlan" where
  "classify_one idx v d p =
     (if dv_status d \<noteq> DeviceStatusEnabled then p\<lparr>pl_skip := (pl_skip p)\<lparr>sk_disabled := sk_disabled (pl_skip p) + 1\<rparr>\<rparr>
      else if dv_up_supported d \<noteq> 1 then p\<lparr>pl_skip := (pl_skip p)\<lparr>sk_unsupported := sk_unsupported (pl_skip p) + 1\<rparr>\<rparr>
      else if dv_agent_version d = v then p\<lparr>pl_skip := (pl_skip p)\<lparr>sk_already := sk_already (pl_skip p) + 1\<rparr>\<rparr>
      else if idx (releaseKey (dv_os d) (dv_arch d)) = None
        then p\<lparr>pl_skip := (pl_skip p)\<lparr>sk_no_artifact := sk_no_artifact (pl_skip p) + 1\<rparr>\<rparr>
      else p\<lparr>pl_devices := pl_devices p @ [d]\<rparr>)"

definition classify_all :: "releaseIndex \<Rightarrow> string \<Rightarrow> Device list \<Rightarrow> upgradePlan" where
  "classify_all idx v ds = foldl (\<lambda>p d. classify_one idx v d p)
     \<lparr>pl_devices = [], pl_skip = \<lparr>sk_already = 0, sk_unsupported = 0, sk_no_artifact = 0, sk_disabled = 0\<rparr>,
      pl_matched = length ds, pl_releases = idx, pl_version = v\<rparr> ds"

definition classify :: "Device list \<Rightarrow> string \<Rightarrow> upworld \<Rightarrow> upworld \<times> (db_error, upgradePlan) result" where
  "classify ds v w = (case releaseIndexFor v w of (w, Inl e) \<Rightarrow> (w, Inl e) | (w, Inr idx) \<Rightarrow> (w, Inr (classify_all idx v ds)))"

section \<open>Dispatch\<close>

text \<open>One device of a plan: its open attempts are superseded, a row is opened, the target written, the device told.\<close>
definition notify :: "upenv \<Rightarrow> upgradePlan \<Rightarrow> Device \<Rightarrow> Attempt \<Rightarrow> upworld \<Rightarrow> upworld" where
  "notify en plan dev a w =
     (case pl_releases plan (releaseKey (dv_os dev) (dv_arch dev)) of
        None \<Rightarrow> w
      | Some rel \<Rightarrow> if ue_notifier en then w\<lparr>uw_sent := uw_sent w @ [(dv_id dev, directive_of a rel)]\<rparr> else w)"

definition dispatch_device :: "upenv \<Rightarrow> upgradePlan \<Rightarrow> 64 word \<Rightarrow> int \<Rightarrow> Device \<Rightarrow> upworld \<Rightarrow> upworld" where
  "dispatch_device en plan task now dev w =
     (let w = fst (SupersedeOpen (dv_id dev) now w);
          (w, rid) = newRequestID w
      in case Attempt_Create (new_attempt (Some task) (dv_id dev) (dv_agent_version dev) (pl_version plan) rid now) w of
           (w, Inl _) \<Rightarrow> w
         | (w, Inr a) \<Rightarrow> notify en plan dev a (fst (on_dev (SetUpgradeTarget (dv_id dev) (pl_version plan)) w)))"

definition applyPlan :: "upenv \<Rightarrow> upgradePlan \<Rightarrow> string \<Rightarrow> string \<Rightarrow> upworld \<Rightarrow> upworld \<times> (app_error, 64 word) result" where
  "applyPlan en plan source actor w =
     (if pl_devices plan = [] then (w, Inr 0)
      else case Task_Create \<lparr>tk_id = 0, tk_version = pl_version plan, tk_source = source, tk_actor = actor,
                             tk_total = length (pl_devices plan), tk_finished = None\<rparr> w of
             (w, Inl _) \<Rightarrow> (w, Inl Internal)
           | (w, Inr task) \<Rightarrow>
               (case clock_now w of (w, now) \<Rightarrow>
                  (foldl (\<lambda>w dev. dispatch_device en plan task now dev w) w (pl_devices plan), Inr task)))"

record DispatchResp =
  dr_version :: string
  dr_task :: string
  dr_dispatched :: nat
  dr_skip :: SkipCounts

definition task_string :: "64 word \<Rightarrow> string" where
  "task_string i = (if i \<noteq> 0 then nat_dec (unat i) else [])"

definition dispatch_resp :: "upgradePlan \<Rightarrow> string \<Rightarrow> 64 word \<Rightarrow> DispatchResp" where
  "dispatch_resp plan v task =
     \<lparr>dr_version = v, dr_task = task_string task, dr_dispatched = length (pl_devices plan), dr_skip = pl_skip plan\<rparr>"

text \<open>The plan is applied and the response built.\<close>
definition apply_and_answer :: "upenv \<Rightarrow> upgradePlan \<Rightarrow> string \<Rightarrow> string \<Rightarrow> string \<Rightarrow> upworld \<Rightarrow> upworld \<times> (app_error, DispatchResp) result" where
  "apply_and_answer en plan v source actor w =
     (case applyPlan en plan source actor w of
        (w, Inl e) \<Rightarrow> (w, Inl e)
      | (w, Inr task) \<Rightarrow> (w, Inr (dispatch_resp plan v task)))"

definition SetDeviceTarget :: "upenv \<Rightarrow> 64 word \<Rightarrow> string \<Rightarrow> bool \<Rightarrow> string \<Rightarrow> upworld \<Rightarrow> upworld \<times> (app_error, DispatchResp) result" where
  "SetDeviceTarget en d v pin actor w =
     (if \<not> IsSemver v then (w, Inl BadRequest)
      else case on_dev (FindByID d) w of
        (w, Inl DbNotFound) \<Rightarrow> (w, Inl NotFound)
      | (w, Inl _) \<Rightarrow> (w, Inl Internal)
      | (w, Inr dev) \<Rightarrow>
          (case classify [dev] v w of
             (w, Inl _) \<Rightarrow> (w, Inl Internal)
           | (w, Inr plan) \<Rightarrow>
               if pin then (case on_dev (SetUpgradeTarget d v) w of
                              (w, Inl _) \<Rightarrow> (w, Inl Internal)
                            | (w, Inr _) \<Rightarrow> apply_and_answer en plan v ''manual'' actor w)
               else apply_and_answer en plan v ''manual'' actor w))"

definition ClearDeviceTarget :: "64 word \<Rightarrow> upworld \<Rightarrow> upworld \<times> app_error option" where
  "ClearDeviceTarget d w =
     (case on_dev (FindByID d) w of
        (w, Inl DbNotFound) \<Rightarrow> (w, Some NotFound)
      | (w, Inl _) \<Rightarrow> (w, Some Internal)
      | (w, Inr _) \<Rightarrow> (case on_dev (SetUpgradeTarget d []) w of (w, Inl _) \<Rightarrow> (w, Some Internal) | (w, Inr _) \<Rightarrow> (w, None)))"

record BatchRequest =
  br_version :: string
  br_ids :: "64 word list"
  br_filter :: "DeviceQuery option"
  br_expected :: "int option"

definition resolveTargets :: "upenv \<Rightarrow> BatchRequest \<Rightarrow> upworld \<Rightarrow> upworld \<times> (app_error, Device list) result" where
  "resolveTargets en req w =
     (if br_ids req \<noteq> [] then
        (case on_dev (FindByIDs (br_ids req)) w of (w, Inl _) \<Rightarrow> (w, Inl Internal) | (w, Inr ds) \<Rightarrow> (w, Inr ds))
      else case br_filter req of
        None \<Rightarrow> (w, Inl BadRequest)
      | Some q \<Rightarrow>
          (case onlineSince en w of (w, since) \<Rightarrow>
             (case on_dev (FindByUpgradeFilter en q since) w of (w, Inl _) \<Rightarrow> (w, Inl Internal) | (w, Inr ds) \<Rightarrow> (w, Inr ds))))"

record PreviewResp =
  pr_version :: string
  pr_matched :: nat
  pr_will :: nat
  pr_skip :: SkipCounts

definition Preview :: "upenv \<Rightarrow> BatchRequest \<Rightarrow> upworld \<Rightarrow> upworld \<times> (app_error, PreviewResp) result" where
  "Preview en req w =
     (if \<not> IsSemver (br_version req) then (w, Inl BadRequest)
      else case resolveTargets en req w of
        (w, Inl e) \<Rightarrow> (w, Inl e)
      | (w, Inr ds) \<Rightarrow>
          (case classify ds (br_version req) w of
             (w, Inl _) \<Rightarrow> (w, Inl Internal)
           | (w, Inr plan) \<Rightarrow> (w, Inr \<lparr>pr_version = br_version req, pr_matched = pl_matched plan,
                                       pr_will = length (pl_devices plan), pr_skip = pl_skip plan\<rparr>)))"

text \<open>The guard of a dispatch by filter: the confirmed number of devices must still be right.\<close>
definition confirmed :: "BatchRequest \<Rightarrow> Device list \<Rightarrow> app_error option" where
  "confirmed req ds =
     (case br_filter req of
        None \<Rightarrow> None
      | Some _ \<Rightarrow> (case br_expected req of
                     None \<Rightarrow> Some BadRequest
                   | Some n \<Rightarrow> if int (length ds) \<noteq> n then Some Conflict else None))"

definition Dispatch :: "upenv \<Rightarrow> BatchRequest \<Rightarrow> string \<Rightarrow> string \<Rightarrow> upworld \<Rightarrow> upworld \<times> (app_error, DispatchResp) result" where
  "Dispatch en req source actor w =
     (if \<not> IsSemver (br_version req) then (w, Inl BadRequest)
      else if br_ids req = [] \<and> br_filter req = None then (w, Inl BadRequest)
      else if br_ids req \<noteq> [] \<and> br_filter req \<noteq> None then (w, Inl BadRequest)
      else case resolveTargets en req w of
        (w, Inl e) \<Rightarrow> (w, Inl e)
      | (w, Inr ds) \<Rightarrow>
          (case confirmed req ds of
             Some e \<Rightarrow> (w, Inl e)
           | None \<Rightarrow>
               (case classify ds (br_version req) w of
                  (w, Inl _) \<Rightarrow> (w, Inl Internal)
                | (w, Inr plan) \<Rightarrow> apply_and_answer en plan (br_version req) source actor w)))"

section \<open>The site-wide target\<close>

record GlobalResp =
  gr_version :: string
  gr_affected :: nat
  gr_pinned :: nat
  gr_task :: string

text \<open>Writing the configuration key is one statement.\<close>
definition SetString_target :: "string \<Rightarrow> upworld \<Rightarrow> upworld \<times> (db_error, unit) result" where
  "SetString_target v = up_stmt (\<lambda>w. (w\<lparr>uw_target := v\<rparr>, Inr ()))"

text \<open>The devices without a target of their own.\<close>
definition followers :: "Device list \<Rightarrow> Device list" where
  "followers ds = filter (\<lambda>d. dv_target d = []) ds"

definition pinned_count :: "Device list \<Rightarrow> nat" where
  "pinned_count ds = length (filter (\<lambda>d. dv_target d \<noteq> []) ds)"

definition global_dispatch :: "upenv \<Rightarrow> string \<Rightarrow> string \<Rightarrow> upworld \<Rightarrow> upworld \<times> (app_error, GlobalResp) result" where
  "global_dispatch en v actor w =
     (case onlineSince en w of (w, since) \<Rightarrow>
        (case on_dev (FindByUpgradeFilter en any_device since) w of
           (w, Inl _) \<Rightarrow> (w, Inl Internal)
         | (w, Inr ds) \<Rightarrow>
             (case classify (followers ds) v w of
                (w, Inl _) \<Rightarrow> (w, Inl Internal)
              | (w, Inr plan) \<Rightarrow>
                  (case applyPlan en plan ''global'' actor w of
                     (w, Inl e) \<Rightarrow> (w, Inl e)
                   | (w, Inr task) \<Rightarrow>
                       (w, Inr \<lparr>gr_version = v, gr_affected = length (pl_devices plan), gr_pinned = pinned_count ds,
                                gr_task = task_string task\<rparr>)))))"

definition set_and_dispatch :: "upenv \<Rightarrow> string \<Rightarrow> string \<Rightarrow> upworld \<Rightarrow> upworld \<times> (app_error, GlobalResp) result" where
  "set_and_dispatch en v actor w =
     (case SetString_target v w of
        (w, Inl _) \<Rightarrow> (w, Inl Internal)
      | (w, Inr _) \<Rightarrow>
          if v = [] then (w, Inr \<lparr>gr_version = v, gr_affected = 0, gr_pinned = 0, gr_task = []\<rparr>)
          else global_dispatch en v actor w)"

definition SetGlobalTarget :: "upenv \<Rightarrow> string \<Rightarrow> string \<Rightarrow> upworld \<Rightarrow> upworld \<times> (app_error, GlobalResp) result" where
  "SetGlobalTarget en v actor w =
     (if v = [] then set_and_dispatch en v actor w
      else if \<not> IsSemver v then (w, Inl BadRequest)
      else case ListByVersion v w of
        (w, Inl _) \<Rightarrow> (w, Inl Internal)
      | (w, Inr rows) \<Rightarrow> if rows = [] then (w, Inl BadRequest) else set_and_dispatch en v actor w)"

section \<open>The patrol\<close>

definition staleAfter :: int where "staleAfter = 15 * 60 * 1000000000"

definition sweep_one :: "int \<Rightarrow> Attempt \<Rightarrow> upworld \<times> nat \<Rightarrow> upworld \<times> nat" where
  "sweep_one now a wn =
     (case FinishByID (at_id a) ''timeout'' ''timeout'' now (fst wn) of
        (w, Inl _) \<Rightarrow> (w, snd wn)
      | (w, Inr n) \<Rightarrow>
          if n = 0 then (w, snd wn)
          else (settleTask (at_task a) now (syncDeviceTerminal (at_device a) ''timeout'' ''timeout'' now w), snd wn + 1))"

definition SweepStale :: "int \<Rightarrow> nat \<Rightarrow> upworld \<Rightarrow> upworld \<times> (db_error, nat) result" where
  "SweepStale olderThan limit w =
     (let older = (if olderThan \<le> 0 then staleAfter else olderThan)
      in case clock_now w of (w, now) \<Rightarrow>
        (case FindStale (now - older) limit w of
           (w, Inl e) \<Rightarrow> (w, Inl e)
         | (w, Inr rows) \<Rightarrow>
             (case foldl (\<lambda>wn a. sweep_one now a wn) (w, 0) rows of (w, n) \<Rightarrow> (w, Inr n))))"

definition patrol_Execute :: "upworld \<Rightarrow> upworld \<times> db_error option" where
  "patrol_Execute w = (case SweepStale 0 200 w of (w, Inl e) \<Rightarrow> (w, Some e) | (w, Inr _) \<Rightarrow> (w, None))"

section \<open>Queries\<close>

record Snapshot =
  sn_target :: string
  sn_from_global :: bool
  sn_open_state :: string
  sn_unsupported :: bool
  sn_state :: int
  sn_reason :: string
  sn_at :: "int option"

definition snapshot_running :: "Snapshot \<Rightarrow> bool" where
  "snapshot_running s \<longleftrightarrow> sn_open_state s \<noteq> [] \<and> sn_open_state s \<noteq> ''pending''"

definition snapshot_of :: "string \<Rightarrow> (64 word \<Rightarrow> Attempt option) \<Rightarrow> Device \<Rightarrow> Snapshot" where
  "snapshot_of global open_rows d =
     \<lparr>sn_target = (if dv_target d = [] \<and> global \<noteq> [] then global else dv_target d),
      sn_from_global = (dv_target d = [] \<and> global \<noteq> []),
      sn_open_state = (case open_rows (dv_id d) of None \<Rightarrow> [] | Some a \<Rightarrow> at_state a),
      sn_unsupported = (dv_up_supported d \<noteq> 1), sn_state = dv_up_state d, sn_reason = dv_up_reason d, sn_at = dv_up_at d\<rparr>"

definition Snapshot_all :: "Device list \<Rightarrow> upworld \<Rightarrow> upworld \<times> (db_error, 64 word \<Rightarrow> Snapshot option) result" where
  "Snapshot_all ds w =
     (if ds = [] then (w, Inr Map.empty)
      else case FindOpenByDevices (map dv_id ds) w of
        (w, Inl e) \<Rightarrow> (w, Inl e)
      | (w, Inr rows) \<Rightarrow> (w, Inr (foldl (\<lambda>m d. m(dv_id d \<mapsto> snapshot_of (uw_target w) rows d)) Map.empty ds)))"

definition RollbackVersion :: "64 word \<Rightarrow> upworld \<Rightarrow> upworld \<times> (db_error, string) result" where
  "RollbackVersion d w =
     (case FindLastSucceededFrom d w of
        (w, Inl DbNotFound) \<Rightarrow> (w, Inr [])
      | (w, Inl e) \<Rightarrow> (w, Inl e)
      | (w, Inr v) \<Rightarrow> (w, Inr v))"

record UpgradeCounts =
  uc_pending :: nat
  uc_running :: nat
  uc_succeeded :: nat
  uc_failed :: nat
  uc_rolled_back :: nat
  uc_timeout :: nat
  uc_superseded :: nat

definition task_counts :: "(string \<Rightarrow> nat) \<Rightarrow> UpgradeCounts" where
  "task_counts c =
     \<lparr>uc_pending = c ''pending'',
      uc_running = c ''downloading'' + c ''verifying'' + c ''installing'' + c ''restarting'',
      uc_succeeded = c ''succeeded'', uc_failed = c ''failed'', uc_rolled_back = c ''rolled_back'',
      uc_timeout = c ''timeout'', uc_superseded = c ''superseded''\<rparr>"

section \<open>The summary\<close>

record Bucket =
  bk_target :: string
  bk_total :: nat
  bk_achieved :: nat
  bk_running :: nat
  bk_pending :: nat
  bk_failed :: nat
  bk_rolled_back :: nat
  bk_unsupported :: nat
  bk_no_artifact :: nat
  bk_disabled :: nat

definition empty_bucket :: "string \<Rightarrow> Bucket" where
  "empty_bucket t = \<lparr>bk_target = t, bk_total = 0, bk_achieved = 0, bk_running = 0, bk_pending = 0, bk_failed = 0,
     bk_rolled_back = 0, bk_unsupported = 0, bk_no_artifact = 0, bk_disabled = 0\<rparr>"

text \<open>What a device with a target counts as; the releases of its target are at hand.\<close>
definition count_device :: "releaseIndex \<Rightarrow> (64 word \<Rightarrow> Attempt option) \<Rightarrow> string \<Rightarrow> Device \<Rightarrow> Bucket \<Rightarrow> Bucket" where
  "count_device idx open_rows target d b =
     (if dv_agent_version d = target then b\<lparr>bk_achieved := bk_achieved b + 1\<rparr>
      else if dv_up_supported d \<noteq> 1 then b\<lparr>bk_unsupported := bk_unsupported b + 1\<rparr>
      else if dv_status d \<noteq> DeviceStatusEnabled then b\<lparr>bk_disabled := bk_disabled b + 1\<rparr>
      else if idx (releaseKey (dv_os d) (dv_arch d)) = None then b\<lparr>bk_no_artifact := bk_no_artifact b + 1\<rparr>
      else case open_rows (dv_id d) of
        Some a \<Rightarrow> if at_state a = ''pending'' then b\<lparr>bk_pending := bk_pending b + 1\<rparr>
                  else b\<lparr>bk_running := bk_running b + 1\<rparr>
      | None \<Rightarrow> if dv_up_state d = DeviceUpgradeFailed then b\<lparr>bk_failed := bk_failed b + 1\<rparr>
                else if dv_up_state d = DeviceUpgradeRolledBack then b\<lparr>bk_rolled_back := bk_rolled_back b + 1\<rparr>
                else b\<lparr>bk_pending := bk_pending b + 1\<rparr>)"

text \<open>The releases are only read when the count depends on them.\<close>
definition needs_index :: "string \<Rightarrow> Device \<Rightarrow> bool" where
  "needs_index target d \<longleftrightarrow> dv_agent_version d \<noteq> target \<and> dv_up_supported d = 1 \<and> dv_status d = DeviceStatusEnabled"

record summary_acc =
  su_buckets :: "string \<Rightarrow> Bucket option"
  su_cache :: "string \<Rightarrow> releaseIndex option"
  su_pinned :: nat
  su_versions :: "string \<Rightarrow> nat"

definition cached_index :: "string \<Rightarrow> Device \<Rightarrow> summary_acc \<Rightarrow> upworld \<Rightarrow> upworld \<times> (db_error, summary_acc \<times> releaseIndex) result" where
  "cached_index target d s w =
     (if \<not> needs_index target d then (w, Inr (s, Map.empty))
      else case su_cache s target of
        Some idx \<Rightarrow> (w, Inr (s, idx))
      | None \<Rightarrow> (case releaseIndexFor target w of
                   (w, Inl e) \<Rightarrow> (w, Inl e)
                 | (w, Inr idx) \<Rightarrow> (w, Inr (s\<lparr>su_cache := (su_cache s)(target \<mapsto> idx)\<rparr>, idx))))"

definition enter_device :: "string \<Rightarrow> Device \<Rightarrow> summary_acc \<Rightarrow> summary_acc" where
  "enter_device target d s =
     (let b = (case su_buckets s target of None \<Rightarrow> empty_bucket target | Some b \<Rightarrow> b)
      in s\<lparr>su_versions := (su_versions s)(dv_agent_version d := su_versions s (dv_agent_version d) + 1),
           su_pinned := (if dv_target d \<noteq> [] then su_pinned s + 1 else su_pinned s),
           su_buckets := (su_buckets s)(target \<mapsto> b\<lparr>bk_total := bk_total b + 1\<rparr>)\<rparr>)"

fun summary_loop :: "string \<Rightarrow> (64 word \<Rightarrow> Attempt option) \<Rightarrow> Device list \<Rightarrow> summary_acc \<Rightarrow> upworld \<Rightarrow> upworld \<times> (db_error, summary_acc) result" where
  "summary_loop global rows [] s w = (w, Inr s)"
| "summary_loop global rows (d # ds) s w =
     (let target = (if dv_target d = [] then global else dv_target d); s = enter_device target d s
      in if target = [] then summary_loop global rows ds s w
         else case cached_index target d s w of
                (w, Inl e) \<Rightarrow> (w, Inl e)
              | (w, Inr (s, idx)) \<Rightarrow>
                  summary_loop global rows ds
                    (s\<lparr>su_buckets := (su_buckets s)(target \<mapsto> count_device idx rows target d (the (su_buckets s target)))\<rparr>) w)"

text \<open>The order of the buckets: the one without a target last, the others by descending strings.\<close>
definition bucket_before :: "Bucket \<Rightarrow> Bucket \<Rightarrow> bool" where
  "bucket_before a b \<longleftrightarrow>
     (if bk_target a = [] \<or> bk_target b = [] then bk_target b = [] \<and> bk_target a \<noteq> []
      else str_cmp (bk_target b) (bk_target a) < 0)"

fun insert_by :: "('a \<Rightarrow> 'a \<Rightarrow> bool) \<Rightarrow> 'a \<Rightarrow> 'a list \<Rightarrow> 'a list" where
  "insert_by before x [] = [x]"
| "insert_by before x (y # ys) = (if before x y then x # y # ys else y # insert_by before x ys)"

definition sort_by :: "('a \<Rightarrow> 'a \<Rightarrow> bool) \<Rightarrow> 'a list \<Rightarrow> 'a list" where
  "sort_by before xs = foldr (insert_by before) xs []"

definition version_before :: "string \<times> nat \<Rightarrow> string \<times> nat \<Rightarrow> bool" where
  "version_before a b \<longleftrightarrow> (if snd a \<noteq> snd b then snd b < snd a else str_cmp (fst b) (fst a) < 0)"

record SummaryResp =
  sr_total :: nat
  sr_global :: string
  sr_pinned :: nat
  sr_buckets :: "Bucket list"
  sr_versions :: "(string \<times> nat) list"

text \<open>The maps are read off along the devices; the sort makes the order of reading irrelevant.\<close>
definition summary_resp :: "string \<Rightarrow> Device list \<Rightarrow> summary_acc \<Rightarrow> SummaryResp" where
  "summary_resp global ds s =
     \<lparr>sr_total = length ds, sr_global = global, sr_pinned = su_pinned s,
      sr_buckets = sort_by bucket_before (map (\<lambda>t. the (su_buckets s t))
        (remdups (map (\<lambda>d. if dv_target d = [] then global else dv_target d) ds))),
      sr_versions = sort_by version_before (map (\<lambda>v. (v, su_versions s v)) (remdups (map dv_agent_version ds)))\<rparr>"

definition Summary :: "upenv \<Rightarrow> upworld \<Rightarrow> upworld \<times> (app_error, SummaryResp) result" where
  "Summary en w =
     (case onlineSince en w of (w, since) \<Rightarrow>
        (case on_dev (FindByUpgradeFilter en any_device since) w of
           (w, Inl _) \<Rightarrow> (w, Inl Internal)
         | (w, Inr ds) \<Rightarrow>
             (case FindOpenByDevices (map dv_id ds) w of
                (w, Inl _) \<Rightarrow> (w, Inl Internal)
              | (w, Inr rows) \<Rightarrow>
                  (let global = uw_target w
                   in case summary_loop global rows ds \<lparr>su_buckets = Map.empty, su_cache = Map.empty, su_pinned = 0, su_versions = (\<lambda>_. 0)\<rparr> w of
                     (w, Inl _) \<Rightarrow> (w, Inl Internal)
                   | (w, Inr s) \<Rightarrow> (w, Inr (summary_resp global ds s))))))"

end
