(* ===== verification/DispatchSafety.thy ===== *)
theory DispatchSafety
  imports DeviceDispatch
begin

text \<open>
  The upgrade domain as a step relation, and the library that carries an invariant through every operation: a locale
  states what the primitive statements must keep, its lemmas lift it to the operations and to the runs. The writes of
  other requests are constrained by a rely condition on the attempts table.
\<close>

section \<open>Runs\<close>

definition calm :: "(Attempt list \<Rightarrow> Attempt list \<Rightarrow> bool) \<Rightarrow> up_event list \<Rightarrow> bool" where
  "calm R s \<longleftrightarrow> (\<forall>g. UpOther g \<in> set s \<longrightarrow> (\<forall>as. R as (g as)))"

text \<open>One operation of the domain, or a change made beside it: of the devices, the releases, the target, or a new
  script of statements.\<close>
inductive up_step :: "(Attempt list \<Rightarrow> Attempt list \<Rightarrow> bool) \<Rightarrow> upenv \<Rightarrow> upworld \<Rightarrow> upworld \<Rightarrow> bool" for R en where
  hello: "up_step R en w (fst (ReconcileOnHello d v w))"
| report: "status_validate st = None \<Longrightarrow> up_step R en w (fst (ReportUpgradeStatus d st w))"
| set_target: "up_step R en w (fst (SetDeviceTarget en d v pin actor w))"
| clear: "up_step R en w (fst (ClearDeviceTarget d w))"
| dispatch: "up_step R en w (fst (Dispatch en req source actor w))"
| global: "up_step R en w (fst (SetGlobalTarget en v actor w))"
| sweep: "up_step R en w (fst (SweepStale older limit w))"
| devices: "up_step R en w (w\<lparr>uw_dev := db\<rparr>)"
| releases: "up_step R en w (w\<lparr>uw_rel := rs\<rparr>)"
| config: "up_step R en w (w\<lparr>uw_target := v\<rparr>)"
| script: "calm R s \<Longrightarrow> up_step R en w (w\<lparr>uw_script := s\<rparr>)"

inductive up_run :: "(Attempt list \<Rightarrow> Attempt list \<Rightarrow> bool) \<Rightarrow> upenv \<Rightarrow> upworld \<Rightarrow> upworld \<Rightarrow> bool" for R en w0 where
  up_start: "up_run R en w0 w0"
| up_next: "up_run R en w0 w \<Longrightarrow> up_step R en w w' \<Longrightarrow> up_run R en w0 w'"

section \<open>What the helpers leave alone\<close>

text \<open>The tables and the script, which the clock, the identifiers and the device table do not touch.\<close>
definition tables :: "upworld \<Rightarrow> Attempt list \<times> UpgradeTask list \<times> up_event list" where
  "tables w = (uw_att w, uw_tasks w, uw_script w)"

lemma tables_update [simp]:
  "tables (w\<lparr>uw_dev := db\<rparr>) = tables w" "tables (w\<lparr>uw_sent := s\<rparr>) = tables w" "tables (w\<lparr>uw_target := v\<rparr>) = tables w"
  "tables (w\<lparr>uw_rel := rs\<rparr>) = tables w" "tables (fst (clock_now w)) = tables w" "tables (fst (fresh_id w)) = tables w"
  "tables (fst (newRequestID w)) = tables w"
  by (simp_all add: tables_def clock_now_def fresh_id_def newRequestID_def Let_def)

lemma tables_on_dev [simp]: "tables (fst (on_dev k w)) = tables w"
  by (simp add: on_dev_def split: prod.splits)

lemma tables_since [simp]: "tables (fst (onlineSince en w)) = tables w"
  by (simp add: onlineSince_def clock_now_def tables_def Let_def)

lemma tables_dev_eq: "on_dev k w = (w', r) \<Longrightarrow> tables w' = tables w"
  using tables_on_dev [of k w] by simp

lemma tables_since_eq: "onlineSince en w = (w', t) \<Longrightarrow> tables w' = tables w"
  using tables_since [of en w] by simp

lemma tables_resolve [simp]: "tables (fst (resolveTargets en req w)) = tables w"
  by (auto simp: resolveTargets_def dest!: tables_dev_eq tables_since_eq split: prod.splits sum.splits option.splits)

lemma tables_clear [simp]: "tables (fst (ClearDeviceTarget d w)) = tables w"
  by (auto simp: ClearDeviceTarget_def dest!: tables_dev_eq split: prod.splits sum.splits db_error.splits)

section \<open>What the statements hand out\<close>

lemma first_of_set: "first_of xs = Inr a \<Longrightarrow> a \<in> set xs"
  by (cases xs) (auto simp: first_of_def)

lemma set_by_id_desc [simp]: "set (by_id_desc as) = set as"
  by (simp add: by_id_desc_def)

lemma found_open:
  assumes "FindOpenByDevice d w = (w', Inr a)"
  shows "w' = arrive w" "a \<in> set (uw_att w')" "at_device a = d" "at_open a"
proof -
  have "w' = arrive w \<and> first_of (by_id_desc (filter (\<lambda>a. at_device a = d \<and> at_open a) (uw_att (arrive w)))) = Inr a"
    using assms by (auto simp: FindOpenByDevice_def up_stmt_def split: list.splits up_event.splits)
  then show "w' = arrive w" "a \<in> set (uw_att w')" "at_device a = d" "at_open a" by (auto dest!: first_of_set)
qed

section \<open>Carrying an invariant\<close>

text \<open>What names a row is never rewritten.\<close>
definition ident :: "Attempt \<Rightarrow> 64 word \<times> int \<times> 64 word option \<times> 64 word \<times> string \<times> string \<times> string" where
  "ident a = (at_id a, at_created a, at_task a, at_device a, at_from a, at_to a, at_request a)"

lemma calm_arrive:
  assumes "calm R (uw_script w)"
  shows "calm R (uw_script (arrive w))" "uw_tasks (arrive w) = uw_tasks w"
    "uw_att (arrive w) = uw_att w \<or> R (uw_att w) (uw_att (arrive w))"
  using assms by (cases "uw_script w"; cases "hd (uw_script w)"; force simp: arrive_def calm_def Let_def)+

lemma arrive_quiet: "uw_script w = [] \<Longrightarrow> arrive w = w"
  by (simp add: arrive_def)

text \<open>The invariant I of the world, the states W that may be written, the tasks J that may be settled, and what a
  creation may rely on: K of the device.\<close>
locale upgrade_invariant =
  fixes I :: "upworld \<Rightarrow> bool" and W :: "string \<Rightarrow> bool" and J :: "64 word \<Rightarrow> bool" and K :: "64 word \<Rightarrow> upworld \<Rightarrow> bool"
  assumes frame_tables: "I w \<Longrightarrow> tables w' = tables w \<Longrightarrow> I w'"
    and arrive_I: "I w \<Longrightarrow> I (arrive w)"
    and create: "I w \<Longrightarrow> K (at_device a) w \<Longrightarrow> at_state a = ''pending'' \<Longrightarrow> (\<And>i. at_task a = Some i \<Longrightarrow> J i)
      \<Longrightarrow> I (w\<lparr>uw_att := uw_att w @ [a]\<rparr>)"
    and update: "I w \<Longrightarrow> (\<And>a. W (at_state (f a))) \<Longrightarrow> (\<And>a. p a \<Longrightarrow> ident (f a) = ident a)
      \<Longrightarrow> I (w\<lparr>uw_att := map (\<lambda>a. if p a \<and> at_open a then f a else a) (uw_att w)\<rparr>)"
    and task: "I w \<Longrightarrow> \<not> list_ex (\<lambda>t. tk_id t = i) (uw_tasks w) \<Longrightarrow> tk_id t = i
      \<Longrightarrow> I (w\<lparr>uw_tasks := uw_tasks w @ [t]\<rparr>) \<and> J i"
    and seen: "I w \<Longrightarrow> a \<in> set (uw_att w) \<Longrightarrow> at_open a \<Longrightarrow> at_task a = Some i \<Longrightarrow> J i"
    and mark: "I w \<Longrightarrow> J i \<Longrightarrow> (\<And>t. tk_id (h t) = tk_id t) \<Longrightarrow>
      I (w\<lparr>uw_tasks := map (\<lambda>t. if tk_id t = i \<and> tk_finished t = None \<and> settled i (uw_att w) then h t else t) (uw_tasks w)\<rparr>)"
    and K_tables: "K d w \<Longrightarrow> tables w' = tables w \<Longrightarrow> K d w'"
    and K_arrive: "I w \<Longrightarrow> K d w \<Longrightarrow> K d (arrive w)"
    and K_none: "I w \<Longrightarrow> FindOpenByDevice d w = (w', Inl DbNotFound) \<Longrightarrow> K d w'"
    and K_superseded: "I w \<Longrightarrow> K d (fst (SupersedeOpen d now w))"
begin

lemma up_stmt_I:
  assumes "I w" "\<And>v. I v \<Longrightarrow> I (fst (f v))"
  shows "I (fst (up_stmt f w))"
  using assms arrive_I [OF assms(1)] by (auto simp: up_stmt_def split: list.splits up_event.splits)

lemma same_I [simp]:
  "I w \<Longrightarrow> I (fst (clock_now w))" "I w \<Longrightarrow> I (fst (fresh_id w))" "I w \<Longrightarrow> I (w\<lparr>uw_dev := db\<rparr>)" "I w \<Longrightarrow> I (fst (on_dev k w))"
  "I w \<Longrightarrow> I (w\<lparr>uw_sent := s\<rparr>)" "I w \<Longrightarrow> I (fst (newRequestID w))" "I w \<Longrightarrow> I (w\<lparr>uw_target := v\<rparr>)" "I w \<Longrightarrow> I (w\<lparr>uw_rel := rs\<rparr>)"
  by (rule frame_tables, assumption, simp)+

lemma read_I [simp]:
  "I w \<Longrightarrow> I (fst (FindOpenByDevice d w))" "I w \<Longrightarrow> I (fst (FindByRequestID d rid w))" "I w \<Longrightarrow> I (fst (FindOpenByDevices ds w))"
  "I w \<Longrightarrow> I (fst (ListByDevice d n w))" "I w \<Longrightarrow> I (fst (FindStale b n w))" "I w \<Longrightarrow> I (fst (FindByPlatform v os arch pub w))"
  "I w \<Longrightarrow> I (fst (ListByVersion v w))" "I w \<Longrightarrow> I (fst (SetString_target v w))"
  by (auto simp: FindOpenByDevice_def FindByRequestID_def FindOpenByDevices_def ListByDevice_def FindStale_def
      FindByPlatform_def ListByVersion_def SetString_target_def intro!: up_stmt_I)

lemma list_version_I: "ListByVersion v w = (w', r) \<Longrightarrow> I w \<Longrightarrow> I w'"
  using read_I(7) [of w v] by simp

lemma upd_open_I:
  assumes "I w" "\<And>a. W (at_state (f a))" "\<And>a. p a \<Longrightarrow> ident (f a) = ident a"
  shows "I (fst (upd_open p f w))"
  unfolding upd_open_def using assms update by (intro up_stmt_I) auto

lemma finish_I [simp]:
  "I w \<Longrightarrow> W st \<Longrightarrow> I (fst (FinishOpen d st code now w))" "I w \<Longrightarrow> W st \<Longrightarrow> I (fst (FinishByID i st code now w))"
  "I w \<Longrightarrow> W ''superseded'' \<Longrightarrow> I (fst (SupersedeOpen d now w))"
  by (auto simp: FinishOpen_def FinishByID_def SupersedeOpen_def finish_def ident_def intro!: upd_open_I)

lemma Attempt_Create_I:
  assumes "I w" "K (at_device a) w" "at_state a = ''pending''" "\<And>i. at_task a = Some i \<Longrightarrow> J i"
  shows "I (fst (Attempt_Create a w))"
proof -
  let ?v = "fst (fresh_id (arrive w))" and ?i = "snd (fresh_id (arrive w))"
  have v: "I ?v" using arrive_I [OF assms(1)] by simp
  have "K (at_device a) ?v" by (rule K_tables [OF K_arrive [OF assms(1,2)]]) simp
  then have "I (?v\<lparr>uw_att := uw_att ?v @ [a\<lparr>at_id := ?i\<rparr>]\<rparr>)"
    using create [OF v, of "a\<lparr>at_id := ?i\<rparr>"] assms(3,4) by simp
  then show ?thesis using v arrive_I [OF assms(1)]
    by (cases "fresh_id (arrive w)") (auto simp: Attempt_Create_def up_stmt_def Let_def split: list.splits up_event.splits)
qed

lemma Task_Create_I:
  assumes "I w"
  shows "I (fst (Task_Create t w)) \<and> (\<forall>i. snd (Task_Create t w) = Inr i \<longrightarrow> J i)"
proof -
  have "I (fst (fresh_id (arrive w)))" using arrive_I [OF assms] by simp
  then show ?thesis using task [of "fst (fresh_id (arrive w))" "snd (fresh_id (arrive w))" "t\<lparr>tk_id := snd (fresh_id (arrive w))\<rparr>"]
      arrive_I [OF assms]
    by (cases "fresh_id (arrive w)") (auto simp: Task_Create_def up_stmt_def Let_def split: list.splits up_event.splits)
qed

lemma UpdateReport_I:
  assumes "I w" "W (at_state src)"
  shows "I (fst (UpdateReport src w))"
proof -
  have "I (fst (upd_open (\<lambda>a. at_id a = at_id src) (report_cols src) w))"
    using assms by (intro upd_open_I) (auto simp: report_cols_def ident_def)
  then show ?thesis by (auto simp: UpdateReport_def split: prod.splits sum.splits)
qed

lemma Mark_I: "I w \<Longrightarrow> J i \<Longrightarrow> I (fst (MarkFinishedIfSettled i now w))"
  unfolding MarkFinishedIfSettled_def using mark [of _ i "\<lambda>t. t\<lparr>tk_finished := Some now\<rparr>"]
  by (intro up_stmt_I) (auto simp: Let_def)

lemma settleTask_I: "I w \<Longrightarrow> (\<And>i. t = Some i \<Longrightarrow> J i) \<Longrightarrow> I (settleTask t now w)"
  by (auto simp: settleTask_def Mark_I split: option.splits)

lemma sync_I [simp]: "I w \<Longrightarrow> I (syncDeviceTerminal d st code now w)"
  by (auto simp: syncDeviceTerminal_def split: option.splits)

lemma found_open_J: "I w \<Longrightarrow> FindOpenByDevice d w = (w', Inr a) \<Longrightarrow> at_task a = Some i \<Longrightarrow> J i"
  using found_open [of d w w' a] arrive_I [of w] seen [of "arrive w" a i] by auto

lemma found_request_J: "I w \<Longrightarrow> FindByRequestID d rid w = (w', Inr a) \<Longrightarrow> \<not> IsAttemptTerminal (at_state a) \<Longrightarrow> at_task a = Some i \<Longrightarrow> J i"
  using arrive_I [of w] seen [of "arrive w" a i]
  by (auto simp: FindByRequestID_def up_stmt_def at_open_def split: list.splits up_event.splits dest!: first_of_set)

lemma found_stale_J: "I w \<Longrightarrow> FindStale b n w = (w', Inr rows) \<Longrightarrow> a \<in> set rows \<Longrightarrow> at_task a = Some i \<Longrightarrow> J i"
  using arrive_I [of w] seen [of "arrive w" a i]
  by (auto simp: FindStale_def up_stmt_def stale_def split: list.splits up_event.splits dest!: in_set_takeD)

lemma fst_I: "I w \<Longrightarrow> (I w \<Longrightarrow> I (fst (k w))) \<Longrightarrow> k w = (w', r) \<Longrightarrow> I w'"
  by (metis fst_conv)

subsection \<open>The operations\<close>

lemma finishAttempt_I [simp]:
  assumes "I w" "W st"
  shows "I (finishAttempt d st code now w)"
proof -
  obtain w1 r where f: "FindOpenByDevice d w = (w1, r)" by fastforce
  have J: "J i" if "(case r of Inr a \<Rightarrow> at_task a | Inl _ \<Rightarrow> None) = Some i" for i
    using that found_open_J [OF assms(1)] f by (auto split: sum.splits)
  obtain w2 n where g: "FinishOpen d st code now w1 = (w2, n)" by fastforce
  have "I w2" using finish_I(1) [of w1 st d code now] read_I(1) [of w d] assms f g by simp
  then show ?thesis using f g J by (auto simp: finishAttempt_def intro!: settleTask_I split: sum.splits)
qed

lemma settle_hello_I [simp]:
  "I w \<Longrightarrow> W ''succeeded'' \<Longrightarrow> W ''rolled_back'' \<Longrightarrow> W ''failed'' \<Longrightarrow> I (settleAttemptOnHello d a v now w)"
  by (simp add: settleAttemptOnHello_def)

lemma latest_I [simp]: "I w \<Longrightarrow> I (fst (latestAttempt d w))"
  using read_I(4) [of w d 1] by (auto simp: latestAttempt_def split: prod.splits sum.splits list.splits)

lemma latest_K: "I w \<Longrightarrow> K d w \<Longrightarrow> K d (fst (latestAttempt d' w))"
  using K_arrive [of w d]
  by (auto simp: latestAttempt_def ListByDevice_def up_stmt_def split: prod.splits sum.splits list.splits up_event.splits)

lemma reconcile_open_I [simp]:
  assumes "I w"
  shows "I (fst (reconcile_open d v t now rel w))"
proof -
  obtain w1 r where 1: "FindOpenByDevice d w = (w1, r)" by fastforce
  obtain w2 prev where 2: "latestAttempt d w1 = (w2, prev)" by fastforce
  obtain w3 rid where 3: "newRequestID w2 = (w3, rid)" by fastforce
  obtain w4 q where 4: "Attempt_Create (new_attempt None d v t rid now) w3 = (w4, q)" by fastforce
  have I1: "I w1" using read_I(1) [OF assms, of d] 1 by simp
  have I2: "I w2" using latest_I [OF I1, of d] 2 by simp
  have I3: "I w3" using same_I(6) [OF I2] 3 by simp
  have I4: "I w4" if "r = Inl DbNotFound"
  proof -
    have "K d w1" using K_none [OF assms, of d w1] 1 that by simp
    then have "K d w2" using latest_K [OF I1, of d d] 2 by simp
    then have "K d w3" by (rule K_tables) (use tables_update(7) [of w2] 3 in simp)
    then show ?thesis using Attempt_Create_I [OF I3, of "new_attempt None d v t rid now"] 4 by (simp add: new_attempt_def)
  qed
  show ?thesis using I1 I2 I4 by (simp add: reconcile_open_def 1 2 3 4 split: sum.splits db_error.splits)
qed

lemma directive_I [simp]:
  assumes "I w"
  shows "I (fst (reconcile_directive d dev v now w))"
proof -
  obtain w1 r where 1: "FindByPlatform (ResolveTargetVersion dev w) (dv_os dev) (dv_arch dev) True w = (w1, r)" by fastforce
  have "I w1" using read_I(6) [OF assms] 1 by (metis fst_conv)
  then show ?thesis using assms by (simp add: reconcile_directive_def Let_def 1 split: sum.splits db_error.splits)
qed

lemma reconcile_settle_I [simp]:
  assumes "I w" "W ''succeeded''" "W ''rolled_back''" "W ''failed''"
  shows "I (fst (reconcile_settle d v now w))"
proof -
  obtain w1 r where 1: "FindOpenByDevice d w = (w1, r)" by fastforce
  have "I w1" using read_I(1) [OF assms(1), of d] 1 by simp
  then show ?thesis using assms(2-) by (simp add: reconcile_settle_def 1 split: sum.splits db_error.splits)
qed

lemma reconcile_I:
  assumes "I w" "W ''succeeded''" "W ''rolled_back''" "W ''failed''"
  shows "I (fst (ReconcileOnHello d v w))"
proof -
  obtain w1 r where 1: "on_dev (FindByID d) w = (w1, r)" by fastforce
  obtain w2 now where 2: "clock_now w1 = (w2, now)" by fastforce
  obtain w3 e where 3: "reconcile_settle d v now w2 = (w3, e)" by fastforce
  have I1: "I w1" using same_I(4) [OF assms(1), of "FindByID d"] 1 by simp
  have I2: "I w2" using same_I(1) [OF I1] 2 by simp
  have I3: "I w3" using reconcile_settle_I [OF I2 assms(2-), of d v now] 3 by simp
  show ?thesis using I1 I3 directive_I [OF I3] by (simp add: ReconcileOnHello_def 1 2 3 split: sum.splits option.splits)
qed

lemma shouldPersist_I [simp]: "I w \<Longrightarrow> I (fst (shouldPersist a st w))"
  by (cases "clock_now w") (use same_I(1) [of w] in \<open>auto simp: shouldPersist_def split: option.splits\<close>)

lemma report_I:
  assumes "I w" "W (us_state st)"
  shows "I (fst (ReportUpgradeStatus d st w))"
proof -
  obtain w1 r where 1: "FindByRequestID d (us_request_id st) w = (w1, r)" by fastforce
  have I1: "I w1" using read_I(2) [OF assms(1)] 1 by (metis fst_conv)
  show ?thesis
  proof (cases r)
    case (Inl e)
    then show ?thesis using I1 by (cases e) (simp_all add: ReportUpgradeStatus_def 1)
  next
    case (Inr a)
    obtain w2 now where 2: "clock_now w1 = (w2, now)" by fastforce
    let ?a = "if at_started a = None \<and> us_state st \<noteq> ''pending'' then a\<lparr>at_started := Some now\<rparr> else a"
    obtain w3 b where 3: "shouldPersist ?a st w2 = (w3, b)" by fastforce
    obtain w4 q where 4: "UpdateReport (reported st now ?a) w3 = (w4, q)" by fastforce
    have I2: "I w2" using same_I(1) [OF I1] 2 by simp
    have I3: "I w3" using shouldPersist_I [OF I2, of ?a st] 3 by simp
    have I4: "I w4" using UpdateReport_I [OF I3, of "reported st now ?a"] 4 assms(2) by (simp add: reported_def Let_def)
    have "J i" if "at_task a = Some i" "\<not> IsAttemptTerminal (at_state a)" for i
      using found_request_J [OF assms(1)] 1 Inr that by simp
    then show ?thesis using I1 I3 I4
      by (auto simp: ReportUpgradeStatus_def 1 2 3 4 Inr Let_def intro!: settleTask_I split: sum.splits bool.splits)
  qed
qed

lemma dispatch_device_I:
  assumes "I w" "W ''superseded''" "J task"
  shows "I (dispatch_device en plan task now dev w)"
proof -
  obtain w1 r where 1: "SupersedeOpen (dv_id dev) now w = (w1, r)" by fastforce
  obtain w2 rid where 2: "newRequestID w1 = (w2, rid)" by fastforce
  let ?a = "new_attempt (Some task) (dv_id dev) (dv_agent_version dev) (pl_version plan) rid now"
  obtain w3 q where 3: "Attempt_Create ?a w2 = (w3, q)" by fastforce
  have I1: "I w1" using finish_I(3) [OF assms(1,2), of "dv_id dev" now] 1 by simp
  have I2: "I w2" using same_I(6) [OF I1] 2 by simp
  have "K (dv_id dev) w1" using K_superseded [OF assms(1), of "dv_id dev" now] 1 by simp
  then have "K (dv_id dev) w2" by (rule K_tables) (use tables_update(7) [of w1] 2 in simp)
  then have I3: "I w3" using Attempt_Create_I [OF I2, of ?a] assms(3) 3 by (simp add: new_attempt_def)
  have "I (notify en plan dev a u)" if "I u" for a u using that by (simp add: notify_def split: option.splits)
  then show ?thesis using I3 by (auto simp: dispatch_device_def 1 2 3 Let_def split: sum.splits)
qed

lemma applyPlan_I:
  assumes "I w" "W ''superseded''"
  shows "I (fst (applyPlan en plan source actor w))"
proof -
  let ?t = "\<lparr>tk_id = 0, tk_version = pl_version plan, tk_source = source, tk_actor = actor,
                             tk_total = length (pl_devices plan), tk_finished = None\<rparr>"
  obtain w1 r where 1: "Task_Create ?t w = (w1, r)" by fastforce
  obtain w2 now where 2: "clock_now w1 = (w2, now)" by fastforce
  have I1: "I w1" and J: "\<And>i. r = Inr i \<Longrightarrow> J i" using Task_Create_I [OF assms(1), of ?t] 1 by auto
  have I2: "I w2" using same_I(1) [OF I1] 2 by simp
  have "I (foldl (\<lambda>w dev. dispatch_device en plan task now dev w) u ds)" if "I u" "J task" for u task ds
    using that by (induction ds arbitrary: u) (auto simp: dispatch_device_I assms(2))
  then show ?thesis using assms(1) I1 I2 J by (auto simp: applyPlan_def 1 2 split: sum.splits)
qed

lemma answer_I: "I w \<Longrightarrow> W ''superseded'' \<Longrightarrow> I (fst (apply_and_answer en plan v source actor w))"
  using applyPlan_I [of w en plan source actor] by (auto simp: apply_and_answer_def split: prod.splits sum.splits)

lemma classify_I [simp]: "I w \<Longrightarrow> I (fst (classify ds v w))"
  by (auto simp: classify_def releaseIndexFor_def dest: list_version_I split: prod.splits sum.splits)

lemma set_target_I:
  assumes "I w" "W ''superseded''"
  shows "I (fst (SetDeviceTarget en d v pin actor w))"
proof -
  obtain w1 r where 1: "on_dev (FindByID d) w = (w1, r)" by fastforce
  have I1: "I w1" using same_I(4) [OF assms(1), of "FindByID d"] 1 by simp
  have rest: "I (fst (case classify [dev] v w1 of (w, Inl _) \<Rightarrow> (w, Inl Internal)
           | (w, Inr plan) \<Rightarrow> if pin then (case on_dev (SetUpgradeTarget d v) w of
                              (w, Inl _) \<Rightarrow> (w, Inl Internal)
                            | (w, Inr _) \<Rightarrow> apply_and_answer en plan v ''manual'' actor w)
               else apply_and_answer en plan v ''manual'' actor w))" for dev
  proof -
    obtain w2 q where 2: "classify [dev] v w1 = (w2, q)" by fastforce
    obtain w3 p where 3: "on_dev (SetUpgradeTarget d v) w2 = (w3, p)" by fastforce
    have I2: "I w2" using classify_I [OF I1, of "[dev]" v] 2 by simp
    have I3: "I w3" using same_I(4) [OF I2, of "SetUpgradeTarget d v"] 3 by simp
    show ?thesis using I2 I3 answer_I assms(2) by (simp add: 2 3 split: sum.splits)
  qed
  show ?thesis using assms(1) I1 rest by (simp add: SetDeviceTarget_def 1 split: sum.splits db_error.splits)
qed

lemma clear_I: "I w \<Longrightarrow> I (fst (ClearDeviceTarget d w))"
  by (rule frame_tables, assumption, simp)

lemma dispatch_I:
  assumes "I w" "W ''superseded''"
  shows "I (fst (Dispatch en req source actor w))"
proof -
  obtain w1 r where 1: "resolveTargets en req w = (w1, r)" by fastforce
  have "I (fst (resolveTargets en req w))"
    by (rule frame_tables [OF assms(1)]) simp
  then have I1: "I w1" using 1 by simp
  have "I (fst (case classify ds (br_version req) w1 of (w, Inl _) \<Rightarrow> (w, Inl Internal)
       | (w, Inr plan) \<Rightarrow> apply_and_answer en plan (br_version req) source actor w))" for ds
    using classify_I [OF I1, of ds "br_version req"] answer_I assms(2) by (cases "classify ds (br_version req) w1") (auto split: sum.splits)
  then show ?thesis using assms(1) I1 by (simp add: Dispatch_def 1 split: sum.splits option.splits)
qed

lemma global_I:
  assumes "I w" "W ''superseded''"
  shows "I (fst (SetGlobalTarget en v actor w))"
proof -
  have gd: "I (fst (global_dispatch en v actor u))" if u: "I u" for u
  proof -
    obtain w1 since where 1: "onlineSince en u = (w1, since)" by fastforce
    obtain w2 r where 2: "on_dev (FindByUpgradeFilter en any_device since) w1 = (w2, r)" by fastforce
    have "I (fst (onlineSince en u))"
      by (rule frame_tables [OF u]) simp
    then have I1: "I w1" using 1 by simp
    have I2: "I w2" using same_I(4) [OF I1, of "FindByUpgradeFilter en any_device since"] 2 by simp
    have "I (fst (case classify (followers ds) v w2 of (w, Inl _) \<Rightarrow> (w, Inl Internal)
              | (w, Inr plan) \<Rightarrow>
                  (case applyPlan en plan ''global'' actor w of
                     (w, Inl e) \<Rightarrow> (w, Inl e)
                   | (w, Inr task) \<Rightarrow>
                       (w, Inr \<lparr>gr_version = v, gr_affected = length (pl_devices plan), gr_pinned = pinned_count ds,
                                gr_task = task_string task\<rparr>))))" for ds
    proof -
      obtain w3 q where 3: "classify (followers ds) v w2 = (w3, q)" by fastforce
      have I3: "I w3" using classify_I [OF I2, of "followers ds" v] 3 by simp
      show ?thesis using I3 applyPlan_I [OF I3 assms(2)]
        by (auto simp: 3 split: prod.splits sum.splits) (metis fst_conv)+
    qed
    then show ?thesis using I1 I2 by (simp add: global_dispatch_def 1 2 split: sum.splits)
  qed
  have sd: "I (fst (set_and_dispatch en v actor u))" if u: "I u" for u
    using read_I(8) [OF u, of v] gd by (auto simp: set_and_dispatch_def split: prod.splits sum.splits)
  show ?thesis using sd assms(1)
    by (auto simp: SetGlobalTarget_def dest: list_version_I split: prod.splits sum.splits)
qed

lemma sweep_I:
  assumes "I w" "W ''timeout''"
  shows "I (fst (SweepStale older limit w))"
proof -
  obtain w1 now where 1: "clock_now w = (w1, now)" by fastforce
  have I1: "I w1" using same_I(1) [OF assms(1)] 1 by simp
  have one: "I (fst (sweep_one now a wn))" if "I (fst wn)" "\<And>i. at_task a = Some i \<Longrightarrow> J i" for a wn
    using finish_I(2) [OF that(1) assms(2), of "at_id a" "''timeout''" now] that(2)
    by (auto simp: sweep_one_def intro!: settleTask_I split: prod.splits sum.splits)
  have loop: "I (fst (foldl (\<lambda>wn a. sweep_one now a wn) wn rows))"
    if "I (fst wn)" "\<And>a i. a \<in> set rows \<Longrightarrow> at_task a = Some i \<Longrightarrow> J i" for wn rows
    using that
  proof (induction rows arbitrary: wn)
    case (Cons a rows)
    have "I (fst (sweep_one now a wn))" by (rule one) (use Cons.prems in auto)
    then have "I (fst (foldl (\<lambda>wn a. sweep_one now a wn) (sweep_one now a wn) rows))"
      by (rule Cons.IH) (use Cons.prems(2) in auto)
    then show ?case by simp
  qed simp
  let ?older = "if older \<le> 0 then staleAfter else older"
  obtain w2 r where 2: "FindStale (now - ?older) limit w1 = (w2, r)" by fastforce
  have I2: "I w2" using read_I(5) [OF I1, of "now - ?older" limit] 2 by simp
  show ?thesis
  proof (cases r)
    case (Inr rows)
    have "I (fst (foldl (\<lambda>wn a. sweep_one now a wn) (w2, 0) rows))"
      by (rule loop) (use I2 found_stale_J [OF I1] 2 Inr in auto)
    then show ?thesis by (cases "foldl (\<lambda>wn a. sweep_one now a wn) (w2, 0) rows") (use 2 Inr in \<open>simp add: SweepStale_def 1 Let_def\<close>)
  qed (use I2 2 in \<open>simp add: SweepStale_def 1 Let_def\<close>)
qed

subsection \<open>Steps and runs\<close>

lemma step_I:
  assumes "up_step R en w w'" "I w" "\<And>s. s \<in> set upgradeStates \<Longrightarrow> W s" "W ''succeeded''" "W ''superseded''" "W ''timeout''"
  shows "I w' \<or> (\<exists>s. calm R s \<and> w' = w\<lparr>uw_script := s\<rparr>)"
proof -
  have W: "W ''rolled_back''" "W ''failed''" by (auto intro: assms(3) simp: upgradeStates_def)
  note W' = assms(4-6) W
  show ?thesis
    using assms(1)
  proof cases
    case (hello d v)
    then show ?thesis using reconcile_I [OF assms(2)] W' by simp
  next
    case (report st d)
    then have "us_state st \<in> set upgradeStates"
      by (auto simp: status_validate_def IsUpgradeState_def list_ex_iff reject_if_def split: if_splits)
    then show ?thesis using report_I [OF assms(2)] assms(3) report by simp
  next
    case (script s)
    then show ?thesis by auto
  qed (use assms(2) W' set_target_I clear_I dispatch_I global_I sweep_I in \<open>simp_all\<close>)
qed

end

text \<open>An invariant that survives every new script is an invariant of the runs.\<close>
locale upgrade_run_invariant = upgrade_invariant +
  fixes R :: "Attempt list \<Rightarrow> Attempt list \<Rightarrow> bool"
  assumes reports: "st \<in> set upgradeStates \<Longrightarrow> W st" and serves: "W ''succeeded''" "W ''superseded''" "W ''timeout''"
    and new_script: "I w \<Longrightarrow> calm R s \<Longrightarrow> I (w\<lparr>uw_script := s\<rparr>)"
begin

lemma run_I: "up_run R en w0 w \<Longrightarrow> I w0 \<Longrightarrow> I w"
  by (induction rule: up_run.induct) (auto dest!: step_I intro: reports serves new_script)

end

end
