(* ===== verification/Enrolment.thy ===== *)
theory Enrolment
  imports AgentIngest
begin

text \<open>
  What enrolment promises: the token it hands out works, the settings of the operators survive it, and it implements
  an abstract map from instances to credentials. A deleted device is the exception.
\<close>

section \<open>Tables\<close>

definition wf_rows :: "Device list \<Rightarrow> bool" where
  "wf_rows rows \<longleftrightarrow> distinct (map dv_id rows) \<and> distinct (map dv_instance rows) \<and> distinct (map dv_token_hash rows)"

text \<open>No row has the hash, now or by a concurrent insertion.\<close>
definition fresh :: "string \<Rightarrow> devdb \<Rightarrow> bool" where
  "fresh hash db \<longleftrightarrow> (\<forall>d\<in>set (db_rows db). dv_token_hash d \<noteq> hash) \<and> (\<forall>d. DbInsert d \<in> set (db_script db) \<longrightarrow> dv_token_hash d \<noteq> hash)"

text \<open>The hash belongs to device \<open>i\<close> and to no other.\<close>
definition owns :: "devdb \<Rightarrow> string \<Rightarrow> 64 word \<Rightarrow> bool" where
  "owns db hash i \<longleftrightarrow> (\<exists>d\<in>set (db_rows db). \<not> dv_deleted d \<and> dv_token_hash d = hash)
     \<and> (\<forall>d\<in>set (db_rows db). dv_token_hash d = hash \<longrightarrow> dv_id d = i)"

text \<open>What only the operators and the upgrade domain may change.\<close>
definition admin :: "Device \<Rightarrow> 64 word \<times> string \<times> int \<times> string \<times> string \<times> string \<times> int \<times> bool" where
  "admin d = (dv_id d, dv_instance d, dv_status d, dv_group d, dv_tags d, dv_target d, dv_up_state d, dv_deleted d)"

lemma insert_row_wf: "wf_rows rows \<Longrightarrow> wf_rows (insert_row d rows)"
  by (auto simp: insert_row_def clashes_def list_ex_iff wf_rows_def)

lemma insert_row_prefix: "\<exists>new. insert_row d rows = rows @ new"
  by (simp add: insert_row_def)

lemma first_row_Some: "first_row p rows = Some d \<Longrightarrow> d \<in> set rows \<and> \<not> dv_deleted d \<and> p d"
  by (auto simp: first_row_def find_Some_iff)

lemma first_row_None: "first_row p rows = None \<longleftrightarrow> (\<forall>d\<in>set rows. \<not> dv_deleted d \<longrightarrow> \<not> p d)"
  by (auto simp: first_row_def find_None_iff)

text \<open>The rows a statement works on.\<close>
definition seen_rows :: "devdb \<Rightarrow> Device list" where
  "seen_rows db = (case db_script db of DbInsert d # _ \<Rightarrow> insert_row d (db_rows db) | _ \<Rightarrow> db_rows db)"

lemma seen_rows_wf: "wf_rows (db_rows db) \<Longrightarrow> wf_rows (seen_rows db)"
  by (auto simp: seen_rows_def insert_row_wf split: list.splits db_event.splits)

lemma seen_rows_prefix: "\<exists>new. seen_rows db = db_rows db @ new"
  using insert_row_prefix by (auto simp: seen_rows_def split: list.splits db_event.splits)

lemma seen_rows_fresh: "fresh hash db \<Longrightarrow> d \<in> set (seen_rows db) \<Longrightarrow> dv_token_hash d \<noteq> hash"
  by (auto simp: seen_rows_def fresh_def insert_row_def split: list.splits db_event.splits if_splits)

lemma stmt_cases:
  obtains "stmt f db = (db\<lparr>db_script := tl (db_script db)\<rparr>, Inl DbBroken)"
  | "stmt f db = (db\<lparr>db_script := tl (db_script db), db_rows := fst (f (seen_rows db))\<rparr>, snd (f (seen_rows db)))"
  by (cases "db_script db"; cases "hd (db_script db)") (auto simp: stmt_def seen_rows_def Let_def split: prod.splits)

lemma stmt_script: "db_script (fst (stmt f db)) = tl (db_script db)"
  by (rule stmt_cases [of f db]) simp_all

lemma find_rows:
  assumes "dev_find p db = (db', r)"
  shows "wf_rows (db_rows db) \<Longrightarrow> wf_rows (db_rows db')" "fresh hash db \<Longrightarrow> fresh hash db'"
    "\<exists>new. db_rows db' = db_rows db @ new"
    "r = Inr d \<Longrightarrow> d \<in> set (db_rows db') \<and> \<not> dv_deleted d \<and> p d"
proof -
  have s: "db_script db' = tl (db_script db)" using assms stmt_script unfolding dev_find_def by (metis fst_conv)
  have r: "(db_rows db' = db_rows db \<and> r = Inl DbBroken) \<or> (db_rows db' = seen_rows db \<and>
      r = (case first_row p (seen_rows db) of Some d \<Rightarrow> Inr d | None \<Rightarrow> Inl DbNotFound))"
    using assms unfolding dev_find_def
    by (rule_tac stmt_cases [of "\<lambda>rows. (rows, case first_row p rows of Some d \<Rightarrow> Inr d | None \<Rightarrow> Inl DbNotFound)" db]) auto
  show "wf_rows (db_rows db')" if "wf_rows (db_rows db)" using r that seen_rows_wf by auto
  have t: "x \<in> set (tl (db_script db)) \<Longrightarrow> x \<in> set (db_script db)" for x by (cases "db_script db") auto
  show "fresh hash db'" if fr: "fresh hash db"
  proof -
    have "dv_token_hash d \<noteq> hash" if "d \<in> set (db_rows db')" for d
      using r that fr seen_rows_fresh [OF fr, of d] by (auto simp: fresh_def)
    then show ?thesis using fr t unfolding fresh_def s by blast
  qed
  show "\<exists>new. db_rows db' = db_rows db @ new" using r seen_rows_prefix [of db] by auto
  show "d \<in> set (db_rows db') \<and> \<not> dv_deleted d \<and> p d" if "r = Inr d"
    using r that first_row_Some [of p "seen_rows db" d] by (auto split: option.splits)
qed

text \<open>A row that only changes its hash to a fresh one keeps the table well formed.\<close>
lemma update_rows:
  assumes "dev_update i f db = (db', r)"
    and f: "\<And>d. admin (f d) = admin d"
  shows "\<exists>new. map admin (db_rows db') = map admin (db_rows db) @ new"
    "r = Inr () \<Longrightarrow> \<exists>d\<in>set (seen_rows db). \<not> dv_deleted d \<and> dv_id d = i \<and> f d \<in> set (db_rows db')"
    "r = Inr () \<Longrightarrow> db_rows db' = map (\<lambda>d. if \<not> dv_deleted d \<and> dv_id d = i then f d else d) (seen_rows db)"
proof -
  let ?g = "\<lambda>d. if \<not> dv_deleted d \<and> dv_id d = i then f d else d"
  have r: "(db_rows db' = db_rows db \<and> r = Inl DbBroken) \<or> (db_rows db' = seen_rows db \<and> r = Inl DbNotFound)
      \<or> (db_rows db' = map ?g (seen_rows db) \<and> r = Inr () \<and> (\<exists>d\<in>set (seen_rows db). \<not> dv_deleted d \<and> dv_id d = i))"
    using assms(1) unfolding dev_update_def
    by (rule_tac stmt_cases [of "\<lambda>rows. if list_ex (\<lambda>d. \<not> dv_deleted d \<and> dv_id d = i) rows
      then (map ?g rows, Inr ()) else (rows, Inl DbNotFound)" db]) (auto simp: list_ex_iff split: if_splits)
  have m: "map admin (map ?g rows) = map admin rows" for rows using f by (induction rows) auto
  show "\<exists>new. map admin (db_rows db') = map admin (db_rows db) @ new"
  proof -
    obtain new where n: "seen_rows db = db_rows db @ new" using seen_rows_prefix by blast
    have "map admin (db_rows db') = map admin (db_rows db) @ [] \<or> map admin (db_rows db') = map admin (seen_rows db)"
      using r m by auto
    then show ?thesis unfolding n map_append by blast
  qed
  show "\<exists>d\<in>set (seen_rows db). \<not> dv_deleted d \<and> dv_id d = i \<and> f d \<in> set (db_rows db')" if "r = Inr ()"
    using r that by force
  show "db_rows db' = map ?g (seen_rows db)" if "r = Inr ()" using r that by auto
qed

lemma admin_static [simp]: "admin (copy_static src d) = admin d" "admin ((copy_static src d)\<lparr>dv_token_hash := x, dv_primary_ip := y\<rparr>) = admin d"
  by (simp_all add: admin_def copy_static_def)

lemma from_hello_sel [simp]:
  "dv_id (from_hello hl d) = dv_id d" "dv_instance (from_hello hl d) = dv_instance d" "dv_status (from_hello hl d) = dv_status d"
  "dv_deleted (from_hello hl d) = dv_deleted d" "dv_token_hash (from_hello hl d) = dv_token_hash d"
  by (simp_all add: from_hello_def)

lemma enroll_update:
  assumes "UpdateEnroll src db = (db', r)"
  shows "\<exists>new. map admin (db_rows db') = map admin (db_rows db) @ new"
    "wf_rows (db_rows db) \<Longrightarrow> fresh (dv_token_hash src) db \<Longrightarrow> r = Inr () \<Longrightarrow> owns db' (dv_token_hash src) (dv_id src)"
proof -
  let ?f = "\<lambda>d. (copy_static src d)\<lparr>dv_token_hash := dv_token_hash src, dv_primary_ip := dv_primary_ip src\<rparr>"
  have u: "dev_update (dv_id src) ?f db = (db', r)" using assms by (simp add: UpdateEnroll_def)
  show "\<exists>new. map admin (db_rows db') = map admin (db_rows db) @ new" by (rule update_rows(1) [OF u]) simp
  assume wf: "wf_rows (db_rows db)" and fr: "fresh (dv_token_hash src) db" and r: "r = Inr ()"
  obtain d where d: "d \<in> set (seen_rows db)" "\<not> dv_deleted d" "?f d \<in> set (db_rows db')"
    using update_rows(2) [OF u _ r] by auto
  have "dv_id x = dv_id src" if "x \<in> set (db_rows db')" "dv_token_hash x = dv_token_hash src" for x
  proof -
    obtain y where "y \<in> set (seen_rows db)" "x = (if \<not> dv_deleted y \<and> dv_id y = dv_id src then ?f y else y)"
      using \<open>x \<in> set (db_rows db')\<close> update_rows(3) [OF u _ r] by auto
    then show ?thesis using that(2) seen_rows_fresh [OF fr, of y] by (auto simp: copy_static_def split: if_splits)
  qed
  moreover have "\<not> dv_deleted (?f d)" "dv_token_hash (?f d) = dv_token_hash src" using d by (simp_all add: copy_static_def)
  ultimately show "owns db' (dv_token_hash src) (dv_id src)" using d(3) unfolding owns_def by blast
qed

lemma create_rows:
  assumes "dev_Create d db = (db', r)"
  shows "\<exists>new. db_rows db' = db_rows db @ new" "wf_rows (db_rows db) \<Longrightarrow> wf_rows (db_rows db')"
    "r = Inl DbDuplicate \<Longrightarrow> fresh hash db \<Longrightarrow> fresh hash db'"
    "r = Inr () \<Longrightarrow> \<not> dv_deleted d \<Longrightarrow> owns db' (dv_token_hash d) (dv_id d)"
    "r = Inr () \<Longrightarrow> \<not> clashes (seen_rows db) d"
proof -
  have s: "db_script db' = tl (db_script db)" 
  proof -
    have "db' = fst (dev_Create d db)" using assms by simp
    then show ?thesis by (simp add: dev_Create_def stmt_script)
  qed
  have r: "(db_rows db' = db_rows db \<and> r = Inl DbBroken) \<or> (db_rows db' = seen_rows db \<and> r = Inl DbDuplicate)
     \<or> (db_rows db' = seen_rows db @ [d] \<and> r = Inr () \<and> \<not> clashes (seen_rows db) d)"
    using assms unfolding dev_Create_def
    by (rule_tac stmt_cases [of "\<lambda>rows. if clashes rows d then (rows, Inl DbDuplicate) else (rows @ [d], Inr ())" db]) (auto split: if_splits)
  show "\<exists>new. db_rows db' = db_rows db @ new" using r seen_rows_prefix [of db] by auto
  show "wf_rows (db_rows db')" if "wf_rows (db_rows db)"
  proof -
    have "wf_rows (seen_rows db @ [d])" if "\<not> clashes (seen_rows db) d"
      using that seen_rows_wf [OF \<open>wf_rows (db_rows db)\<close>] by (auto simp: clashes_def list_ex_iff wf_rows_def)
    then show ?thesis using r seen_rows_wf [OF that] that by auto
  qed
  have t: "x \<in> set (tl (db_script db)) \<Longrightarrow> x \<in> set (db_script db)" for x by (cases "db_script db") auto
  show "fresh hash db'" if "r = Inl DbDuplicate" "fresh hash db"
    using r that(1) seen_rows_fresh [OF that(2)] that(2) t by (auto simp: fresh_def s)
  show "owns db' (dv_token_hash d) (dv_id d)" if "r = Inr ()" "\<not> dv_deleted d"
    using r that unfolding owns_def clashes_def list_ex_iff by fastforce
  show "\<not> clashes (seen_rows db) d" if "r = Inr ()" using r that by auto
qed

section \<open>Enrolment\<close>

lemma enroll_owner:
  assumes wf: "wf_rows (db_rows db)" and t: "en_random en = Some t" "fresh (hashToken en t) db"
    and e: "Enroll en hl ip db = (db', Inr (i, tok))"
  shows "tok = t \<and> owns db' (hashToken en t) i"
proof -
  let ?h = "hashToken en t"
  obtain db1 r1 where f: "FindByInstanceID (h_instance_id hl) db = (db1, r1)" by fastforce
  note p1 = find_rows [OF f [unfolded FindByInstanceID_def]]
  have wf1: "wf_rows (db_rows db1)" and fr1: "fresh ?h db1" using p1(1,2) wf t(2) by auto
  show ?thesis
  proof (cases r1)
    case (Inr x)
    then have "enroll_known hl ip t ?h x db1 = (db', Inr (i, tok))"
      using e t(1) f by (auto simp: Enroll_def newAgentToken_def split: if_splits)
    then show ?thesis using enroll_update(2) [OF _ wf1] fr1
      by (auto simp: enroll_known_def Let_def split: prod.splits sum.splits if_splits) fastforce+
  next
    case (Inl er)
    then have n: "enroll_new en hl ip t ?h db1 = (db', Inr (i, tok))"
      using e t(1) f by (auto simp: Enroll_def newAgentToken_def split: if_splits)
    obtain db2 r2 where c: "dev_Create (new_device en hl ip ?h) db1 = (db2, r2)" by fastforce
    note p2 = create_rows [OF c]
    have nd: "\<not> dv_deleted (new_device en hl ip ?h)" "dv_token_hash (new_device en hl ip ?h) = ?h" "dv_id (new_device en hl ip ?h) = en_new_id en"
      by (simp_all add: new_device_def)
    show ?thesis
    proof (cases r2)
      case (Inr u)
      then show ?thesis using n c p2(4) nd by (auto simp: enroll_new_def)
    next
      case (Inl e2)
      then have e2: "e2 = DbDuplicate" using n c by (cases e2) (auto simp: enroll_new_def)
      obtain db3 r3 where f3: "FindByInstanceID (h_instance_id hl) db2 = (db3, r3)" by fastforce
      note p3 = find_rows [OF f3 [unfolded FindByInstanceID_def]]
      have "wf_rows (db_rows db3)" "fresh ?h db3" using p3(1,2) p2(2,3) wf1 fr1 Inl e2 by auto
      moreover obtain a where a: "r3 = Inr a" using n c Inl e2 f3 by (cases r3) (auto simp: enroll_new_def)
      moreover have "UpdateEnroll (a\<lparr>dv_token_hash := ?h\<rparr>) db3 = (db', Inr ()) \<and> i = dv_id a \<and> tok = t"
        using n c Inl e2 f3 a by (auto simp: enroll_new_def split: prod.splits sum.splits)
      ultimately show ?thesis using enroll_update(2) [of "a\<lparr>dv_token_hash := ?h\<rparr>" db3 db'] by auto
    qed
  qed
qed

lemma enroll_admin: "\<exists>new. map admin (db_rows (fst (Enroll en hl ip db))) = map admin (db_rows db) @ new"
proof -
  have find: "\<exists>new. map admin (db_rows d1) = map admin (db_rows d0) @ new" if "FindByInstanceID x d0 = (d1, r)" for x d0 d1 r
    using find_rows(3) [OF that [unfolded FindByInstanceID_def]] by auto
  have upd: "\<exists>new. map admin (db_rows d1) = map admin (db_rows d0) @ new" if "UpdateEnroll x d0 = (d1, r)" for x d0 d1 r
    using enroll_update(1) [OF that] .
  have cre: "\<exists>new. map admin (db_rows d1) = map admin (db_rows d0) @ new" if "dev_Create x d0 = (d1, r)" for x d0 d1 r
    using create_rows(1) [OF that] by auto
  have trans: "\<exists>new. c = a @ new" if "\<exists>new. b = a @ new" "\<exists>new. c = b @ new" for a b c :: "(64 word \<times> string \<times> int \<times> string \<times> string \<times> string \<times> int \<times> bool) list"
    using that by auto
  have known: "\<exists>new. map admin (db_rows (fst (enroll_known hl ip t h x d0))) = map admin (db_rows d0) @ new" for t h x d0
    by (auto simp: enroll_known_def Let_def intro: upd split: prod.splits sum.splits)
  have again: "\<exists>new. map admin (db_rows (fst (enroll_new en hl ip t h d0))) = map admin (db_rows d0) @ new" for t h d0
    by (auto simp: enroll_new_def intro: cre trans [OF cre find] trans [OF trans [OF cre find] upd]
        split: prod.splits sum.splits db_error.splits)
  show ?thesis
    by (auto simp: Enroll_def intro: find trans [OF find known] trans [OF find again] split: prod.splits sum.splits option.splits)
qed

section \<open>The abstract map\<close>

text \<open>Instances to the device, the hash of its token and its status.\<close>
definition creds :: "Device list \<Rightarrow> string \<Rightarrow> (64 word \<times> string \<times> int) option" where
  "creds rows inst = map_option (\<lambda>d. (dv_id d, dv_token_hash d, dv_status d)) (first_row (\<lambda>d. dv_instance d = inst) rows)"

definition enroll_spec :: "string \<Rightarrow> 64 word \<Rightarrow> string \<Rightarrow> (string \<Rightarrow> (64 word \<times> string \<times> int) option) \<Rightarrow>
    (string \<Rightarrow> (64 word \<times> string \<times> int) option) \<times> 64 word" where
  "enroll_spec inst new_id hash m =
     (case m inst of
        Some (i, _, st) \<Rightarrow> (m(inst \<mapsto> (i, hash, st)), i)
      | None \<Rightarrow> (m(inst \<mapsto> (new_id, hash, DeviceStatusEnabled)), new_id))"

lemma first_row_unique:
  assumes "wf_rows rows" "d \<in> set rows" "\<not> dv_deleted d" "dv_instance d = inst"
  shows "first_row (\<lambda>d. dv_instance d = inst) rows = Some d"
proof (cases "first_row (\<lambda>d. dv_instance d = inst) rows")
  case None
  then show ?thesis using assms by (auto simp: first_row_None)
next
  case (Some x)
  then have "x \<in> set rows" "dv_instance x = inst" using first_row_Some by blast+
  then show ?thesis using assms Some by (auto simp: wf_rows_def distinct_map dest: inj_onD)
qed

lemma creds_update:
  assumes "wf_rows rows" "d \<in> set rows" "\<not> dv_deleted d"
    and f: "\<And>x. dv_id (f x) = dv_id x \<and> dv_instance (f x) = dv_instance x \<and> dv_status (f x) = dv_status x
        \<and> dv_deleted (f x) = dv_deleted x \<and> dv_token_hash (f x) = hash"
  shows "creds (map (\<lambda>x. if \<not> dv_deleted x \<and> dv_id x = dv_id d then f x else x) rows)
     = (creds rows)(dv_instance d \<mapsto> (dv_id d, hash, dv_status d))"
proof
  fix inst
  let ?g = "\<lambda>x. if \<not> dv_deleted x \<and> dv_id x = dv_id d then f x else x"
  have g: "\<not> dv_deleted (?g x) \<and> dv_instance (?g x) = inst \<longleftrightarrow> \<not> dv_deleted x \<and> dv_instance x = inst" for x using f by simp
  have "first_row (\<lambda>d. dv_instance d = inst) (map ?g rows) = map_option ?g (first_row (\<lambda>d. dv_instance d = inst) rows)"
    unfolding first_row_def by (induction rows) (simp_all add: g del: if_split)
  then have c: "creds (map ?g rows) inst = map_option (\<lambda>d. (dv_id d, dv_token_hash d, dv_status d)) (map_option ?g (first_row (\<lambda>d. dv_instance d = inst) rows))"
    by (simp add: creds_def)
  show "creds (map ?g rows) inst = ((creds rows)(dv_instance d \<mapsto> (dv_id d, hash, dv_status d))) inst"
  proof (cases "inst = dv_instance d")
    case True
    then show ?thesis unfolding c using first_row_unique [OF assms(1-3)] f assms(3) by simp
  next
    case False
    have "dv_id x \<noteq> dv_id d" if "first_row (\<lambda>d. dv_instance d = inst) rows = Some x" for x
      using first_row_Some [OF that] assms(1,2) False by (auto simp: wf_rows_def distinct_map dest: inj_onD)
    then show ?thesis unfolding c using False by (auto simp: creds_def split: option.splits) (cases "first_row (\<lambda>d. dv_instance d = inst) rows"; auto)
  qed
qed

lemma creds_same:
  assumes "\<And>x. dv_id (g x) = dv_id x \<and> dv_instance (g x) = dv_instance x \<and> dv_status (g x) = dv_status x
        \<and> dv_deleted (g x) = dv_deleted x \<and> dv_token_hash (g x) = dv_token_hash x"
  shows "creds (map g rows) = creds rows"
proof
  fix inst
  have "first_row (\<lambda>d. dv_instance d = inst) (map g rows) = map_option g (first_row (\<lambda>d. dv_instance d = inst) rows)"
    unfolding first_row_def by (induction rows) (simp_all add: assms)
  then show "creds (map g rows) inst = creds rows inst"
    by (cases "first_row (\<lambda>d. dv_instance d = inst) rows") (simp_all add: creds_def assms)
qed

lemma creds_Nil [simp]: "creds [] = Map.empty"
  by (simp add: creds_def first_row_def fun_eq_iff)

lemma creds_append:
  assumes "creds rows (dv_instance d) = None" "\<not> dv_deleted d"
  shows "creds (rows @ [d]) = (creds rows)(dv_instance d \<mapsto> (dv_id d, dv_token_hash d, dv_status d))"
proof
  fix inst
  have "first_row p (rows @ [d]) = (case first_row p rows of None \<Rightarrow> if p d then Some d else None | Some x \<Rightarrow> Some x)" for p
    using assms(2) unfolding first_row_def by (induction rows) simp_all
  then show "creds (rows @ [d]) inst = ((creds rows)(dv_instance d \<mapsto> (dv_id d, dv_token_hash d, dv_status d))) inst"
    using assms(1) by (auto simp: creds_def split: option.splits)
qed

lemma creds_by_hash:
  assumes "wf_rows rows"
  shows "(\<exists>inst st. creds rows inst = Some (i, hash, st)) \<longleftrightarrow> (\<exists>d. first_row (\<lambda>d. dv_token_hash d = hash) rows = Some d \<and> dv_id d = i)"
proof
  assume "\<exists>inst st. creds rows inst = Some (i, hash, st)"
  then obtain inst d where d: "first_row (\<lambda>d. dv_instance d = inst) rows = Some d" "dv_id d = i" "dv_token_hash d = hash"
    by (auto simp: creds_def)
  note m = first_row_Some [OF d(1)]
  then obtain x where x: "first_row (\<lambda>d. dv_token_hash d = hash) rows = Some x"
    using d(3) by (cases "first_row (\<lambda>d. dv_token_hash d = hash) rows") (auto simp: first_row_None)
  then have "x = d" using first_row_Some [OF x] m d(3) assms by (auto simp: wf_rows_def distinct_map dest: inj_onD)
  then show "\<exists>d. first_row (\<lambda>d. dv_token_hash d = hash) rows = Some d \<and> dv_id d = i" using x d(2) by blast
next
  assume "\<exists>d. first_row (\<lambda>d. dv_token_hash d = hash) rows = Some d \<and> dv_id d = i"
  then obtain d where d: "first_row (\<lambda>d. dv_token_hash d = hash) rows = Some d" "dv_id d = i" by blast
  then have "creds rows (dv_instance d) = Some (i, hash, dv_status d)"
    using first_row_Some [OF d(1)] first_row_unique [OF assms, of d "dv_instance d"] by (simp add: creds_def)
  then show "\<exists>inst st. creds rows inst = Some (i, hash, st)" by blast
qed

text \<open>Statements when nothing interferes.\<close>
lemma quiet_find: "db_script db = [] \<Longrightarrow> dev_find p db = (db, case first_row p (db_rows db) of Some d \<Rightarrow> Inr d | None \<Rightarrow> Inl DbNotFound)"
  by (simp add: dev_find_def stmt_def)

lemma quiet_update:
  assumes "db_script db = []" "d \<in> set (db_rows db)" "\<not> dv_deleted d" "dv_id d = i"
  shows "dev_update i f db = (db\<lparr>db_rows := map (\<lambda>d. if \<not> dv_deleted d \<and> dv_id d = i then f d else d) (db_rows db)\<rparr>, Inr ())"
  using assms by (auto simp: dev_update_def stmt_def list_ex_iff)

lemma quiet_enroll:
  assumes wf: "wf_rows (db_rows db)" and q: "db_script db = []" "fresh hash db"
    and new: "\<forall>d\<in>set (db_rows db). dv_id d \<noteq> en_new_id en \<and> (dv_deleted d \<longrightarrow> dv_instance d \<noteq> h_instance_id hl)"
  shows "first_row (\<lambda>d. dv_instance d = h_instance_id hl) (db_rows db) = Some x \<Longrightarrow>
      creds (db_rows (fst (enroll_known hl ip t hash x db))) = (creds (db_rows db))(h_instance_id hl \<mapsto> (dv_id x, hash, dv_status x))
      \<and> snd (enroll_known hl ip t hash x db) = Inr (dv_id x, t)"
    and "first_row (\<lambda>d. dv_instance d = h_instance_id hl) (db_rows db) = None \<Longrightarrow>
      creds (db_rows (fst (enroll_new en hl ip t hash db))) = (creds (db_rows db))(h_instance_id hl \<mapsto> (en_new_id en, hash, DeviceStatusEnabled))
      \<and> snd (enroll_new en hl ip t hash db) = Inr (en_new_id en, t)"
proof -
  assume x: "first_row (\<lambda>d. dv_instance d = h_instance_id hl) (db_rows db) = Some x"
  note m = first_row_Some [OF x]
  let ?f = "\<lambda>ip' d. (copy_static ((from_hello hl x)\<lparr>dv_token_hash := hash, dv_primary_ip := ip'\<rparr>) d)\<lparr>dv_token_hash := hash, dv_primary_ip := ip'\<rparr>"
  have f: "dv_id (?f p y) = dv_id y \<and> dv_instance (?f p y) = dv_instance y \<and> dv_status (?f p y) = dv_status y
        \<and> dv_deleted (?f p y) = dv_deleted y \<and> dv_token_hash (?f p y) = hash" for p y by (simp add: copy_static_def)
  have "UpdateEnroll ((from_hello hl x)\<lparr>dv_token_hash := hash, dv_primary_ip := p\<rparr>) db
      = (db\<lparr>db_rows := map (\<lambda>d. if \<not> dv_deleted d \<and> dv_id d = dv_id x then ?f p d else d) (db_rows db)\<rparr>, Inr ())" for p
    using m quiet_update [OF q(1), of x "dv_id x"] by (simp add: UpdateEnroll_def)
  moreover have "enroll_known hl ip t hash x db = (case UpdateEnroll ((from_hello hl x)\<lparr>dv_token_hash := hash,
      dv_primary_ip := (if ip = [] then dv_primary_ip x else ip)\<rparr>) db of (db, Inl _) \<Rightarrow> (db, Inl Internal) | (db, Inr _) \<Rightarrow> (db, Inr (dv_id x, t)))"
  proof -
    have "(from_hello hl x)\<lparr>dv_token_hash := hash, dv_primary_ip := dv_primary_ip x\<rparr> = (from_hello hl x)\<lparr>dv_token_hash := hash\<rparr>"
      by (simp add: from_hello_def)
    then show ?thesis by (simp add: enroll_known_def)
  qed
  ultimately show "creds (db_rows (fst (enroll_known hl ip t hash x db))) = (creds (db_rows db))(h_instance_id hl \<mapsto> (dv_id x, hash, dv_status x))
      \<and> snd (enroll_known hl ip t hash x db) = Inr (dv_id x, t)"
    using creds_update [OF wf _ _ f, of x] m by simp
next
  assume x: "first_row (\<lambda>d. dv_instance d = h_instance_id hl) (db_rows db) = None"
  let ?d = "new_device en hl ip hash"
  have n: "dv_id ?d = en_new_id en" "dv_instance ?d = h_instance_id hl" "dv_token_hash ?d = hash" "dv_status ?d = DeviceStatusEnabled" "\<not> dv_deleted ?d"
    by (simp_all add: new_device_def)
  have "\<not> clashes (db_rows db) ?d" using new q(2) x by (auto simp: clashes_def list_ex_iff n fresh_def first_row_None)
  then have "dev_Create ?d db = (db\<lparr>db_rows := db_rows db @ [?d]\<rparr>, Inr ())" using q(1) by (simp add: dev_Create_def stmt_def)
  then show "creds (db_rows (fst (enroll_new en hl ip t hash db))) = (creds (db_rows db))(h_instance_id hl \<mapsto> (en_new_id en, hash, DeviceStatusEnabled))
      \<and> snd (enroll_new en hl ip t hash db) = Inr (en_new_id en, t)"
    using creds_append [of "db_rows db" ?d] x n by (simp add: enroll_new_def creds_def)
qed

lemma quiet_authenticate:
  assumes "wf_rows (db_rows db)" "db_script db = []" "h_agent_token hl \<noteq> []"
  shows "creds (db_rows (fst (Authenticate en hl db))) = creds (db_rows db)"
    "snd (Authenticate en hl db) = Inr i \<longleftrightarrow> (\<exists>inst st. creds (db_rows db) inst = Some (i, hashToken en (h_agent_token hl), st))"
proof -
  let ?p = "\<lambda>d. dv_token_hash d = hashToken en (h_agent_token hl)"
  have r: "creds (db_rows (refreshStatic d hl db)) = creds (db_rows db)" if "d \<in> set (db_rows db)" "\<not> dv_deleted d" for d
    using quiet_update [OF assms(2) that, of "dv_id d"] by (simp add: refreshStatic_def RefreshStaticFromHello_def) (rule creds_same; simp add: copy_static_def)
  show "creds (db_rows (fst (Authenticate en hl db))) = creds (db_rows db)"
    using r first_row_Some [of ?p "db_rows db"] assms(3)
    by (cases "first_row ?p (db_rows db)") (auto simp: Authenticate_def FindByTokenHash_def quiet_find [OF assms(2)])
  show "snd (Authenticate en hl db) = Inr i \<longleftrightarrow> (\<exists>inst st. creds (db_rows db) inst = Some (i, hashToken en (h_agent_token hl), st))"
    unfolding creds_by_hash [OF assms(1)] using assms(3)
    by (cases "first_row ?p (db_rows db)") (auto simp: Authenticate_def FindByTokenHash_def quiet_find [OF assms(2)])
qed

text \<open>A deleted row holds its instance.\<close>
definition locked :: "string \<Rightarrow> devdb \<Rightarrow> bool" where
  "locked inst db \<longleftrightarrow> wf_rows (db_rows db) \<and> (\<exists>d\<in>set (db_rows db). dv_deleted d \<and> dv_instance d = inst)"

lemma locked_find:
  assumes "locked inst db" "FindByInstanceID inst db = (db', r)"
  shows "locked inst db' \<and> (\<exists>e. r = Inl e)"
proof -
  note p = find_rows [OF assms(2) [unfolded FindByInstanceID_def]]
  have l: "locked inst db'" using assms(1) p(1) p(3) by (auto simp: locked_def)
  have "r \<noteq> Inr d" for d using p(4) [of d] l by (auto simp: locked_def wf_rows_def distinct_map dest: inj_onD)
  then show ?thesis using l by (cases r) auto
qed

lemma locked_create:
  assumes "locked (dv_instance d) db" "dev_Create d db = (db', r)"
  shows "locked (dv_instance d) db' \<and> r \<noteq> Inr ()"
proof -
  note p = create_rows [OF assms(2)]
  have "clashes (seen_rows db) d" using assms(1) seen_rows_prefix [of db] by (auto simp: locked_def clashes_def list_ex_iff)
  then show ?thesis using p(1,2,5) assms(1) by (auto simp: locked_def)
qed

lemma locked_enroll:
  assumes "locked (h_instance_id hl) db"
  shows "\<exists>e. snd (Enroll en hl ip db) = Inl e"
proof -
  have n: "\<exists>e. snd (enroll_new en hl ip t h db1) = Inl e" if "locked (h_instance_id hl) db1" for t h db1
  proof -
    obtain db2 r where c: "dev_Create (new_device en hl ip h) db1 = (db2, r)" by fastforce
    have "locked (h_instance_id hl) db2 \<and> r \<noteq> Inr ()" using locked_create [OF _ c] that by (simp add: new_device_def)
    moreover obtain db3 r3 where f: "FindByInstanceID (h_instance_id hl) db2 = (db3, r3)" by fastforce
    ultimately show ?thesis using locked_find [OF _ f] c
      by (cases r) (auto simp: enroll_new_def split: db_error.splits)
  qed
  obtain db1 r where f: "FindByInstanceID (h_instance_id hl) db = (db1, r)" by fastforce
  then show ?thesis using locked_find [OF assms f] n by (auto simp: Enroll_def split: option.splits)
qed

lemma delete_locks:
  assumes "wf_rows (db_rows db)" "db_script db = []" "d \<in> set (db_rows db)" "\<not> dv_deleted d"
    and "device_Delete res (dv_id d) db = (db', None)"
  shows "locked (dv_instance d) (db'\<lparr>db_script := ds\<rparr>)"
proof -
  let ?g = "\<lambda>x. if \<not> dv_deleted x \<and> dv_id x = dv_id d then x\<lparr>dv_deleted := True\<rparr> else x"
  let ?rows = "map ?g (db_rows db)"
  have r: "db_rows db' = ?rows"
    using assms(5) quiet_update [OF assms(2-4) refl]
    by (auto simp: device_Delete_def findDevice_def FindByID_def quiet_find [OF assms(2)] dev_Delete_def split: option.splits if_splits)
  have "map dv_id (map ?g rows) = map dv_id rows" "map dv_instance (map ?g rows) = map dv_instance rows"
    "map dv_token_hash (map ?g rows) = map dv_token_hash rows" for rows by (induction rows) auto
  then have "wf_rows ?rows" using assms(1) unfolding wf_rows_def by metis
  moreover have "?g d \<in> set ?rows" "dv_deleted (?g d)" "dv_instance (?g d) = dv_instance d" using assms(3,4) by auto
  ultimately have "locked (dv_instance d) db'" unfolding locked_def r by blast
  then show ?thesis by (simp add: locked_def)
qed

section \<open>Properties\<close>

text \<open>C10: the token an enrolment returns works. Whatever fails, and although other requests may insert the same
  device in between, a device that was told its identifier and token can authenticate with that token from then
  on and is that device, provided the random token is new.\<close>
theorem enrolled_token_works:
  assumes "wf_rows (db_rows db)" "en_random en = Some t" "t \<noteq> []" "fresh (hashToken en t) db"
    and "Enroll en hl ip db = (db', Inr (i, tok))" "h_agent_token hl' = tok"
  shows "snd (Authenticate en hl' (db'\<lparr>db_script := []\<rparr>)) = Inr i"
proof -
  have o: "tok = t" "owns db' (hashToken en t) i" using enroll_owner [OF assms(1,2,4,5)] by auto
  then obtain d where d: "first_row (\<lambda>d. dv_token_hash d = hashToken en t) (db_rows db') = Some d"
    by (cases "first_row (\<lambda>d. dv_token_hash d = hashToken en t) (db_rows db')") (auto simp: owns_def first_row_None)
  then have "dv_id d = i" using o(2) first_row_Some [OF d] by (simp add: owns_def)
  then show ?thesis using d o(1) assms(3,6)
    by (simp add: Authenticate_def FindByTokenHash_def dev_find_def stmt_def hashToken_def)
qed

definition demo_env :: ingest_env where
  "demo_env = \<lparr>en_token = ''e'', en_sha = (\<lambda>t. CHR ''#'' # t), en_random = Some ''secret'', en_new_id = 7\<rparr>"

definition enrol_hello :: Hello where
  "enrol_hello = zero_hello\<lparr>h_instance_id := ''i'', h_enroll_token := ''e''\<rparr>"

text \<open>Another request inserts the same device after the lookup.\<close>
definition raced_db :: devdb where
  "raced_db = \<lparr>db_rows = [], db_script = [DbOk, DbInsert (new_device (demo_env\<lparr>en_new_id := 9\<rparr>) enrol_hello [] ''#other'')]\<rparr>"

lemma enrolled_token_works_witness:
  "snd (Authenticate demo_env (enrol_hello\<lparr>h_agent_token := ''secret''\<rparr>) ((fst (Enroll demo_env enrol_hello [] raced_db))\<lparr>db_script := []\<rparr>)) = Inr 9"
proof -
  have "snd (Enroll demo_env enrol_hello [] raced_db) = Inr (9, ''secret'')" by code_simp
  then have e: "Enroll demo_env enrol_hello [] raced_db = (fst (Enroll demo_env enrol_hello [] raced_db), Inr (9, ''secret''))"
    by (metis prod.collapse)
  show ?thesis
    by (rule enrolled_token_works [OF _ _ _ _ e, of "''secret''"])
      (simp_all add: raced_db_def wf_rows_def demo_env_def fresh_def hashToken_def new_device_def)
qed

text \<open>Enrolment leaves the settings of the operators alone. Whatever fails and whoever interferes, every device keeps
  its identity, its being enabled or disabled, its group, tags, upgrade target and result; rows are only added at
  the end. A disabled device that enrols again stays disabled.\<close>
theorem enroll_keeps_admin:
  assumes "k < length (db_rows db)"
  shows "admin (db_rows (fst (Enroll en hl ip db)) ! k) = admin (db_rows db ! k)"
proof -
  obtain new where n: "map admin (db_rows (fst (Enroll en hl ip db))) = map admin (db_rows db) @ new"
    using enroll_admin by blast
  then have l: "k < length (db_rows (fst (Enroll en hl ip db)))"
    using assms by (metis length_append length_map trans_less_add1)
  have "map admin (db_rows (fst (Enroll en hl ip db))) ! k = map admin (db_rows db) ! k"
    using assms by (simp add: n nth_append)
  then show ?thesis using assms l by simp
qed

lemma enroll_keeps_admin_witness:
  "dv_status (db_rows (fst (Enroll demo_env enrol_hello [] \<lparr>db_rows = [(new_device demo_env enrol_hello [] ''#'')\<lparr>dv_status := 0\<rparr>], db_script = []\<rparr>)) ! 0) = 0"
  using enroll_keeps_admin [of 0 "\<lparr>db_rows = [(new_device demo_env enrol_hello [] ''#'')\<lparr>dv_status := 0\<rparr>], db_script = []\<rparr>" demo_env enrol_hello "[]"]
  by (simp add: admin_def)

text \<open>C9: enrolment and authentication implement a map of credentials. On a table that works and an instance that was
  never deleted, an enrolment acts on the map from instances to device, token hash and status like its
  specification: it sets the hash and keeps device and status, or adds an enabled device. An authentication
  leaves the map alone and finds a device exactly when some instance has the hash of the token.\<close>
theorem enroll_refines:
  assumes "wf_rows (db_rows db)" "db_script db = []" "en_random en = Some t" "fresh (hashToken en t) db"
    and "en_token en \<noteq> []" "h_enroll_token hl = en_token en"
    and "\<forall>d\<in>set (db_rows db). dv_id d \<noteq> en_new_id en \<and> (dv_deleted d \<longrightarrow> dv_instance d \<noteq> h_instance_id hl)"
  shows "(let (m, i) = enroll_spec (h_instance_id hl) (en_new_id en) (hashToken en t) (creds (db_rows db))
          in creds (db_rows (fst (Enroll en hl ip db))) = m \<and> snd (Enroll en hl ip db) = Inr (i, t))
     \<and> (h_agent_token hl \<noteq> [] \<longrightarrow> creds (db_rows (fst (Authenticate en hl db))) = creds (db_rows db)
        \<and> (\<forall>i. snd (Authenticate en hl db) = Inr i \<longleftrightarrow> (\<exists>inst st. creds (db_rows db) inst = Some (i, hashToken en (h_agent_token hl), st))))"
proof -
  have t: "newAgentToken en = Some (t, hashToken en t)" using assms(3) by (simp add: newAgentToken_def)
  have "let (m, i) = enroll_spec (h_instance_id hl) (en_new_id en) (hashToken en t) (creds (db_rows db))
      in creds (db_rows (fst (Enroll en hl ip db))) = m \<and> snd (Enroll en hl ip db) = Inr (i, t)"
    using quiet_enroll(1) [OF assms(1,2,4,7), where ip = ip and t = t] quiet_enroll(2) [OF assms(1,2,4,7), where ip = ip and t = t] t assms(5,6)
    by (cases "first_row (\<lambda>d. dv_instance d = h_instance_id hl) (db_rows db)")
      (simp_all add: Enroll_def FindByInstanceID_def quiet_find [OF assms(2)] enroll_spec_def creds_def)
  then show ?thesis using quiet_authenticate [OF assms(1,2)] by blast
qed

lemma enroll_refines_witness:
  "creds (db_rows (fst (Enroll demo_env enrol_hello [] \<lparr>db_rows = [], db_script = []\<rparr>))) = [''i'' \<mapsto> (7, ''#secret'', 1)]"
  using enroll_refines [of "\<lparr>db_rows = [], db_script = []\<rparr>" demo_env "''secret''" enrol_hello "[]"]
  by (simp add: wf_rows_def demo_env_def fresh_def enrol_hello_def enroll_spec_def hashToken_def DeviceStatusEnabled_def)

text \<open>C11: a deleted device can never come back. Deleting keeps its row, the lookup of an enrolment does not see it, and
  the unique index on the instance refuses a new one: every later enrolment of that instance fails, whatever
  the token and whatever else happens to the table.\<close>
theorem deleted_device_locked_out:
  assumes "wf_rows (db_rows db)" "db_script db = []" "d \<in> set (db_rows db)" "\<not> dv_deleted d" "dv_instance d = h_instance_id hl"
    and "device_Delete res (dv_id d) db = (db', None)"
  shows "\<exists>e. snd (Enroll en hl ip (db'\<lparr>db_script := ds\<rparr>)) = Inl e"
  using locked_enroll delete_locks [OF assms(1-4,6)] assms(5) by simp

lemma deleted_device_locked_out_witness:
  "\<exists>e. snd (Enroll demo_env enrol_hello [] ((fst (device_Delete (\<lambda>_. True) 5
      \<lparr>db_rows = [(new_device demo_env enrol_hello [] ''#'')\<lparr>dv_id := 5\<rparr>], db_script = []\<rparr>))\<lparr>db_script := []\<rparr>)) = Inl e"
proof -
  let ?d = "(new_device demo_env enrol_hello [] ''#'')\<lparr>dv_id := 5\<rparr>"
  have "device_Delete (\<lambda>_. True) (dv_id ?d) \<lparr>db_rows = [?d], db_script = []\<rparr>
      = (fst (device_Delete (\<lambda>_. True) 5 \<lparr>db_rows = [?d], db_script = []\<rparr>), None)"
    by (simp add: device_Delete_def findDevice_def FindByID_def dev_find_def stmt_def first_row_def new_device_def dev_Delete_def dev_update_def)
  then show ?thesis
    by (rule deleted_device_locked_out [rotated -1]) (simp_all add: wf_rows_def new_device_def)
qed

end
