(* ===== verification/DispatchProps.thy ===== *)
theory DispatchProps
  imports DispatchSafety Enrolment
begin

text \<open>
  The properties of the upgrade domain: finished attempts are final under any interference that respects them, only
  a hello of the target version succeeds, one attempt is open per device, tasks whose attempts were superseded stay
  unfinished, failed upgrades are not issued again, directives name an open attempt and reports reach it, a site-wide
  target pins the devices it reaches, and the numbers of a plan add up.
\<close>

section \<open>Finished attempts are final\<close>

definition finished_kept :: "Attempt list \<Rightarrow> Attempt list \<Rightarrow> bool" where
  "finished_kept as bs \<longleftrightarrow> (\<forall>a\<in>set as. \<not> at_open a \<longrightarrow> a \<in> set bs)"

lemma finished_kept_refl [simp]: "finished_kept as as"
  by (simp add: finished_kept_def)

lemma finished_kept_trans: "finished_kept as bs \<Longrightarrow> finished_kept bs cs \<Longrightarrow> finished_kept as cs"
  by (auto simp: finished_kept_def)

definition fin_inv :: "Attempt list \<Rightarrow> upworld \<Rightarrow> bool" where
  "fin_inv as w \<longleftrightarrow> finished_kept as (uw_att w) \<and> calm finished_kept (uw_script w)"

interpretation fin: upgrade_run_invariant "fin_inv as" "\<lambda>_. True" "\<lambda>_. True" "\<lambda>_ _. True" finished_kept for as
proof unfold_locales
  show "fin_inv as (arrive w)" if "fin_inv as w" for w
    using that calm_arrive [of finished_kept w] by (auto simp: fin_inv_def intro: finished_kept_trans)
  show "fin_inv as (w\<lparr>uw_att := map (\<lambda>a. if p a \<and> at_open a then f a else a) (uw_att w)\<rparr>)" if "fin_inv as w" for w p f
    using that by (force simp: fin_inv_def finished_kept_def)
qed (auto simp: fin_inv_def finished_kept_def tables_def)

section \<open>One open attempt per device\<close>

definition one_open :: "Attempt list \<Rightarrow> bool" where
  "one_open as \<longleftrightarrow> (\<forall>d. length (filter (\<lambda>a. at_device a = d \<and> at_open a) as) \<le> 1)"

definition open_inv :: "upworld \<Rightarrow> bool" where
  "open_inv w \<longleftrightarrow> one_open (uw_att w) \<and> uw_script w = []"

definition none_open :: "64 word \<Rightarrow> upworld \<Rightarrow> bool" where
  "none_open d w \<longleftrightarrow> filter (\<lambda>a. at_device a = d \<and> at_open a) (uw_att w) = []"

lemma one_open_update:
  assumes "one_open as" "\<And>a. p a \<Longrightarrow> at_device (f a) = at_device a"
  shows "one_open (map (\<lambda>a. if p a \<and> at_open a then f a else a) as)"
proof -
  have "length (filter (\<lambda>a. at_device a = d \<and> at_open a) (map (\<lambda>a. if p a \<and> at_open a then f a else a) as))
      \<le> length (filter (\<lambda>a. at_device a = d \<and> at_open a) as)" for d
    by (induction as) (auto simp: assms(2))
  then show ?thesis using assms(1) unfolding one_open_def by (meson le_trans)
qed

lemma quiet_stmt: "uw_script w = [] \<Longrightarrow> up_stmt f w = f w"
  by (simp add: up_stmt_def arrive_quiet)

lemma first_of_notfound: "first_of xs = Inl DbNotFound \<longleftrightarrow> xs = []"
  by (cases xs) (auto simp: first_of_def)

lemma by_id_desc_Nil [simp]: "by_id_desc as = [] \<longleftrightarrow> as = []"
  by (metis set_by_id_desc set_empty)

interpretation opn: upgrade_invariant open_inv "\<lambda>_. True" "\<lambda>_. True" none_open
proof unfold_locales
  show "open_inv (w\<lparr>uw_att := uw_att w @ [a]\<rparr>)" if "open_inv w" "none_open (at_device a) w" for w a
    using that by (auto simp: open_inv_def one_open_def none_open_def)
  show "open_inv (w\<lparr>uw_att := map (\<lambda>a. if p a \<and> at_open a then f a else a) (uw_att w)\<rparr>)"
    if "open_inv w" "\<And>a. p a \<Longrightarrow> ident (f a) = ident a" for w p f
    using that one_open_update [of "uw_att w" p f] by (auto simp: open_inv_def ident_def)
  show "none_open d w'" if "open_inv w" "FindOpenByDevice d w = (w', Inl DbNotFound)" for w d w'
    using that by (auto simp: open_inv_def none_open_def FindOpenByDevice_def quiet_stmt first_of_notfound)
  show "none_open d (fst (SupersedeOpen d now w))" if "open_inv w" for w d now
    using that by (auto simp: open_inv_def none_open_def SupersedeOpen_def upd_open_def quiet_stmt filter_map o_def filter_empty_conv
        at_open_def IsAttemptTerminal_def attemptTerminalStates_def)
qed (auto simp: open_inv_def none_open_def tables_def arrive_quiet)

section \<open>Success\<close>

text \<open>Statements may fail, but no other request writes the attempts.\<close>
definition alone :: "up_event list \<Rightarrow> bool" where
  "alone s \<longleftrightarrow> list_all (\<lambda>e. case e of UpOther _ \<Rightarrow> False | _ \<Rightarrow> True) s"

lemma alone_arrive: "alone (uw_script w) \<Longrightarrow> uw_att (arrive w) = uw_att w \<and> alone (uw_script (arrive w))"
  by (cases "uw_script w") (auto simp: arrive_def alone_def Let_def split: up_event.splits)

definition no_new_success :: "Attempt list \<Rightarrow> upworld \<Rightarrow> bool" where
  "no_new_success as w \<longleftrightarrow> (\<forall>a\<in>set (uw_att w). at_state a = ''succeeded'' \<longrightarrow> a \<in> set as) \<and> alone (uw_script w)"

interpretation suc: upgrade_invariant "no_new_success as" "\<lambda>st. st \<noteq> ''succeeded''" "\<lambda>_. True" "\<lambda>_ _. True" for as
  by unfold_locales (auto simp: no_new_success_def tables_def alone_arrive)

text \<open>Only rows of the device that were open have become successful.\<close>
definition success_of :: "64 word \<Rightarrow> Attempt list \<Rightarrow> upworld \<Rightarrow> bool" where
  "success_of d as w \<longleftrightarrow>
     (\<forall>a\<in>set (uw_att w). at_state a = ''succeeded'' \<longrightarrow>
        a \<in> set as \<or> (\<exists>c\<in>set as. at_device c = d \<and> at_open c \<and> ident c = ident a))
     \<and> alone (uw_script w)"

interpretation ver: upgrade_invariant "success_of d as" "\<lambda>st. st \<noteq> ''succeeded''" "\<lambda>_. True" "\<lambda>_ _. True" for d as
  by unfold_locales (auto simp: success_of_def tables_def alone_arrive)

section \<open>Tasks\<close>

definition stuck :: "64 word \<Rightarrow> upworld \<Rightarrow> bool" where
  "stuck i w \<longleftrightarrow> list_ex (\<lambda>t. tk_id t = i) (uw_tasks w) \<and> (\<forall>t\<in>set (uw_tasks w). tk_id t = i \<longrightarrow> tk_finished t = None)
     \<and> settled i (uw_att w)"

definition keeps_settled :: "64 word \<Rightarrow> Attempt list \<Rightarrow> Attempt list \<Rightarrow> bool" where
  "keeps_settled i as bs \<longleftrightarrow> (settled i as \<longrightarrow> settled i bs)"

definition stuck_inv :: "64 word \<Rightarrow> upworld \<Rightarrow> bool" where
  "stuck_inv i w \<longleftrightarrow> stuck i w \<and> calm (keeps_settled i) (uw_script w)"

lemma settled_update:
  "settled i as \<Longrightarrow> (\<And>a. p a \<Longrightarrow> ident (f a) = ident a) \<Longrightarrow> settled i (map (\<lambda>a. if p a \<and> at_open a then f a else a) as)"
  by (induction as) (auto simp: settled_def ident_def)

interpretation stk: upgrade_run_invariant "stuck_inv i" "\<lambda>_. True" "\<lambda>j. j \<noteq> i" "\<lambda>_ _. True" "keeps_settled i" for i
proof unfold_locales
  show "stuck_inv i (arrive w)" if "stuck_inv i w" for w
    using that calm_arrive [of "keeps_settled i" w] by (auto simp: stuck_inv_def stuck_def keeps_settled_def)
  show "stuck_inv i (w\<lparr>uw_att := map (\<lambda>a. if p a \<and> at_open a then f a else a) (uw_att w)\<rparr>)"
    if "stuck_inv i w" "\<And>a. p a \<Longrightarrow> ident (f a) = ident a" for w p f
    using that settled_update by (auto simp: stuck_inv_def stuck_def)
  show "stuck_inv i (w\<lparr>uw_tasks := map (\<lambda>t. if tk_id t = j \<and> tk_finished t = None \<and> settled j (uw_att w) then h t else t) (uw_tasks w)\<rparr>)"
    if "stuck_inv i w" "j \<noteq> i" "\<And>t. tk_id (h t) = tk_id t" for w j h
    using that by (auto simp: stuck_inv_def stuck_def list_ex_iff)
qed (auto simp: stuck_inv_def stuck_def settled_def tables_def list_ex_iff)

text \<open>C23: a finished attempt stays in the table exactly as it is, through every run of hellos, reports, dispatches, clearings, site-wide
  targets and sweeps. Statements may fail at any point and other writers may come between any two of them, as long as they
  themselves leave finished rows alone.\<close>
theorem finished_attempt_final:
  assumes "up_run finished_kept en w w'" "calm finished_kept (uw_script w)" "a \<in> set (uw_att w)" "\<not> at_open a"
  shows "a \<in> set (uw_att w')"
  using fin.run_I [OF assms(1), of "uw_att w"] assms(2-) by (auto simp: fin_inv_def finished_kept_def)

text \<open>C30: when no statement fails and nobody interferes, every operation keeps the rule that a device has at most one open attempt.\<close>
theorem one_open_attempt:
  assumes "up_step R en w w'" "uw_script w = []" "one_open (uw_att w)"
  shows "one_open (uw_att w')"
  using opn.step_I [OF assms(1)] assms(2,3) by (auto simp: open_inv_def)

text \<open>C29: when a dispatch supersedes the last open attempts of an older task, that task is never marked as finished: superseding
  does not settle it, and no later operation looks at it again, although all its attempts are finished.\<close>
theorem superseded_task_never_finishes:
  assumes q: "uw_script w = []" and t: "list_ex (\<lambda>t. tk_id t = i) (uw_tasks w)" "\<forall>t\<in>set (uw_tasks w). tk_id t = i \<longrightarrow> tk_finished t = None"
    and own: "\<forall>a\<in>set (uw_att w). at_task a = Some i \<and> at_open a \<longrightarrow> at_device a = dv_id dev" and other: "task \<noteq> i"
    and run: "up_run (keeps_settled i) en (dispatch_device en plan task now dev w) w'"
  shows "settled i (uw_att w') \<and> (\<forall>t\<in>set (uw_tasks w'). tk_id t = i \<longrightarrow> tk_finished t = None)"
proof -
  obtain w1 r where 1: "SupersedeOpen (dv_id dev) now w = (w1, r)" by fastforce
  obtain w2 rid where 2: "newRequestID w1 = (w2, rid)" by fastforce
  let ?a = "new_attempt (Some task) (dv_id dev) (dv_agent_version dev) (pl_version plan) rid now"
  obtain w3 s where 3: "Attempt_Create ?a w2 = (w3, s)" by fastforce
  have "stuck_inv i w1"
    using 1 q t own by (auto simp: stuck_inv_def stuck_def settled_def calm_def list_ex_iff SupersedeOpen_def upd_open_def quiet_stmt
        at_open_def IsAttemptTerminal_def attemptTerminalStates_def)
  then have "stuck_inv i w2" using stk.same_I(6) [of i w1] 2 by simp
  then have I3: "stuck_inv i w3" using stk.Attempt_Create_I [of i w2 ?a] 3 other by (simp add: new_attempt_def)
  have "stuck_inv i (notify en plan dev b u)" if "stuck_inv i u" for b u
    using that stk.same_I(5) by (simp add: notify_def split: option.splits)
  then have "stuck_inv i (dispatch_device en plan task now dev w)"
    using I3 stk.same_I(4) [OF I3] by (auto simp: dispatch_device_def 1 2 3 Let_def split: sum.splits)
  then have "stuck_inv i w'" by (rule stk.run_I [OF run])
  then show ?thesis by (simp add: stuck_inv_def stuck_def)
qed

lemma created:
  assumes "Attempt_Create a w = (w', Inr b)"
  shows "b \<in> set (uw_att w')" "b = a\<lparr>at_id := at_id b\<rparr>"
  using assms by (auto simp: Attempt_Create_def up_stmt_def Let_def split: prod.splits list.splits up_event.splits if_splits)

lemma pending_open [simp]: "at_state a = ''pending'' \<Longrightarrow> at_open a"
  by (simp add: at_open_def IsAttemptTerminal_def attemptTerminalStates_def)

lemma new_attempt_sel [simp]:
  "at_device (new_attempt task d v t rid now) = d" "at_state (new_attempt task d v t rid now) = ''pending''"
  "at_to (new_attempt task d v t rid now) = t" "at_from (new_attempt task d v t rid now) = v"
  "at_request (new_attempt task d v t rid now) = rid" "at_task (new_attempt task d v t rid now) = task"
  by (simp_all add: new_attempt_def)

lemma at_sel_id: "at_device (a\<lparr>at_id := i\<rparr>) = at_device a" "at_state (a\<lparr>at_id := i\<rparr>) = at_state a"
  by simp_all

lemma open_directive:
  assumes "reconcile_open d v t now rel w = (w', Inr (Some dir))"
  shows "\<exists>a\<in>set (uw_att w'). at_device a = d \<and> at_open a \<and> dir = directive_of a rel"
proof -
  obtain w1 r where 1: "FindOpenByDevice d w = (w1, r)" by fastforce
  show ?thesis
  proof (cases r)
    case (Inr a)
    then show ?thesis using assms found_open [of d w w1 a] 1 by (auto simp: reconcile_open_def)
  next
    case (Inl e)
    obtain w2 prev where 2: "latestAttempt d w1 = (w2, prev)" by fastforce
    obtain w3 rid where 3: "newRequestID w2 = (w3, rid)" by fastforce
    obtain w4 q where 4: "Attempt_Create (new_attempt None d v t rid now) w3 = (w4, q)" by fastforce
    have "e = DbNotFound \<and> w' = w4 \<and> (\<exists>a. q = Inr a \<and> dir = directive_of a rel)"
      using assms Inl by (simp add: reconcile_open_def 1 2 3 4 split: db_error.splits if_splits sum.splits)
    then obtain a where a: "w' = w4" "q = Inr a" "dir = directive_of a rel" by blast
    have "b \<in> set (uw_att w4) \<and> at_device b = d \<and> at_open b" if "q = Inr b" for b
    proof -
      have "at_device b = d" "at_state b = ''pending''" using created(2) [of _ w3 w4 b] 4 that
        by (metis at_sel_id new_attempt_sel)+
      then show ?thesis using created(1) [of _ w3 w4 b] 4 that by simp
    qed
    then show ?thesis using a by auto
  qed
qed

lemma hello_directive:
  assumes "ReconcileOnHello d v w = (w', Inr (Some dir))"
  shows "\<exists>a\<in>set (uw_att w'). at_device a = d \<and> at_open a \<and> at_request a = ud_request_id dir \<and> at_to a = ud_target dir"
proof -
  obtain t now rel u where "reconcile_open d v t now rel u = (w', Inr (Some dir))"
    using assms by (auto simp: ReconcileOnHello_def reconcile_directive_def Let_def split: prod.splits sum.splits option.splits db_error.splits if_splits)
  from open_directive [OF this] show ?thesis by (auto simp: directive_of_def)
qed

theorem directive_names_open_attempt:
  assumes "ReconcileOnHello d v w = (w', Inr (Some dir))"
  shows "\<exists>a\<in>set (uw_att w'). at_device a = d \<and> at_open a \<and> at_request a = ud_request_id dir \<and> at_to a = ud_target dir"
  using assms by (rule hello_directive)

text \<open>Quiet statements.\<close>
lemma quiet_open:
  "uw_script w = [] \<Longrightarrow> FindOpenByDevice d w = (w, first_of (by_id_desc (filter (\<lambda>a. at_device a = d \<and> at_open a) (uw_att w))))"
  by (simp add: FindOpenByDevice_def quiet_stmt)

lemma quiet_update_open: "uw_script w = [] \<Longrightarrow> upd_open p f w =
     (w\<lparr>uw_att := map (\<lambda>a. if p a \<and> at_open a then f a else a) (uw_att w)\<rparr>, Inr (length (filter (\<lambda>a. p a \<and> at_open a) (uw_att w))))"
  by (simp add: upd_open_def quiet_stmt)

text \<open>Rows are named by their identifier, and by their device and request.\<close>
definition keys_unique :: "Attempt list \<Rightarrow> bool" where
  "keys_unique as \<longleftrightarrow> (\<forall>a\<in>set as. \<forall>b\<in>set as. (at_id a = at_id b \<longrightarrow> a = b)
     \<and> (at_device a = at_device b \<and> at_request a = at_request b \<longrightarrow> a = b))"

lemma quiet_request:
  assumes "uw_script w = []" "keys_unique (uw_att w)" "a \<in> set (uw_att w)" "at_device a = d" "at_request a = rid"
  shows "FindByRequestID d rid w = (w, Inr a)"
proof -
  let ?F = "filter (\<lambda>a. at_device a = d \<and> at_request a = rid) (uw_att w)"
  have *: "b = a" if "b \<in> set (sort_key at_id ?F)" for b
    using that assms by (auto simp: keys_unique_def)
  have "a \<in> set (sort_key at_id ?F)" using assms(3-) by simp
  then obtain b bs where "sort_key at_id ?F = b # bs" by (cases "sort_key at_id ?F") auto
  then show ?thesis using * [of b] assms(1) by (simp add: FindByRequestID_def quiet_stmt first_of_def)
qed

lemma att_sync [simp]: "uw_att (syncDeviceTerminal d st code now w) = uw_att w" "uw_script (syncDeviceTerminal d st code now w) = uw_script w"
  by (simp_all add: syncDeviceTerminal_def on_dev_def split: option.splits prod.splits)

lemma att_settle [simp]: "uw_script w = [] \<Longrightarrow> uw_att (settleTask t now w) = uw_att w" "uw_script w = [] \<Longrightarrow> uw_script (settleTask t now w) = []"
  by (simp_all add: settleTask_def MarkFinishedIfSettled_def quiet_stmt Let_def split: option.splits)

lemma persist_tables [simp]: "tables (fst (shouldPersist a st w)) = tables w"
  using tables_update(5) [of w] by (cases "clock_now w") (auto simp: shouldPersist_def split: option.splits)

text \<open>C27: a directive handed out by a hello and the reports of its execution meet: a report with the request and the target of the
  directive is accepted and its attempt then has the reported state.\<close>
theorem directive_report_lands:
  assumes "ReconcileOnHello d v w = (w', Inr (Some dir))" "uw_script w' = []" "keys_unique (uw_att w')"
    and "us_request_id st = ud_request_id dir" "us_target st = ud_target dir"
  shows "snd (ReportUpgradeStatus d st w') = None
    \<and> (\<exists>a\<in>set (uw_att (fst (ReportUpgradeStatus d st w'))). at_device a = d \<and> at_request a = ud_request_id dir \<and> at_state a = us_state st)"
proof -
  obtain a where a: "a \<in> set (uw_att w')" "at_device a = d" "at_open a" "at_request a = ud_request_id dir" "at_to a = ud_target dir"
    using hello_directive [OF assms(1)] by blast
  obtain w2 now where 2: "clock_now w' = (w2, now)" by fastforce
  let ?a = "if at_started a = None \<and> us_state st \<noteq> ''pending'' then a\<lparr>at_started := Some now\<rparr> else a"
  obtain w3 b where 3: "shouldPersist ?a st w2 = (w3, b)" by fastforce
  have t: "uw_att w3 = uw_att w'" "uw_script w3 = []"
    using tables_update(5) [of w'] persist_tables [of ?a st w2] 2 3 assms(2) by (simp_all add: tables_def)
  have f: "FindByRequestID d (us_request_id st) w' = (w', Inr a)"
    using quiet_request [OF assms(2,3) a(1,2,4)] assms(4) by simp
  have open_a: "\<not> IsAttemptTerminal (at_state a)" using a(3) by (simp add: at_open_def)
  show ?thesis
  proof (cases b)
    case False
    then have "at_state a = us_state st" using 3 by (auto simp: shouldPersist_def split: if_splits)
    then show ?thesis using a t False 3 2 f open_a assms(5) by (auto simp: ReportUpgradeStatus_def Let_def)
  next
    case True
    let ?r = "reported st now ?a"
    let ?u = "\<lambda>x. if at_id x = at_id ?r \<and> at_open x then report_cols ?r x else x"
    have i: "at_id ?r = at_id a" by (simp add: reported_def Let_def)
    have u: "UpdateReport ?r w3 = (w3\<lparr>uw_att := map ?u (uw_att w')\<rparr>, Inr ())"
      using a(1,3) t i by (auto simp: UpdateReport_def quiet_update_open filter_empty_conv)
    have "?u a \<in> set (map ?u (uw_att w'))" using a(1) by simp
    moreover have "at_device (?u a) = d" "at_request (?u a) = ud_request_id dir" "at_state (?u a) = us_state st"
      using a i by (simp_all add: report_cols_def reported_def Let_def)
    ultimately have "\<exists>x\<in>set (map ?u (uw_att w')). at_device x = d \<and> at_request x = ud_request_id dir \<and> at_state x = us_state st" by blast
    then show ?thesis using True 3 2 f open_a assms(5) a(5) u t(2)
      by (simp add: ReportUpgradeStatus_def Let_def split del: if_split) (simp split: if_split)
  qed
qed

section \<open>No automatic retry\<close>

lemma by_id_desc_empty [simp]: "by_id_desc [] = []"
  by simp

lemma quiet_latest:
  "uw_script w = [] \<Longrightarrow> latestAttempt d w = (w, case by_id_desc (filter (\<lambda>a. at_device a = d) (uw_att w)) of [] \<Rightarrow> None | a # _ \<Rightarrow> Some a)"
  by (cases "by_id_desc (filter (\<lambda>a. at_device a = d) (uw_att w))") (simp_all add: latestAttempt_def ListByDevice_def quiet_stmt)

lemma quiet_platform:
  "uw_script w = [] \<Longrightarrow> fst (FindByPlatform v os arch pub w) = w \<and> (snd (FindByPlatform v os arch pub w) = Inl DbNotFound \<or> (\<exists>r. snd (FindByPlatform v os arch pub w) = Inr r))"
  by (auto simp: FindByPlatform_def quiet_stmt first_of_def split: list.splits)

text \<open>The newest row of the device, its last word on the target.\<close>
definition newest :: "64 word \<Rightarrow> Attempt list \<Rightarrow> Attempt option" where
  "newest d as = (case by_id_desc (filter (\<lambda>a. at_device a = d) as) of [] \<Rightarrow> None | a # _ \<Rightarrow> Some a)"

definition quiet_device :: "64 word \<Rightarrow> Device \<Rightarrow> upworld \<Rightarrow> bool" where
  "quiet_device d dev w \<longleftrightarrow> uw_script w = [] \<and> db_script (uw_dev w) = [] \<and> first_row (\<lambda>x. dv_id x = d) (db_rows (uw_dev w)) = Some dev"

lemma quiet_find_device: "quiet_device d dev w \<Longrightarrow> on_dev (FindByID d) w = (w, Inr dev)"
  by (simp add: quiet_device_def on_dev_def FindByID_def quiet_find)

lemma quiet_device_frame:
  "quiet_device d dev w \<Longrightarrow> uw_script w' = [] \<Longrightarrow> uw_dev w' = uw_dev w \<Longrightarrow> quiet_device d dev w'"
  by (simp add: quiet_device_def)

lemma clock_sel [simp]: "uw_att (fst (clock_now w)) = uw_att w" "uw_script (fst (clock_now w)) = uw_script w"
  "uw_dev (fst (clock_now w)) = uw_dev w" "uw_target (fst (clock_now w)) = uw_target w" "uw_rel (fst (clock_now w)) = uw_rel w"
  by (simp_all add: clock_now_def)

lemma suppressed_hello:
  assumes q: "quiet_device d dev w" and none: "none_open d w"
    and last: "newest d (uw_att w) = Some a" "\<not> at_open a" "at_state a \<noteq> ''succeeded''" "at_to a = ResolveTargetVersion dev w"
  shows "ReconcileOnHello d v w = (fst (clock_now w), Inr None)"
proof -
  let ?w = "fst (clock_now w)"
  have s: "uw_script ?w = []" using q by (simp add: quiet_device_def)
  have o: "FindOpenByDevice d ?w = (?w, Inl DbNotFound)"
    using none s by (simp add: quiet_open none_open_def by_id_desc_def first_of_def)
  have l: "latestAttempt d ?w = (?w, Some a)" using last(1) s by (simp add: quiet_latest newest_def)
  have sup: "suppressesAutoRetry (Some a) (ResolveTargetVersion dev ?w)"
    using last by (simp add: suppressesAutoRetry_def at_open_def ResolveTargetVersion_def)
  have "reconcile_open d v (ResolveTargetVersion dev ?w) now rel ?w = (?w, Inr None)" for now rel
    using o l sup by (simp add: reconcile_open_def)
  then have "reconcile_directive d dev v now ?w = (?w, Inr None)" for now
    using quiet_platform [OF s, of "ResolveTargetVersion dev ?w" "dv_os dev" "dv_arch dev" True]
    by (auto simp: reconcile_directive_def Let_def split: prod.splits)
  moreover have "reconcile_settle d v now ?w = (?w, None)" for now using o by (simp add: reconcile_settle_def)
  ultimately show ?thesis by (cases "clock_now w") (simp add: ReconcileOnHello_def quiet_find_device [OF q])
qed

lemma suppressed_forever:
  assumes "quiet_device d dev w" "none_open d w" "newest d (uw_att w) = Some a" "\<not> at_open a" "at_state a \<noteq> ''succeeded''"
    "at_to a = ResolveTargetVersion dev w"
  shows "let u = ((\<lambda>w. fst (ReconcileOnHello d v w)) ^^ n) w in snd (ReconcileOnHello d v u) = Inr None \<and> uw_att u = uw_att w"
proof -
  have "let u = ((\<lambda>w. fst (ReconcileOnHello d v w)) ^^ n) w in quiet_device d dev u \<and> none_open d u \<and> uw_att u = uw_att w
      \<and> ResolveTargetVersion dev u = ResolveTargetVersion dev w"
  proof (induction n)
    case (Suc n)
    let ?u = "((\<lambda>w. fst (ReconcileOnHello d v w)) ^^ n) w"
    have "ReconcileOnHello d v ?u = (fst (clock_now ?u), Inr None)"
      by (rule suppressed_hello [of d dev _ a]) (use Suc assms in \<open>simp_all add: Let_def\<close>)
    then show ?case using Suc by (auto simp: Let_def quiet_device_def none_open_def ResolveTargetVersion_def split: if_splits)
  qed (use assms in simp)
  then show ?thesis using suppressed_hello [of d dev "((\<lambda>w. fst (ReconcileOnHello d v w)) ^^ n) w" a v] assms by (simp add: Let_def)
qed

lemma sort_key_map: "(\<And>x. k (g x) = k x) \<Longrightarrow> sort_key k (map g xs) = map g (sort_key k xs)"
proof (induction xs)
  case (Cons x xs)
  have "insort_key k (g x) (map g ys) = map g (insort_key k x ys)" for ys
    by (induction ys) (auto simp: Cons.prems)
  then show ?case using Cons by simp
qed simp

lemma newest_map:
  assumes "\<And>x. at_id (g x) = at_id x" "\<And>x. at_device (g x) = at_device x"
  shows "newest d (map g as) = map_option g (newest d as)"
proof -
  have "filter (\<lambda>a. at_device a = d) (map g as) = map g (filter (\<lambda>a. at_device a = d) as)"
    by (simp add: filter_map o_def assms(2))
  then have "by_id_desc (filter (\<lambda>a. at_device a = d) (map g as)) = map g (by_id_desc (filter (\<lambda>a. at_device a = d) as))"
    by (simp add: by_id_desc_def sort_key_map [of at_id g] assms(1) rev_map)
  then show ?thesis by (simp add: newest_def split: list.splits)
qed

lemma first_row_map:
  "first_row p rows = Some x \<Longrightarrow> (\<And>x. dv_deleted (g x) = dv_deleted x) \<Longrightarrow> (\<And>x. p (g x) = p x) \<Longrightarrow> first_row p (map g rows) = Some (g x)"
  by (induction rows) (auto simp: first_row_def split: if_splits)

lemma quiet_sync:
  assumes "quiet_device d dev w"
  shows "\<exists>dev'. quiet_device d dev' (syncDeviceTerminal d st code now w) \<and> dv_target dev' = dv_target dev"
proof (cases "terminalState st")
  case (Some ds)
  let ?g = "\<lambda>x. if \<not> dv_deleted x \<and> dv_id x = d then x\<lparr>dv_up_state := ds, dv_up_reason := code, dv_up_at := Some now\<rparr> else x"
  have q: "db_script (uw_dev w) = []" "first_row (\<lambda>x. dv_id x = d) (db_rows (uw_dev w)) = Some dev" "uw_script w = []"
    using assms by (simp_all add: quiet_device_def)
  have "first_row (\<lambda>x. dv_id x = d) (map ?g (db_rows (uw_dev w))) = Some (?g dev)"
    by (rule first_row_map [OF q(2)]) auto
  moreover have "dev \<in> set (db_rows (uw_dev w))" "\<not> dv_deleted dev" "dv_id dev = d" using first_row_Some [OF q(2)] by auto
  ultimately show ?thesis
    using q quiet_update [of "uw_dev w" dev d] Some
    by (intro exI [of _ "?g dev"]) (simp add: syncDeviceTerminal_def on_dev_def SetUpgradeTerminal_def quiet_device_def)
qed (use assms in \<open>auto simp: syncDeviceTerminal_def\<close>)

lemma quiet_mark: "quiet_device d dev w \<Longrightarrow> quiet_device d dev (settleTask t now w)"
  by (simp add: quiet_device_def settleTask_def MarkFinishedIfSettled_def quiet_stmt Let_def split: option.splits)

text \<open>What the settling of one open row leaves behind.\<close>
lemma finish_one:
  assumes q: "quiet_device d dev w" and one: "filter (\<lambda>a. at_device a = d \<and> at_open a) (uw_att w) = [a]"
    and g: "g = (\<lambda>x. if at_device x = d \<and> at_open x then finish st code now x else x)"
  shows "uw_att (finishAttempt d st code now w) = map g (uw_att w)"
    "\<exists>dev'. quiet_device d dev' (finishAttempt d st code now w) \<and> dv_target dev' = dv_target dev"
    "uw_target (finishAttempt d st code now w) = uw_target w"
proof -
  have s: "uw_script w = []" using q by (simp add: quiet_device_def)
  let ?w = "w\<lparr>uw_att := map g (uw_att w)\<rparr>"
  have e: "finishAttempt d st code now w = settleTask (at_task a) now (syncDeviceTerminal d st code now ?w)"
    using s one by (simp add: finishAttempt_def quiet_open FinishOpen_def quiet_update_open by_id_desc_def first_of_def Let_def g)
  have "quiet_device d dev ?w" by (rule quiet_device_frame [OF q]) (simp_all add: s)
  then show "\<exists>dev'. quiet_device d dev' (finishAttempt d st code now w) \<and> dv_target dev' = dv_target dev"
    using quiet_sync [of d dev ?w st code now] quiet_mark e by metis
  show "uw_att (finishAttempt d st code now w) = map g (uw_att w)" using s by (simp add: e)
  show "uw_target (finishAttempt d st code now w) = uw_target w" using s
    by (simp add: e settleTask_def MarkFinishedIfSettled_def up_stmt_def arrive_quiet Let_def syncDeviceTerminal_def on_dev_def split: option.splits prod.splits)
qed


section \<open>A directive that mixes two versions\<close>

text \<open>C28: when the open attempt of a device is for another version than its effective target, the directive names the version of the
  attempt with the hash and the size of the release of the target.\<close>
theorem stale_attempt_mixed_directive:
  assumes q: "quiet_device d dev w" and one: "filter (\<lambda>a. at_device a = d \<and> at_open a) (uw_att w) = [a]"
    and "\<not> attemptStarted a" "v \<noteq> at_to a" "ResolveTargetVersion dev w \<noteq> []" "ResolveTargetVersion dev w \<noteq> v"
    and rel: "snd (FindByPlatform (ResolveTargetVersion dev w) (dv_os dev) (dv_arch dev) True w) = Inr rel"
  shows "snd (ReconcileOnHello d v w) = Inr (Some \<lparr>ud_request_id = at_request a, ud_target = at_to a,
           ud_sha256 = rl_sha256 rel, ud_size = rl_size rel\<rparr>)
    \<and> rl_version rel = ResolveTargetVersion dev w"
proof -
  let ?w = "fst (clock_now w)" and ?t = "ResolveTargetVersion dev w"
  have s: "uw_script w = []" "uw_script ?w = []" using q by (simp_all add: quiet_device_def)
  have o: "FindOpenByDevice d ?w = (?w, Inr a)" using one s by (simp add: quiet_open by_id_desc_def first_of_def)
  have t: "ResolveTargetVersion dev ?w = ?t" by (simp add: ResolveTargetVersion_def)
  have p: "FindByPlatform ?t (dv_os dev) (dv_arch dev) True ?w = (?w, Inr rel)"
    using rel s by (simp add: FindByPlatform_def quiet_stmt)
  have settle: "reconcile_settle d v now ?w = (?w, None)" for now
    using o assms(3,4) by (simp add: reconcile_settle_def settleAttemptOnHello_def)
  have dir: "reconcile_directive d dev v now ?w = (?w, Inr (Some (directive_of a rel)))" for now
    using assms(5,6) o p by (simp add: reconcile_directive_def t Let_def reconcile_open_def)
  have "rel \<in> set (filter (\<lambda>r. rl_version r = ?t \<and> rl_os r = dv_os dev \<and> rl_arch r = dv_arch dev \<and> rl_status r = AgentReleasePublished) (uw_rel w))"
    using rel s(1) by (simp add: FindByPlatform_def quiet_stmt) (drule first_of_set, simp)
  then show ?thesis using settle dir
    by (cases "clock_now w") (simp add: ReconcileOnHello_def quiet_find_device [OF q] directive_of_def)
qed

section \<open>Success means the version of the hello\<close>

lemma one_open_cases:
  assumes "one_open as"
  obtains "filter (\<lambda>a. at_device a = d \<and> at_open a) as = []" | a where "filter (\<lambda>a. at_device a = d \<and> at_open a) as = [a]"
proof -
  have "length (filter (\<lambda>a. at_device a = d \<and> at_open a) as) \<le> 1" using assms by (simp add: one_open_def)
  then show thesis using that by (cases "filter (\<lambda>a. at_device a = d \<and> at_open a) as") auto
qed

lemma finish_success:
  assumes "alone (uw_script w)"
  shows "success_of d (uw_att w) (finishAttempt d st code now w)"
proof -
  obtain w1 r where 1: "FindOpenByDevice d w = (w1, r)" by fastforce
  obtain w2 n where 2: "FinishOpen d st code now w1 = (w2, n)" by fastforce
  have w1: "uw_att w1 = uw_att w" "alone (uw_script w1)"
    using 1 alone_arrive [OF assms] by (auto simp: FindOpenByDevice_def up_stmt_def split: list.splits up_event.splits)
  let ?g = "\<lambda>a. if at_device a = d \<and> at_open a then finish st code now a else a"
  have w2: "uw_att w2 = uw_att w \<or> uw_att w2 = map ?g (uw_att w)" "alone (uw_script w2)"
    using 2 w1 alone_arrive [OF w1(2)]
    by (auto simp: FinishOpen_def upd_open_def up_stmt_def split: list.splits up_event.splits)
  have g: "?g x = x \<or> at_device x = d \<and> at_open x \<and> ident x = ident (?g x)" for x
    by (simp add: finish_def ident_def)
  have "success_of d (uw_att w) w2"
    unfolding success_of_def
  proof (intro conjI ballI impI w2(2))
    fix a
    assume "a \<in> set (uw_att w2)"
    then obtain x where x: "x \<in> set (uw_att w)" "a = x \<or> a = ?g x" using w2(1) by auto
    then show "a \<in> set (uw_att w) \<or> (\<exists>c\<in>set (uw_att w). at_device c = d \<and> at_open c \<and> ident c = ident a)"
      using g [of x] by metis
  qed
  then show ?thesis
    by (auto simp: finishAttempt_def 1 2 Let_def intro!: ver.settleTask_I split: sum.splits)
qed

text \<open>The open row a hello is compared with is the newest one.\<close>
lemma found_newest:
  assumes "FindOpenByDevice d w = (w', Inr b)" "alone (uw_script w)"
  shows "b \<in> set (uw_att w)" "at_device b = d" "at_open b"
    and "c \<in> set (uw_att w) \<Longrightarrow> at_device c = d \<Longrightarrow> at_open c \<Longrightarrow> at_id c \<le> at_id b"
proof -
  let ?F = "filter (\<lambda>a. at_device a = d \<and> at_open a) (uw_att w)"
  have w': "uw_att w' = uw_att w" using found_open(1) [OF assms(1)] alone_arrive [OF assms(2)] by simp
  show "b \<in> set (uw_att w)" "at_device b = d" "at_open b" using found_open(2-4) [OF assms(1)] w' by simp_all
  assume c: "c \<in> set (uw_att w)" "at_device c = d" "at_open c"
  have "first_of (by_id_desc ?F) = Inr b"
    using assms(1) alone_arrive [OF assms(2)] by (auto simp: FindOpenByDevice_def up_stmt_def split: list.splits up_event.splits)
  then have b: "rev (sort_key at_id ?F) \<noteq> []" "b = hd (rev (sort_key at_id ?F))"
    by (auto simp: by_id_desc_def first_of_def split: list.splits)
  have "sorted_wrt (\<ge>) (map at_id (rev (sort_key at_id ?F)))"
    by (simp add: rev_map [symmetric] sorted_wrt_rev)
  moreover have "c \<in> set (rev (sort_key at_id ?F))" using c by simp
  ultimately show "at_id c \<le> at_id b" using b by (cases "rev (sort_key at_id ?F)") auto
qed

lemma hello_version:
  assumes "alone (uw_script w)"
  shows "no_new_success (uw_att w) (fst (ReconcileOnHello d v w))
    \<or> success_of d (uw_att w) (fst (ReconcileOnHello d v w))
      \<and> (\<exists>b\<in>set (uw_att w). at_device b = d \<and> at_open b \<and> at_to b = v
           \<and> (\<forall>c\<in>set (uw_att w). at_device c = d \<and> at_open c \<longrightarrow> at_id c \<le> at_id b))"
proof -
  let ?A = "uw_att w"
  obtain w1 r where 1: "on_dev (FindByID d) w = (w1, r)" by fastforce
  obtain w2 now where 2: "clock_now w1 = (w2, now)" by fastforce
  obtain w3 e where 3: "reconcile_settle d v now w2 = (w3, e)" by fastforce
  obtain w4 f where 4: "FindOpenByDevice d w2 = (w4, f)" by fastforce
  have t: "uw_att w1 = ?A" "alone (uw_script w1)" "uw_att w2 = ?A" "alone (uw_script w2)"
    using tables_dev_eq [OF 1] tables_update(5) [of w1] 2 assms by (simp_all add: tables_def)
  have n1: "no_new_success ?A w1" and n2: "no_new_success ?A w2" using t by (simp_all add: no_new_success_def)
  have n4: "no_new_success ?A w4" using suc.read_I(1) [OF n2, of d] 4 by simp
  have s4: "uw_att w4 = ?A" "alone (uw_script w4)"
    using 4 alone_arrive [OF t(4)] t(3) by (auto simp: FindOpenByDevice_def up_stmt_def split: list.splits up_event.splits)
  have rest: "no_new_success ?A w3 \<Longrightarrow> no_new_success ?A (fst (ReconcileOnHello d v w))"
    "success_of d ?A w3 \<Longrightarrow> no_new_success ?A (fst (ReconcileOnHello d v w)) \<or> success_of d ?A (fst (ReconcileOnHello d v w))"
    using n1 suc.directive_I [of ?A w3] ver.directive_I [of d ?A w3]
    by (auto simp: ReconcileOnHello_def 1 2 3 split: sum.splits option.splits)
  show ?thesis
  proof (cases "\<exists>b. f = Inr b \<and> at_to b = v")
    case True
    then obtain b where b: "f = Inr b" "at_to b = v" by blast
    then have "w3 = finishAttempt d ''succeeded'' [] now w4"
      using 3 4 by (auto simp: reconcile_settle_def settleAttemptOnHello_def)
    then have "success_of d ?A w3" using finish_success [OF s4(2)] s4(1) by metis
    moreover have "FindOpenByDevice d w2 = (w4, Inr b)" using 4 b by simp
    ultimately show ?thesis using rest(2) found_newest [OF _ t(4)] b(2) t(3) by metis
  next
    case False
    then have "no_new_success ?A w3"
      using 3 4 n4 by (auto simp: reconcile_settle_def settleAttemptOnHello_def split: sum.splits db_error.splits if_splits
          intro: suc.finishAttempt_I)
    then show ?thesis using rest(1) by blast
  qed
qed

text \<open>C26: when no other request writes the attempts, whatever statements fail, an attempt becomes successful in one way
  only: a hello of its own device while it was open, reporting the target of the newest open attempt of the device.
  As long as the device has one open attempt that is the target of this attempt.\<close>
theorem success_only_by_version:
  assumes "up_step R en w w'" "alone (uw_script w)" "a \<in> set (uw_att w')" "at_state a = ''succeeded''"
  shows "a \<in> set (uw_att w) \<or>
    (\<exists>v. w' = fst (ReconcileOnHello (at_device a) v w)
       \<and> (\<exists>c\<in>set (uw_att w). at_open c \<and> ident c = ident a)
       \<and> (\<exists>b\<in>set (uw_att w). at_device b = at_device a \<and> at_open b \<and> at_to b = v
            \<and> (\<forall>c\<in>set (uw_att w). at_device c = at_device a \<and> at_open c \<longrightarrow> at_id c \<le> at_id b))
       \<and> (one_open (uw_att w) \<longrightarrow> at_to a = v))"
proof -
  have base: "no_new_success (uw_att w) w" using assms(2) by (simp add: no_new_success_def)
  have old: ?thesis if "no_new_success (uw_att w) w'" using that assms(3,4) by (auto simp: no_new_success_def)
  show ?thesis
    using assms(1)
  proof cases
    case (hello d v)
    show ?thesis
    proof (cases "no_new_success (uw_att w) w' \<or> a \<in> set (uw_att w)")
      case False
      then have s: "success_of d (uw_att w) w'" and b: "\<exists>b\<in>set (uw_att w). at_device b = d \<and> at_open b \<and> at_to b = v
          \<and> (\<forall>c\<in>set (uw_att w). at_device c = d \<and> at_open c \<longrightarrow> at_id c \<le> at_id b)"
        using hello_version [OF assms(2), of d v] unfolding hello by blast+
      obtain c where c: "c \<in> set (uw_att w)" "at_device c = d" "at_open c" "ident c = ident a"
        using s False assms(3,4) by (auto simp: success_of_def)
      then have d: "at_device a = d" "at_to a = at_to c" by (simp_all add: ident_def)
      have "at_to a = v" if one: "one_open (uw_att w)"
        using one
      proof (cases rule: one_open_cases [of _ d])
        case 1
        then show ?thesis using c by (auto simp: filter_empty_conv)
      next
        case (2 x)
        have "y = x" if "y \<in> set (uw_att w)" "at_device y = d" "at_open y" for y
        proof -
          have "y \<in> set (filter (\<lambda>a. at_device a = d \<and> at_open a) (uw_att w))" using that by simp
          then show ?thesis unfolding 2 by simp
        qed
        then show ?thesis using b c d(2) by metis
      qed
      moreover have "\<exists>c\<in>set (uw_att w). at_open c \<and> ident c = ident a" using c by blast
      ultimately show ?thesis using b hello unfolding d(1) by (intro disjI2 exI [of _ v] conjI impI)
    qed (use old in blast)
  next
    case (report st d)
    then have "us_state st \<in> set upgradeStates"
      by (auto simp: status_validate_def IsUpgradeState_def list_ex_iff reject_if_def split: if_splits)
    then show ?thesis using suc.report_I [OF base] report old by (auto simp: upgradeStates_def)
  qed (use old suc.set_target_I [OF base] suc.clear_I [OF base] suc.dispatch_I [OF base] suc.global_I [OF base] suc.sweep_I [OF base]
        assms(3,4) in simp_all)
qed

text \<open>With more than one open row, which a failed superseding leaves behind, the hello of the newest version makes all of
  them successful, whatever their own target is.\<close>
theorem all_open_rows_succeed:
  assumes "quiet_device d dev w" "FindOpenByDevice d w = (w, Inr b)" "at_to b = v"
    and "c \<in> set (uw_att w)" "at_device c = d" "at_open c"
  shows "\<exists>now. finish ''succeeded'' [] now c \<in> set (uw_att (fst (ReconcileOnHello d v w)))"
proof -
  obtain w2 now where 2: "clock_now w = (w2, now)" by fastforce
  have q: "uw_script w = []" using assms(1) by (simp add: quiet_device_def)
  have w2: "uw_att w2 = uw_att w" "uw_script w2 = []" using tables_update(5) [of w] 2 q by (simp_all add: tables_def)
  let ?w3 = "finishAttempt d ''succeeded'' [] now w2"
  have o: "FindOpenByDevice d w2 = (w2, Inr b)" using assms(2) q w2 by (simp add: quiet_open)
  have s: "reconcile_settle d v now w2 = (?w3, None)"
    using o assms(3) by (simp add: reconcile_settle_def settleAttemptOnHello_def)
  have "0 < length (filter (\<lambda>a. at_device a = d \<and> at_open a) (uw_att w))"
    using assms(4-6) by (auto simp: filter_empty_conv)
  then have w3: "uw_att ?w3 = map (\<lambda>a. if at_device a = d \<and> at_open a then finish ''succeeded'' [] now a else a) (uw_att w)"
      "uw_script ?w3 = []"
    using o w2 by (simp_all add: finishAttempt_def FinishOpen_def quiet_update_open)
  let ?c = "finish ''succeeded'' [] now c"
  have "?c = (if at_device c = d \<and> at_open c then finish ''succeeded'' [] now c else c)" using assms(5,6) by simp
  then have c: "?c \<in> set (uw_att ?w3)" unfolding w3(1) set_map using assms(4) by (rule image_eqI)
  have n: "\<not> at_open ?c" by (simp add: finish_def at_open_def IsAttemptTerminal_def attemptTerminalStates_def)
  have "fin_inv (uw_att ?w3) ?w3" using w3(2) by (simp add: fin_inv_def calm_def)
  then have "fin_inv (uw_att ?w3) (fst (ReconcileOnHello d v w))"
    using fin.directive_I by (simp add: ReconcileOnHello_def quiet_find_device [OF assms(1)] 2 s)
  then have "finished_kept (uw_att ?w3) (uw_att (fst (ReconcileOnHello d v w)))" by (simp add: fin_inv_def)
  then show ?thesis using c n unfolding finished_kept_def by blast
qed

section \<open>Concrete worlds\<close>

definition demo_device :: Device where
  "demo_device = \<lparr>dv_id = 7, dv_instance = ''i7'', dv_hostname = ''h'', dv_os = ''linux'', dv_platform = [], dv_platform_ver = [],
     dv_kernel = [], dv_arch = ''amd64'', dv_cpu_model = [], dv_cpu_cores = 4, dv_mem_total_mb = Fin 0, dv_agent_version = ''1.0.0'',
     dv_status = 1, dv_token_hash = ''t7'', dv_boot_time = 0, dv_last_seen = Some 3, dv_primary_ip = [], dv_group = [], dv_tags = [],
     dv_target = [], dv_up_state = 0, dv_up_reason = [], dv_up_at = None, dv_up_supported = 1, dv_deleted = False\<rparr>"

definition demo_attempt :: Attempt where
  "demo_attempt = \<lparr>at_id = 2, at_created = 4, at_task = Some 9, at_device = 7, at_from = ''1.0.0'', at_to = ''1.1.0'', at_request = ''11'',
     at_state = ''downloading'', at_progress = Some 40, at_reason = [], at_detail = [], at_started = Some 5, at_report = Some 6, at_finished = None\<rparr>"

definition demo_failed :: Attempt where
  "demo_failed = demo_attempt\<lparr>at_id := 1, at_request := ''10'', at_state := ''failed'', at_finished := Some 3\<rparr>"

definition demo_release :: "string \<Rightarrow> string \<Rightarrow> Release" where
  "demo_release v sha = \<lparr>rl_id = 5, rl_version = v, rl_os = ''linux'', rl_arch = ''amd64'', rl_size = 100, rl_sha256 = sha, rl_key = ''k'',
     rl_status = 1, rl_published = Some 1\<rparr>"

definition demo_task :: UpgradeTask where
  "demo_task = \<lparr>tk_id = 9, tk_version = ''1.1.0'', tk_source = ''batch'', tk_actor = [], tk_total = 1, tk_finished = None\<rparr>"

definition demo_world :: "string \<Rightarrow> Attempt list \<Rightarrow> upworld" where
  "demo_world target as = \<lparr>uw_dev = \<lparr>db_rows = [demo_device], db_script = []\<rparr>, uw_att = as, uw_tasks = [demo_task],
     uw_rel = [demo_release ''1.1.0'' ''aa'', demo_release ''1.2.0'' ''bb''], uw_script = [], uw_target = target,
     uw_clock = (\<lambda>n. 1700000000000000000 + int n), uw_tick = 0, uw_ids = (\<lambda>n. of_nat (20 + n)), uw_made = 0, uw_seq = 0, uw_sent = []\<rparr>"

definition demo_env :: upenv where
  "demo_env = \<lparr>ue_like = (\<lambda>_ _. True), ue_notifier = True, ue_threshold = 30\<rparr>"

definition demo_status :: UpgradeStatus where
  "demo_status = \<lparr>us_request_id = ''11'', us_state = ''verifying'', us_target = ''1.1.0'', us_from = ''1.0.0'', us_progress = None,
     us_reason_code = [], us_reason_detail = []\<rparr>"

definition demo_request :: "string \<Rightarrow> BatchRequest" where
  "demo_request v = \<lparr>br_version = v, br_ids = [7], br_filter = None, br_expected = None\<rparr>"


lemmas demo_defs = demo_device_def demo_attempt_def demo_failed_def demo_release_def demo_task_def demo_world_def demo_env_def demo_status_def

lemmas run_defs = ReconcileOnHello_def on_dev_def FindByID_def dev_find_def stmt_def first_row_def clock_now_def reconcile_settle_def
  FindOpenByDevice_def up_stmt_def arrive_def by_id_desc_def first_of_def at_open_def IsAttemptTerminal_def attemptTerminalStates_def
  settleAttemptOnHello_def attemptStarted_def reconcile_directive_def ResolveTargetVersion_def FindByPlatform_def AgentReleasePublished_def
  reconcile_open_def directive_of_def

lemma demo_valid: "status_validate demo_status = None"
  by code_simp

definition demo_pending :: Attempt where
  "demo_pending = demo_attempt\<lparr>at_state := ''pending'', at_started := None\<rparr>"

lemma demo_hello:
  "ReconcileOnHello 7 ''1.0.0'' (demo_world ''1.1.0'' [demo_pending]) =
     (fst (clock_now (demo_world ''1.1.0'' [demo_pending])), Inr (Some \<lparr>ud_request_id = ''11'', ud_target = ''1.1.0'', ud_sha256 = ''aa'', ud_size = 100\<rparr>))"
  by (simp add: demo_defs demo_pending_def run_defs Let_def)

lemma demo_one_open: "one_open [a]"
  by (simp add: one_open_def)

lemma finished_attempt_final_witness:
  "demo_failed \<in> set (uw_att (fst (ReportUpgradeStatus 7 demo_status (demo_world [] [demo_failed, demo_attempt]))))"
  by (rule finished_attempt_final [of demo_env "demo_world [] [demo_failed, demo_attempt]"])
    (rule up_next [OF up_start up_step.report [OF demo_valid]],
     simp_all add: demo_world_def calm_def demo_failed_def at_open_def IsAttemptTerminal_def attemptTerminalStates_def)

lemma one_open_attempt_witness:
  "one_open (uw_att (fst (ReportUpgradeStatus 7 demo_status (demo_world [] [demo_attempt]))))"
  by (rule one_open_attempt [OF up_step.report [OF demo_valid]]) (simp_all add: demo_world_def demo_one_open)

lemma superseded_task_never_finishes_witness:
  "list_all (\<lambda>t. tk_finished t = None) (filter (\<lambda>t. tk_id t = 9) (uw_tasks (dispatch_device demo_env
      \<lparr>pl_devices = [demo_device], pl_skip = \<lparr>sk_already = 0, sk_unsupported = 0, sk_no_artifact = 0, sk_disabled = 0\<rparr>,
        pl_matched = 1, pl_releases = Map.empty, pl_version = ''1.2.0''\<rparr> 10 7 demo_device (demo_world [] [demo_attempt]))))"
proof -
  let ?p = "\<lparr>pl_devices = [demo_device], pl_skip = \<lparr>sk_already = 0, sk_unsupported = 0, sk_no_artifact = 0, sk_disabled = 0\<rparr>,
        pl_matched = 1, pl_releases = Map.empty, pl_version = ''1.2.0''\<rparr>"
  have "\<forall>t\<in>set (uw_tasks (dispatch_device demo_env ?p 10 7 demo_device (demo_world [] [demo_attempt]))). tk_id t = 9 \<longrightarrow> tk_finished t = None"
    by (rule superseded_task_never_finishes [THEN conjunct2, OF _ _ _ _ _ up_start])
      (simp_all add: demo_world_def demo_task_def demo_attempt_def demo_device_def)
  then show ?thesis unfolding list_all_iff set_filter by blast
qed

lemma directive_names_open_attempt_witness:
  "\<exists>a\<in>set (uw_att (fst (clock_now (demo_world ''1.1.0'' [demo_pending])))). at_device a = 7 \<and> at_open a \<and> at_request a = ''11'' \<and> at_to a = ''1.1.0''"
  using directive_names_open_attempt [OF demo_hello] by simp

lemma directive_report_lands_witness:
  "\<exists>a\<in>set (uw_att (fst (ReportUpgradeStatus 7 demo_status (fst (clock_now (demo_world ''1.1.0'' [demo_pending])))))).
     at_device a = 7 \<and> at_request a = ''11'' \<and> at_state a = ''verifying''"
  using directive_report_lands [OF demo_hello, of demo_status]
  by (simp add: demo_world_def demo_status_def keys_unique_def)


lemma stale_attempt_mixed_directive_witness:
  "snd (ReconcileOnHello 7 ''1.0.0'' (demo_world ''1.2.0'' [demo_pending])) =
     Inr (Some \<lparr>ud_request_id = ''11'', ud_target = ''1.1.0'', ud_sha256 = ''bb'', ud_size = 100\<rparr>)"
  using stale_attempt_mixed_directive [of 7 demo_device "demo_world ''1.2.0'' [demo_pending]" demo_pending "''1.0.0''" "demo_release ''1.2.0'' ''bb''"]
  by (simp add: demo_defs demo_pending_def run_defs quiet_device_def)

text \<open>The second read of the open row fails, the success is still recorded.\<close>
lemma success_only_by_version_witness:
  "let w = (demo_world ''1.1.0'' [demo_attempt])\<lparr>uw_script := [UpOk, UpFail]\<rparr>
   in \<exists>v. fst (ReconcileOnHello 7 ''1.1.0'' w) = fst (ReconcileOnHello 7 v w) \<and> at_to demo_attempt = v"
proof -
  let ?w = "(demo_world ''1.1.0'' [demo_attempt])\<lparr>uw_script := [UpOk, UpFail]\<rparr>"
  let ?a = "finish ''succeeded'' [] 1700000000000000000 demo_attempt"
  have a: "?a \<in> set (uw_att (fst (ReconcileOnHello 7 ''1.1.0'' ?w)))"
    by (simp add: demo_defs run_defs finishAttempt_def FinishOpen_def upd_open_def finish_def Let_def settleTask_def
      MarkFinishedIfSettled_def syncDeviceTerminal_def terminalState_def SetUpgradeTerminal_def dev_update_def settled_def)
  have s: "alone (uw_script ?w)" "at_state ?a = ''succeeded''" "?a \<notin> set (uw_att ?w)" "one_open (uw_att ?w)"
    "at_device ?a = 7" "at_to ?a = at_to demo_attempt"
    by (simp_all add: alone_def finish_def demo_world_def demo_attempt_def demo_one_open)
  show ?thesis
    using success_only_by_version [OF up_step.hello s(1) a s(2)] s(3-) unfolding Let_def by metis
qed

lemma all_open_rows_succeed_witness:
  "\<exists>now. finish ''succeeded'' [] now demo_attempt \<in> set (uw_att (fst (ReconcileOnHello 7 ''1.2.0''
     (demo_world ''1.2.0'' [demo_attempt, demo_attempt\<lparr>at_id := 3, at_request := ''12'', at_to := ''1.2.0''\<rparr>]))))"
  by (rule all_open_rows_succeed [where b = "demo_attempt\<lparr>at_id := 3, at_request := ''12'', at_to := ''1.2.0''\<rparr>" and dev = demo_device])
    (simp_all add: demo_defs run_defs quiet_device_def)

end
