(* ===== verification/DispatchPlans.thy ===== *)
theory DispatchPlans
  imports DispatchProps "HOL-Library.Multiset"
begin

text \<open>
  The console's side of the upgrade domain: what a plan counts, what a site-wide target does to the devices it reaches,
  the patrol, the agreement of preview and dispatch, the identifiers of requests, and the numbers of the summary.
\<close>

section \<open>The numbers of a plan\<close>

definition upgradable :: "releaseIndex \<Rightarrow> string \<Rightarrow> Device \<Rightarrow> bool" where
  "upgradable idx v d \<longleftrightarrow> dv_status d = DeviceStatusEnabled \<and> dv_up_supported d = 1 \<and> dv_agent_version d \<noteq> v
     \<and> idx (releaseKey (dv_os d) (dv_arch d)) \<noteq> None"

lemma classify_loop:
  "let p' = foldl (\<lambda>p d. classify_one idx v d p) p ds
   in pl_devices p' = pl_devices p @ filter (upgradable idx v) ds
    \<and> length (pl_devices p') + skip_total (pl_skip p') = length (pl_devices p) + skip_total (pl_skip p) + length ds
    \<and> pl_matched p' = pl_matched p \<and> pl_releases p' = pl_releases p \<and> pl_version p' = pl_version p"
proof (induction ds arbitrary: p)
  case (Cons d ds)
  show ?case using Cons [of "classify_one idx v d p"]
    by (auto simp: Let_def classify_one_def upgradable_def skip_total_def)
qed simp

lemma classify_all_simps [simp]:
  "pl_devices (classify_all idx v ds) = filter (upgradable idx v) ds" "pl_matched (classify_all idx v ds) = length ds"
  "pl_releases (classify_all idx v ds) = idx" "pl_version (classify_all idx v ds) = v"
  "length (filter (upgradable idx v) ds) + skip_total (pl_skip (classify_all idx v ds)) = length ds"
proof -
  let ?p = "\<lparr>pl_devices = [], pl_skip = \<lparr>sk_already = 0, sk_unsupported = 0, sk_no_artifact = 0, sk_disabled = 0\<rparr>,
      pl_matched = length ds, pl_releases = idx, pl_version = v\<rparr>"
  have z: "skip_total (pl_skip ?p) = 0" by (simp add: skip_total_def)
  note l = classify_loop [of idx v ?p ds, unfolded Let_def z, folded classify_all_def]
  show "pl_devices (classify_all idx v ds) = filter (upgradable idx v) ds" "pl_matched (classify_all idx v ds) = length ds"
    "pl_releases (classify_all idx v ds) = idx" "pl_version (classify_all idx v ds) = v" using l by simp_all
  from l show "length (filter (upgradable idx v) ds) + skip_total (pl_skip (classify_all idx v ds)) = length ds" by auto
qed

lemma index_of_hit: "index_of rows k \<noteq> None \<longleftrightarrow> (\<exists>r\<in>set rows. releaseKey (rl_os r) (rl_arch r) = k)"
proof -
  have "foldl (\<lambda>m r. m(releaseKey (rl_os r) (rl_arch r) \<mapsto> r)) m rows k \<noteq> None
      \<longleftrightarrow> m k \<noteq> None \<or> (\<exists>r\<in>set rows. releaseKey (rl_os r) (rl_arch r) = k)" for m
    by (induction rows arbitrary: m) auto
  then show ?thesis by (simp add: index_of_def)
qed

lemma arrive_rel [simp]: "uw_rel (arrive w) = uw_rel w" "uw_dev (arrive w) = uw_dev w" "uw_target (arrive w) = uw_target w"
  by (simp_all add: arrive_def Let_def split: list.splits up_event.splits)

lemma classify_ok:
  assumes "classify ds v w = (w', Inr plan)"
  shows "w' = arrive w" "plan = classify_all (index_of (filter (\<lambda>r. rl_version r = v \<and> rl_status r = AgentReleasePublished) (uw_rel w))) v ds"
  using assms by (auto simp: classify_def releaseIndexFor_def ListByVersion_def up_stmt_def split: list.splits up_event.splits)

text \<open>The classification dispatches exactly the enabled devices that support upgrades, have another version and have a published
  release for their platform; the numbers of its reasons account for the rest.\<close>
theorem classify_exact:
  assumes "classify ds v w = (w', Inr plan)"
  shows "pl_devices plan = filter (\<lambda>d. dv_status d = DeviceStatusEnabled \<and> dv_up_supported d = 1 \<and> dv_agent_version d \<noteq> v
      \<and> (\<exists>r\<in>set (uw_rel w). rl_version r = v \<and> rl_status r = AgentReleasePublished \<and> releaseKey (rl_os r) (rl_arch r) = releaseKey (dv_os d) (dv_arch d))) ds
    \<and> pl_matched plan = length (pl_devices plan) + skip_total (pl_skip plan) \<and> pl_matched plan = length ds"
  using classify_ok(2) [OF assms] index_of_hit by (auto simp: upgradable_def intro!: filter_cong)

section \<open>What a dispatch changes\<close>

text \<open>After the first n attempts come the new ones; the devices they are for have the version as their target.\<close>
definition dispatched :: "nat \<Rightarrow> Device list \<Rightarrow> Device list \<Rightarrow> string \<Rightarrow> upworld \<Rightarrow> bool" where
  "dispatched n rows0 ds v w \<longleftrightarrow> uw_script w = [] \<and> db_script (uw_dev w) = [] \<and> n \<le> length (uw_att w)
     \<and> (\<forall>a\<in>set (drop n (uw_att w)). at_device a \<in> dv_id ` set ds
          \<and> (\<forall>d\<in>set (db_rows (uw_dev w)). \<not> dv_deleted d \<and> dv_id d = at_device a \<longrightarrow> dv_target d = v))
     \<and> (\<forall>d\<in>set (db_rows (uw_dev w)). \<exists>d0\<in>set rows0. dv_id d = dv_id d0 \<and> dv_deleted d = dv_deleted d0
          \<and> (dv_target d = dv_target d0 \<or> (dv_id d \<in> dv_id ` set ds \<and> dv_target d = v)))"

lemma dev_update_rows:
  "db_script db = [] \<Longrightarrow> db_script (fst (dev_update i f db)) = []
    \<and> db_rows (fst (dev_update i f db)) = map (\<lambda>d. if \<not> dv_deleted d \<and> dv_id d = i then f d else d) (db_rows db)"
  by (auto simp: dev_update_def stmt_def list_ex_iff intro!: map_idI [symmetric])

lemma dispatched_target:
  assumes "dispatched n rows0 ds v w" "dev \<in> set ds" "at_device b = dv_id dev"
  shows "dispatched n rows0 ds v (fst (on_dev (SetUpgradeTarget (dv_id dev) v) (w\<lparr>uw_att := uw_att w @ [b]\<rparr>)))"
proof -
  let ?w = "fst (on_dev (SetUpgradeTarget (dv_id dev) v) (w\<lparr>uw_att := uw_att w @ [b]\<rparr>))"
  let ?g = "\<lambda>d. if \<not> dv_deleted d \<and> dv_id d = dv_id dev then d\<lparr>dv_target := v\<rparr> else d"
  have s: "db_script (uw_dev w) = []" using assms(1) by (simp add: dispatched_def)
  have w: "uw_script ?w = uw_script w" "uw_att ?w = uw_att w @ [b]" "db_script (uw_dev ?w) = []"
    "db_rows (uw_dev ?w) = map ?g (db_rows (uw_dev w))"
    using dev_update_rows [OF s, of "dv_id dev" "\<lambda>d. d\<lparr>dv_target := v\<rparr>"]
    by (auto simp: on_dev_def SetUpgradeTarget_def split: prod.splits)
  have each: "\<exists>d0\<in>set rows0. dv_id (?g d) = dv_id d0 \<and> dv_deleted (?g d) = dv_deleted d0
      \<and> (dv_target (?g d) = dv_target d0 \<or> (dv_id (?g d) \<in> dv_id ` set ds \<and> dv_target (?g d) = v))"
    if d: "d \<in> set (db_rows (uw_dev w))" for d
  proof -
    obtain d0 where "d0 \<in> set rows0" "dv_id d = dv_id d0" "dv_deleted d = dv_deleted d0"
      "dv_target d = dv_target d0 \<or> (dv_id d \<in> dv_id ` set ds \<and> dv_target d = v)"
      using assms(1) d unfolding dispatched_def by blast
    then show ?thesis using assms(2) by (intro bexI [of _ d0]) auto
  qed
  have rows: "\<forall>d\<in>set (db_rows (uw_dev ?w)). \<exists>d0\<in>set rows0. dv_id d = dv_id d0 \<and> dv_deleted d = dv_deleted d0
      \<and> (dv_target d = dv_target d0 \<or> (dv_id d \<in> dv_id ` set ds \<and> dv_target d = v))"
  proof
    fix d' assume "d' \<in> set (db_rows (uw_dev ?w))"
    then obtain d where "d \<in> set (db_rows (uw_dev w))" "d' = ?g d" unfolding w by auto
    then show "\<exists>d0\<in>set rows0. dv_id d' = dv_id d0 \<and> dv_deleted d' = dv_deleted d0
      \<and> (dv_target d' = dv_target d0 \<or> (dv_id d' \<in> dv_id ` set ds \<and> dv_target d' = v))" using each [of d] by (simp only:)
  qed
  have news: "at_device a \<in> dv_id ` set ds \<and> (\<forall>d\<in>set (db_rows (uw_dev ?w)). \<not> dv_deleted d \<and> dv_id d = at_device a \<longrightarrow> dv_target d = v)"
    if "a \<in> set (drop n (uw_att ?w))" for a
  proof -
    have "a \<in> set (drop n (uw_att w)) \<or> a = b" using that assms(1) w(2) by (auto simp: dispatched_def)
    then show ?thesis
    proof
      assume "a \<in> set (drop n (uw_att w))"
      then have "at_device a \<in> dv_id ` set ds" "\<And>d. d \<in> set (db_rows (uw_dev w)) \<Longrightarrow> \<not> dv_deleted d \<Longrightarrow> dv_id d = at_device a \<Longrightarrow> dv_target d = v"
        using assms(1) by (auto simp: dispatched_def)
      then show ?thesis unfolding w by (auto split: if_splits)
    next
      assume "a = b"
      then show ?thesis using assms(2,3) unfolding w by (auto split: if_splits)
    qed
  qed
  have "uw_script ?w = [] \<and> db_script (uw_dev ?w) = [] \<and> n \<le> length (uw_att ?w)" using w(1-3) assms(1) by (simp add: dispatched_def)
  then show ?thesis using rows news unfolding dispatched_def by blast
qed

lemma dispatched_device:
  assumes d: "dispatched n rows0 ds (pl_version plan) w" "dev \<in> set ds"
  shows "dispatched n rows0 ds (pl_version plan) (dispatch_device en plan task now dev w)"
proof -
  let ?v = "pl_version plan"
  obtain w1 r where 1: "SupersedeOpen (dv_id dev) now w = (w1, r)" by fastforce
  obtain w2 rid where 2: "newRequestID w1 = (w2, rid)" by fastforce
  let ?a = "new_attempt (Some task) (dv_id dev) (dv_agent_version dev) ?v rid now"
  obtain w3 q where 3: "Attempt_Create ?a w2 = (w3, q)" by fastforce
  have D1: "dispatched n rows0 ds ?v w1"
    using d 1 by (auto simp: dispatched_def SupersedeOpen_def quiet_update_open drop_map)
  have D2: "dispatched n rows0 ds ?v w2"
    using D1 2 by (auto simp: dispatched_def newRequestID_def clock_now_def Let_def)
  have s: "uw_script w2 = []" using D2 by (simp add: dispatched_def)
  have c: "(\<exists>e. q = Inl e) \<and> w3 = fst (fresh_id w2) \<or>
      (\<exists>b. q = Inr b \<and> at_device b = dv_id dev \<and> w3 = (fst (fresh_id w2))\<lparr>uw_att := uw_att w2 @ [b]\<rparr>)"
    using 3 s by (auto simp: Attempt_Create_def quiet_stmt fresh_id_def Let_def split: if_splits)
  have D3: "dispatched n rows0 ds ?v (fst (fresh_id w2))" using D2 by (simp add: dispatched_def fresh_id_def)
  have told: "dispatched n rows0 ds ?v (notify en plan dev b u)" if "dispatched n rows0 ds ?v u" for b u
    using that by (auto simp: notify_def dispatched_def split: option.splits)
  have att: "uw_att (fst (fresh_id w2)) = uw_att w2" by (simp add: fresh_id_def)
  from c show ?thesis
  proof
    assume "(\<exists>e. q = Inl e) \<and> w3 = fst (fresh_id w2)"
    then show ?thesis using D3 3 by (auto simp: dispatch_device_def 1 2 Let_def)
  next
    assume "\<exists>b. q = Inr b \<and> at_device b = dv_id dev \<and> w3 = (fst (fresh_id w2))\<lparr>uw_att := uw_att w2 @ [b]\<rparr>"
    then obtain b where b: "q = Inr b" "at_device b = dv_id dev" "w3 = (fst (fresh_id w2))\<lparr>uw_att := uw_att w2 @ [b]\<rparr>" by blast
    have "dispatched n rows0 ds ?v (fst (on_dev (SetUpgradeTarget (dv_id dev) ?v) w3))"
      using dispatched_target [OF D3 d(2) b(2)] b(3) att by simp
    then show ?thesis using told 3 b by (simp add: dispatch_device_def 1 2 Let_def)
  qed
qed

lemma dispatched_plan:
  assumes q: "uw_script w = []" "db_script (uw_dev w) = []" and v: "pl_version plan = v"
  shows "dispatched (length (uw_att w)) (db_rows (uw_dev w)) (pl_devices plan) v (fst (applyPlan en plan source actor w))"
proof -
  have start: "dispatched (length (uw_att w)) (db_rows (uw_dev w)) ds v w" for ds
    using q by (auto simp: dispatched_def)
  let ?t = "\<lparr>tk_id = 0, tk_version = pl_version plan, tk_source = source, tk_actor = actor,
                             tk_total = length (pl_devices plan), tk_finished = None\<rparr>"
  obtain w1 r where 1: "Task_Create ?t w = (w1, r)" by fastforce
  obtain w2 now where 2: "clock_now w1 = (w2, now)" by fastforce
  have D1: "dispatched (length (uw_att w)) (db_rows (uw_dev w)) ds v w1" for ds
    using start [of ds] 1 q(1) by (auto simp: dispatched_def Task_Create_def quiet_stmt fresh_id_def Let_def split: if_splits)
  then have D2: "dispatched (length (uw_att w)) (db_rows (uw_dev w)) ds v w2" for ds
    using 2 by (auto simp: dispatched_def clock_now_def)
  have "dispatched n rows0 ds v (foldl (\<lambda>w dev. dispatch_device en plan task now dev w) u xs)"
    if "dispatched n rows0 ds v u" "set xs \<subseteq> set ds" for n rows0 ds u xs task
    using that by (induction xs arbitrary: u) (auto simp: v [symmetric] dispatched_device)
  then show ?thesis using start D1 D2 by (auto simp: applyPlan_def 1 2 split: sum.splits)
qed

lemma global_dispatched:
  assumes q: "uw_script w = []" "db_script (uw_dev w) = []" and g: "SetGlobalTarget en v actor w = (w', r)"
  shows "\<exists>ds. (\<forall>d\<in>set ds. d \<in> set (db_rows (uw_dev w)) \<and> \<not> dv_deleted d \<and> dv_target d = [])
    \<and> dispatched (length (uw_att w)) (db_rows (uw_dev w)) ds v w'"
proof -
  have start: ?thesis if "uw_att w' = uw_att w" "uw_script w' = []" "uw_dev w' = uw_dev w"
    using that q by (intro exI [of _ "[]"]) (auto simp: dispatched_def)
  let ?w = "w\<lparr>uw_target := v\<rparr>"
  have set_stmt: "SetString_target v w = (?w, Inr ())" using q(1) by (simp add: SetString_target_def quiet_stmt)
  obtain w1 since where 1: "onlineSince en ?w = (w1, since)" by fastforce
  have w1: "uw_att w1 = uw_att w" "uw_script w1 = []" "uw_dev w1 = uw_dev w" "uw_tasks w1 = uw_tasks w"
    using 1 q(1) by (auto simp: onlineSince_def clock_now_def Let_def)
  let ?ds = "sort_key dv_id (filter (\<lambda>d. \<not> dv_deleted d \<and> applyFilters en any_device since d) (db_rows (uw_dev w)))"
  have 2: "on_dev (FindByUpgradeFilter en any_device since) w1 = (w1, Inr ?ds)"
    using w1(3) q(2) by (simp add: on_dev_def FindByUpgradeFilter_def stmt_def)
  let ?rows = "filter (\<lambda>r. rl_version r = v \<and> rl_status r = AgentReleasePublished) (uw_rel w1)"
  let ?plan = "classify_all (index_of ?rows) v (followers ?ds)"
  have 3: "classify (followers ?ds) v w1 = (w1, Inr ?plan)"
    using w1(2) by (simp add: classify_def releaseIndexFor_def ListByVersion_def quiet_stmt)
  let ?w' = "fst (applyPlan en ?plan ''global'' actor w1)"
  have applied: "w' = ?w'" if "v \<noteq> []" "uw_att w' \<noteq> uw_att w \<or> uw_script w' \<noteq> [] \<or> uw_dev w' \<noteq> uw_dev w"
    using g that q(1) by (auto simp: SetGlobalTarget_def set_and_dispatch_def set_stmt global_dispatch_def 1 2 3 ListByVersion_def quiet_stmt
        split: if_splits prod.splits sum.splits)
  have disp: "dispatched (length (uw_att w)) (db_rows (uw_dev w)) (pl_devices ?plan) v ?w'"
    using dispatched_plan [of w1 ?plan v en "''global''" actor] w1 q(2) by simp
  have free: "\<forall>d\<in>set (pl_devices ?plan). d \<in> set (db_rows (uw_dev w)) \<and> \<not> dv_deleted d \<and> dv_target d = []"
    by (auto simp: followers_def)
  have closed: "uw_att w' = uw_att w \<and> uw_script w' = [] \<and> uw_dev w' = uw_dev w" if "v = []"
    using g that q(1) by (cases "SetString_target v w") (auto simp: SetGlobalTarget_def set_and_dispatch_def set_stmt [unfolded that])
  show ?thesis
  proof (cases "uw_att w' = uw_att w \<and> uw_script w' = [] \<and> uw_dev w' = uw_dev w")
    case False
    then have e: "w' = ?w'" using applied closed by blast
    show ?thesis unfolding e by (rule exI [of _ "pl_devices ?plan"], rule conjI [OF free disp])
  next
    case True
    show ?thesis by (rule start) (use True in blast)+
  qed
qed

text \<open>C25: every device a site-wide target dispatches gets that version as a target of its own. The next site-wide target therefore opens
  no attempt for it and does not change its effective target.\<close>
theorem global_target_pins:
  assumes q: "uw_script w = []" "db_script (uw_dev w) = []" and v: "v \<noteq> []"
    and first: "SetGlobalTarget en v actor w = (w1, r1)" and a: "a \<in> set (drop (length (uw_att w)) (uw_att w1))"
    and second: "SetGlobalTarget en v2 actor2 w1 = (w2, r2)"
  shows "(\<forall>b\<in>set (drop (length (uw_att w1)) (uw_att w2)). at_device b \<noteq> at_device a)
    \<and> (\<forall>d\<in>set (db_rows (uw_dev w2)). \<not> dv_deleted d \<and> dv_id d = at_device a \<longrightarrow> ResolveTargetVersion d w2 = v)"
proof -
  obtain ds1 where d1: "dispatched (length (uw_att w)) (db_rows (uw_dev w)) ds1 v w1"
    using global_dispatched [OF q first] by blast
  then have q1: "uw_script w1 = []" "db_script (uw_dev w1) = []" by (simp_all add: dispatched_def)
  have pin: "dv_target d = v" if "d \<in> set (db_rows (uw_dev w1))" "\<not> dv_deleted d" "dv_id d = at_device a" for d
    using d1 a that by (auto simp: dispatched_def)
  obtain ds2 where d2: "\<And>d. d \<in> set ds2 \<Longrightarrow> d \<in> set (db_rows (uw_dev w1)) \<and> \<not> dv_deleted d \<and> dv_target d = []"
      "dispatched (length (uw_att w1)) (db_rows (uw_dev w1)) ds2 v2 w2"
    using global_dispatched [OF q1 second] by blast
  have no: "at_device a \<notin> dv_id ` set ds2" using d2(1) pin v by force
  have "at_device b \<in> dv_id ` set ds2" if "b \<in> set (drop (length (uw_att w1)) (uw_att w2))" for b
    using d2(2) that by (auto simp: dispatched_def)
  moreover have "dv_target d = v" if "d \<in> set (db_rows (uw_dev w2))" "\<not> dv_deleted d" "dv_id d = at_device a" for d
  proof -
    obtain d0 where "d0 \<in> set (db_rows (uw_dev w1))" "dv_id d = dv_id d0" "dv_deleted d = dv_deleted d0"
      "dv_target d = dv_target d0 \<or> (dv_id d \<in> dv_id ` set ds2 \<and> dv_target d = v2)"
      using d2(2) \<open>d \<in> set (db_rows (uw_dev w2))\<close> unfolding dispatched_def by blast
    then show ?thesis using pin [of d0] no that by metis
  qed
  ultimately show ?thesis using no v by (metis ResolveTargetVersion_def)
qed

section \<open>The patrol\<close>

definition timed_out :: "int \<Rightarrow> Attempt set \<Rightarrow> Attempt \<Rightarrow> Attempt" where
  "timed_out now P a = (if a \<in> P then finish ''timeout'' ''timeout'' now a else a)"

lemma finish_sel [simp]: "at_id (finish st code now a) = at_id a" "at_device (finish st code now a) = at_device a"
  "at_state (finish st code now a) = st" "at_task (finish st code now a) = at_task a" "at_to (finish st code now a) = at_to a"
  by (simp_all add: finish_def)

lemma timeout_closed [simp]: "\<not> at_open (finish ''timeout'' code now a)"
  by (simp add: at_open_def IsAttemptTerminal_def attemptTerminalStates_def)

lemma sweep_one_quiet:
  assumes "uw_script w = []" "uw_att w = map (timed_out now P) as" "distinct (map at_id as)" "a \<in> set as" "a \<notin> P" "at_open a"
  shows "uw_script (fst (sweep_one now a (w, n))) = [] \<and> uw_att (fst (sweep_one now a (w, n))) = map (timed_out now (insert a P)) as
    \<and> snd (sweep_one now a (w, n)) = n + 1"
proof -
  have inj: "x = a" if "x \<in> set as" "at_id x = at_id a" for x
    using assms(3,4) that by (auto simp: distinct_map inj_on_def)
  let ?g = "\<lambda>x. if at_id x = at_id a \<and> at_open x then finish ''timeout'' ''timeout'' now x else x"
  have m: "map ?g (uw_att w) = map (timed_out now (insert a P)) as"
    unfolding assms(2) map_map by (rule map_cong [OF refl]) (use inj assms(5,6) in \<open>auto simp: timed_out_def\<close>)
  have "timed_out now P a \<in> set (uw_att w)" using assms(2,4) by simp
  then have k: "length (filter (\<lambda>x. at_id x = at_id a \<and> at_open x) (uw_att w)) \<noteq> 0"
    using assms(5,6) by (auto simp: filter_empty_conv timed_out_def)
  have u: "FinishByID (at_id a) ''timeout'' ''timeout'' now w = (w\<lparr>uw_att := map (timed_out now (insert a P)) as\<rparr>,
      Inr (length (filter (\<lambda>x. at_id x = at_id a \<and> at_open x) (uw_att w))))"
    using quiet_update_open [OF assms(1), of "\<lambda>x. at_id x = at_id a"] m by (simp add: FinishByID_def)
  show ?thesis using k assms(1) by (simp add: sweep_one_def u)
qed

lemma sweep_rows_quiet:
  assumes "uw_script w = []" "uw_att w = map (timed_out now P) as" "distinct (map at_id as)"
    and "set rows \<subseteq> set as" "set rows \<inter> P = {}" "distinct rows" "\<forall>a\<in>set rows. at_open a"
  shows "let r = foldl (\<lambda>wn a. sweep_one now a wn) (w, n) rows in uw_script (fst r) = []
    \<and> uw_att (fst r) = map (timed_out now (P \<union> set rows)) as \<and> snd r = n + length rows"
  using assms
proof (induction rows arbitrary: w n P)
  case (Cons a rows)
  obtain w' n' where s: "sweep_one now a (w, n) = (w', n')" by fastforce
  have q: "uw_script w' = []" "uw_att w' = map (timed_out now (insert a P)) as" "n' = n + 1"
    using sweep_one_quiet [of w now P as a n] Cons.prems s by auto
  show ?case using Cons.IH [OF q(1,2), of n'] Cons.prems q(3) by (auto simp: s Let_def)
qed simp

definition sweep_rows :: "int \<Rightarrow> nat \<Rightarrow> Attempt list \<Rightarrow> Attempt list" where
  "sweep_rows before limit as = take limit (sort_key at_id (filter (stale before) as))"

lemma sweep_rows_facts:
  assumes "distinct (map at_id as)"
  shows "set (sweep_rows before limit as) \<subseteq> {a \<in> set as. stale before a}" "distinct (sweep_rows before limit as)"
proof -
  show "set (sweep_rows before limit as) \<subseteq> {a \<in> set as. stale before a}"
    using set_take_subset [of limit "sort_key at_id (filter (stale before) as)"] by (auto simp: sweep_rows_def)
  have "distinct (sort_key at_id (filter (stale before) as))" using assms by (simp add: distinct_map)
  then show "distinct (sweep_rows before limit as)" by (simp add: sweep_rows_def)
qed

lemma sweep_effect:
  fixes olderThan :: int and limit :: nat
  assumes q: "uw_script w = []" "distinct (map at_id (uw_att w))"
  defines "now \<equiv> uw_clock w (uw_tick w)" and "older \<equiv> if olderThan \<le> 0 then staleAfter else olderThan"
  defines "rows \<equiv> sweep_rows (now - older) limit (uw_att w)"
  shows "snd (SweepStale olderThan limit w) = Inr (length rows)"
    "uw_att (fst (SweepStale olderThan limit w)) = map (timed_out now (set rows)) (uw_att w)"
    "uw_script (fst (SweepStale olderThan limit w)) = []"
proof -
  let ?w = "fst (clock_now w)"
  have f: "FindStale (now - older) limit ?w = (?w, Inr rows)"
    using q(1) by (simp add: FindStale_def quiet_stmt rows_def sweep_rows_def)
  have id: "map (timed_out now {}) as = as" for as by (induction as) (simp_all add: timed_out_def)
  note facts = sweep_rows_facts [OF q(2), of "now - older" limit, folded rows_def]
  have "let r = foldl (\<lambda>wn a. sweep_one now a wn) (?w, 0) rows in uw_script (fst r) = []
    \<and> uw_att (fst r) = map (timed_out now ({} \<union> set rows)) (uw_att w) \<and> snd r = 0 + length rows"
    by (rule sweep_rows_quiet) (use q facts in \<open>auto simp: id stale_def\<close>)
  moreover have "SweepStale olderThan limit w =
      (fst (foldl (\<lambda>wn a. sweep_one now a wn) (?w, 0) rows), Inr (snd (foldl (\<lambda>wn a. sweep_one now a wn) (?w, 0) rows)))"
    using f by (simp add: SweepStale_def Let_def clock_now_def now_def older_def split: prod.splits)
  ultimately show "snd (SweepStale olderThan limit w) = Inr (length rows)"
    "uw_att (fst (SweepStale olderThan limit w)) = map (timed_out now (set rows)) (uw_att w)"
    "uw_script (fst (SweepStale olderThan limit w)) = []" by (simp_all add: Let_def)
qed

text \<open>A sweep times out exactly the first stale attempts by identifier, up to its limit, and nothing else.\<close>
theorem sweep_exact:
  assumes "uw_script w = []" "distinct (map at_id (uw_att w))"
  shows "let now = uw_clock w (uw_tick w); before = now - (if olderThan \<le> 0 then staleAfter else olderThan);
           rows = take limit (sort_key at_id (filter (stale before) (uw_att w)))
     in snd (SweepStale olderThan limit w) = Inr (length rows)
      \<and> uw_att (fst (SweepStale olderThan limit w)) = map (\<lambda>a. if a \<in> set rows then finish ''timeout'' ''timeout'' now a else a) (uw_att w)"
  using sweep_effect [OF assms, of olderThan limit] by (simp add: Let_def sweep_rows_def timed_out_def)

text \<open>The clock does not move by itself, and every sweep with work to do closes a row.\<close>
lemma up_stmt_clock: "(\<And>v. uw_clock (fst (f v)) = uw_clock v) \<Longrightarrow> uw_clock (fst (up_stmt f w)) = uw_clock w"
  by (auto simp: up_stmt_def arrive_def Let_def split: list.splits up_event.splits)

lemma stmt_clock [simp]:
  "uw_clock (fst (FinishByID i st code now w)) = uw_clock w" "uw_clock (fst (MarkFinishedIfSettled j now w)) = uw_clock w"
  "uw_clock (fst (FindStale b n w)) = uw_clock w" "uw_clock (syncDeviceTerminal d st code now w) = uw_clock w"
  unfolding FinishByID_def upd_open_def MarkFinishedIfSettled_def FindStale_def syncDeviceTerminal_def on_dev_def
  by (auto intro!: up_stmt_clock simp: Let_def split: option.splits prod.splits)

lemma sweep_one_clock: "uw_clock (fst (sweep_one now a wn)) = uw_clock (fst wn)"
proof (cases "FinishByID (at_id a) ''timeout'' ''timeout'' now (fst wn)")
  case (Pair u r)
  then have "uw_clock u = uw_clock (fst wn)" using stmt_clock(1) by (metis fst_conv)
  then show ?thesis using Pair by (simp add: sweep_one_def settleTask_def split: sum.splits option.splits)
qed

lemma sweep_clock: "uw_clock (fst (SweepStale olderThan limit w)) = uw_clock w"
proof -
  let ?older = "if olderThan \<le> 0 then staleAfter else olderThan"
  obtain w1 now where 1: "clock_now w = (w1, now)" by fastforce
  obtain w2 r where 2: "FindStale (now - ?older) limit w1 = (w2, r)" by fastforce
  have c: "uw_clock w2 = uw_clock w"
    using stmt_clock(3) [of "now - ?older" limit w1] 1 2 by (auto simp: clock_now_def)
  have "uw_clock (fst (foldl (\<lambda>wn a. sweep_one now a wn) wn rows)) = uw_clock (fst wn)" for wn rows
    by (induction rows arbitrary: wn) (simp_all add: sweep_one_clock)
  note loop = this [of "(w2, 0)"]
  show ?thesis
  proof (cases r)
    case (Inr rows)
    then show ?thesis using loop [of rows] c 2
      by (cases "foldl (\<lambda>wn a. sweep_one now a wn) (w2, 0) rows") (simp add: SweepStale_def 1 Let_def)
  qed (use c 2 in \<open>simp add: SweepStale_def 1 Let_def\<close>)
qed

definition open_count :: "Attempt list \<Rightarrow> nat" where
  "open_count as = length (filter at_open as)"

lemma open_count_timed_out:
  assumes "a \<in> set as" "a \<in> P" "at_open a"
  shows "open_count (map (timed_out now P) as) < open_count as"
  using assms
proof (induction as)
  case (Cons x xs)
  have le: "open_count (map (timed_out now P) ys) \<le> open_count ys" for ys
    by (induction ys) (auto simp: open_count_def timed_out_def)
  show ?case
  proof (cases "x \<in> P \<and> at_open x")
    case True
    then have "\<not> at_open (timed_out now P x)" by (simp add: timed_out_def)
    then show ?thesis using le [of xs] True by (simp add: open_count_def)
  next
    case False
    then have "a \<in> set xs" "timed_out now P x = x \<or> \<not> at_open x" using Cons.prems by (auto simp: timed_out_def)
    then show ?thesis using Cons.IH Cons.prems False by (auto simp: open_count_def timed_out_def)
  qed
qed simp

lemma stale_mono: "stale b a \<Longrightarrow> b \<le> c \<Longrightarrow> stale c a"
  by (auto simp: stale_def split: option.splits)

text \<open>C31: repeated patrols come to an end: after as many of them as there are open attempts, no attempt is stale at the time they
  started. Every patrol with something to do closes a row, so the number of open rows is the measure.\<close>
theorem patrol_drains:
  assumes q: "uw_script w = []" "distinct (map at_id (uw_att w))" and limit: "0 < limit" and clock: "\<And>k. T \<le> uw_clock w k"
    and k: "length (filter at_open (uw_att w)) \<le> k"
  shows "\<not> list_ex (stale (T - staleAfter)) (uw_att (((\<lambda>w. fst (SweepStale 0 limit w)) ^^ k) w))"
proof -
  let ?u = "\<lambda>k. ((\<lambda>w. fst (SweepStale 0 limit w)) ^^ k) w" and ?b = "T - staleAfter"
  have "uw_script (?u k) = [] \<and> distinct (map at_id (uw_att (?u k))) \<and> uw_clock (?u k) = uw_clock w
      \<and> (list_ex (stale ?b) (uw_att (?u k)) \<longrightarrow> open_count (uw_att (?u k)) + k \<le> open_count (uw_att w))" for k
  proof (induction k)
    case (Suc k)
    let ?w = "?u k" and ?now = "uw_clock w (uw_tick (?u k))"
    have q': "uw_script ?w = []" "distinct (map at_id (uw_att ?w))" and c: "uw_clock ?w = uw_clock w" using Suc by simp_all
    let ?rows = "sweep_rows (?now - staleAfter) limit (uw_att ?w)"
    note e = sweep_effect [OF q', of 0 limit, simplified, unfolded c]
    have ids: "map at_id (uw_att (?u (Suc k))) = map at_id (uw_att ?w)"
      using e(2) by (simp add: timed_out_def)
    have step: "open_count (uw_att (?u (Suc k))) + Suc k \<le> open_count (uw_att w)" if st: "list_ex (stale ?b) (uw_att (?u (Suc k)))"
    proof -
      obtain x where x: "x \<in> set (uw_att ?w)" "stale ?b (timed_out ?now (set ?rows) x)"
        using st e(2) by (auto simp: list_ex_iff)
      then have sx: "stale ?b x" by (auto simp: timed_out_def stale_def split: if_splits)
      have "?b \<le> ?now - staleAfter" using clock [of "uw_tick ?w"] by simp
      then have "x \<in> set (sort_key at_id (filter (stale (?now - staleAfter)) (uw_att ?w)))"
        using x(1) stale_mono [OF sx] by simp
      then obtain a where a: "a \<in> set ?rows" using limit
        by (cases "sort_key at_id (filter (stale (?now - staleAfter)) (uw_att ?w))"; cases limit) (auto simp: sweep_rows_def)
      have "a \<in> set (uw_att ?w)" "at_open a"
        using sweep_rows_facts(1) [OF q'(2)] a by (auto simp: stale_def)
      then have "open_count (uw_att (?u (Suc k))) < open_count (uw_att ?w)"
        using open_count_timed_out [of a _ "set ?rows" ?now] a e(2) by simp
      moreover have "list_ex (stale ?b) (uw_att ?w)" using sx x(1) by (auto simp: list_ex_iff)
      ultimately show ?thesis using Suc by simp
    qed
    have "uw_script (?u (Suc k)) = []" "uw_clock (?u (Suc k)) = uw_clock w" using e(3) c sweep_clock by simp_all
    then show ?case using step ids q'(2) by simp
  qed (simp add: q)
  then have inv: "list_ex (stale ?b) (uw_att (?u k)) \<Longrightarrow> open_count (uw_att (?u k)) + k \<le> open_count (uw_att w)" by blast
  show ?thesis
  proof
    assume s: "list_ex (stale ?b) (uw_att (?u k))"
    then have "0 < open_count (uw_att (?u k))" by (auto simp: list_ex_iff open_count_def stale_def filter_empty_conv)
    then show False using inv [OF s] k unfolding open_count_def by linarith
  qed
qed

section \<open>Preview and dispatch\<close>

lemma filters_clock: "dq_online q = None \<Longrightarrow> applyFilters en q s = applyFilters en q t"
  by (auto simp: applyFilters_def)

definition quiet_world :: "upworld \<Rightarrow> bool" where
  "quiet_world w \<longleftrightarrow> uw_script w = [] \<and> db_script (uw_dev w) = []"

definition selected :: "upenv \<Rightarrow> DeviceQuery \<Rightarrow> upworld \<Rightarrow> Device list" where
  "selected en q w = sort_key dv_id (filter (\<lambda>d. \<not> dv_deleted d \<and> applyFilters en q 0 d) (db_rows (uw_dev w)))"

lemma quiet_targets:
  assumes "quiet_world w" "br_ids req = []" "br_filter req = Some q" "dq_online q = None"
  shows "resolveTargets en req w = (fst (onlineSince en w), Inr (selected en q w))"
proof -
  obtain w1 since where 1: "onlineSince en w = (w1, since)" by fastforce
  then have "uw_dev w1 = uw_dev w" by (auto simp: onlineSince_def clock_now_def Let_def)
  then show ?thesis using assms 1 filters_clock [OF assms(4), of en since 0]
    by (simp add: resolveTargets_def on_dev_def FindByUpgradeFilter_def stmt_def quiet_world_def selected_def)
qed

definition quiet_plan :: "Device list \<Rightarrow> string \<Rightarrow> upworld \<Rightarrow> upgradePlan" where
  "quiet_plan ds v w = classify_all (index_of (filter (\<lambda>r. rl_version r = v \<and> rl_status r = AgentReleasePublished) (uw_rel w))) v ds"

lemma quiet_classify: "quiet_world w \<Longrightarrow> classify ds v w = (w, Inr (quiet_plan ds v w))"
  by (simp add: classify_def releaseIndexFor_def ListByVersion_def quiet_stmt quiet_world_def quiet_plan_def)

lemma since_frame [simp]: "uw_dev (fst (onlineSince en w)) = uw_dev w" "uw_rel (fst (onlineSince en w)) = uw_rel w"
  "quiet_world (fst (onlineSince en w)) = quiet_world w" "selected en q (fst (onlineSince en' w)) = selected en q w"
  "quiet_plan ds v (fst (onlineSince en w)) = quiet_plan ds v w"
  by (simp_all add: onlineSince_def clock_now_def Let_def quiet_world_def selected_def quiet_plan_def)

section \<open>A dispatch on a quiet world\<close>

text \<open>The next identifiers, m of them, name no row, and no row has a request that starts with a reading of the clock to come;
  the primary key of the devices is unique.\<close>
definition fresh_supply :: "nat \<Rightarrow> upworld \<Rightarrow> bool" where
  "fresh_supply m w \<longleftrightarrow>
     distinct (map (uw_ids w) [uw_made w..<uw_made w + m])
     \<and> (\<forall>i\<in>set [uw_made w..<uw_made w + m]. uw_ids w i \<notin> at_id ` set (uw_att w) \<and> uw_ids w i \<notin> tk_id ` set (uw_tasks w))
     \<and> (\<forall>k\<ge>uw_tick w. \<forall>n. \<forall>a\<in>set (uw_att w). at_request a \<noteq> itoa (uw_clock w k) @ nat_dec n)
     \<and> distinct (map dv_id (db_rows (uw_dev w)))"

definition superseded :: "64 word set \<Rightarrow> int \<Rightarrow> Attempt \<Rightarrow> Attempt" where
  "superseded D now a =
     (if at_device a \<in> D \<and> at_open a then a\<lparr>at_state := ''superseded'', at_reason := ''superseded'', at_finished := Some now\<rparr> else a)"

definition targeted :: "64 word set \<Rightarrow> string \<Rightarrow> Device \<Rightarrow> Device" where
  "targeted D v d = (if \<not> dv_deleted d \<and> dv_id d \<in> D then d\<lparr>dv_target := v\<rparr> else d)"

text \<open>The row a dispatch of the task opens for a device.\<close>
definition opened :: "64 word \<Rightarrow> string \<Rightarrow> Device \<Rightarrow> Attempt \<Rightarrow> bool" where
  "opened task v d a \<longleftrightarrow> at_device a = dv_id d \<and> at_state a = ''pending'' \<and> at_to a = v \<and> at_from a = dv_agent_version d
     \<and> at_task a = Some task"

text \<open>What is told to the devices: request and version of their row.\<close>
definition told :: "64 word \<times> UpgradeDirective \<Rightarrow> 64 word \<times> string \<times> string" where
  "told x = (fst x, ud_request_id (snd x), ud_target (snd x))"

text \<open>The devices ds are dispatched: their open attempts are superseded, each has one new pending attempt of the task, in
  order, their targets are set, they are told, and nothing else changes in the tables.\<close>
definition carried :: "upenv \<Rightarrow> Device list \<Rightarrow> string \<Rightarrow> 64 word \<Rightarrow> int \<Rightarrow> upworld \<Rightarrow> upworld \<Rightarrow> bool" where
  "carried en ds v task now w w' \<longleftrightarrow>
     (\<exists>new. uw_att w' = map (superseded (dv_id ` set ds) now) (uw_att w) @ new \<and> list_all2 (opened task v) ds new
        \<and> map told (uw_sent w') = map told (uw_sent w) @
            (if ue_notifier en then map (\<lambda>a. (at_device a, at_request a, at_to a)) new else []))
     \<and> db_rows (uw_dev w') = map (targeted (dv_id ` set ds) v) (db_rows (uw_dev w))"

text \<open>The progress of the loop over the devices.\<close>
definition underway :: "upenv \<Rightarrow> Device list \<Rightarrow> string \<Rightarrow> 64 word \<Rightarrow> int \<Rightarrow> upworld \<Rightarrow> upworld \<Rightarrow> bool" where
  "underway en ds v task now w u \<longleftrightarrow> carried en ds v task now w u
     \<and> uw_script u = [] \<and> db_script (uw_dev u) = [] \<and> uw_ids u = uw_ids w \<and> uw_clock u = uw_clock w \<and> uw_tasks u = uw_tasks w
     \<and> uw_made u = uw_made w + length ds \<and> uw_tick w \<le> uw_tick u
     \<and> at_id ` set (uw_att u) = at_id ` set (uw_att w) \<union> set (map (uw_ids w) [uw_made w..<uw_made w + length ds])"

lemma superseded_sel [simp]: "at_id (superseded D now a) = at_id a" "at_device (superseded D now a) = at_device a"
  "at_request (superseded D now a) = at_request a"
  by (simp_all add: superseded_def)

lemma superseded_again: "superseded {d} now (superseded D now a) = superseded (insert d D) now a"
  by (auto simp: superseded_def at_open_def IsAttemptTerminal_def attemptTerminalStates_def)

lemma targeted_again: "targeted {i} v (targeted D v d) = targeted (insert i D) v d"
  by (simp add: targeted_def)

lemma underway_device:
  assumes u: "underway en ds (pl_version plan) task now w u" and f: "fresh_supply (Suc (length ds)) w" "distinct (map dv_id (ds @ [dev]))"
    and rel: "pl_releases plan (releaseKey (dv_os dev) (dv_arch dev)) \<noteq> None"
  shows "underway en (ds @ [dev]) (pl_version plan) task now w (dispatch_device en plan task now dev u)"
proof -
  let ?v = "pl_version plan" and ?D = "dv_id ` set ds" and ?i = "uw_ids w (uw_made w + length ds)"
  obtain new where att: "uw_att u = map (superseded ?D now) (uw_att w) @ new" and new: "list_all2 (opened task ?v) ds new"
    and sent: "map told (uw_sent u) = map told (uw_sent w) @ (if ue_notifier en then map (\<lambda>a. (at_device a, at_request a, at_to a)) new else [])"
    using u by (auto simp: underway_def carried_def)
  have rows: "db_rows (uw_dev u) = map (targeted ?D ?v) (db_rows (uw_dev w))" using u by (simp add: underway_def carried_def)
  have s: "uw_script u = []" "db_script (uw_dev u) = []" "uw_ids u = uw_ids w" "uw_clock u = uw_clock w" "uw_tasks u = uw_tasks w"
    "uw_made u = uw_made w + length ds" "uw_tick w \<le> uw_tick u"
    "at_id ` set (uw_att u) = at_id ` set (uw_att w) \<union> set (map (uw_ids w) [uw_made w..<uw_made w + length ds])"
    using u by (simp_all add: underway_def)
  have dev: "dv_id dev \<notin> ?D" using f(2) by auto
  have news: "at_device a \<in> ?D" if "a \<in> set new" for a
    using that new by (auto simp: list_all2_conv_all_nth in_set_conv_nth opened_def) (metis imageI nth_mem)
  let ?sup = "superseded {dv_id dev} now"
  have ne: "at_device a \<noteq> dv_id dev" if "a \<in> set new" for a using news [OF that] dev by auto
  then have keep: "map ?sup new = new" by (intro map_idI) (simp add: superseded_def)
  let ?u1 = "u\<lparr>uw_att := map ?sup (uw_att u)\<rparr>"
  have 1: "fst (SupersedeOpen (dv_id dev) now u) = ?u1"
    using s(1) by (simp add: SupersedeOpen_def quiet_update_open superseded_def)
  have a1: "map ?sup (uw_att u) = map (superseded (insert (dv_id dev) ?D) now) (uw_att w) @ new"
    by (simp add: att keep superseded_again)
  let ?u2 = "?u1\<lparr>uw_tick := uw_tick u + 1, uw_seq := uw_seq u + 1\<rparr>" and ?rid = "itoa (uw_clock w (uw_tick u)) @ nat_dec (unat (uw_seq u + 1))"
  have 2: "newRequestID ?u1 = (?u2, ?rid)" by (simp add: newRequestID_def clock_now_def Let_def s(4))
  let ?a = "(new_attempt (Some task) (dv_id dev) (dv_agent_version dev) ?v ?rid now)\<lparr>at_id := ?i\<rparr>"
  let ?u3 = "?u2\<lparr>uw_made := Suc (uw_made u), uw_att := map ?sup (uw_att u) @ [?a]\<rparr>"
  have "?i \<notin> at_id ` set (uw_att u)"
    using f(1) unfolding s(8) fresh_supply_def by auto
  then have id: "at_id r \<noteq> ?i" if "r \<in> set (map ?sup (uw_att u))" for r using that by (auto simp: rev_image_eqI)
  have rq: "\<not> (at_device r = dv_id dev \<and> at_request r = ?rid)" if "r \<in> set (map ?sup (uw_att u))" for r
    using that f(1) s(7) ne unfolding a1 fresh_supply_def by auto
  have 3: "Attempt_Create (new_attempt (Some task) (dv_id dev) (dv_agent_version dev) ?v ?rid now) ?u2 = (?u3, Inr ?a)"
  proof -
    have "\<not> list_ex (\<lambda>r. at_id r = ?i \<or> (at_device r = dv_id dev \<and> at_request r = ?rid)) (map ?sup (uw_att u))"
      using id rq unfolding list_ex_iff by blast
    then show ?thesis using s(1,3,6) by (simp add: Attempt_Create_def quiet_stmt fresh_id_def Let_def)
  qed
  obtain rel where rel': "pl_releases plan (releaseKey (dv_os dev) (dv_arch dev)) = Some rel" using rel by blast
  let ?u4 = "fst (on_dev (SetUpgradeTarget (dv_id dev) ?v) ?u3)" and ?u5 = "dispatch_device en plan task now dev u"
  have 4: "uw_att ?u4 = uw_att ?u3" "uw_sent ?u4 = uw_sent u" "uw_script ?u4 = []" "uw_ids ?u4 = uw_ids w" "uw_clock ?u4 = uw_clock w"
    "uw_tasks ?u4 = uw_tasks w" "uw_made ?u4 = uw_made w + length (ds @ [dev])" "uw_tick w \<le> uw_tick ?u4" "db_script (uw_dev ?u4) = []"
    "db_rows (uw_dev ?u4) = map (targeted {dv_id dev} ?v) (db_rows (uw_dev u))"
    using s dev_update_rows [OF s(2), of "dv_id dev" "\<lambda>d. d\<lparr>dv_target := ?v\<rparr>"]
    by (auto simp: on_dev_def SetUpgradeTarget_def targeted_def split: prod.splits)
  have e: "?u5 = notify en plan dev ?a ?u4" by (simp only: dispatch_device_def Let_def 1 2 3 prod.case sum.case)
  have 5: "uw_att ?u5 = map (superseded (insert (dv_id dev) ?D) now) (uw_att w) @ (new @ [?a])" "uw_script ?u5 = []"
    "uw_ids ?u5 = uw_ids w" "uw_clock ?u5 = uw_clock w" "uw_tasks ?u5 = uw_tasks w" "uw_made ?u5 = uw_made w + length (ds @ [dev])"
    "uw_tick w \<le> uw_tick ?u5" "db_script (uw_dev ?u5) = []" "db_rows (uw_dev ?u5) = map (targeted (insert (dv_id dev) ?D) ?v) (db_rows (uw_dev w))"
    "uw_sent ?u5 = (if ue_notifier en then uw_sent u @ [(dv_id dev, directive_of ?a rel)] else uw_sent u)"
    unfolding e using 4 a1 by (simp_all add: notify_def rel' rows targeted_again)
  have "list_all2 (opened task ?v) (ds @ [dev]) (new @ [?a])" using new by (simp add: list_all2_appendI opened_def)
  moreover have "map told (uw_sent ?u5) = map told (uw_sent w) @
      (if ue_notifier en then map (\<lambda>a. (at_device a, at_request a, at_to a)) (new @ [?a]) else [])"
    using sent 5(10) by (simp add: told_def directive_of_def)
  ultimately have "carried en (ds @ [dev]) ?v task now w ?u5"
    unfolding carried_def using 5(1,9) by (intro conjI exI [of _ "new @ [?a]"]) simp_all
  moreover have "at_id ` set (uw_att ?u5) = at_id ` set (uw_att w) \<union> set (map (uw_ids w) [uw_made w..<uw_made w + length (ds @ [dev])])"
    using s(8) unfolding 5(1) att by (auto simp: image_Un image_image)
  ultimately show ?thesis unfolding underway_def using 5 by blast
qed

lemma fresh_supply_less: "fresh_supply m w \<Longrightarrow> k \<le> m \<Longrightarrow> fresh_supply k w"
proof -
  assume f: "fresh_supply m w" and k: "k \<le> m"
  then have "[uw_made w..<uw_made w + m] = [uw_made w..<uw_made w + k] @ [uw_made w + k..<uw_made w + m]"
    using upt_add_eq_append [of "uw_made w" "uw_made w + k" "m - k"] by simp
  then show ?thesis using f unfolding fresh_supply_def by auto
qed

lemma underway_all:
  assumes "uw_script w = []" "db_script (uw_dev w) = []" "fresh_supply (length ds) w" "distinct (map dv_id ds)"
    and rel: "\<And>d. d \<in> set ds \<Longrightarrow> pl_releases plan (releaseKey (dv_os d) (dv_arch d)) \<noteq> None"
  shows "underway en ds (pl_version plan) task now w (foldl (\<lambda>w dev. dispatch_device en plan task now dev w) w ds)"
  using assms(3-5)
proof (induction ds rule: rev_induct)
  case Nil
  have "map (superseded {} now) xs = xs" "map (targeted {} v) ys = ys" for xs v ys
    by (intro map_idI; simp add: superseded_def targeted_def)+
  then show ?case using assms(1,2) by (simp add: underway_def carried_def)
next
  case (snoc d ds)
  have "fresh_supply (length ds) w" using snoc.prems(1) by (rule fresh_supply_less) simp
  then show ?case using snoc by (simp add: underway_device)
qed

text \<open>The devices of a selection a dispatch of the version is for.\<close>
definition planned :: "upenv \<Rightarrow> DeviceQuery \<Rightarrow> string \<Rightarrow> upworld \<Rightarrow> Device list" where
  "planned en q v w = filter (\<lambda>d. dv_status d = DeviceStatusEnabled \<and> dv_up_supported d = 1 \<and> dv_agent_version d \<noteq> v
      \<and> list_ex (\<lambda>r. rl_version r = v \<and> rl_status r = AgentReleasePublished
            \<and> releaseKey (rl_os r) (rl_arch r) = releaseKey (dv_os d) (dv_arch d)) (uw_rel w))
     (selected en q w)"

lemma quiet_plan_devices:
  "pl_devices (quiet_plan (selected en q w) v w) = planned en q v w"
  "pl_matched (quiet_plan ds v w) = length ds" "pl_version (quiet_plan ds v w) = v"
proof -
  have "(index_of (filter (\<lambda>r. rl_version r = v \<and> rl_status r = AgentReleasePublished) rs) k \<noteq> None)
      = list_ex (\<lambda>r. rl_version r = v \<and> rl_status r = AgentReleasePublished \<and> releaseKey (rl_os r) (rl_arch r) = k) rs" for rs k
    unfolding index_of_hit by (auto simp: list_ex_iff)
  then show "pl_devices (quiet_plan (selected en q w) v w) = planned en q v w"
    unfolding quiet_plan_def planned_def classify_all_simps by (intro filter_cong refl) (simp only: upgradable_def)
qed (simp_all add: quiet_plan_def)

lemma planned_distinct: "distinct (map dv_id (db_rows (uw_dev w))) \<Longrightarrow> distinct (map dv_id (planned en q v w))"
proof -
  assume d: "distinct (map dv_id (db_rows (uw_dev w)))"
  have "set (planned en q v w) \<subseteq> set (db_rows (uw_dev w))" by (auto simp: planned_def selected_def)
  moreover have "distinct (planned en q v w)" using d by (simp add: planned_def selected_def distinct_map)
  ultimately show ?thesis using d by (auto simp: distinct_map intro: inj_on_subset)
qed

text \<open>The plan is carried out under one new task.\<close>
lemma apply_carried:
  assumes "quiet_world w" "fresh_supply (Suc (length (planned en q v w))) w" "planned en q v w \<noteq> []"
  shows "\<exists>task now t. snd (applyPlan en (quiet_plan (selected en q w) v w) source actor w) = Inr task
    \<and> tk_id t = task \<and> tk_version t = v \<and> tk_total t = length (planned en q v w) \<and> tk_finished t = None
    \<and> uw_tasks (fst (applyPlan en (quiet_plan (selected en q w) v w) source actor w)) = uw_tasks w @ [t]
    \<and> carried en (planned en q v w) v task now w (fst (applyPlan en (quiet_plan (selected en q w) v w) source actor w))"
proof -
  let ?ds = "planned en q v w" and ?plan = "quiet_plan (selected en q w) v w" and ?i = "uw_ids w (uw_made w)"
  let ?t = "\<lparr>tk_id = ?i, tk_version = v, tk_source = source, tk_actor = actor, tk_total = length ?ds, tk_finished = None\<rparr>"
  let ?w1 = "w\<lparr>uw_made := Suc (uw_made w), uw_tasks := uw_tasks w @ [?t]\<rparr>"
  let ?w2 = "?w1\<lparr>uw_tick := uw_tick w + 1\<rparr>" and ?now = "uw_clock w (uw_tick w)"
  have q: "uw_script w = []" "db_script (uw_dev w) = []" using assms(1) by (simp_all add: quiet_world_def)
  have up: "[uw_made w..<uw_made w + Suc (length ?ds)] = uw_made w # [Suc (uw_made w)..<Suc (uw_made w) + length ?ds]"
    by (simp add: upt_rec)
  note f = assms(2) [unfolded fresh_supply_def up]
  have "?i \<notin> tk_id ` set (uw_tasks w)" using f by simp
  then have fresh: "\<forall>t\<in>set (uw_tasks w). tk_id t \<noteq> ?i" by (metis imageI)
  have 1: "Task_Create \<lparr>tk_id = 0, tk_version = v, tk_source = source, tk_actor = actor, tk_total = length ?ds, tk_finished = None\<rparr> w
      = (?w1, Inr ?i)"
    using fresh q(1) by (auto simp: Task_Create_def quiet_stmt fresh_id_def Let_def list_ex_iff)
  have f2: "fresh_supply (length ?ds) ?w2" using f by (auto simp: fresh_supply_def simp del: upt_Suc) (metis atLeastLessThan_iff imageI)
  have rel: "pl_releases ?plan (releaseKey (dv_os d) (dv_arch d)) \<noteq> None" if "d \<in> set ?ds" for d
    using that unfolding planned_def quiet_plan_def classify_all_simps index_of_hit by (auto simp: list_ex_iff)
  have dd: "distinct (map dv_id ?ds)" using f by (intro planned_distinct) simp
  let ?w3 = "foldl (\<lambda>w dev. dispatch_device en ?plan ?i ?now dev w) ?w2 ?ds"
  have "underway en ?ds (pl_version ?plan) ?i ?now ?w2 ?w3"
    by (rule underway_all [OF _ _ f2 dd rel]) (simp_all add: q)
  then have "carried en ?ds v ?i ?now w ?w3" "uw_tasks ?w3 = uw_tasks w @ [?t]"
    by (simp_all add: underway_def carried_def quiet_plan_devices)
  moreover have "applyPlan en ?plan source actor w = (?w3, Inr ?i)"
    using assms(3) 1 by (simp add: applyPlan_def quiet_plan_devices clock_now_def)
  ultimately show ?thesis by (intro exI [of _ ?i] exI [of _ ?now] exI [of _ ?t]) simp
qed


section \<open>A superseding that fails\<close>

lemma notify_att: "uw_att (notify en plan dev x (fst (on_dev k u))) = uw_att u"
  by (simp add: notify_def on_dev_def split: option.splits prod.splits)

theorem failed_supersede_two_open:
  assumes "uw_script w = [UpFail]" and b: "b \<in> set (uw_att w)" "at_device b = dv_id dev" "at_open b"
    and fresh: "\<forall>r\<in>set (uw_att w). at_id r \<noteq> uw_ids w (uw_made w) \<and> at_request r \<noteq> snd (newRequestID w)"
  shows "\<not> one_open (uw_att (dispatch_device en plan task now dev w))"
proof -
  let ?w = "w\<lparr>uw_script := []\<rparr>"
  have a: "fst (SupersedeOpen (dv_id dev) now w) = ?w"
    using assms(1) by (simp add: SupersedeOpen_def upd_open_def up_stmt_def arrive_def)
  obtain w2 rid where 2: "newRequestID ?w = (w2, rid)" by fastforce
  have w2: "uw_script w2 = []" "uw_att w2 = uw_att w" "uw_ids w2 = uw_ids w" "uw_made w2 = uw_made w" "rid = snd (newRequestID w)"
    using 2 by (auto simp: newRequestID_def clock_now_def Let_def)
  let ?a = "new_attempt (Some task) (dv_id dev) (dv_agent_version dev) (pl_version plan) rid now"
  have c: "Attempt_Create ?a w2 = ((fst (fresh_id w2))\<lparr>uw_att := uw_att w @ [?a\<lparr>at_id := uw_ids w (uw_made w)\<rparr>]\<rparr>, Inr (?a\<lparr>at_id := uw_ids w (uw_made w)\<rparr>))"
    using fresh w2 by (auto simp: Attempt_Create_def quiet_stmt fresh_id_def Let_def list_ex_iff)
  have "uw_att (dispatch_device en plan task now dev w) = uw_att w @ [?a\<lparr>at_id := uw_ids w (uw_made w)\<rparr>]"
    by (simp add: dispatch_device_def a 2 c Let_def notify_att)
  moreover have "filter (\<lambda>a. at_device a = dv_id dev \<and> at_open a) (uw_att w) \<noteq> []"
    using b by (auto simp: filter_empty_conv)
  ultimately show ?thesis by (auto simp: one_open_def new_attempt_def at_open_def IsAttemptTerminal_def attemptTerminalStates_def intro!: exI [of _ "dv_id dev"])
qed

section \<open>Request identifiers\<close>

lemma nat_dec_length: "10 ^ k \<le> n \<Longrightarrow> n < 10 ^ Suc k \<Longrightarrow> length (nat_dec n) = Suc k"
proof (induction k arbitrary: n)
  case 0
  then show ?case by (subst nat_dec.simps) simp
next
  case (Suc k)
  have "(1::nat) \<le> 10 ^ k" by simp
  then have "\<not> n < 10" "10 ^ k \<le> n div 10" "n div 10 < 10 ^ Suc k"
    using Suc.prems by (simp_all add: less_mult_imp_div_less, linarith)
  then show ?case using Suc.IH by (subst nat_dec.simps) simp
qed

text \<open>While clock readings in nanoseconds have nineteen digits, request identifiers are decimal numbers, and two of them are equal
  only if both the reading and the sequence number are.\<close>
theorem request_ids_unique:
  assumes "10 ^ 18 \<le> uw_clock w (uw_tick w)" "uw_clock w (uw_tick w) < 10 ^ 19"
    and "10 ^ 18 \<le> uw_clock u (uw_tick u)" "uw_clock u (uw_tick u) < 10 ^ 19"
  shows "isDecimalID (snd (newRequestID w))
    \<and> (snd (newRequestID w) = snd (newRequestID u) \<longrightarrow> uw_clock w (uw_tick w) = uw_clock u (uw_tick u) \<and> uw_seq w = uw_seq u)"
proof -
  let ?t = "uw_clock w (uw_tick w)" and ?s = "uw_clock u (uw_tick u)"
  have id: "snd (newRequestID x) = itoa (uw_clock x (uw_tick x)) @ nat_dec (unat (uw_seq x + 1))" for x
    by (simp add: newRequestID_def clock_now_def Let_def)
  have dec: "itoa t = nat_dec (nat t) \<and> length (itoa t) = 19" if "10 ^ 18 \<le> t" "t < 10 ^ 19" for t :: int
  proof -
    have "0 \<le> t" using that(1) by (rule order_trans [rotated]) simp
    moreover have "(10::nat) ^ 18 \<le> nat t" "nat t < 10 ^ Suc 18" using that by (auto simp: nat_less_iff le_nat_iff)
    ultimately show ?thesis using nat_dec_length [of 18 "nat t"] by (simp add: itoa_def)
  qed
  have t: "itoa ?t = nat_dec (nat ?t)" "length (itoa ?t) = 19" and s: "itoa ?s = nat_dec (nat ?s)" "length (itoa ?s) = 19"
    using dec [OF assms(1,2)] dec [OF assms(3,4)] by blast+
  have "isDecimalID (snd (newRequestID w))"
    unfolding id t(1) isDecimalID_def list_all_iff using nat_dec_digits by auto
  moreover have "?t = ?s \<and> uw_seq w = uw_seq u" if "snd (newRequestID w) = snd (newRequestID u)"
  proof -
    have "itoa ?t = itoa ?s" "nat_dec (unat (uw_seq w + 1)) = nat_dec (unat (uw_seq u + 1))"
      using that t(2) s(2) unfolding id by (metis append_eq_append_conv)+
    then have "nat ?t = nat ?s" "unat (uw_seq w + 1) = unat (uw_seq u + 1)" using t(1) s(1) by auto
    moreover have "0 \<le> ?t" "0 \<le> ?s" using assms(1,3) by (metis order_trans zero_le_numeral zero_le_power)+
    ultimately show ?thesis by (auto simp: eq_nat_nat_iff) (metis add_right_cancel word_unat_eq_iff)
  qed
  ultimately show ?thesis by blast
qed

section \<open>The summary\<close>

definition counts :: "Bucket \<Rightarrow> nat" where
  "counts b = bk_achieved b + bk_running b + bk_pending b + bk_failed b + bk_rolled_back b + bk_unsupported b + bk_no_artifact b + bk_disabled b"

lemma count_device_counts [simp]: "counts (count_device idx rows t d b) = counts b + 1" "bk_total (count_device idx rows t d b) = bk_total b"
  "bk_target (count_device idx rows t d b) = bk_target b"
  by (simp_all add: counts_def count_device_def split: option.splits)

definition target_in :: "string \<Rightarrow> Device \<Rightarrow> string" where
  "target_in global d = (if dv_target d = [] then global else dv_target d)"

text \<open>After some devices: one bucket per target, its total the number of its devices, its counts the same.\<close>
definition summed :: "string \<Rightarrow> Device list \<Rightarrow> summary_acc \<Rightarrow> bool" where
  "summed global ds s \<longleftrightarrow>
     (\<forall>t. case su_buckets s t of
            None \<Rightarrow> t \<notin> target_in global ` set ds
          | Some b \<Rightarrow> bk_target b = t \<and> bk_total b = length (filter (\<lambda>d. target_in global d = t) ds) \<and> (t \<noteq> [] \<longrightarrow> counts b = bk_total b))
     \<and> (\<forall>v. su_versions s v = length (filter (\<lambda>d. dv_agent_version d = v) ds))
     \<and> su_pinned s = length (filter (\<lambda>d. dv_target d \<noteq> []) ds)"

lemma summed_enter:
  assumes "summed global ds s" "t = target_in global d"
  shows "\<exists>b. su_buckets (enter_device t d s) t = Some b \<and> bk_target b = t \<and> bk_total b = length (filter (\<lambda>d. target_in global d = t) (ds @ [d]))
      \<and> (t \<noteq> [] \<longrightarrow> counts b + 1 = bk_total b)"
    "t \<noteq> t' \<Longrightarrow> su_buckets (enter_device t d s) t' = su_buckets s t'"
    "su_versions (enter_device t d s) v = length (filter (\<lambda>d. dv_agent_version d = v) (ds @ [d]))"
    "su_pinned (enter_device t d s) = length (filter (\<lambda>d. dv_target d \<noteq> []) (ds @ [d]))"
proof -
  have n: "su_buckets s t = None \<Longrightarrow> filter (\<lambda>d. target_in global d = t) ds = []" "su_buckets s t = Some b \<Longrightarrow>
      bk_target b = t \<and> bk_total b = length (filter (\<lambda>d. target_in global d = t) ds) \<and> (t \<noteq> [] \<longrightarrow> counts b = bk_total b)" for b
    using assms(1) by (auto simp: summed_def filter_empty_conv dest!: spec [of _ t])
  have c: "counts (b\<lparr>bk_total := k\<rparr>) = counts b" "counts (empty_bucket t) = 0" "bk_total (empty_bucket t) = 0" "bk_target (empty_bucket t) = t" for b k
    by (simp_all add: counts_def empty_bucket_def)
  show "\<exists>b. su_buckets (enter_device t d s) t = Some b \<and> bk_target b = t \<and> bk_total b = length (filter (\<lambda>d. target_in global d = t) (ds @ [d]))
      \<and> (t \<noteq> [] \<longrightarrow> counts b + 1 = bk_total b)"
    using n by (cases "su_buckets s t") (simp_all add: enter_device_def Let_def c assms(2) [symmetric])
  show "t \<noteq> t' \<Longrightarrow> su_buckets (enter_device t d s) t' = su_buckets s t'" by (simp add: enter_device_def Let_def)
  show "su_versions (enter_device t d s) v = length (filter (\<lambda>d. dv_agent_version d = v) (ds @ [d]))"
    "su_pinned (enter_device t d s) = length (filter (\<lambda>d. dv_target d \<noteq> []) (ds @ [d]))"
    using assms(1) by (simp_all add: summed_def enter_device_def Let_def)
qed

lemma cached_frame: "cached_index t d s w = (w', Inr (s', idx)) \<Longrightarrow> su_buckets s' = su_buckets s \<and> su_versions s' = su_versions s \<and> su_pinned s' = su_pinned s"
  by (auto simp: cached_index_def split: if_splits option.splits prod.splits sum.splits)

lemma summed_step:
  assumes "summed global ds s" "t = target_in global d" "s1 = enter_device t d s"
    and "su_buckets s2 = (if t = [] then su_buckets s1 else (su_buckets s1)(t \<mapsto> count_device idx rows t d (the (su_buckets s1 t))))"
    and "su_versions s2 = su_versions s1" "su_pinned s2 = su_pinned s1"
  shows "summed global (ds @ [d]) s2"
proof -
  note e = summed_enter [OF assms(1,2), folded assms(3)]
  obtain b where b: "su_buckets s1 t = Some b" "bk_target b = t" "bk_total b = length (filter (\<lambda>d. target_in global d = t) (ds @ [d]))"
      "t \<noteq> [] \<longrightarrow> counts b + 1 = bk_total b" using e(1) by blast
  have "case su_buckets s2 t' of None \<Rightarrow> t' \<notin> target_in global ` set (ds @ [d])
          | Some b \<Rightarrow> bk_target b = t' \<and> bk_total b = length (filter (\<lambda>d. target_in global d = t') (ds @ [d])) \<and> (t' \<noteq> [] \<longrightarrow> counts b = bk_total b)" for t'
  proof (cases "t' = t")
    case True
    then show ?thesis using b assms(4) by (cases "t = []") simp_all
  next
    case False
    then have "su_buckets s2 t' = su_buckets s t'" using e(2) assms(4) by auto
    moreover have "case su_buckets s t' of None \<Rightarrow> t' \<notin> target_in global ` set ds
          | Some b \<Rightarrow> bk_target b = t' \<and> bk_total b = length (filter (\<lambda>d. target_in global d = t') ds) \<and> (t' \<noteq> [] \<longrightarrow> counts b = bk_total b)"
      using assms(1) unfolding summed_def by blast
    ultimately show ?thesis using False assms(2) by (auto split: option.splits)
  qed
  then show ?thesis using e(3,4) assms(5,6) by (simp add: summed_def)
qed

lemma summary_loop_summed:
  "summed global done_ds s \<Longrightarrow> summary_loop global rows ds s w = (w', Inr s') \<Longrightarrow> summed global (done_ds @ ds) s'"
proof (induction global rows ds s w arbitrary: done_ds rule: summary_loop.induct)
  case (2 global rows d ds s w)
  let ?t = "target_in global d" and ?s = "enter_device (target_in global d) d s"
  show ?case
  proof (cases "?t = []")
    case True
    have "summed global (done_ds @ [d]) ?s" by (rule summed_step [OF 2(3) refl refl, where idx = Map.empty and rows = Map.empty]) (use True in simp_all)
    then show ?thesis using 2(1) [OF refl refl, of "done_ds @ [d]"] 2(4) True by (simp add: target_in_def Let_def)
  next
    case False
    obtain w1 r where 1: "cached_index ?t d ?s w = (w1, r)" by fastforce
    then obtain s1 idx where r: "r = Inr (s1, idx)" using 2(4) False by (auto simp: target_in_def Let_def split: sum.splits)
    let ?s2 = "s1\<lparr>su_buckets := (su_buckets s1)(?t \<mapsto> count_device idx rows ?t d (the (su_buckets s1 ?t)))\<rparr>"
    have "summed global (done_ds @ [d]) ?s2"
      by (rule summed_step [OF 2(3) refl refl]) (use cached_frame [of ?t d ?s w w1 s1 idx] 1 r False in simp_all)
    moreover have "summary_loop global rows ds ?s2 w1 = (w', Inr s')"
      using 2(4) 1 r False by (simp add: target_in_def Let_def)
    ultimately show ?thesis
      using 2(2) [OF refl refl, of w1 r "(s1, idx)" s1 idx "done_ds @ [d]"] 1 r False by (simp add: target_in_def)
  qed
qed simp

lemma mset_sort_by [simp]: "mset (sort_by before xs) = mset xs"
proof -
  have "mset (insert_by before x ys) = add_mset x (mset ys)" for x ys by (induction ys) auto
  then show ?thesis by (induction xs) (simp_all add: sort_by_def)
qed

lemma sum_list_mset: "mset xs = mset ys \<Longrightarrow> sum_list (map (f :: 'a \<Rightarrow> nat) xs) = sum_list (map f ys)"
  by (simp flip: sum_mset_sum_list add: mset_map)

lemma sum_by_key: "sum_list (map (\<lambda>t. length (filter (\<lambda>d. f d = t) ds)) (remdups (map f ds))) = length ds"
proof -
  have "(\<Sum>t\<in>A. length (filter (\<lambda>d. f d = t) xs)) = length xs" if "finite A" "f ` set xs \<subseteq> A" for A xs
    using that(2)
  proof (induction xs)
    case (Cons x xs)
    have "(\<Sum>t\<in>A. length (filter (\<lambda>d. f d = t) (x # xs))) = (\<Sum>t\<in>A. (if t = f x then 1 else 0) + length (filter (\<lambda>d. f d = t) xs))"
      by (rule sum.cong) auto
    then show ?case using Cons that(1) by (simp add: sum.distrib)
  qed simp
  from this [of "set (map f ds)" ds] show ?thesis
    by (simp add: sum_list_distinct_conv_sum_set)
qed

text \<open>In every bucket with a target the numbers add up to its total, the totals of the buckets to the number of devices, and so do
  those of the versions.\<close>
theorem summary_counts:
  assumes "Summary en w = (w', Inr r)"
  shows "(\<forall>b\<in>set (sr_buckets r). bk_target b \<noteq> [] \<longrightarrow> bk_total b = counts b)
    \<and> sum_list (map bk_total (sr_buckets r)) = sr_total r \<and> sum_list (map snd (sr_versions r)) = sr_total r"
proof -
  obtain global ds s where s: "summed global ds s" and r: "r = summary_resp global ds s"
  proof -
    let ?s0 = "\<lparr>su_buckets = Map.empty, su_cache = Map.empty, su_pinned = 0, su_versions = (\<lambda>_. 0)\<rparr>"
    have z: "summed global [] ?s0" for global by (simp add: summed_def)
    obtain global rows ds u s where "summary_loop global rows ds ?s0 u = (w', Inr s)" "r = summary_resp global ds s"
      using assms by (auto simp: Summary_def Let_def split: prod.splits sum.splits)
    then show thesis using that [of global ds s] summary_loop_summed [OF z [of global], of rows ds u w' s] by simp
  qed
  have b: "\<exists>b. su_buckets s (target_in global d) = Some b" if "d \<in> set ds" for d
    using s that unfolding summed_def by (metis (mono_tags, lifting) imageI option.case_eq_if option.collapse)
  have facts: "bk_total (the (su_buckets s t)) = length (filter (\<lambda>d. target_in global d = t) ds)
      \<and> (t \<noteq> [] \<longrightarrow> counts (the (su_buckets s t)) = bk_total (the (su_buckets s t))) \<and> bk_target (the (su_buckets s t)) = t"
    if t: "t \<in> target_in global ` set ds" for t
  proof -
    obtain x where "su_buckets s t = Some x" using b t by auto
    moreover have "case su_buckets s t of None \<Rightarrow> t \<notin> target_in global ` set ds
          | Some b \<Rightarrow> bk_target b = t \<and> bk_total b = length (filter (\<lambda>d. target_in global d = t) ds) \<and> (t \<noteq> [] \<longrightarrow> counts b = bk_total b)"
      using s unfolding summed_def by blast
    ultimately show ?thesis by simp
  qed
  let ?ts = "remdups (map (target_in global) ds)"
  have bs: "mset (sr_buckets r) = mset (map (\<lambda>t. the (su_buckets s t)) ?ts)"
    and vs: "mset (sr_versions r) = mset (map (\<lambda>v. (v, su_versions s v)) (remdups (map dv_agent_version ds)))"
    by (simp_all add: r summary_resp_def target_in_def [abs_def])
  have "sum_list (map bk_total (sr_buckets r)) = sum_list (map bk_total (map (\<lambda>t. the (su_buckets s t)) ?ts))"
    by (rule sum_list_mset [OF bs])
  also have "\<dots> = sum_list (map (\<lambda>t. length (filter (\<lambda>d. target_in global d = t) ds)) ?ts)"
  proof (unfold map_map, rule arg_cong [where f = sum_list], rule map_cong [OF refl])
    fix t assume "t \<in> set ?ts"
    then have "t \<in> target_in global ` set ds" by simp
    then show "(bk_total \<circ> (\<lambda>t. the (su_buckets s t))) t = length (filter (\<lambda>d. target_in global d = t) ds)"
      using facts by simp
  qed
  finally have total: "sum_list (map bk_total (sr_buckets r)) = sr_total r"
    by (simp only: sum_by_key) (simp add: r summary_resp_def)
  have "sum_list (map snd (sr_versions r)) = sum_list (map snd (map (\<lambda>v. (v, su_versions s v)) (remdups (map dv_agent_version ds))))"
    by (rule sum_list_mset [OF vs])
  also have "\<dots> = sum_list (map (\<lambda>v. length (filter (\<lambda>d. dv_agent_version d = v) ds)) (remdups (map dv_agent_version ds)))"
    using s by (simp add: summed_def o_def)
  finally have versions: "sum_list (map snd (sr_versions r)) = sr_total r"
    by (simp only: sum_by_key) (simp add: r summary_resp_def)
  have "set (sr_buckets r) = (\<lambda>t. the (su_buckets s t)) ` target_in global ` set ds"
    using arg_cong [OF bs, of set_mset] by simp
  then have "bk_target b \<noteq> [] \<longrightarrow> bk_total b = counts b" if "b \<in> set (sr_buckets r)" for b
    using facts that by force
  then show ?thesis using total versions by blast
qed

text \<open>The order of the buckets is that of strings, not of versions.\<close>
theorem summary_order_not_semver:
  "bucket_before (empty_bucket ''0.9.0'') (empty_bucket ''0.10.0'')
    \<and> (case (ParseSemver ''0.9.0'', ParseSemver ''0.10.0'') of (Some a, Some b) \<Rightarrow> CompareSemver a b < 0 | _ \<Rightarrow> False)"
  by code_simp

section \<open>The properties on concrete worlds\<close>

lemmas plan_defs = resolveTargets_def FindByUpgradeFilter_def onlineSince_def confirmed_def classify_def releaseIndexFor_def ListByVersion_def
  index_of_def classify_all_def classify_one_def releaseKey_def DeviceStatusEnabled_def applyFilters_def any_device_def

definition demo_filter :: "string \<Rightarrow> BatchRequest" where
  "demo_filter v = \<lparr>br_version = v, br_ids = [], br_filter = Some any_device, br_expected = None\<rparr>"

lemma semver_demo: "IsSemver ''1.1.0''" "IsSemver ''1.2.0''"
  by code_simp+

lemma classify_exact_witness:
  "pl_devices (classify_all (index_of [demo_release ''1.2.0'' ''bb'']) ''1.2.0'' [demo_device]) = [demo_device]"
  using classify_exact [of "[demo_device]" "''1.2.0''" "demo_world [] []" "demo_world [] []" "classify_all (index_of [demo_release ''1.2.0'' ''bb'']) ''1.2.0'' [demo_device]"]
  by (simp add: classify_def releaseIndexFor_def ListByVersion_def quiet_stmt demo_defs AgentReleasePublished_def DeviceStatusEnabled_def)

lemma sweep_exact_witness:
  "uw_att (fst (SweepStale 0 200 (demo_world [] [demo_attempt]))) = [finish ''timeout'' ''timeout'' 1700000000000000000 demo_attempt]"
  using sweep_exact [of "demo_world [] [demo_attempt]" 0 200]
  by (simp add: demo_defs stale_def last_sign_def at_open_def IsAttemptTerminal_def attemptTerminalStates_def staleAfter_def Let_def)

lemma patrol_drains_witness:
  "\<not> list_ex (stale (1700000000000000000 - staleAfter)) (uw_att (fst (SweepStale 0 200 (demo_world [] [demo_failed, demo_attempt]))))"
  using patrol_drains [of "demo_world [] [demo_failed, demo_attempt]" 200 1700000000000000000 1]
  by (simp add: demo_defs at_open_def IsAttemptTerminal_def attemptTerminalStates_def)

lemma request_ids_unique_witness:
  "isDecimalID (snd (newRequestID (demo_world [] [])))"
  using request_ids_unique [of "demo_world [] []" "demo_world [] []"] by (simp add: demo_world_def)

definition demo_busy :: upworld where
  "demo_busy = demo_world [] [demo_attempt]"

lemma demo_preview:
  "Preview demo_env (demo_filter ''1.2.0'') demo_busy = (fst (onlineSince demo_env demo_busy),
     Inr \<lparr>pr_version = ''1.2.0'', pr_matched = 1, pr_will = 1, pr_skip = \<lparr>sk_already = 0, sk_unsupported = 0, sk_no_artifact = 0, sk_disabled = 0\<rparr>\<rparr>)"
  by (simp add: Preview_def demo_filter_def semver_demo plan_defs demo_busy_def demo_defs run_defs Let_def)

lemma nat_dec_long: "100 \<le> n \<Longrightarrow> 3 \<le> length (nat_dec n)"
  by (subst nat_dec.simps, simp, subst nat_dec.simps, simp add: Suc_le_eq)

lemma demo_supply: "fresh_supply (Suc 1) demo_busy"
proof -
  have "''11'' \<noteq> itoa (1700000000000000000 + int k) @ nat_dec n" for k n
  proof -
    have "3 \<le> length (itoa (1700000000000000000 + int k))" by (simp add: itoa_def nat_dec_long)
    then have "length ''11'' < length (itoa (1700000000000000000 + int k) @ nat_dec n)" by simp
    then show ?thesis by (metis less_irrefl)
  qed
  then show ?thesis by (simp add: fresh_supply_def demo_busy_def demo_world_def demo_attempt_def demo_task_def)
qed


text \<open>The dispatch of one follower, step by step.\<close>
lemma demo_release_index: "ListByVersion ''1.1.0'' (demo_world t []) = (demo_world t [], Inr [demo_release ''1.1.0'' ''aa''])"
  by (simp add: ListByVersion_def quiet_stmt demo_world_def demo_release_def AgentReleasePublished_def)

lemma demo_set: "SetString_target ''1.1.0'' (demo_world [] []) = (demo_world ''1.1.0'' [], Inr ())"
  by (simp add: SetString_target_def quiet_stmt demo_world_def)

lemma demo_since: "onlineSince demo_env (demo_world t []) = (fst (clock_now (demo_world t [])), 1699999970000000000)"
  by (simp add: onlineSince_def clock_now_def demo_env_def demo_world_def)

lemma demo_select: "on_dev (FindByUpgradeFilter demo_env any_device s) (fst (clock_now (demo_world t []))) = (fst (clock_now (demo_world t [])), Inr [demo_device])"
  by (simp add: on_dev_def FindByUpgradeFilter_def stmt_def demo_world_def clock_now_def applyFilters_def any_device_def demo_device_def)

definition demo_plan :: upgradePlan where
  "demo_plan = classify_all (index_of [demo_release ''1.1.0'' ''aa'']) ''1.1.0'' [demo_device]"

lemma demo_classify: "classify (followers [demo_device]) ''1.1.0'' (fst (clock_now (demo_world t []))) = (fst (clock_now (demo_world t [])), Inr demo_plan)"
  by (simp add: classify_def releaseIndexFor_def ListByVersion_def quiet_stmt followers_def demo_plan_def demo_world_def clock_now_def AgentReleasePublished_def
      demo_release_def demo_device_def)

lemma demo_plan_devices: "pl_devices demo_plan = [demo_device]"
  by (simp add: demo_plan_def upgradable_def index_of_def demo_device_def demo_release_def releaseKey_def DeviceStatusEnabled_def)

lemma demo_apply: "map at_device (uw_att (fst (applyPlan demo_env demo_plan x y (fst (clock_now (demo_world t [])))))) = [7]"
  by (simp add: applyPlan_def demo_plan_devices Task_Create_def quiet_stmt demo_world_def clock_now_def fresh_id_def demo_task_def
     dispatch_device_def SupersedeOpen_def upd_open_def newRequestID_def Attempt_Create_def notify_att Let_def)
     (simp add: demo_device_def)

lemma demo_global: "map at_device (uw_att (fst (SetGlobalTarget demo_env ''1.1.0'' [] (demo_world [] [])))) = [7]"
  using demo_apply [of "''global''" "[]" "''1.1.0''"]
  by (cases "applyPlan demo_env demo_plan ''global'' [] (fst (clock_now (demo_world ''1.1.0'' [])))")
    (simp add: SetGlobalTarget_def semver_demo demo_release_index set_and_dispatch_def demo_set global_dispatch_def demo_since demo_select demo_classify
      split: sum.splits)

lemma global_target_pins_witness:
  "list_all (\<lambda>d. ResolveTargetVersion d (fst (SetGlobalTarget demo_env ''1.2.0'' [] (fst (SetGlobalTarget demo_env ''1.1.0'' [] (demo_world [] []))))) = ''1.1.0'')
     (filter (\<lambda>d. \<not> dv_deleted d \<and> dv_id d = 7)
       (db_rows (uw_dev (fst (SetGlobalTarget demo_env ''1.2.0'' [] (fst (SetGlobalTarget demo_env ''1.1.0'' [] (demo_world [] []))))))))"
proof -
  let ?w = "demo_world [] []" and ?w1 = "fst (SetGlobalTarget demo_env ''1.1.0'' [] (demo_world [] []))"
  let ?w2 = "fst (SetGlobalTarget demo_env ''1.2.0'' [] ?w1)"
  obtain a where a: "a \<in> set (drop (length (uw_att ?w)) (uw_att ?w1))" "at_device a = 7" using demo_global by (auto simp: demo_world_def)
  have q: "uw_script ?w = []" "db_script (uw_dev ?w) = []" "''1.1.0'' \<noteq> []" by (simp_all add: demo_world_def)
  have 1: "SetGlobalTarget demo_env ''1.1.0'' [] ?w = (?w1, snd (SetGlobalTarget demo_env ''1.1.0'' [] ?w))"
    and 2: "SetGlobalTarget demo_env ''1.2.0'' [] ?w1 = (?w2, snd (SetGlobalTarget demo_env ''1.2.0'' [] ?w1))"
    by (rule prod.collapse [symmetric])+
  show ?thesis using conjunct2 [OF global_target_pins [OF q 1 a(1) 2]] unfolding a(2) list_all_iff by (simp only: set_filter mem_Collect_eq) blast
qed

lemma demo_open: "FindOpenByDevices [7] (fst (clock_now (demo_world t []))) = (fst (clock_now (demo_world t [])), Inr Map.empty)"
  by (simp add: FindOpenByDevices_def quiet_stmt demo_world_def clock_now_def)

lemma summary_counts_witness:
  "\<exists>w r. Summary demo_env (demo_world ''1.1.0'' []) = (w, Inr r) \<and> sum_list (map bk_total (sr_buckets r)) = sr_total r"
proof -
  let ?S = "Summary demo_env (demo_world ''1.1.0'' [])"
  have i: "releaseIndexFor v (fst (clock_now (demo_world t []))) = (fst (clock_now (demo_world t [])), Inr (index_of (filter (\<lambda>r. rl_version r = v \<and> rl_status r = AgentReleasePublished) (uw_rel (demo_world t [])))))" for v t
    by (simp add: releaseIndexFor_def ListByVersion_def quiet_stmt demo_world_def clock_now_def)
  have d: "dv_id demo_device = 7" by (simp add: demo_device_def)
  have "\<exists>r. snd ?S = Inr r"
    by (simp add: Summary_def demo_since demo_select d demo_open Let_def cached_index_def i split: option.splits)
  then obtain r where "?S = (fst ?S, Inr r)" by (cases ?S) auto
  from summary_counts [OF this] this show ?thesis by blast
qed

end
