(* ===== verification/Calendar.thy ===== *)
theory Calendar
  imports Store
begin

text \<open>
  The part of Go's \<open>time\<close> package the partition planner uses. An instant is an integer number of
  nanoseconds since 1970 in UTC; a day is the number of whole days since then. Dates are those of the
  proleptic Gregorian calendar, as in Go; the weeks are those of ISO 8601. Years are not bounded here,
  where Go keeps seconds in an int64.
\<close>

section \<open>Days, years and months\<close>

type_synonym instant = int

definition nsec :: int where "nsec = 1000000000"
definition day_ns :: int where "day_ns = 86400 * 1000000000"

text \<open>The day a year begins with.\<close>
definition year_start :: "int \<Rightarrow> int" where
  "year_start y = 365 * (y - 1) + (y - 1) div 4 - (y - 1) div 100 + (y - 1) div 400 - 719162"

definition leap_year :: "int \<Rightarrow> bool" where
  "leap_year y \<longleftrightarrow> 4 dvd y \<and> (\<not> 100 dvd y \<or> 400 dvd y)"

text \<open>The days of a year before one of its months, which is between 1 and 12.\<close>
definition before_month :: "int \<Rightarrow> int \<Rightarrow> int" where
  "before_month y m =
     (367 * m - 362) div 12 + (if m \<le> 2 then 0 else if leap_year y then - 1 else - 2)"

definition month_start :: "int \<Rightarrow> int \<Rightarrow> int" where
  "month_start y m = year_start y + before_month y m"

text \<open>\<open>time.Date\<close> at midnight: a month outside the year is normalised, a day outside the month is
  carried over.\<close>
definition go_Date :: "int \<Rightarrow> int \<Rightarrow> int \<Rightarrow> int" where
  "go_Date y m d = month_start (y + (m - 1) div 12) ((m - 1) mod 12 + 1) + (d - 1)"

text \<open>The year of a day: the quotient by the mean length of a year is off by at most one.\<close>
definition year_of :: "int \<Rightarrow> int" where
  "year_of n =
     (let g = 400 * (n + 719162) div 146097 + 1
      in if n < year_start g then g - 1 else if year_start (g + 1) \<le> n then g + 1 else g)"

definition month_of :: "int \<Rightarrow> int" where
  "month_of n =
     (let y = year_of n; d = n - year_start y;
          c = (if d < before_month y 3 then 0 else if leap_year y then 1 else 2)
      in (12 * (d + c) + 373) div 367)"

definition day_of :: "int \<Rightarrow> int" where
  "day_of n = n - month_start (year_of n) (month_of n) + 1"

text \<open>\<open>Weekday\<close>, with Sunday as 0; the first of January 1970 was a Thursday.\<close>
definition weekday :: "int \<Rightarrow> int" where
  "weekday n = (n + 4) mod 7"

text \<open>\<open>ISOWeek\<close>: the year of the Thursday of the same week, and the number of that Thursday in it.\<close>
definition iso_week :: "int \<Rightarrow> int \<times> int" where
  "iso_week n =
     (let th = n - (weekday n + 6) mod 7 + 3; y = year_of th
      in (y, (th - year_start y) div 7 + 1))"

section \<open>Instants\<close>

definition Unix :: "instant \<Rightarrow> int" where "Unix t = t div nsec"
definition at_day :: "int \<Rightarrow> instant" where "at_day n = n * day_ns"
definition day_number :: "instant \<Rightarrow> int" where "day_number t = t div day_ns"

definition AddDate :: "int \<Rightarrow> int \<Rightarrow> int \<Rightarrow> instant \<Rightarrow> instant" where
  "AddDate y m d t =
     (let n = day_number t
      in at_day (go_Date (year_of n + y) (month_of n + m) (day_of n + d)) + t mod day_ns)"

section \<open>Laws of years\<close>

lemma div_bound:
  fixes x c :: int
  assumes "0 < c"
  shows "c * (x div c) \<le> x" and "x < c * (x div c) + c"
  using assms pos_mod_bound [of c x] pos_mod_sign [of c x] mult_div_mod_eq [of c x] by linarith+

lemmas leap_bounds = div_bound [of 4, simplified] div_bound [of 100, simplified] div_bound [of 400, simplified]

lemma div_step:
  fixes x c :: int
  assumes c: "0 < c"
  shows "(x + 1) div c = x div c + (if c dvd x + 1 then 1 else 0)"
proof (cases "c dvd x + 1")
  case True
  then obtain q where q: "x + 1 = c * q" by (rule dvdE)
  then have "x = c * (q - 1) + (c - 1)" by (simp add: algebra_simps)
  then have "x div c = q - 1" by (rule int_div_pos_eq) (use c in simp_all)
  then show ?thesis using c q by simp
next
  case False
  have x: "x + 1 = c * (x div c) + (x mod c + 1)" by simp
  have "x mod c + 1 \<noteq> c"
  proof
    assume "x mod c + 1 = c"
    then have "x + 1 = c * (x div c) + c" using x by simp
    then show False using False by (metis dvd_add dvd_refl dvd_triv_left)
  qed
  then have "x mod c + 1 < c" using pos_mod_bound [OF c, of x] by simp
  then have "(x + 1) div c = x div c"
    using x pos_mod_sign [OF c, of x] by (intro int_div_pos_eq [of _ _ _ "x mod c + 1"]) simp_all
  then show ?thesis using False by simp
qed

lemma year_start_Suc:
  "year_start (y + 1) =
     year_start y + 365 + (if 4 dvd y then 1 else 0) - (if 100 dvd y then 1 else 0) + (if 400 dvd y then 1 else 0)"
proof -
  have step: "y div c = (y - 1) div c + (if c dvd y then 1 else 0)" if "0 < c" for c
    using div_step [OF that, of "y - 1"] by simp
  have y: "y + 1 - 1 = y" by simp
  show ?thesis
    unfolding year_start_def y
    using step [of 4] step [of 100] step [of 400] by (simp add: algebra_simps)
qed

lemma leap_length: "year_start (y + 1) = year_start y + (if leap_year y then 366 else 365)"
proof -
  have "100 dvd y \<longrightarrow> 4 dvd y" "400 dvd y \<longrightarrow> 100 dvd y"
    using dvd_trans [of 4 100 y] dvd_trans [of 100 400 y] by simp_all
  then show ?thesis
    unfolding year_start_Suc leap_year_def
    by (cases "4 dvd y"; cases "100 dvd y"; cases "400 dvd y") simp_all
qed

lemma year_length: "year_start (y + 1) - year_start y = 365 \<or> year_start (y + 1) - year_start y = 366"
  by (simp add: leap_length)

lemma year_start_less: "year_start y < year_start (y + 1)"
  by (simp add: leap_length)

lemma year_start_add: "year_start y + 365 * int k \<le> year_start (y + int k)"
proof (induction k)
  case (Suc k)
  then show ?case using year_length [of "y + int k"] by (auto simp: algebra_simps)
qed simp

lemma year_start_mono: "a \<le> b \<Longrightarrow> year_start a + 365 * (b - a) \<le> year_start b"
  using year_start_add [of a "nat (b - a)"] by simp

lemma year_sum_low:
  fixes a b c x r :: int
  assumes "4 * a \<le> x" "x \<le> 100 * b + 100" "400 * c \<le> x" "146097 * x + 146097 \<le> 400 * r"
  shows "365 * x + a - b + c \<le> r"
  using assms by linarith

lemma year_sum_high:
  fixes a b c x r :: int
  assumes "x \<le> 4 * a + 4" "100 * b \<le> x" "x \<le> 400 * c + 400" "400 * r < 146097 * x - 146097"
  shows "r < 365 * x + a - b + c"
  using assms by linarith

lemma year_of_bounds: "year_start (year_of n) \<le> n \<and> n < year_start (year_of n + 1)"
proof -
  define c where "c = (n + 719162) div 146097"
  define r where "r = (n + 719162) mod 146097"
  define k where "k = 400 * r div 146097"
  have n: "n = 146097 * c + r - 719162" by (simp add: c_def r_def)
  have r: "0 \<le> r" "r < 146097" by (simp_all add: r_def)
  have k: "146097 * k \<le> 400 * r" "400 * r < 146097 * k + 146097" 
    using div_bound [of 146097 "400 * r"] by (simp_all add: k_def algebra_simps)
  have kb: "0 \<le> k"
    using k(2) r(1) by linarith
  have kh: "k < 400" using k(1) r(2) by linarith
  have quot: "400 * (n + 719162) div 146097 = 400 * c + k" by (simp add: n k_def algebra_simps)
  have ys: "year_start (400 * c + j + 1) = 146097 * c + (365 * j + j div 4 - j div 100 + j div 400) - 719162" for j
  proof -
    have "(400 * c + j) div 4 = 100 * c + j div 4" "(400 * c + j) div 100 = 4 * c + j div 100"
      "(400 * c + j) div 400 = c + j div 400"
      using div_mult_self2 [of 4 j "100 * c"] div_mult_self2 [of 100 j "4 * c"] div_mult_self2 [of 400 j c]
      by (simp_all add: add.commute)
    then show ?thesis by (simp add: year_start_def)
  qed
  have lo: "365 * (k - 1) + (k - 1) div 4 - (k - 1) div 100 + (k - 1) div 400 \<le> r"
    using k(1) by (intro year_sum_low [OF leap_bounds(1) less_imp_le [OF leap_bounds(4)] leap_bounds(5)]) simp
  have hi: "r < 365 * (k + 2) + (k + 2) div 4 - (k + 2) div 100 + (k + 2) div 400"
    using k(2) by (intro year_sum_high [OF less_imp_le [OF leap_bounds(2)] leap_bounds(3) less_imp_le [OF leap_bounds(6)]]) simp
  define g where "g = 400 * c + k + 1"
  have "year_start (400 * c + (k - 1) + 1) \<le> n" unfolding ys n using lo by linarith
  then have A: "year_start (g - 1) \<le> n" by (simp add: g_def)
  have "n < year_start (400 * c + (k + 2) + 1)" unfolding ys n using hi by linarith
  then have B: "n < year_start (g + 2)" by (simp add: g_def add.commute)
  have "year_of n = (if n < year_start g then g - 1 else if year_start (g + 1) \<le> n then g + 1 else g)"
    by (simp only: year_of_def quot Let_def g_def)
  then show ?thesis using A B by (auto simp: add.commute)
qed

lemmas year_of_le = year_of_bounds [THEN conjunct1]
  and year_of_less = year_of_bounds [THEN conjunct2]

lemma year_start_le: "a \<le> b \<Longrightarrow> year_start a \<le> year_start b"
  by (rule order_trans [OF _ year_start_mono]) simp_all

lemma year_of_unique:
  assumes "year_start y \<le> n" "n < year_start (y + 1)"
  shows "year_of n = y"
proof (rule order_antisym)
  show "year_of n \<le> y"
    using assms year_of_le [of n] year_start_le [of "y + 1" "year_of n"] by (cases "year_of n \<le> y") auto
  show "y \<le> year_of n"
    using assms year_of_less [of n] year_start_le [of "year_of n + 1" y] by (cases "y \<le> year_of n") auto
qed

lemma year_of_mono: "a \<le> b \<Longrightarrow> year_of a \<le> year_of b"
  using year_of_le [of a] year_of_less [of b] year_start_le [of "year_of b + 1" "year_of a"]
  by (cases "year_of a \<le> year_of b") auto

lemma year_of_range: "\<bar>n\<bar> \<le> b \<Longrightarrow> \<bar>year_of n\<bar> \<le> b + 719530"
proof -
  assume "\<bar>n\<bar> \<le> b"
  then have b: "n \<le> b" "- b \<le> n" by simp_all
  have z: "year_start 1 = - 719162" by (simp add: year_start_def)
  show ?thesis
  proof (cases "1 \<le> year_of n")
    case True
    then have "365 * year_of n - 719527 \<le> n"
      using z year_of_le [of n] year_start_mono [of 1 "year_of n"] by (simp add: algebra_simps)
    then show ?thesis unfolding abs_le_iff using b True by (intro conjI; linarith)
  next
    case False
    then have "n < 365 * year_of n - 719162"
      using z year_of_less [of n] year_start_mono [of "year_of n + 1" 1] by (simp add: algebra_simps)
    then show ?thesis unfolding abs_le_iff using b False by (intro conjI; linarith)
  qed
qed

section \<open>Laws of months\<close>

lemma before_month_simps:
  "before_month y 1 = 0" "before_month y 2 = 31"
  "before_month y 3 = (if leap_year y then 60 else 59)"
  by (simp_all add: before_month_def)

lemma before_month_bounds:
  assumes "1 \<le> m" "m \<le> 12"
  shows "367 * m - 373 \<le> 12 * (before_month y m + (if m \<le> 2 then 0 else if leap_year y then 1 else 2))"
    and "12 * (before_month y m + (if m \<le> 2 then 0 else if leap_year y then 1 else 2)) \<le> 367 * m - 362"
proof -
  have "12 * ((367 * m - 362) div 12) \<le> 367 * m - 362" "367 * m - 373 \<le> 12 * ((367 * m - 362) div 12)"
    using div_bound [of 12 "367 * m - 362"] by simp_all
  then show "367 * m - 373 \<le> 12 * (before_month y m + (if m \<le> 2 then 0 else if leap_year y then 1 else 2))"
    and "12 * (before_month y m + (if m \<le> 2 then 0 else if leap_year y then 1 else 2)) \<le> 367 * m - 362"
    by (auto simp: before_month_def)
qed

lemma month_length:
  assumes "1 \<le> m" "m \<le> 12"
  shows "before_month y m + 28 \<le> before_month y (m + 1)" "before_month y (m + 1) \<le> before_month y m + 31"
proof -
  have "m = 1 \<or> m = 2 \<or> m = 3 \<or> m = 4 \<or> m = 5 \<or> m = 6 \<or> m = 7 \<or> m = 8 \<or> m = 9 \<or> m = 10 \<or> m = 11 \<or> m = 12"
    using assms by presburger
  then show "before_month y m + 28 \<le> before_month y (m + 1)" "before_month y (m + 1) \<le> before_month y m + 31"
    by (auto simp: before_month_def)
qed

lemma year_end: "month_start y 13 = month_start (y + 1) 1"
  by (simp add: month_start_def before_month_def leap_length)

text \<open>The month of a day is exact: a linear formula, corrected after February.\<close>
lemma month_of_range:
  shows "1 \<le> month_of n" "month_of n \<le> 12"
    and "before_month (year_of n) (month_of n) \<le> n - year_start (year_of n)"
    and "n - year_start (year_of n) < before_month (year_of n) (month_of n + 1)"
proof -
  define y where "y = year_of n"
  define d where "d = n - year_start y"
  define c where "c = (if d < before_month y 3 then 0 else if leap_year y then 1 else (2::int))"
  define m where "m = month_of n"
  have d: "0 \<le> d" "d < (if leap_year y then 366 else 365)"
    using year_of_bounds [of n] by (simp_all add: d_def y_def leap_length)
  have "m = (12 * (d + c) + 373) div 367"
    unfolding m_def month_of_def Let_def y_def [symmetric] d_def [symmetric] c_def by (rule refl)
  then have lo: "367 * m \<le> 12 * d + 12 * c + 373" and hi: "12 * d + 12 * c + 373 < 367 * m + 367"
    using div_bound [of 367 "12 * (d + c) + 373"] by (simp_all add: algebra_simps)
  have c: "0 \<le> c" "c \<le> 2" by (auto simp: c_def)
  have m1: "1 \<le> m" using hi d(1) c(1) by linarith
  have dc: "d + c \<le> 366" using d(2) by (auto simp: c_def before_month_simps split: if_splits)
  have m12: "m \<le> 12" using lo dc by linarith
  have early: "d < before_month y 3 \<Longrightarrow> m \<le> 2"
    using lo by (auto simp: c_def before_month_simps split: if_splits)
  have late: "\<not> d < before_month y 3 \<Longrightarrow> 3 \<le> m"
    using hi by (auto simp: c_def before_month_simps split: if_splits)
  have corr: "c = (if m \<le> 2 then 0 else if leap_year y then 1 else 2)"
    using early late by (auto simp: c_def)
  have "12 * before_month y m + 12 * c \<le> 367 * m - 362"
    using before_month_bounds(2) [OF m1 m12, of y] by (simp add: corr algebra_simps)
  then have low: "before_month y m \<le> d" using lo by linarith
  have high: "d < before_month y (m + 1)"
  proof (cases "m = 2")
    case True
    then have "d < before_month y 3" using late by fastforce
    then show ?thesis using True by simp
  next
    case False
    then have "before_month y (m + 1) + c = (367 * (m + 1) - 362) div 12"
      using m1 by (auto simp: before_month_def corr)
    then have "367 * m + 5 < 12 * before_month y (m + 1) + 12 * c + 12"
      using div_bound(2) [of 12 "367 * (m + 1) - 362"] by (simp add: algebra_simps)
    then show ?thesis using hi by linarith
  qed
  show "1 \<le> month_of n" "month_of n \<le> 12"
    and "before_month (year_of n) (month_of n) \<le> n - year_start (year_of n)"
    and "n - year_start (year_of n) < before_month (year_of n) (month_of n + 1)"
    using m1 m12 low high by (simp_all add: m_def y_def d_def)
qed

section \<open>Grids of periods\<close>

text \<open>Weeks and months are two divisions of the days into consecutive periods. What the partition
  planner relies on is only that the starts increase and that a day lies in its period.\<close>
locale period_grid =
  fixes start :: "int \<Rightarrow> int" and index :: "int \<Rightarrow> int"
  assumes start_step: "start i < start (i + 1)"
    and index_low: "start (index n) \<le> n"
    and index_high: "n < start (index n + 1)"
begin

lemma start_add: "start i + int k \<le> start (i + int k)"
proof (induction k)
  case (Suc k)
  then show ?case using start_step [of "i + int k"] by (simp add: algebra_simps)
qed simp

lemma start_mono: "i \<le> j \<Longrightarrow> start i + (j - i) \<le> start j"
  using start_add [of i "nat (j - i)"] by simp

lemma start_less_iff [simp]: "start i < start j \<longleftrightarrow> i < j"
  using start_mono [of i j] start_mono [of j i] by (cases i j rule: linorder_cases) auto

lemma start_le_iff [simp]: "start i \<le> start j \<longleftrightarrow> i \<le> j"
  by (meson linorder_not_less start_less_iff)

lemma start_eq_iff [simp]: "start i = start j \<longleftrightarrow> i = j"
  using start_less_iff [of i j] start_less_iff [of j i] by (cases i j rule: linorder_cases) (simp_all add: order_less_imp_not_eq order_less_imp_not_eq2)

lemma index_unique: "start i \<le> n \<Longrightarrow> n < start (i + 1) \<Longrightarrow> index n = i"
proof -
  assume a: "start i \<le> n" "n < start (i + 1)"
  have "start i < start (index n + 1)" using a(1) index_high [of n] by linarith
  moreover have "start (index n) < start (i + 1)" using a(2) index_low [of n] by linarith
  ultimately show ?thesis by simp
qed

lemma index_start [simp]: "index (start i) = i"
  by (rule index_unique) simp_all

lemma index_mono: "m \<le> n \<Longrightarrow> index m \<le> index n"
proof -
  assume "m \<le> n"
  then have "start (index m) < start (index n + 1)" using index_low [of m] index_high [of n] by linarith
  then show ?thesis by simp
qed

end

text \<open>A month is numbered through its year.\<close>
definition som :: "int \<Rightarrow> int" where
  "som i = month_start (i div 12) (i mod 12 + 1)"

definition month_index :: "int \<Rightarrow> int" where
  "month_index n = 12 * year_of n + month_of n - 1"

text \<open>The Mondays, of which 5 January 1970 was one.\<close>
definition sow :: "int \<Rightarrow> int" where "sow i = 7 * i - 3"
definition week_index :: "int \<Rightarrow> int" where "week_index n = (n + 3) div 7"

lemma som_Suc: "som (i + 1) = month_start (i div 12) (i mod 12 + 2)"
proof (cases "i mod 12 = 11")
  case True
  then have "12 dvd i + 1" by presburger
  then have "(i + 1) div 12 = i div 12 + 1" "(i + 1) mod 12 = 0"
    using div_step [of 12 i] by simp_all
  then show ?thesis using True year_end [of "i div 12"] by (simp add: som_def)
next
  case False
  then have "\<not> 12 dvd i + 1" by presburger
  then have q: "(i + 1) div 12 = i div 12" using div_step [of 12 i] by simp
  then have "(i + 1) mod 12 = i mod 12 + 1"
    using minus_mult_div_eq_mod [of "i + 1" 12] minus_mult_div_eq_mod [of i 12] by simp
  then show ?thesis using q by (simp add: som_def add.commute)
qed

lemma som_step: "som i + 28 \<le> som (i + 1)" "som (i + 1) \<le> som i + 31"
proof -
  have "1 \<le> i mod 12 + 1" "i mod 12 + 1 \<le> 12" using pos_mod_bound [of 12 i] by simp_all
  from month_length [OF this, of "i div 12"] show "som i + 28 \<le> som (i + 1)" "som (i + 1) \<le> som i + 31"
    unfolding som_Suc unfolding som_def month_start_def by (simp_all add: add.commute)
qed

lemma month_index_split: "month_index n div 12 = year_of n" "month_index n mod 12 = month_of n - 1"
proof -
  have "0 \<le> month_of n - 1" "month_of n - 1 < 12" using month_of_range [of n] by simp_all
  moreover have "month_index n = (month_of n - 1) + 12 * year_of n" by (simp add: month_index_def)
  ultimately show "month_index n div 12 = year_of n" "month_index n mod 12 = month_of n - 1"
    by (simp_all add: div_pos_pos_trivial)
qed

interpretation months: period_grid som month_index
proof
  show "som i < som (i + 1)" for i using som_step(1) [of i] by simp
  show "som (month_index n) \<le> n" for n
    using month_of_range(3) [of n] by (simp add: som_def month_index_split month_start_def)
  show "n < som (month_index n + 1)" for n
    using month_of_range(4) [of n] by (simp add: som_Suc [unfolded add.commute [of _ 1]] month_index_split month_start_def add.commute)
qed

interpretation weeks: period_grid sow week_index
proof
  show "sow (week_index n) \<le> n" "n < sow (week_index n + 1)" for n
    using div_bound [of 7 "n + 3"] by (simp_all add: sow_def week_index_def)
qed (simp add: sow_def)

lemma go_Date_som: "go_Date y m d = som (12 * y + (m - 1)) + (d - 1)"
proof -
  have "(12 * y + (m - 1)) div 12 = y + (m - 1) div 12" "(12 * y + (m - 1)) mod 12 = (m - 1) mod 12"
    by (simp_all add: add.commute)
  then show ?thesis by (simp add: go_Date_def som_def)
qed

lemma som_index: "som (month_index n) = month_start (year_of n) (month_of n)"
  by (simp add: som_def month_index_split)

lemma go_Date_add:
  "go_Date (year_of n + y) (month_of n + m) (day_of n + d) = som (month_index n + 12 * y + m) + (n - som (month_index n)) + d"
proof -
  have "12 * (year_of n + y) + (month_of n + m - 1) = month_index n + 12 * y + m"
    by (simp add: month_index_def)
  then show ?thesis by (simp only: go_Date_som) (simp add: som_index day_of_def)
qed

lemma AddDate_at_day:
  "AddDate y m d (at_day n) = at_day (som (month_index n + 12 * y + m) + (n - som (month_index n)) + d)"
  by (simp add: AddDate_def day_number_def at_day_def day_ns_def go_Date_add Let_def)

lemma day_number_bounds: "at_day (day_number t) \<le> t" "t < at_day (day_number t + 1)"
  using div_bound [of day_ns t] by (simp_all add: at_day_def day_number_def day_ns_def algebra_simps)

lemma day_number_at_day [simp]: "day_number (at_day n) = n"
  by (simp add: day_number_def at_day_def day_ns_def)

lemma at_day_less [simp]: "at_day m < at_day n \<longleftrightarrow> m < n" and at_day_le [simp]: "at_day m \<le> at_day n \<longleftrightarrow> m \<le> n"
  and at_day_eq [simp]: "at_day m = at_day n \<longleftrightarrow> m = n"
  by (simp_all add: at_day_def day_ns_def)

lemma Unix_at_day: "Unix (at_day n) = 86400 * n"
  by (simp add: Unix_def at_day_def day_ns_def nsec_def)

text \<open>The ISO week of a Monday.\<close>
lemma iso_week_sow:
  "iso_week (sow i) = (year_of (7 * i), (7 * i - year_start (year_of (7 * i))) div 7 + 1)"
proof -
  have "(weekday (sow i) + 6) mod 7 = 0" unfolding weekday_def sow_def by presburger
  then show ?thesis by (simp add: iso_week_def sow_def Let_def)
qed

end
