(* ===== verification/Partition.thy ===== *)
theory Partition
  imports Calendar
begin

text \<open>
  The partition planner of \<open>src/uni_core/internal/pkg/agentmetrics/partition.go\<close> with the types of \<open>types.go\<close>: the names and
  the bounds of the partitions of a metric table, the list of partitions a table should have, the plan
  that leads from the partitions it has to those, and the statements that carry the plan out. The
  statements are values; \<open>ddl_text\<close> gives their text.
\<close>

section \<open>Types\<close>

datatype Granularity = GranularityWeek | GranularityMonth

text \<open>A retention is a \<open>time.Duration\<close>, in nanoseconds.\<close>
record Spec =
  sp_table :: string
  sp_granularity :: Granularity
  sp_retention :: int

record Bound =
  bd_name :: string
  bd_lower :: int
  bd_upper :: int

record Plan =
  pl_create :: "Bound list"
  pl_truncate :: "string list"
  pl_drop :: "string list"

definition GuardPartitionName :: string where "GuardPartitionName = ''p_min''"
definition SentinelPartitionName :: string where "SentinelPartitionName = ''p_max''"
definition MaxInt64 :: int where "MaxInt64 = 2 ^ 63 - 1"

definition mk_spec :: "string \<Rightarrow> Granularity \<Rightarrow> int \<Rightarrow> Spec" where
  "mk_spec t g days = \<lparr>sp_table = t, sp_granularity = g, sp_retention = days * day_ns\<rparr>"

definition TableSpecs :: "Spec list" where
  "TableSpecs =
     [mk_spec ''device_metric_5m'' GranularityWeek 30, mk_spec ''device_metric_1h'' GranularityMonth 180,
      mk_spec ''device_metric_disk'' GranularityWeek 30, mk_spec ''device_metric_diskio'' GranularityWeek 30,
      mk_spec ''device_metric_nic'' GranularityWeek 30, mk_spec ''device_metric_sensor'' GranularityWeek 30]"

section \<open>Periods\<close>

definition periodStart :: "instant \<Rightarrow> Granularity \<Rightarrow> instant" where
  "periodStart t g =
     (let n = day_number t
      in case g of
           GranularityMonth \<Rightarrow> at_day (go_Date (year_of n) (month_of n) 1)
         | GranularityWeek \<Rightarrow>
             (let day = go_Date (year_of n) (month_of n) (day_of n)
              in AddDate 0 0 (- ((weekday day + 6) mod 7)) (at_day day)))"

definition addPeriod :: "instant \<Rightarrow> Granularity \<Rightarrow> int \<Rightarrow> instant" where
  "addPeriod t g n =
     (case g of GranularityMonth \<Rightarrow> AddDate 0 n 0 t | GranularityWeek \<Rightarrow> AddDate 0 0 (7 * n) t)"

text \<open>The format \<open>%0wd\<close> of the package \<open>fmt\<close>: the sign takes part of the width.\<close>
definition zpad :: "nat \<Rightarrow> int \<Rightarrow> string" where
  "zpad w i =
     (let pad = (\<lambda>w s. replicate (w - length s) CHR ''0'' @ s)
      in if i < 0 then CHR ''-'' # pad (w - 1) (nat_dec (nat (- i))) else pad w (nat_dec (nat i)))"

definition PartitionName :: "instant \<Rightarrow> Granularity \<Rightarrow> string" where
  "PartitionName t g =
     (let n = day_number t
      in case g of
           GranularityMonth \<Rightarrow> ''p_'' @ zpad 4 (year_of n) @ ''_'' @ zpad 2 (month_of n)
         | GranularityWeek \<Rightarrow>
             (case iso_week n of (y, w) \<Rightarrow> ''p_'' @ zpad 4 y @ ''_w'' @ zpad 2 w))"

definition isoWeekStart :: "int \<Rightarrow> int \<Rightarrow> instant" where
  "isoWeekStart year week =
     (let jan4 = go_Date year 1 4; offset = (weekday jan4 + 6) mod 7
      in AddDate 0 0 (- offset + 7 * (week - 1)) (at_day jan4))"

subsection \<open>Scanning a name\<close>

text \<open>\<open>fmt.Sscanf\<close> with the formats of this file: literal text is matched, \<open>%d\<close> skips blanks and reads an
  optional sign and digits that fit into an int, and what follows the last verb is ignored. Blanks
  outside ASCII are not skipped here; a name with a blank fails the comparison after the scan in any case.\<close>
fun scan_lit :: "string \<Rightarrow> string \<Rightarrow> string option" where
  "scan_lit [] s = Some s"
| "scan_lit (c # cs) [] = None"
| "scan_lit (c # cs) (d # ds) = (if c = d then scan_lit cs ds else None)"

definition scan_blank :: "char \<Rightarrow> bool" where
  "scan_blank c \<longleftrightarrow> byte c \<in> {9, 11, 12, 13, 32}"

definition scan_int :: "string \<Rightarrow> (int \<times> string) option" where
  "scan_int s =
     (let s = dropWhile scan_blank s;
          sign = takeWhile (\<lambda>c. c = CHR ''-'' \<or> c = CHR ''+'') (take 1 s);
          t = drop (length sign) s;
          ds = takeWhile is_digit t
      in if ds = [] then None
         else case ParseInt (sign @ ds) of None \<Rightarrow> None | Some i \<Rightarrow> Some (i, drop (length ds) t))"

definition scan_two :: "string \<Rightarrow> string \<Rightarrow> string \<Rightarrow> (int \<times> int) option" where
  "scan_two l1 l2 s =
     (case scan_lit l1 s of None \<Rightarrow> None
      | Some s \<Rightarrow> (case scan_int s of None \<Rightarrow> None
      | Some (a, s) \<Rightarrow> (case scan_lit l2 s of None \<Rightarrow> None
      | Some s \<Rightarrow> (case scan_int s of None \<Rightarrow> None
      | Some (b, _) \<Rightarrow> Some (a, b)))))"

definition boundFromName :: "string \<Rightarrow> Granularity \<Rightarrow> Bound option" where
  "boundFromName name g =
     (let start = (case g of
            GranularityMonth \<Rightarrow> (case scan_two ''p_'' ''_'' name of
                None \<Rightarrow> None
              | Some (y, m) \<Rightarrow> if m < 1 \<or> 12 < m then None else Some (at_day (go_Date y m 1)))
          | GranularityWeek \<Rightarrow> (case scan_two ''p_'' ''_w'' name of
                None \<Rightarrow> None
              | Some (y, w) \<Rightarrow> if w < 1 \<or> 53 < w then None else Some (isoWeekStart y w)))
      in case start of
           None \<Rightarrow> None
         | Some s \<Rightarrow>
             if PartitionName s g \<noteq> name then None
             else Some \<lparr>bd_name = name, bd_lower = Unix s, bd_upper = Unix (addPeriod s g 1)\<rparr>)"

section \<open>Laws of periods\<close>

text \<open>Both granularities are grids of days.\<close>
definition pstart :: "Granularity \<Rightarrow> int \<Rightarrow> int" where
  "pstart g = (case g of GranularityMonth \<Rightarrow> som | GranularityWeek \<Rightarrow> sow)"

definition pindex :: "Granularity \<Rightarrow> int \<Rightarrow> int" where
  "pindex g = (case g of GranularityMonth \<Rightarrow> month_index | GranularityWeek \<Rightarrow> week_index)"

interpretation period: period_grid "pstart g" "pindex g" for g
  by (cases g; unfold_locales)
    (simp_all add: pstart_def pindex_def months.start_step months.index_low months.index_high
       weeks.start_step weeks.index_low weeks.index_high)

abbreviation period_at :: "Granularity \<Rightarrow> int \<Rightarrow> instant" where
  "period_at g i \<equiv> at_day (pstart g i)"

abbreviation period_of :: "Granularity \<Rightarrow> instant \<Rightarrow> int" where
  "period_of g t \<equiv> pindex g (day_number t)"

lemma go_Date_day: "go_Date (year_of n) (month_of n) (day_of n) = n"
  using go_Date_add [of n 0 0 0] by simp

lemma AddDate_days: "AddDate 0 0 d (at_day n) = at_day (n + d)"
  by (simp add: AddDate_at_day)

lemma monday_offset: "(weekday n + 6) mod 7 = n - sow (week_index n)"
proof -
  have "(weekday n + 6) mod 7 = (n + 3) mod 7" unfolding weekday_def by presburger
  then show ?thesis using minus_mult_div_eq_mod [of "n + 3" 7] by (simp add: sow_def week_index_def)
qed

lemma periodStart_eq: "periodStart t g = period_at g (period_of g t)"
proof (cases g)
  case GranularityMonth
  have "go_Date (year_of n) (month_of n) 1 = som (month_index n)" for n
    by (simp add: go_Date_som month_index_def)
  then show ?thesis using GranularityMonth by (simp add: periodStart_def pstart_def pindex_def Let_def)
next
  case GranularityWeek
  then show ?thesis
    by (simp add: periodStart_def go_Date_day AddDate_days monday_offset pstart_def pindex_def Let_def)
qed

lemma addPeriod_eq: "addPeriod (period_at g i) g k = period_at g (i + k)"
  by (cases g) (simp_all add: addPeriod_def AddDate_at_day pstart_def sow_def)

lemma day_split: "at_day (day_number t) + t mod day_ns = t"
  by (simp add: at_day_def day_number_def)

lemma AddDate_eq:
  "AddDate y m d t =
     (let n = day_number t in at_day (som (month_index n + 12 * y + m) + (n - som (month_index n)) + d) + t mod day_ns)"
  by (simp only: AddDate_def Let_def go_Date_add)

lemma addPeriod_greater: "t < addPeriod t g 1"
proof -
  define n where "n = day_number t"
  define k where "k = (case g of GranularityMonth \<Rightarrow> som (month_index n + 1) + (n - som (month_index n)) | GranularityWeek \<Rightarrow> n + 7)"
  have "n < k" using som_step(1) [of "month_index n"] by (cases g) (simp_all add: k_def)
  moreover have "addPeriod t g 1 = at_day k + t mod day_ns"
    by (cases g) (simp_all add: addPeriod_def AddDate_eq Let_def k_def n_def)
  ultimately show ?thesis using day_split [of t] by (simp add: n_def at_day_def day_ns_def)
qed

lemma period_holds: "period_at g (period_of g t) \<le> t" "t < period_at g (period_of g t + 1)"
proof -
  have "pstart g (period_of g t) \<le> day_number t" "day_number t + 1 \<le> pstart g (period_of g t + 1)"
    using period.index_low [of g "day_number t"] period.index_high [of "day_number t" g] by simp_all
  then have "period_at g (period_of g t) \<le> at_day (day_number t)" "at_day (day_number t + 1) \<le> period_at g (period_of g t + 1)"
    by simp_all
  then show "period_at g (period_of g t) \<le> t" "t < period_at g (period_of g t + 1)"
    using day_number_bounds [of t] by linarith+
qed

lemma period_mono: "s \<le> t \<Longrightarrow> period_of g s \<le> period_of g t"
  by (intro period.index_mono) (simp add: day_number_def day_ns_def zdiv_mono1)

section \<open>Plans\<close>

text \<open>The loop over the periods; it ends because the next period begins later.\<close>
function periods :: "Granularity \<Rightarrow> instant \<Rightarrow> instant \<Rightarrow> Bound list" where
  "periods g p lim =
     (if p < lim
      then (let nxt = addPeriod p g 1
            in \<lparr>bd_name = PartitionName p g, bd_lower = Unix p, bd_upper = Unix nxt\<rparr> # periods g nxt lim)
      else [])"
  by auto
termination
  using addPeriod_greater by (relation "measure (\<lambda>(g, p, lim). nat (lim - p))") (auto simp: less_diff_eq)

declare periods.simps [simp del]

definition Desired :: "Spec \<Rightarrow> instant \<Rightarrow> int \<Rightarrow> Bound list" where
  "Desired spec now horizon =
     (let horizon = (if horizon < 1 then 1 else horizon); g = sp_granularity spec;
          cur = periodStart now g;
          cutoff = now - sp_retention spec;
          first = periodStart cutoff g;
          lim = addPeriod cur g horizon
      in \<lparr>bd_name = GuardPartitionName, bd_lower = 0, bd_upper = Unix first\<rparr>
         # periods g first lim
         @ [\<lparr>bd_name = SentinelPartitionName, bd_lower = Unix lim, bd_upper = MaxInt64\<rparr>])"

text \<open>The bound of an existing partition whose rows are all older than the retention, and which is
  neither the guard nor the sentinel nor a name of another origin.\<close>
definition expired_bound :: "Spec \<Rightarrow> Bound list \<Rightarrow> instant \<Rightarrow> string \<Rightarrow> Bound option" where
  "expired_bound spec want cutoff name =
     (if name = GuardPartitionName \<or> name = SentinelPartitionName then None
      else (case (case map_of (rev (map (\<lambda>b. (bd_name b, b)) want)) name of
                    Some b \<Rightarrow> Some b
                  | None \<Rightarrow> boundFromName name (sp_granularity spec)) of
              None \<Rightarrow> None
            | Some b \<Rightarrow> if bd_upper b * nsec \<le> cutoff then Some b else None))"

definition PlanFrom :: "Spec \<Rightarrow> string list \<Rightarrow> instant \<Rightarrow> int \<Rightarrow> int \<Rightarrow> Plan" where
  "PlanFrom spec existing now horizon hold =
     (let hold = (if hold < 0 then 0 else hold);
          want = Desired spec now horizon;
          cutoff = now - sp_retention spec;
          expired = sort_key bd_upper (List.map_filter (expired_bound spec want cutoff) existing)
      in \<lparr>pl_create = filter (\<lambda>b. bd_name b \<notin> set existing) want,
          pl_truncate = map bd_name (take (nat hold) expired),
          pl_drop = map bd_name (drop (nat hold) expired)\<rparr>)"

definition WorstCaseRetention :: "Spec \<Rightarrow> int" where
  "WorstCaseRetention spec =
     (case sp_granularity spec of
        GranularityMonth \<Rightarrow> sp_retention spec + 30 * day_ns
      | GranularityWeek \<Rightarrow> sp_retention spec + 7 * day_ns)"

section \<open>Statements\<close>

datatype ddl =
    CreateInline string string "Bound list"
  | CreateParent string string
  | CreatePlain string string
  | CreateChild string string int int
  | AddPartition string string int
  | SplitSentinel string string int
  | TruncatePartition string string
  | DropPartition string string
  | DeleteChild string
  | DropChild string

text \<open>A bound in the text of a statement; the largest one is unbounded.\<close>
definition mysqlUpper :: "int \<Rightarrow> string" where
  "mysqlUpper u = (if MaxInt64 \<le> u then ''MAXVALUE'' else itoa u)"

definition pgLower :: "int \<Rightarrow> string" where "pgLower v = itoa v"

definition pgUpper :: "int \<Rightarrow> string" where
  "pgUpper u = (if MaxInt64 \<le> u then ''MAXVALUE'' else itoa u)"

fun join_sep :: "string \<Rightarrow> string list \<Rightarrow> string" where
  "join_sep sep [] = []"
| "join_sep sep [x] = x"
| "join_sep sep (x # y # ys) = x @ sep @ join_sep sep (y # ys)"

definition part_text :: "Bound \<Rightarrow> string" where
  "part_text b = ''PARTITION '' @ bd_name b @ '' VALUES LESS THAN ('' @ mysqlUpper (bd_upper b) @ '')''"

definition InlineClause :: "string \<Rightarrow> Bound list \<Rightarrow> string" where
  "InlineClause dialect bounds =
     (if dialect = ''mysql''
      then ''PARTITION BY RANGE COLUMNS(bucket_ts) ('' @ join_sep '', '' (map part_text bounds) @ '')'' else [])"

fun ddl_text :: "ddl \<Rightarrow> string" where
  "ddl_text (CreateInline t cols bs) =
     ''CREATE TABLE IF NOT EXISTS '' @ t @ '' ('' @ cols @ '') '' @ InlineClause ''mysql'' bs"
| "ddl_text (CreateParent t cols) =
     ''CREATE TABLE IF NOT EXISTS '' @ t @ '' ('' @ cols @ '') PARTITION BY RANGE (bucket_ts)''"
| "ddl_text (CreatePlain t cols) = ''CREATE TABLE IF NOT EXISTS '' @ t @ '' ('' @ cols @ '')''"
| "ddl_text (CreateChild n t lo up) =
     ''CREATE TABLE IF NOT EXISTS '' @ n @ '' PARTITION OF '' @ t @ '' FOR VALUES FROM ('' @ pgLower lo @ '') TO ('' @ pgUpper up @ '')''"
| "ddl_text (AddPartition t n up) =
     ''ALTER TABLE '' @ t @ '' ADD PARTITION (PARTITION '' @ n @ '' VALUES LESS THAN ('' @ mysqlUpper up @ ''))''"
| "ddl_text (SplitSentinel t n up) =
     ''ALTER TABLE '' @ t @ '' REORGANIZE PARTITION '' @ SentinelPartitionName @ '' INTO (PARTITION '' @ n
     @ '' VALUES LESS THAN ('' @ mysqlUpper up @ ''), PARTITION '' @ SentinelPartitionName @ '' VALUES LESS THAN (MAXVALUE))''"
| "ddl_text (TruncatePartition t n) = ''ALTER TABLE '' @ t @ '' TRUNCATE PARTITION '' @ n"
| "ddl_text (DropPartition t n) = ''ALTER TABLE '' @ t @ '' DROP PARTITION '' @ n"
| "ddl_text (DeleteChild n) = ''DELETE FROM '' @ n"
| "ddl_text (DropChild n) = ''DROP TABLE IF EXISTS '' @ n"

definition child_of :: "string \<Rightarrow> Bound \<Rightarrow> ddl" where
  "child_of t b = CreateChild (bd_name b) t (bd_lower b) (bd_upper b)"

definition ChildDDL :: "string \<Rightarrow> Spec \<Rightarrow> Bound list \<Rightarrow> ddl list" where
  "ChildDDL dialect spec bounds =
     (if dialect \<noteq> ''postgres'' then [] else map (child_of (sp_table spec)) bounds)"

definition AddPartitionDDL :: "string \<Rightarrow> Spec \<Rightarrow> Bound list \<Rightarrow> bool \<Rightarrow> ddl list" where
  "AddPartitionDDL dialect spec missing hasSentinel =
     (if missing = [] then []
      else if dialect = ''mysql'' then
        map (\<lambda>b. if \<not> hasSentinel then AddPartition (sp_table spec) (bd_name b) (bd_upper b)
                 else SplitSentinel (sp_table spec) (bd_name b) (bd_upper b)) missing
      else if dialect = ''postgres'' then map (child_of (sp_table spec)) missing
      else [])"

text \<open>A dialect without partitions refuses to reclaim anything; None is that error.\<close>
definition ReclaimDDL :: "string \<Rightarrow> Spec \<Rightarrow> string list \<Rightarrow> string list \<Rightarrow> ddl list option" where
  "ReclaimDDL dialect spec trunc drp =
     (if dialect \<noteq> ''mysql'' \<and> dialect \<noteq> ''postgres'' then (if trunc = [] \<and> drp = [] then Some [] else None)
      else if dialect = ''mysql'' then
        Some (map (TruncatePartition (sp_table spec)) trunc @ map (DropPartition (sp_table spec)) drp)
      else Some (map DeleteChild trunc @ map DropChild drp))"

section \<open>Names\<close>

lemma digits_val_zeros [simp]: "digits_val (replicate k CHR ''0'' @ s) = digits_val s"
  by (induction k) (simp_all add: digits_val_def byte_def)

lemma zpad_form:
  obtains ds where "zpad w i = (if i < 0 then [CHR ''-''] else []) @ ds" "ds \<noteq> []" "list_all is_digit ds"
    "digits_val ds = nat \<bar>i\<bar>"
proof -
  define pad where "pad k = replicate (k - length (nat_dec (nat \<bar>i\<bar>))) CHR ''0'' @ nat_dec (nat \<bar>i\<bar>)" for k
  have "pad k \<noteq> []" "list_all is_digit (pad k)" "digits_val (pad k) = nat \<bar>i\<bar>" for k
    using nat_dec_digits [of _ "nat \<bar>i\<bar>"] by (auto simp: pad_def list_all_iff is_digit_def byte_def)
  moreover have "zpad w i = (if i < 0 then [CHR ''-''] else []) @ pad (if i < 0 then w - 1 else w)"
    by (simp add: zpad_def pad_def Let_def)
  ultimately show thesis using that by blast
qed

lemma not_blank: "is_digit c \<Longrightarrow> \<not> scan_blank c" "\<not> scan_blank CHR ''-''"
  by (auto simp: scan_blank_def is_digit_def byte_def)

lemma takeWhile_digits:
  "list_all is_digit ds \<Longrightarrow> r = [] \<or> \<not> is_digit (hd r) \<Longrightarrow> takeWhile is_digit (ds @ r) = ds"
  by (cases r) (auto simp: takeWhile_append2 list_all_iff takeWhile_append)

lemma scan_int_zpad:
  assumes i: "in_int64 i" and r: "r = [] \<or> \<not> is_digit (hd r)"
  shows "scan_int (zpad w i @ r) = Some (i, r)"
proof -
  obtain ds where ds: "zpad w i = (if i < 0 then [CHR ''-''] else []) @ ds" "ds \<noteq> []" "list_all is_digit ds"
    "digits_val ds = nat \<bar>i\<bar>"
    by (rule zpad_form)
  obtain c cs where c: "ds = c # cs" using ds(2) by (cases ds) auto
  then have d: "is_digit c" using ds(3) by simp
  have sign: "c \<noteq> CHR ''-''" "c \<noteq> CHR ''+''" using is_digit_not_sign [OF d] by simp_all
  have pd: "parse_digits ds = Some (int (nat \<bar>i\<bar>))" using ds by (simp add: parse_digits_def)
  have tw: "takeWhile is_digit (ds @ r) = ds" using ds(3) r by (rule takeWhile_digits)
  show ?thesis
  proof (cases "i < 0")
    case True
    then have "zpad w i @ r = CHR ''-'' # ds @ r" by (simp add: ds(1))
    moreover have "ParseInt (CHR ''-'' # ds) = Some i" using True i pd by (simp add: ParseInt_def)
    ultimately show ?thesis using tw ds(2) by (simp add: scan_int_def not_blank Let_def)
  next
    case False
    then have "zpad w i @ r = c # cs @ r" by (simp add: ds(1) c)
    moreover have "ParseInt ds = Some i" using False i pd sign by (simp add: ParseInt_def c)
    ultimately show ?thesis using tw ds(2) sign not_blank(1) [OF d] by (simp add: scan_int_def Let_def c)
  qed
qed

lemma scan_lit_append [simp]: "scan_lit l (l @ r) = Some r"
  by (induction l) auto

lemma scan_two_name:
  assumes "in_int64 a" "in_int64 b" "l2 \<noteq> []" "\<not> is_digit (hd l2)"
  shows "scan_two l1 l2 (l1 @ zpad v a @ l2 @ zpad w b) = Some (a, b)"
  using scan_int_zpad [of a "l2 @ zpad w b" v] scan_int_zpad [of b "[]" w] assms
  by (simp add: scan_two_def)

text \<open>A month and an ISO week, from the number of the period.\<close>
lemma month_of_som: "year_of (som i) = i div 12" "month_of (som i) = i mod 12 + 1"
  using month_index_split [of "som i"] months.index_start [of i] by simp_all

lemma isoWeekStart_inverse: "isoWeekStart (fst (iso_week (sow i))) (snd (iso_week (sow i))) = at_day (sow i)"
proof -
  define y where "y = year_of (7 * i)"
  define q where "q = (7 * i - year_start y) div 7"
  define e where "e = (7 * i - year_start y) mod 7"
  have e: "0 \<le> e" "e < 7" by (simp_all add: e_def)
  have ys: "year_start y = 7 * (i - q) - e"
    using mult_div_mod_eq [of 7 "7 * i - year_start y"] by (simp add: q_def e_def algebra_simps)
  have jan4: "go_Date y 1 4 = year_start y + 3"
    by (simp add: go_Date_def month_start_def before_month_simps)
  have "(weekday (year_start y + 3) + 6) mod 7 = (year_start y + 6) mod 7"
    unfolding weekday_def by presburger
  also have "\<dots> = ((6 - e) + 7 * (i - q)) mod 7" by (simp add: ys algebra_simps)
  also have "\<dots> = (6 - e) mod 7" by (rule mod_mult_self2)
  also have "\<dots> = 6 - e" using e by simp
  finally have off: "(weekday (year_start y + 3) + 6) mod 7 = 6 - e" .
  have "iso_week (sow i) = (y, q + 1)" by (simp add: iso_week_sow y_def q_def)
  then show ?thesis
    by (simp add: isoWeekStart_def jan4 off AddDate_days Let_def) (simp add: ys sow_def algebra_simps)
qed

lemma iso_week_range:
  shows "1 \<le> snd (iso_week (sow i))" "snd (iso_week (sow i)) \<le> 53"
proof -
  have "0 \<le> 7 * i - year_start (year_of (7 * i))" "7 * i - year_start (year_of (7 * i)) < 366"
    using year_of_bounds [of "7 * i"] year_length [of "year_of (7 * i)"] by linarith+
  then show "1 \<le> snd (iso_week (sow i))" "snd (iso_week (sow i)) \<le> 53"
    unfolding iso_week_sow by simp_all
qed

definition in_era :: "int \<Rightarrow> bool" where
  "in_era n \<longleftrightarrow> \<bar>n\<bar> \<le> 2 ^ 62"

lemma year_in_int64: "\<bar>n\<bar> \<le> 2 ^ 62 + 7 \<Longrightarrow> in_int64 (year_of n)"
  using year_of_range [of n "2 ^ 62 + 7"] by (auto simp: in_int64_def)

lemma boundFromName_period:
  assumes "in_era (pstart g i)"
  shows "boundFromName (PartitionName (period_at g i) g) g =
    Some \<lparr>bd_name = PartitionName (period_at g i) g, bd_lower = Unix (period_at g i), bd_upper = Unix (period_at g (i + 1))\<rparr>"
proof (cases g)
  case GranularityMonth
  have m: "0 \<le> i mod 12" "i mod 12 < 12" by simp_all
  have y: "in_int64 (i div 12)"
    using assms year_in_int64 [of "som i"] GranularityMonth by (simp add: in_era_def pstart_def month_of_som)
  have n: "PartitionName (period_at g i) g = ''p_'' @ zpad 4 (i div 12) @ ''_'' @ zpad 2 (i mod 12 + 1)"
    by (simp add: PartitionName_def GranularityMonth pstart_def month_of_som)
  have sc: "scan_two ''p_'' ''_'' (''p_'' @ zpad 4 (i div 12) @ ''_'' @ zpad 2 (i mod 12 + 1)) = Some (i div 12, i mod 12 + 1)"
    by (rule scan_two_name) (use y m in \<open>simp_all add: in_int64_def is_digit_def byte_def\<close>)
  have "go_Date (i div 12) (i mod 12 + 1) 1 = som i" by (simp add: go_Date_som)
  then have st: "at_day (go_Date (i div 12) (i mod 12 + 1) 1) = period_at g i"
    by (simp add: pstart_def GranularityMonth)
  have rng: "\<not> (i mod 12 + 1 < 1 \<or> 12 < i mod 12 + 1)" using m by linarith
  show ?thesis
    unfolding boundFromName_def Let_def GranularityMonth [symmetric] n
    by (simp only: GranularityMonth Granularity.case sc option.case prod.case rng if_False)
       (simp only: st [unfolded GranularityMonth] n [unfolded GranularityMonth] addPeriod_eq refl not_True_eq_False if_False)
next
  case GranularityWeek
  obtain y w where yw: "iso_week (sow i) = (y, w)" by (cases "iso_week (sow i)")
  have w: "1 \<le> w" "w \<le> 53" using iso_week_range [of i] by (simp_all add: yw)
  have "y = year_of (7 * i)" using yw by (simp add: iso_week_sow)
  then have y: "in_int64 y"
    using assms year_in_int64 [of "7 * i"] GranularityWeek by (simp add: in_era_def pstart_def sow_def)
  have n: "PartitionName (period_at g i) g = ''p_'' @ zpad 4 y @ ''_w'' @ zpad 2 w"
    by (simp add: PartitionName_def GranularityWeek pstart_def yw)
  have sc: "scan_two ''p_'' ''_w'' (''p_'' @ zpad 4 y @ ''_w'' @ zpad 2 w) = Some (y, w)"
    by (rule scan_two_name) (use y w in \<open>simp_all add: in_int64_def is_digit_def byte_def\<close>)
  have st: "isoWeekStart y w = period_at g i"
    using isoWeekStart_inverse [of i] by (simp add: yw pstart_def GranularityWeek)
  have rng: "\<not> (w < 1 \<or> 53 < w)" using w by linarith
  show ?thesis
    unfolding boundFromName_def Let_def GranularityWeek [symmetric] n
    by (simp only: GranularityWeek Granularity.case sc option.case prod.case rng if_False)
       (simp only: st [unfolded GranularityWeek] n [unfolded GranularityWeek] addPeriod_eq refl not_True_eq_False if_False)
qed

end
