(* ===== verification/MetricSchema.thy ===== *)
theory MetricSchema
  imports Partition "HOL-Library.List_Lexorder"
begin

text \<open>
  The columns of the metric tables: the column definitions of \<open>src/uni_core/internal/repository/device_metric_schema.go\<close> as
  text, the parser that reads the names of the columns back from it, and the lists of columns of
  \<open>device_metric.go\<close> that writes and queries use. A line of a definition begins with a line feed and a tab.
\<close>

section \<open>Column definitions\<close>

definition ddl_lines :: "string list \<Rightarrow> string" where
  "ddl_lines ls = join_sep '','' (map (\<lambda>l. char_of (10::nat) # char_of (9::nat) # l) ls)"

definition MetricTables :: "string list" where
  "MetricTables =
     [''device_metric_5m'', ''device_metric_1h'', ''device_metric_disk'', ''device_metric_diskio'',
      ''device_metric_nic'', ''device_metric_sensor'']"

definition wide_ddl :: "string list" where
  "wide_ddl =
    [''device_id BIGINT NOT NULL'', ''bucket_ts BIGINT NOT NULL'', ''cpu_used_percent DOUBLE PRECISION'',
     ''cpu_iowait DOUBLE PRECISION'', ''load1 DOUBLE PRECISION'', ''load5 DOUBLE PRECISION'',
     ''load15 DOUBLE PRECISION'', ''mem_used_percent DOUBLE PRECISION'', ''mem_used_mb DOUBLE PRECISION'',
     ''mem_available_mb DOUBLE PRECISION'', ''swap_used_percent DOUBLE PRECISION'',
     ''swap_used_mb DOUBLE PRECISION'', ''tcp_total BIGINT'', ''tcp_established BIGINT'',
     ''tcp_listen BIGINT'', ''tcp_time_wait BIGINT'', ''tcp_close_wait BIGINT'', ''udp_total BIGINT'',
     ''proc_count BIGINT'', ''uptime_sec BIGINT'', ''samples INT NOT NULL'',
     ''disk_total_gb DOUBLE PRECISION'', ''disk_used_gb DOUBLE PRECISION'',
     ''disk_used_percent DOUBLE PRECISION'', ''disk_io_read_bytes_sec DOUBLE PRECISION'',
     ''disk_io_write_bytes_sec DOUBLE PRECISION'', ''disk_io_read_ops_sec DOUBLE PRECISION'',
     ''disk_io_write_ops_sec DOUBLE PRECISION'', ''nic_rx_bytes_sec DOUBLE PRECISION'',
     ''nic_tx_bytes_sec DOUBLE PRECISION'', ''nic_rx_packets_sec DOUBLE PRECISION'',
     ''nic_tx_packets_sec DOUBLE PRECISION'', ''nic_rx_errors_sec DOUBLE PRECISION'',
     ''nic_tx_errors_sec DOUBLE PRECISION'', ''nic_rx_dropped_sec DOUBLE PRECISION'',
     ''max_temperature_c DOUBLE PRECISION'', ''agent_collect_duration_ms DOUBLE PRECISION'',
     ''agent_report_success_count BIGINT'', ''agent_report_error_count BIGINT'',
     ''agent_ws_reconnect_count BIGINT'', ''agent_last_report_error VARCHAR(1024)'',
     ''agent_mem_resident_mb DOUBLE PRECISION'', ''agent_pending_backlog BIGINT'',
     ''agent_last_report_latency_ms DOUBLE PRECISION'', ''agent_report_drop_count BIGINT'',
     ''agent_uptime_sec BIGINT'', ''PRIMARY KEY (device_id, bucket_ts)'']"

definition disk_ddl :: "string list" where
  "disk_ddl =
    [''resource_id BIGINT NOT NULL'', ''bucket_ts BIGINT NOT NULL'', ''used_percent DOUBLE PRECISION'',
     ''used_gb DOUBLE PRECISION'', ''total_gb DOUBLE PRECISION'', ''inodes_used_percent DOUBLE PRECISION'',
     ''PRIMARY KEY (resource_id, bucket_ts)'']"

definition diskio_ddl :: "string list" where
  "diskio_ddl =
    [''resource_id BIGINT NOT NULL'', ''bucket_ts BIGINT NOT NULL'',
     ''read_bytes_per_sec DOUBLE PRECISION'', ''write_bytes_per_sec DOUBLE PRECISION'',
     ''read_ops_per_sec DOUBLE PRECISION'', ''write_ops_per_sec DOUBLE PRECISION'',
     ''io_time_percent DOUBLE PRECISION'', ''PRIMARY KEY (resource_id, bucket_ts)'']"

definition nic_ddl :: "string list" where
  "nic_ddl =
    [''resource_id BIGINT NOT NULL'', ''bucket_ts BIGINT NOT NULL'', ''rx_bytes_per_sec DOUBLE PRECISION'',
     ''tx_bytes_per_sec DOUBLE PRECISION'', ''rx_packets_per_sec DOUBLE PRECISION'',
     ''tx_packets_per_sec DOUBLE PRECISION'', ''rx_errors_per_sec DOUBLE PRECISION'',
     ''tx_errors_per_sec DOUBLE PRECISION'', ''rx_dropped_per_sec DOUBLE PRECISION'',
     ''PRIMARY KEY (resource_id, bucket_ts)'']"

definition sensor_ddl :: "string list" where
  "sensor_ddl =
    [''resource_id BIGINT NOT NULL'', ''bucket_ts BIGINT NOT NULL'', ''temperature_c DOUBLE PRECISION'',
     ''PRIMARY KEY (resource_id, bucket_ts)'']"

text \<open>The table of hours has the columns of the table of five minutes.\<close>
definition MetricColumnDDL :: "string \<Rightarrow> string option" where
  "MetricColumnDDL t =
     (if t = ''device_metric_5m'' \<or> t = ''device_metric_1h'' then Some (ddl_lines wide_ddl)
      else if t = ''device_metric_disk'' then Some (ddl_lines disk_ddl)
      else if t = ''device_metric_diskio'' then Some (ddl_lines diskio_ddl)
      else if t = ''device_metric_nic'' then Some (ddl_lines nic_ddl)
      else if t = ''device_metric_sensor'' then Some (ddl_lines sensor_ddl)
      else None)"

text \<open>\<open>strings.Fields\<close> of a trimmed text: its first word. The blanks of these texts are ASCII.\<close>
definition ascii_space :: "char \<Rightarrow> bool" where
  "ascii_space c \<longleftrightarrow> byte c \<in> {9, 10, 11, 12, 13, 32}"

definition first_field :: "string \<Rightarrow> string" where
  "first_field s = takeWhile (\<lambda>c. \<not> ascii_space c) (dropWhile ascii_space s)"

definition strip_quotes :: "string \<Rightarrow> string" where
  "strip_quotes s =
     (let q = (\<lambda>c. byte c = 96 \<or> byte c = 34) in rev (dropWhile q (rev (dropWhile q s))))"

text \<open>\<open>ddlColumnNameRe\<close>.\<close>
definition column_name :: "string \<Rightarrow> bool" where
  "column_name s \<longleftrightarrow> s \<noteq> [] \<and> list_all (\<lambda>c. is_lower c \<or> is_digit c \<or> byte c = 95) s"

definition parseDDLColumnNames :: "string \<Rightarrow> string list" where
  "parseDDLColumnNames ddl =
     filter column_name (map strip_quotes (filter (\<lambda>f. f \<noteq> []) (map first_field (split_on CHR '','' ddl))))"

section \<open>Lists of columns\<close>

definition wideValueColumns :: "string list" where
  "wideValueColumns =
    [''cpu_used_percent'', ''cpu_iowait'', ''load1'', ''load5'', ''load15'', ''mem_used_percent'',
     ''mem_used_mb'', ''mem_available_mb'', ''swap_used_percent'', ''swap_used_mb'', ''tcp_total'',
     ''tcp_established'', ''tcp_listen'', ''tcp_time_wait'', ''tcp_close_wait'', ''udp_total'',
     ''proc_count'', ''uptime_sec'', ''samples'', ''disk_total_gb'', ''disk_used_gb'',
     ''disk_used_percent'', ''disk_io_read_bytes_sec'', ''disk_io_write_bytes_sec'',
     ''disk_io_read_ops_sec'', ''disk_io_write_ops_sec'', ''nic_rx_bytes_sec'', ''nic_tx_bytes_sec'',
     ''nic_rx_packets_sec'', ''nic_tx_packets_sec'', ''nic_rx_errors_sec'', ''nic_tx_errors_sec'',
     ''nic_rx_dropped_sec'', ''max_temperature_c'', ''agent_collect_duration_ms'',
     ''agent_report_success_count'', ''agent_report_error_count'', ''agent_ws_reconnect_count'',
     ''agent_last_report_error'', ''agent_mem_resident_mb'', ''agent_pending_backlog'',
     ''agent_last_report_latency_ms'', ''agent_report_drop_count'', ''agent_uptime_sec'']"

definition subValueColumnsByTable :: "string \<Rightarrow> string list option" where
  "subValueColumnsByTable t =
     (if t = ''device_metric_disk'' then Some
        [''used_percent'', ''used_gb'', ''total_gb'', ''inodes_used_percent'']
      else if t = ''device_metric_diskio'' then Some
        [''read_bytes_per_sec'', ''write_bytes_per_sec'', ''read_ops_per_sec'', ''write_ops_per_sec'',
         ''io_time_percent'']
      else if t = ''device_metric_nic'' then Some
        [''rx_bytes_per_sec'', ''tx_bytes_per_sec'', ''rx_packets_per_sec'', ''tx_packets_per_sec'',
         ''rx_errors_per_sec'', ''tx_errors_per_sec'', ''rx_dropped_per_sec'']
      else if t = ''device_metric_sensor'' then Some
        [''temperature_c'']
      else None)"

text \<open>What a query may read from a table: the time and the columns of its definition.\<close>
definition metricQueryColumns :: "string \<Rightarrow> string list option" where
  "metricQueryColumns t =
     (if t \<in> set MetricTables
      then Some (''bucket_ts'' # (case MetricColumnDDL t of None \<Rightarrow> [] | Some ddl \<Rightarrow> parseDDLColumnNames ddl))
      else None)"

definition sanitizeColumns :: "string \<Rightarrow> string list \<Rightarrow> string list option" where
  "sanitizeColumns t columns =
     (case metricQueryColumns t of
        None \<Rightarrow> None
      | Some allowed \<Rightarrow>
          if columns = [] then Some [''bucket_ts'']
          else if list_all (\<lambda>c. c \<in> set allowed) columns then Some columns else None)"

definition aliasBucketTS :: "string list \<Rightarrow> string" where
  "aliasBucketTS cols =
     join_sep '', '' (map (\<lambda>c. if c = ''bucket_ts'' then ''bucket_ts AS t'' else c) cols)"

text \<open>All columns but the time, sorted.\<close>
definition MetricQueryColumns :: "string \<Rightarrow> string list option" where
  "MetricQueryColumns t = map_option (\<lambda>cs. sort (remdups (filter (\<lambda>c. c \<noteq> ''bucket_ts'') cs))) (metricQueryColumns t)"

section \<open>Definitions and lists agree\<close>

text \<open>The text is read line by line.\<close>
definition parse_line :: "string \<Rightarrow> string list" where
  "parse_line l = parseDDLColumnNames (char_of (10::nat) # char_of (9::nat) # l)"

lemma parse_lines:
  "ls \<noteq> [] \<Longrightarrow> list_all (\<lambda>l. CHR '','' \<notin> set l) (butlast ls) \<Longrightarrow>
     parseDDLColumnNames (ddl_lines ls) = concat (map parse_line ls)"
proof (induction ls rule: induct_list012)
  case (3 l l' ls)
  have "CHR '','' \<notin> set (char_of (10::nat) # char_of (9::nat) # l)" using 3 by (auto simp: char_of_def bit_0)
  from split_on_append [OF this, of "ddl_lines (l' # ls)"]
  have "parseDDLColumnNames (ddl_lines (l # l' # ls)) = parse_line l @ parseDDLColumnNames (ddl_lines (l' # ls))"
    unfolding parse_line_def parseDDLColumnNames_def
    by (simp add: ddl_lines_def split_on_no_sep [OF \<open>CHR '','' \<notin> set (char_of (10::nat) # char_of (9::nat) # l)\<close>, simplified])
  then show ?case using 3 by simp
qed (simp_all add: ddl_lines_def parse_line_def)

definition first_word :: "string \<Rightarrow> string" where
  "first_word l = takeWhile (\<lambda>c. c \<noteq> CHR '' '') l"

lemma column_char:
  assumes "column_name s" "c \<in> set s"
  shows "\<not> ascii_space c" "byte c \<noteq> 96" "byte c \<noteq> 34"
  using assms by (auto simp: column_name_def list_all_iff is_lower_def is_digit_def ascii_space_def)

lemma parse_line_name:
  assumes comma: "CHR '','' \<notin> set l" and name: "column_name (first_word l)"
  shows "parse_line l = [first_word l]"
proof -
  obtain r where l: "l = first_word l @ r" and r: "r = [] \<or> hd r = CHR '' ''"
  proof
    show "l = first_word l @ dropWhile (\<lambda>c. c \<noteq> CHR '' '') l" by (simp add: first_word_def)
    show "dropWhile (\<lambda>c. c \<noteq> CHR '' '') l = [] \<or> hd (dropWhile (\<lambda>c. c \<noteq> CHR '' '') l) = CHR '' ''"
      using hd_dropWhile [of "\<lambda>c. c \<noteq> CHR '' ''" l] by blast
  qed
  have sp: "ascii_space (char_of (10::nat))" "ascii_space (char_of (9::nat))" "ascii_space CHR '' ''"
    by (simp_all add: ascii_space_def byte_def)
  have hd: "\<not> ascii_space (hd (first_word l))" "first_word l \<noteq> []"
    using name column_char(1) [OF name, of "hd (first_word l)"] by (simp_all add: column_name_def)
  have "first_field (char_of (10::nat) # char_of (9::nat) # l) = takeWhile (\<lambda>c. \<not> ascii_space c) (first_word l @ r)"
    using hd by (subst l) (cases "first_word l", auto simp: first_field_def sp)
  also have "\<dots> = first_word l"
    using column_char(1) [OF name] r sp(3) by (cases r) (auto simp: takeWhile_append)
  finally have ff: "first_field (char_of (10::nat) # char_of (9::nat) # l) = first_word l" .
  have "dropWhile (\<lambda>c. byte c = 96 \<or> byte c = 34) s = s" if "set s = set (first_word l)" for s
    using that column_char(2,3) [OF name] by (cases s) auto
  then have "strip_quotes (first_word l) = first_word l" by (simp add: strip_quotes_def Let_def)
  moreover have "split_on CHR '','' (char_of (10::nat) # char_of (9::nat) # l) = [char_of (10::nat) # char_of (9::nat) # l]"
    using comma by (intro split_on_no_sep) (auto simp: char_of_def bit_0)
  ultimately show ?thesis using ff hd(2) name by (simp add: parse_line_def parseDDLColumnNames_def)
qed

lemma parse_table:
  assumes "list_all (\<lambda>l. CHR '','' \<notin> set l) ls" "list_all column_name (map first_word ls)" "parse_line key = []"
  shows "parseDDLColumnNames (ddl_lines (ls @ [key])) = map first_word ls"
proof -
  have "concat (map parse_line ls) = map first_word ls"
    using assms(1,2) by (induction ls) (auto simp: parse_line_name)
  then show ?thesis using assms by (subst parse_lines) (simp_all add: butlast_append)
qed

lemma wide_words: "map first_word (butlast wide_ddl) = ''device_id'' # ''bucket_ts'' # wideValueColumns"
  by code_simp

lemma wide_commas: "list_all (\<lambda>l. CHR '','' \<notin> set l) (butlast wide_ddl)"
  by code_simp

lemma wide_names: "list_all column_name (''device_id'' # ''bucket_ts'' # wideValueColumns)"
  by (simp add: wideValueColumns_def column_name_def is_lower_def is_digit_def byte_def)

lemma key_lines:
  "parse_line ''PRIMARY KEY (device_id, bucket_ts)'' = []" "parse_line ''PRIMARY KEY (resource_id, bucket_ts)'' = []"
  by code_simp+

lemma parse_wide: "parseDDLColumnNames (ddl_lines wide_ddl) = ''device_id'' # ''bucket_ts'' # wideValueColumns"
proof -
  have "wide_ddl = butlast wide_ddl @ [''PRIMARY KEY (device_id, bucket_ts)'']" by (simp add: wide_ddl_def)
  then show ?thesis using parse_table [OF wide_commas _ key_lines(1)] wide_names by (simp add: wide_words)
qed

lemma sub_words:
  "map first_word (butlast disk_ddl) = ''resource_id'' # ''bucket_ts'' # the (subValueColumnsByTable ''device_metric_disk'')"
  "map first_word (butlast diskio_ddl) = ''resource_id'' # ''bucket_ts'' # the (subValueColumnsByTable ''device_metric_diskio'')"
  "map first_word (butlast nic_ddl) = ''resource_id'' # ''bucket_ts'' # the (subValueColumnsByTable ''device_metric_nic'')"
  "map first_word (butlast sensor_ddl) = ''resource_id'' # ''bucket_ts'' # the (subValueColumnsByTable ''device_metric_sensor'')"
  by code_simp+

lemma sub_commas:
  "list_all (\<lambda>l. CHR '','' \<notin> set l) (butlast disk_ddl)" "list_all (\<lambda>l. CHR '','' \<notin> set l) (butlast diskio_ddl)"
  "list_all (\<lambda>l. CHR '','' \<notin> set l) (butlast nic_ddl)" "list_all (\<lambda>l. CHR '','' \<notin> set l) (butlast sensor_ddl)"
  by code_simp+

lemma sub_names:
  "list_all column_name (''resource_id'' # ''bucket_ts'' # the (subValueColumnsByTable ''device_metric_disk''))"
  "list_all column_name (''resource_id'' # ''bucket_ts'' # the (subValueColumnsByTable ''device_metric_diskio''))"
  "list_all column_name (''resource_id'' # ''bucket_ts'' # the (subValueColumnsByTable ''device_metric_nic''))"
  "list_all column_name (''resource_id'' # ''bucket_ts'' # the (subValueColumnsByTable ''device_metric_sensor''))"
  by (simp_all add: subValueColumnsByTable_def column_name_def is_lower_def is_digit_def byte_def)

lemma parse_sub:
  assumes "ls = butlast ls @ [''PRIMARY KEY (resource_id, bucket_ts)'']"
    and "map first_word (butlast ls) = cs" "list_all (\<lambda>l. CHR '','' \<notin> set l) (butlast ls)" "list_all column_name cs"
  shows "parseDDLColumnNames (ddl_lines ls) = cs"
  by (subst assms(1)) (use assms(2-4) in \<open>simp add: parse_table key_lines\<close>)

text \<open>What the tables are made with, read back from the text, is what a write overwrites on a conflict,
  after the two columns of the key: no column keeps an old value.\<close>
theorem schema_columns_agree:
  "map_option parseDDLColumnNames (MetricColumnDDL ''device_metric_5m'') = Some (''device_id'' # ''bucket_ts'' # wideValueColumns)
   \<and> MetricColumnDDL ''device_metric_1h'' = MetricColumnDDL ''device_metric_5m''
   \<and> list_all (\<lambda>t. map_option parseDDLColumnNames (MetricColumnDDL t) =
         map_option (\<lambda>cs. ''resource_id'' # ''bucket_ts'' # cs) (subValueColumnsByTable t))
       [''device_metric_disk'', ''device_metric_diskio'', ''device_metric_nic'', ''device_metric_sensor'']"
proof -
  have "parseDDLColumnNames (ddl_lines disk_ddl) = ''resource_id'' # ''bucket_ts'' # the (subValueColumnsByTable ''device_metric_disk'')"
    by (rule parse_sub [OF _ sub_words(1) sub_commas(1) sub_names(1)]) (simp add: disk_ddl_def)
  moreover have "parseDDLColumnNames (ddl_lines diskio_ddl) = ''resource_id'' # ''bucket_ts'' # the (subValueColumnsByTable ''device_metric_diskio'')"
    by (rule parse_sub [OF _ sub_words(2) sub_commas(2) sub_names(2)]) (simp add: diskio_ddl_def)
  moreover have "parseDDLColumnNames (ddl_lines nic_ddl) = ''resource_id'' # ''bucket_ts'' # the (subValueColumnsByTable ''device_metric_nic'')"
    by (rule parse_sub [OF _ sub_words(3) sub_commas(3) sub_names(3)]) (simp add: nic_ddl_def)
  moreover have "parseDDLColumnNames (ddl_lines sensor_ddl) = ''resource_id'' # ''bucket_ts'' # the (subValueColumnsByTable ''device_metric_sensor'')"
    by (rule parse_sub [OF _ sub_words(4) sub_commas(4) sub_names(4)]) (simp add: sensor_ddl_def)
  ultimately show ?thesis by (simp add: MetricColumnDDL_def parse_wide subValueColumnsByTable_def)
qed

lemma column_name_bucket: "column_name ''bucket_ts''"
  by code_simp

lemma parsed_column_names: "c \<in> set (parseDDLColumnNames ddl) \<Longrightarrow> column_name c"
  by (simp add: parseDDLColumnNames_def)

lemma sanitized_names:
  assumes "sanitizeColumns t cols = Some out"
  shows "list_all column_name out" and "out = cols \<or> (cols = [] \<and> out = [''bucket_ts''])"
proof -
  obtain allowed where al: "metricQueryColumns t = Some allowed"
    and out: "(if cols = [] then Some [''bucket_ts''] else if list_all (\<lambda>c. c \<in> set allowed) cols then Some cols else None) = Some out"
    using assms by (auto simp: sanitizeColumns_def split: option.splits)
  obtain rest where rest: "allowed = ''bucket_ts'' # rest" "rest = [] \<or> (\<exists>ddl. rest = parseDDLColumnNames ddl)"
    using al by (cases "MetricColumnDDL t") (force simp: metricQueryColumns_def split: if_splits)+
  then have "column_name c" if "c \<in> set allowed" for c
    using that parsed_column_names column_name_bucket by auto
  then show "list_all column_name out"
    using out column_name_bucket by (auto simp: list_all_iff split: if_splits)
  show "out = cols \<or> (cols = [] \<and> out = [''bucket_ts''])" using out by (auto split: if_splits)
qed

end
