(* ===== verification/PartitionProps.thy ===== *)
theory PartitionProps
  imports Partition
begin

text \<open>
  What the partition planner guarantees: names and bounds determine each other, the wanted partitions
  tile the time line around now, a table in the wanted state has nothing to do, and exactly the
  partitions that only hold rows beyond the retention are reclaimed. The last part shows that the
  reclamation itself does not settle: the oldest partitions are truncated again by every later plan.
\<close>

section \<open>Bounds from names\<close>

definition pbound :: "Granularity \<Rightarrow> int \<Rightarrow> Bound" where
  "pbound g i =
     \<lparr>bd_name = PartitionName (period_at g i) g, bd_lower = Unix (period_at g i), bd_upper = Unix (period_at g (i + 1))\<rparr>"

lemma pbound_sel [simp]:
  "bd_name (pbound g i) = PartitionName (period_at g i) g" "bd_lower (pbound g i) = 86400 * pstart g i"
  "bd_upper (pbound g i) = 86400 * pstart g (i + 1)"
  by (simp_all add: pbound_def Unix_at_day)

lemma boundFromName_pbound: "in_era (pstart g i) \<Longrightarrow> boundFromName (bd_name (pbound g i)) g = Some (pbound g i)"
  by (simp add: boundFromName_period pbound_def)

lemma boundFromName_Some:
  assumes "boundFromName name g = Some b"
  shows "\<exists>i. name = bd_name (pbound g i) \<and> b = pbound g i"
proof -
  have week: "\<exists>i. isoWeekStart y w = period_at GranularityWeek i" for y w
  proof (rule exI)
    show "isoWeekStart y w = period_at GranularityWeek (week_index (go_Date y 1 4) + (w - 1))"
      by (simp add: isoWeekStart_def AddDate_days monday_offset pstart_def Let_def) (simp add: sow_def algebra_simps)
  qed
  have month: "at_day (go_Date y m 1) = period_at GranularityMonth (12 * y + (m - 1))" for y m
    by (simp add: go_Date_som pstart_def)
  obtain s where s: "PartitionName s g = name" "b = \<lparr>bd_name = name, bd_lower = Unix s, bd_upper = Unix (addPeriod s g 1)\<rparr>"
    and p: "\<exists>i. s = period_at g i"
    using assms week month
    by (cases g) (force simp: boundFromName_def Let_def split: option.splits prod.splits if_splits)+
  then obtain i where "s = period_at g i" by blast
  then show ?thesis using s by (intro exI [of _ i]) (auto simp: pbound_def addPeriod_eq)
qed

lemma boundFromName_name: "boundFromName name g = Some b \<Longrightarrow> bd_name b = name"
  using boundFromName_Some by fastforce

lemma scan_reserved:
  "scan_two ''p_'' l2 GuardPartitionName = None" "scan_two ''p_'' l2 SentinelPartitionName = None"
  by (simp_all add: scan_two_def GuardPartitionName_def SentinelPartitionName_def scan_int_def scan_blank_def
      is_digit_def byte_def)

lemma boundFromName_reserved [simp]:
  "boundFromName GuardPartitionName g = None" "boundFromName SentinelPartitionName g = None"
  by (cases g; simp add: boundFromName_def scan_reserved)+

lemma reserved_differ: "GuardPartitionName \<noteq> SentinelPartitionName"
  by (simp add: GuardPartitionName_def SentinelPartitionName_def)

lemma pbound_not_reserved:
  assumes "in_era (pstart g i)"
  shows "bd_name (pbound g i) \<noteq> GuardPartitionName" "bd_name (pbound g i) \<noteq> SentinelPartitionName"
proof -
  have "boundFromName (bd_name (pbound g i)) g \<noteq> None" using assms by (simp only: boundFromName_pbound) simp
  then show "bd_name (pbound g i) \<noteq> GuardPartitionName" "bd_name (pbound g i) \<noteq> SentinelPartitionName"
    by (metis boundFromName_reserved)+
qed

lemma pbound_name_inject:
  assumes "in_era (pstart g i)" "in_era (pstart g j)"
  shows "bd_name (pbound g i) = bd_name (pbound g j) \<longleftrightarrow> i = j"
proof
  assume "bd_name (pbound g i) = bd_name (pbound g j)"
  then have "pbound g i = pbound g j"
    using boundFromName_pbound [OF assms(1)] boundFromName_pbound [OF assms(2)] by simp
  then have "bd_lower (pbound g i) = bd_lower (pbound g j)" by (rule arg_cong)
  then show "i = j" by simp
qed simp

section \<open>The wanted partitions\<close>

lemma periods_eq: "periods g (period_at g a) (period_at g b) = map (pbound g) [a..b - 1]"
proof (induction "nat (b - a)" arbitrary: a)
  case 0
  then show ?case by (simp add: periods.simps)
next
  case (Suc n)
  then have "a < b" by simp
  moreover have "periods g (period_at g (a + 1)) (period_at g b) = map (pbound g) [a + 1..b - 1]"
    using Suc by (intro Suc(1)) simp
  ultimately show ?case
    by (subst periods.simps) (simp add: addPeriod_eq Let_def pbound_def upto_rec1)
qed

definition ahead :: "int \<Rightarrow> int" where "ahead horizon = (if horizon < 1 then 1 else horizon)"

lemma Desired_eq:
  "Desired spec now horizon =
     (let g = sp_granularity spec; a = period_of g (now - sp_retention spec); b = period_of g now + ahead horizon
      in \<lparr>bd_name = GuardPartitionName, bd_lower = 0, bd_upper = 86400 * pstart g a\<rparr>
         # map (pbound g) [a..b - 1]
         @ [\<lparr>bd_name = SentinelPartitionName, bd_lower = 86400 * pstart g b, bd_upper = MaxInt64\<rparr>])"
  by (simp add: Desired_def periodStart_eq addPeriod_eq periods_eq Let_def Unix_at_day ahead_def)

text \<open>The times the planner is used at: the retention ends after January 1970, and the wanted partitions
  end within the range of an int64.\<close>
definition plannable :: "Spec \<Rightarrow> instant \<Rightarrow> int \<Rightarrow> bool" where
  "plannable spec now horizon \<longleftrightarrow>
     0 \<le> sp_retention spec \<and> 31 * day_ns \<le> now - sp_retention spec \<and> now \<le> 2 ^ 62 * nsec \<and> horizon \<le> 2 ^ 30"

lemma pstart_step: "pstart g (i + 1) \<le> pstart g i + 31"
  using som_step(2) [of i] by (cases g) (simp_all add: pstart_def sow_def)

lemma pstart_add: "pstart g (i + int k) \<le> pstart g i + 31 * int k"
proof (induction k)
  case (Suc k)
  then show ?case using pstart_step [of g "i + int k"] by (simp add: algebra_simps)
qed simp

lemma pstart_add_le: "0 \<le> k \<Longrightarrow> pstart g (i + k) \<le> pstart g i + 31 * k"
  using pstart_add [of g i "nat k"] by simp

lemma window_order:
  assumes ok: "plannable spec now horizon" and g: "g = sp_granularity spec"
    and a: "a = period_of g (now - sp_retention spec)" and b: "b = period_of g now + ahead horizon"
  shows "a < b" "a \<le> period_of g now" "period_of g now < b"
proof -
  show "a \<le> period_of g now" unfolding a by (rule period_mono) (use ok in \<open>simp add: plannable_def\<close>)
  moreover show "period_of g now < b" by (simp add: b ahead_def)
  ultimately show "a < b" by simp
qed

lemma window_low:
  assumes ok: "plannable spec now horizon" and g: "g = sp_granularity spec"
    and a: "a = period_of g (now - sp_retention spec)" and b: "b = period_of g now + ahead horizon"
  shows "1 \<le> pstart g a"
proof -
  have "31 \<le> day_number (now - sp_retention spec)"
    using ok zdiv_mono1 [of "31 * day_ns" "now - sp_retention spec" day_ns]
    by (simp add: plannable_def day_number_def day_ns_def)
  then show ?thesis
    using period.index_high [of "day_number (now - sp_retention spec)" g] pstart_step [of g a] by (simp add: a)
qed

lemma window_high:
  assumes ok: "plannable spec now horizon" and g: "g = sp_granularity spec"
    and a: "a = period_of g (now - sp_retention spec)" and b: "b = period_of g now + ahead horizon"
  shows "pstart g b \<le> 2 ^ 46"
proof -
  have "day_number now \<le> (2 ^ 62 * nsec) div day_ns"
    unfolding day_number_def by (rule zdiv_mono1) (use ok in \<open>simp_all add: plannable_def day_ns_def\<close>)
  then have "day_number now \<le> 53375995583650" by (simp add: day_ns_def nsec_def)
  moreover have "pstart g b \<le> pstart g (period_of g now) + 31 * ahead horizon"
    unfolding b by (rule pstart_add_le) (simp add: ahead_def)
  moreover have "ahead horizon \<le> 2 ^ 30" using ok by (simp add: plannable_def ahead_def)
  ultimately show ?thesis using period.index_low [of g "day_number now"] by simp
qed

lemma window_era:
  assumes ok: "plannable spec now horizon" and g: "g = sp_granularity spec"
    and a: "a = period_of g (now - sp_retention spec)" and b: "b = period_of g now + ahead horizon"
  shows "a \<le> i \<Longrightarrow> i \<le> b \<Longrightarrow> in_era (pstart g i)"
proof -
  assume "a \<le> i" "i \<le> b"
  then have "pstart g a \<le> pstart g i" "pstart g i \<le> pstart g b" by (simp_all only: period.start_le_iff)
  then show ?thesis using window_low [OF ok g a b] window_high [OF ok g a b] by (simp add: in_era_def abs_le_iff del: period.start_le_iff)
qed

lemma Desired_window:
  assumes ok: "plannable spec now horizon" and g: "g = sp_granularity spec"
    and a: "a = period_of g (now - sp_retention spec)" and b: "b = period_of g now + ahead horizon"
  shows "Desired spec now horizon =
     \<lparr>bd_name = GuardPartitionName, bd_lower = 0, bd_upper = 86400 * pstart g a\<rparr>
     # map (pbound g) [a..b - 1]
     @ [\<lparr>bd_name = SentinelPartitionName, bd_lower = 86400 * pstart g b, bd_upper = MaxInt64\<rparr>]"
  by (simp only: Desired_eq Let_def g a b)

lemma window_names:
  assumes ok: "plannable spec now horizon" and g: "g = sp_granularity spec"
    and a: "a = period_of g (now - sp_retention spec)" and b: "b = period_of g now + ahead horizon"
  shows "distinct (map bd_name (Desired spec now horizon))"
proof -
  have inj: "inj_on (\<lambda>i. bd_name (pbound g i)) {a..b - 1}"
    using window_era [OF ok g a b] by (intro inj_onI) (simp add: pbound_name_inject del: pbound_sel)
  have "distinct (map (\<lambda>i. bd_name (pbound g i)) [a..b - 1])"
    using inj by (simp add: distinct_map del: pbound_sel)
  moreover have *: "bd_name (pbound g i) \<noteq> GuardPartitionName \<and> bd_name (pbound g i) \<noteq> SentinelPartitionName"
    if "i \<in> {a..b - 1}" for i
    using pbound_not_reserved [OF window_era [OF ok g a b, of i]] that by simp
  from * have "GuardPartitionName \<notin> (\<lambda>i. bd_name (pbound g i)) ` {a..b - 1}"
    "SentinelPartitionName \<notin> (\<lambda>i. bd_name (pbound g i)) ` {a..b - 1}"
    by (metis imageE)+
  ultimately show ?thesis
    unfolding Desired_window [OF ok g a b] by (simp add: comp_def reserved_differ del: pbound_sel)
qed

text \<open>The wanted partition a name stands for is the one the name itself gives.\<close>
lemma wanted_lookup:
  assumes ok: "plannable spec now horizon" and g: "g = sp_granularity spec"
    and a: "a = period_of g (now - sp_retention spec)" and b: "b = period_of g now + ahead horizon"
    and n: "name \<noteq> GuardPartitionName" "name \<noteq> SentinelPartitionName"
  shows "map_of (rev (map (\<lambda>b. (bd_name b, b)) (Desired spec now horizon))) name =
    (if name \<in> bd_name ` set (Desired spec now horizon) then boundFromName name g else None)"
proof (cases "name \<in> bd_name ` set (Desired spec now horizon)")
  case True
  let ?m = "rev (map (\<lambda>b. (bd_name b, b)) (Desired spec now horizon))"
  have "name \<in> (\<lambda>i. bd_name (pbound g i)) ` {a..b - 1}"
    using True n by (auto simp: Desired_window [OF ok g a b] simp del: pbound_sel)
  then obtain i where i: "i \<in> {a..b - 1}" "name = bd_name (pbound g i)" by blast
  then have "pbound g i \<in> set (Desired spec now horizon)" by (simp add: Desired_window [OF ok g a b])
  then have "(name, pbound g i) \<in> set ?m" using i(2) by (force simp del: pbound_sel)
  moreover have "distinct (map fst ?m)" using window_names [OF ok g a b] by (simp add: rev_map [symmetric] comp_def)
  ultimately have "map_of ?m name = Some (pbound g i)" by (simp only: map_of_is_SomeI)
  moreover have "boundFromName name g = Some (pbound g i)"
    unfolding i(2) by (rule boundFromName_pbound) (use window_era [OF ok g a b, of i] i(1) in simp)
  ultimately show ?thesis using True by simp
next
  case False
  then have "name \<notin> fst ` set (rev (map (\<lambda>b. (bd_name b, b)) (Desired spec now horizon)))"
    by (force simp: image_iff)
  then have "map_of (rev (map (\<lambda>b. (bd_name b, b)) (Desired spec now horizon))) name = None"
    by (simp only: map_of_eq_None_iff not_False_eq_True)
  then show ?thesis by (simp only: False if_False)
qed

lemma expired_bound_eq:
  assumes ok: "plannable spec now horizon" and g: "g = sp_granularity spec"
    and a: "a = period_of g (now - sp_retention spec)" and b: "b = period_of g now + ahead horizon"
  shows "expired_bound spec (Desired spec now horizon) cutoff name =
     (case boundFromName name g of None \<Rightarrow> None | Some b \<Rightarrow> if bd_upper b * nsec \<le> cutoff then Some b else None)"
proof (cases "name = GuardPartitionName \<or> name = SentinelPartitionName")
  case True
  then show ?thesis by (auto simp: expired_bound_def)
next
  case False
  then have "map_of (rev (map (\<lambda>b. (bd_name b, b)) (Desired spec now horizon))) name =
      (if name \<in> bd_name ` set (Desired spec now horizon) then boundFromName name g else None)"
    by (intro wanted_lookup [OF ok g a b]) simp_all
  then show ?thesis
    using False by (simp add: expired_bound_def g split: option.splits)
qed

lemma wanted_alive:
  assumes ok: "plannable spec now horizon" and g: "g = sp_granularity spec"
    and a: "a = period_of g (now - sp_retention spec)" and b: "b = period_of g now + ahead horizon"
    and "bd \<in> set (Desired spec now horizon)" "boundFromName (bd_name bd) g = Some b'"
  shows "now - sp_retention spec < bd_upper b' * nsec"
proof -
  have "bd_name bd \<in> (\<lambda>i. bd_name (pbound g i)) ` {a..b - 1}"
    using assms by (auto simp: Desired_window [OF ok g a b] simp del: pbound_sel)
  then obtain i where i: "i \<in> {a..b - 1}" "bd_name bd = bd_name (pbound g i)" by blast
  then have "b' = pbound g i"
    using \<open>boundFromName (bd_name bd) g = Some b'\<close> boundFromName_pbound [OF window_era [OF ok g a b, of i]] by (simp del: pbound_sel)
  then have "bd_upper b' * nsec = period_at g (i + 1)" by (simp add: at_day_def day_ns_def nsec_def)
  moreover have "now - sp_retention spec < period_at g (a + 1)" unfolding a by (rule period_holds)
  moreover have "period_at g (a + 1) \<le> period_at g (i + 1)" using i(1) by simp
  ultimately show ?thesis by linarith
qed

section \<open>Plans\<close>

text \<open>The bound of a name whose rows are all beyond the retention.\<close>
definition old_bound :: "Spec \<Rightarrow> instant \<Rightarrow> string \<Rightarrow> Bound option" where
  "old_bound spec now n =
     (case boundFromName n (sp_granularity spec) of
        None \<Rightarrow> None | Some b \<Rightarrow> if bd_upper b * nsec \<le> now - sp_retention spec then Some b else None)"

definition expired_list :: "Spec \<Rightarrow> instant \<Rightarrow> string list \<Rightarrow> Bound list" where
  "expired_list spec now existing = sort_key bd_upper (List.map_filter (old_bound spec now) existing)"

lemma PlanFrom_eq:
  assumes "plannable spec now horizon"
  shows "PlanFrom spec existing now horizon hold =
    \<lparr>pl_create = filter (\<lambda>b. bd_name b \<notin> set existing) (Desired spec now horizon),
     pl_truncate = map bd_name (take (nat hold) (expired_list spec now existing)),
     pl_drop = map bd_name (drop (nat hold) (expired_list spec now existing))\<rparr>"
proof -
  have "expired_bound spec (Desired spec now horizon) (now - sp_retention spec) = old_bound spec now"
    unfolding old_bound_def by (rule ext) (rule expired_bound_eq [OF assms refl refl refl])
  then show ?thesis by (simp add: PlanFrom_def expired_list_def Let_def)
qed

lemma old_bound_Some:
  "old_bound spec now n = Some b \<longleftrightarrow>
     boundFromName n (sp_granularity spec) = Some b \<and> bd_upper b * nsec \<le> now - sp_retention spec"
  by (auto simp: old_bound_def split: option.splits)

lemma old_bound_name: "old_bound spec now n = Some b \<Longrightarrow> bd_name b = n"
  by (auto simp: old_bound_Some boundFromName_name)

lemma map_filter_mem: "y \<in> set (List.map_filter f xs) \<longleftrightarrow> (\<exists>x\<in>set xs. f x = Some y)"
  by (induction xs) (auto simp: map_filter_simps split: option.splits)

lemma expired_list_set:
  "b \<in> set (expired_list spec now existing) \<longleftrightarrow> bd_name b \<in> set existing \<and> old_bound spec now (bd_name b) = Some b"
proof -
  have "b \<in> set (expired_list spec now existing) \<longleftrightarrow> (\<exists>n\<in>set existing. old_bound spec now n = Some b)"
    by (simp add: expired_list_def map_filter_mem)
  then show ?thesis using old_bound_name by blast
qed

lemma expired_names:
  "bd_name ` set (expired_list spec now existing) = {n \<in> set existing. old_bound spec now n \<noteq> None}"
  using old_bound_name by (force simp: expired_list_set)

lemma expired_list_length:
  "length (expired_list spec now existing) = length (filter
     (\<lambda>n. \<exists>b. boundFromName n (sp_granularity spec) = Some b \<and> bd_upper b * nsec \<le> now - sp_retention spec) existing)"
proof -
  have "length (List.map_filter (old_bound spec now) existing) = length (filter (\<lambda>n. old_bound spec now n \<noteq> None) existing)"
    by (simp add: List.map_filter_def)
  moreover have "(old_bound spec now n \<noteq> None) =
      (\<exists>b. boundFromName n (sp_granularity spec) = Some b \<and> bd_upper b * nsec \<le> now - sp_retention spec)" for n
    by (auto simp: old_bound_Some)
  ultimately show ?thesis by (simp add: expired_list_def)
qed

section \<open>Properties of the planner\<close>

text \<open>Consecutive bounds from one second to another.\<close>
fun tiles :: "int \<Rightarrow> Bound list \<Rightarrow> int \<Rightarrow> bool" where
  "tiles lo [] hi \<longleftrightarrow> lo = hi"
| "tiles lo (b # bs) hi \<longleftrightarrow> bd_lower b = lo \<and> lo < bd_upper b \<and> tiles (bd_upper b) bs hi"

lemma tiles_append: "tiles lo (xs @ ys) hi \<longleftrightarrow> (\<exists>m. tiles lo xs m \<and> tiles m ys hi)"
  by (induction xs arbitrary: lo) auto

lemma tiles_pbounds: "a \<le> b \<Longrightarrow> tiles (86400 * pstart g a) (map (pbound g) [a..b - 1]) (86400 * pstart g b)"
proof (induction "nat (b - a)" arbitrary: a)
  case 0
  then show ?case by simp
next
  case (Suc n)
  then have "a < b" by simp
  moreover have "tiles (86400 * pstart g (a + 1)) (map (pbound g) [a + 1..b - 1]) (86400 * pstart g b)"
    using Suc by (intro Suc(1)) simp_all
  ultimately show ?case by (simp add: upto_rec1)
qed

lemma plannable_window:
  assumes "plannable spec now horizon"
  obtains g a b where "g = sp_granularity spec" "a = period_of g (now - sp_retention spec)"
    "b = period_of g now + ahead horizon"
  by blast

text \<open>C34: the partitions a table should have divide the time line from 1970 without gap and overlap, under names
  that differ. Between the guard and the sentinel each is a whole week or month, whose name determines
  it; together these hold every second from the end of the retention to the end of the horizon.\<close>
theorem wanted_partitions_tile:
  assumes "plannable spec now horizon"
  shows "tiles 0 (Desired spec now horizon) MaxInt64 \<and> distinct (map bd_name (Desired spec now horizon))
    \<and> list_all (\<lambda>b. boundFromName (bd_name b) (sp_granularity spec) = Some b) (butlast (tl (Desired spec now horizon)))
    \<and> (\<forall>ts. now - sp_retention spec \<le> ts * nsec
          \<and> ts * nsec < addPeriod (periodStart now (sp_granularity spec)) (sp_granularity spec) horizon
        \<longrightarrow> (\<exists>b\<in>set (butlast (tl (Desired spec now horizon))). bd_lower b \<le> ts \<and> ts < bd_upper b))"
proof -
  define g where "g = sp_granularity spec"
  define a where "a = period_of g (now - sp_retention spec)"
  define b where "b = period_of g now + ahead horizon"
  note win = assms g_def a_def b_def
  have mid: "butlast (tl (Desired spec now horizon)) = map (pbound g) [a..b - 1]"
    by (simp add: Desired_window [OF win] butlast_append)
  have "0 < pstart g a" "a \<le> b" "pstart g b \<le> 2 ^ 46"
    using window_low [OF win] window_order [OF win] window_high [OF win] by simp_all
  then have "tiles 0 (Desired spec now horizon) MaxInt64"
    using tiles_pbounds [where a = a and b = b and g = g] by (auto simp: Desired_window [OF win] tiles_append MaxInt64_def)
  moreover have "list_all (\<lambda>b. boundFromName (bd_name b) g = Some b) (map (pbound g) [a..b - 1])"
    using window_era [OF win] by (auto simp: list_all_iff boundFromName_pbound simp del: pbound_sel)
  moreover have "\<exists>d\<in>set (map (pbound g) [a..b - 1]). bd_lower d \<le> ts \<and> ts < bd_upper d"
    if ts: "now - sp_retention spec \<le> ts * nsec" "ts * nsec < addPeriod (periodStart now g) g horizon" for ts
  proof -
    define i where "i = period_of g (ts * nsec)"
    have "a \<le> i" unfolding a_def i_def by (rule period_mono) (rule ts)
    moreover have "period_at g i < period_at g b"
    proof -
      have "period_at g i \<le> ts * nsec" unfolding i_def by (rule period_holds)
      moreover have "period_at g (period_of g now + horizon) \<le> period_at g b" by (simp add: b_def ahead_def)
      ultimately show ?thesis using ts(2) by (simp only: periodStart_eq addPeriod_eq)
    qed
    moreover have "bd_lower (pbound g i) \<le> ts" "ts < bd_upper (pbound g i)"
      using period_holds [where g = g and t = "ts * nsec"] by (simp_all add: i_def at_day_def day_ns_def nsec_def)
    ultimately show ?thesis by (intro bexI [of _ "pbound g i"]) simp_all
  qed
  ultimately show ?thesis using window_names [OF win] by (simp only: mid g_def) blast
qed

text \<open>A table that has the wanted partitions, in any order, needs nothing.\<close>
theorem wanted_state_settled:
  assumes ok: "plannable spec now horizon" and same: "set existing = bd_name ` set (Desired spec now horizon)"
  shows "PlanFrom spec existing now horizon hold = \<lparr>pl_create = [], pl_truncate = [], pl_drop = []\<rparr>"
proof -
  have "old_bound spec now n = None" if n: "n \<in> set existing" for n
  proof (rule ccontr)
    assume "old_bound spec now n \<noteq> None"
    then obtain b' where b': "boundFromName n (sp_granularity spec) = Some b'" "bd_upper b' * nsec \<le> now - sp_retention spec"
      by (auto simp: old_bound_Some)
    obtain bd where "bd \<in> set (Desired spec now horizon)" "n = bd_name bd" using n same by auto
    then show False using wanted_alive [OF ok refl refl refl, of bd b'] b' by simp
  qed
  then have "b \<notin> set (expired_list spec now existing)" for b by (auto simp: expired_list_set)
  then have "expired_list spec now existing = []" by (cases "expired_list spec now existing") auto
  then show ?thesis using same by (auto simp: PlanFrom_eq [OF ok] filter_empty_conv)
qed

text \<open>C35: exactly the existing partitions that are named like a period and end before the retention begins are
  truncated or dropped. So the guard, the sentinel, foreign names and every wanted partition are kept and
  no second of the retention is lost. As many of them are truncated as the hold allows, and those are the oldest:
  none of them ends after one that is dropped.\<close>
theorem reclaim_exact:
  assumes "plannable spec now horizon"
  shows "set (pl_truncate (PlanFrom spec existing now horizon hold)) \<union> set (pl_drop (PlanFrom spec existing now horizon hold))
      = {n \<in> set existing. \<exists>b. boundFromName n (sp_granularity spec) = Some b \<and> bd_upper b * nsec \<le> now - sp_retention spec}
    \<and> bd_name ` set (Desired spec now horizon)
      \<inter> (set (pl_truncate (PlanFrom spec existing now horizon hold)) \<union> set (pl_drop (PlanFrom spec existing now horizon hold))) = {}
    \<and> length (pl_truncate (PlanFrom spec existing now horizon hold)) =
      min (nat hold) (length (filter
        (\<lambda>n. \<exists>b. boundFromName n (sp_granularity spec) = Some b \<and> bd_upper b * nsec \<le> now - sp_retention spec) existing))
    \<and> (\<forall>t\<in>set (pl_truncate (PlanFrom spec existing now horizon hold)).
        \<forall>d\<in>set (pl_drop (PlanFrom spec existing now horizon hold)).
          \<exists>bt bd. boundFromName t (sp_granularity spec) = Some bt \<and> boundFromName d (sp_granularity spec) = Some bd
            \<and> bd_upper bt \<le> bd_upper bd)"
proof -
  let ?p = "PlanFrom spec existing now horizon hold" and ?e = "expired_list spec now existing"
  have "set (pl_truncate ?p) \<union> set (pl_drop ?p) = bd_name ` (set (take (nat hold) ?e) \<union> set (drop (nat hold) ?e))"
    by (simp add: PlanFrom_eq [OF assms] image_Un)
  then have all: "set (pl_truncate ?p) \<union> set (pl_drop ?p) = {n \<in> set existing. old_bound spec now n \<noteq> None}"
    by (simp add: set_append [symmetric] expired_names del: set_append)
  then have A: "set (pl_truncate ?p) \<union> set (pl_drop ?p)
      = {n \<in> set existing. \<exists>b. boundFromName n (sp_granularity spec) = Some b \<and> bd_upper b * nsec \<le> now - sp_retention spec}"
    by (auto simp: old_bound_Some)
  have B: "bd_name ` set (Desired spec now horizon) \<inter> (set (pl_truncate ?p) \<union> set (pl_drop ?p)) = {}"
  proof (rule ccontr)
    assume "bd_name ` set (Desired spec now horizon) \<inter> (set (pl_truncate ?p) \<union> set (pl_drop ?p)) \<noteq> {}"
    then obtain bd b' where "bd \<in> set (Desired spec now horizon)" "old_bound spec now (bd_name bd) = Some b'"
      by (auto simp: all)
    then show False using wanted_alive [OF assms refl refl refl, of bd b'] by (simp add: old_bound_Some)
  qed
  have C: "length (pl_truncate ?p) = min (nat hold) (length (filter
      (\<lambda>n. \<exists>b. boundFromName n (sp_granularity spec) = Some b \<and> bd_upper b * nsec \<le> now - sp_retention spec) existing))"
    using expired_list_length [of spec now existing] by (simp add: PlanFrom_eq [OF assms] min.commute)
  have D: "\<exists>bt bd. boundFromName t (sp_granularity spec) = Some bt \<and> boundFromName d (sp_granularity spec) = Some bd
      \<and> bd_upper bt \<le> bd_upper bd" if t: "t \<in> set (pl_truncate ?p)" and d: "d \<in> set (pl_drop ?p)" for t d
  proof -
    obtain bt bd where b: "bt \<in> set (take (nat hold) ?e)" "t = bd_name bt" "bd \<in> set (drop (nat hold) ?e)" "d = bd_name bd"
      using t d by (auto simp: PlanFrom_eq [OF assms])
    have "sorted (map bd_upper (take (nat hold) ?e) @ map bd_upper (drop (nat hold) ?e))"
      unfolding map_append [symmetric] append_take_drop_id by (simp add: expired_list_def)
    then have "bd_upper bt \<le> bd_upper bd" using b by (auto simp: sorted_append)
    moreover have "old_bound spec now t = Some bt" "old_bound spec now d = Some bd"
      using in_set_takeD [OF b(1)] in_set_dropD [OF b(3)] b(2,4) by (simp_all add: expired_list_set)
    ultimately show ?thesis by (auto simp: old_bound_Some)
  qed
  show ?thesis by (intro conjI ballI A B C D)
qed

text \<open>How long a row of a partition that the plan keeps can have lived. For weekly tables \<open>WorstCaseRetention\<close>
  is a bound. For monthly tables it counts thirty days, and the first rows of a month of thirty-one days
  outlive it.\<close>
theorem worst_case_retention:
  shows "(\<forall>spec now horizon hold existing n b ts.
      plannable spec now horizon \<and> sp_granularity spec = GranularityWeek \<and> n \<in> set existing
      \<and> n \<notin> set (pl_truncate (PlanFrom spec existing now horizon hold)) \<union> set (pl_drop (PlanFrom spec existing now horizon hold))
      \<and> boundFromName n GranularityWeek = Some b \<and> bd_lower b \<le> ts
      \<longrightarrow> now - ts * nsec < WorstCaseRetention spec)
    \<and> (\<exists>now ts b. plannable (TableSpecs ! 1) now 3 \<and> boundFromName (bd_name b) GranularityMonth = Some b
      \<and> bd_lower b \<le> ts \<and> ts < bd_upper b
      \<and> pl_truncate (PlanFrom (TableSpecs ! 1) [bd_name b] now 3 2) = [] \<and> pl_drop (PlanFrom (TableSpecs ! 1) [bd_name b] now 3 2) = []
      \<and> WorstCaseRetention (TableSpecs ! 1) < now - ts * nsec)"
proof (intro conjI allI impI; (elim conjE)?)
  fix spec now horizon hold existing n b ts
  assume ok: "plannable spec now horizon" and g: "sp_granularity spec = GranularityWeek" and n: "n \<in> set existing"
    and kept: "n \<notin> set (pl_truncate (PlanFrom spec existing now horizon hold)) \<union> set (pl_drop (PlanFrom spec existing now horizon hold))"
    and b: "boundFromName n GranularityWeek = Some b" and ts: "bd_lower b \<le> ts"
  have "set (pl_truncate (PlanFrom spec existing now horizon hold)) \<union> set (pl_drop (PlanFrom spec existing now horizon hold))
      = bd_name ` set (take (nat hold) (expired_list spec now existing) @ drop (nat hold) (expired_list spec now existing))"
    by (simp add: PlanFrom_eq [OF ok] image_Un del: append_take_drop_id)
  then have "n \<notin> {n \<in> set existing. old_bound spec now n \<noteq> None}" using kept by (simp add: expired_names)
  then have alive: "now - sp_retention spec < bd_upper b * nsec" using n b g by (auto simp: old_bound_def split: if_splits)
  obtain i where "b = pbound GranularityWeek i" using boundFromName_Some [OF b] by blast
  then have "bd_upper b = bd_lower b + 7 * 86400" by (simp add: pstart_def sow_def)
  then have "bd_upper b * nsec \<le> ts * nsec + 7 * day_ns" using ts by (simp add: nsec_def day_ns_def)
  then show "now - ts * nsec < WorstCaseRetention spec" using alive g by (simp add: WorstCaseRetention_def)
next
  define b where "b = pbound GranularityMonth 24312"
  define now where "now = (1769904000 + 180 * 86400) * nsec - 1"
  have st: "pstart GranularityMonth 24312 = 20454" "pstart GranularityMonth 24313 = 20485"
    by (simp_all add: pstart_def som_def month_start_def year_start_def before_month_def)
  have spec: "TableSpecs ! Suc 0 = mk_spec ''device_metric_1h'' GranularityMonth 180" by (simp add: TableSpecs_def)
  have ok: "plannable (TableSpecs ! 1) now 3"
    by (simp add: plannable_def spec mk_spec_def now_def nsec_def day_ns_def)
  have b: "boundFromName (bd_name b) GranularityMonth = Some b"
    unfolding b_def by (rule boundFromName_pbound) (simp add: in_era_def st)
  have up: "bd_upper b = 1769904000" "bd_lower b = 1767225600" by (simp_all add: b_def st)
  have "old_bound (TableSpecs ! 1) now (bd_name b) = None"
    by (simp add: old_bound_def b spec mk_spec_def up now_def nsec_def day_ns_def)
  then have "expired_list (TableSpecs ! 1) now [bd_name b] = []" by (simp add: expired_list_def map_filter_simps)
  moreover have "WorstCaseRetention (TableSpecs ! 1) < now - 1767225600 * nsec"
    by (simp add: WorstCaseRetention_def spec mk_spec_def now_def nsec_def day_ns_def)
  ultimately have "plannable (TableSpecs ! 1) now 3 \<and> boundFromName (bd_name b) GranularityMonth = Some b
      \<and> bd_lower b \<le> 1767225600 \<and> 1767225600 < bd_upper b
      \<and> pl_truncate (PlanFrom (TableSpecs ! 1) [bd_name b] now 3 2) = [] \<and> pl_drop (PlanFrom (TableSpecs ! 1) [bd_name b] now 3 2) = []
      \<and> WorstCaseRetention (TableSpecs ! 1) < now - 1767225600 * nsec"
    using ok b up by (simp only: PlanFrom_eq [OF ok] Plan.select_convs) simp
  then show "\<exists>now ts b. plannable (TableSpecs ! 1) now 3 \<and> boundFromName (bd_name b) GranularityMonth = Some b
      \<and> bd_lower b \<le> ts \<and> ts < bd_upper b
      \<and> pl_truncate (PlanFrom (TableSpecs ! 1) [bd_name b] now 3 2) = [] \<and> pl_drop (PlanFrom (TableSpecs ! 1) [bd_name b] now 3 2) = []
      \<and> WorstCaseRetention (TableSpecs ! 1) < now - ts * nsec"
    by blast
qed

section \<open>What the reclamation leaves\<close>

text \<open>A list sorted by distinct keys begins with any part of it that lies below the rest.\<close>
lemma take_least:
  fixes f :: "'a \<Rightarrow> 'b::linorder"
  assumes "sorted_wrt (\<lambda>x y. f x < f y) xs" "sorted_wrt (\<lambda>x y. f x < f y) ys" "set ys \<subseteq> set xs"
    and "\<And>x y. x \<in> set xs \<Longrightarrow> x \<notin> set ys \<Longrightarrow> y \<in> set ys \<Longrightarrow> f y < f x"
  shows "take (length ys) xs = ys"
  using assms
proof (induction ys arbitrary: xs)
  case (Cons y ys)
  then obtain x xs' where xs: "xs = x # xs'" by (cases xs) auto
  have xy: "x = y"
  proof (rule ccontr)
    assume ne: "x \<noteq> y"
    then have "f x < f y" using Cons.prems(1,3) xs by auto
    moreover have "f y < f x" using Cons.prems(2,4) ne xs by (cases "x \<in> set ys") auto
    ultimately show False by simp
  qed
  have "take (length ys) xs' = ys"
  proof (rule Cons.IH)
    show "set ys \<subseteq> set xs'" using Cons.prems(2,3) by (auto simp: xs xy)
    show "f z' < f z" if "z \<in> set xs'" "z \<notin> set ys" "z' \<in> set ys" for z z'
      using Cons.prems(1,4) that by (auto simp: xs xy)
  qed (use Cons.prems(1,2) xs in simp_all)
  then show ?case by (simp add: xs xy)
qed simp

lemma old_upper_inject:
  assumes "old_bound spec now m = Some b" "old_bound spec now n = Some c" "bd_upper b = bd_upper c"
  shows "m = n"
proof -
  define g where "g = sp_granularity spec"
  obtain i j where "m = bd_name (pbound g i) \<and> b = pbound g i" "n = bd_name (pbound g j) \<and> c = pbound g j"
    using assms boundFromName_Some [of m g b] boundFromName_Some [of n g c] by (auto simp: old_bound_Some g_def)
  then show ?thesis using assms(3) by auto
qed

lemma expired_list_sorted:
  assumes "distinct existing"
  shows "sorted_wrt (\<lambda>x y. bd_upper x < bd_upper y) (expired_list spec now existing)"
proof -
  have "distinct (map bd_upper (List.map_filter (old_bound spec now) existing))"
    using assms
  proof (induction existing)
    case (Cons n ns)
    show ?case
    proof (cases "old_bound spec now n")
      case (Some b)
      have "bd_upper b \<noteq> bd_upper c" if c: "c \<in> set (List.map_filter (old_bound spec now) ns)" for c
      proof
        assume eq: "bd_upper b = bd_upper c"
        obtain m where m: "m \<in> set ns" "old_bound spec now m = Some c" using c by (auto simp: map_filter_mem)
        then have "n = m" using old_upper_inject [OF Some m(2) eq] by simp
        then show False using Cons.prems m(1) by simp
      qed
      then show ?thesis using Cons Some by (auto simp: map_filter_simps)
    qed (use Cons in \<open>simp add: map_filter_simps\<close>)
  qed (simp add: map_filter_simps)
  then have "distinct (map bd_upper (expired_list spec now existing))"
    by (simp add: expired_list_def distinct_map) 
  moreover have "sorted (map bd_upper (expired_list spec now existing))" by (simp add: expired_list_def)
  ultimately have "sorted_wrt (<) (map bd_upper (expired_list spec now existing))"
    by (simp add: strict_sorted_iff)
  then show ?thesis by (simp add: sorted_wrt_map)
qed

text \<open>The names a table has once a plan has been carried out.\<close>
lemma expired_list_sound:
  "b \<in> set (expired_list spec now existing) \<Longrightarrow>
     bd_name b \<in> set existing \<and> boundFromName (bd_name b) (sp_granularity spec) \<noteq> None"
  by (simp add: expired_list_set old_bound_Some)

lemma expired_list_names:
  "distinct existing \<Longrightarrow> distinct (map bd_name (expired_list spec now existing))"
  using expired_list_sorted [of existing spec now] old_bound_name
  by (auto simp: distinct_map strict_sorted_iff sorted_wrt_map [symmetric] expired_list_set intro!: inj_onI)

lemma wanted_not_expired:
  assumes ok: "plannable spec now horizon"
  shows "bd_name ` set (Desired spec now horizon) \<inter> bd_name ` set (expired_list spec now existing) = {}"
proof -
  have "x \<notin> bd_name ` set (expired_list spec now existing)" if "x \<in> bd_name ` set (Desired spec now horizon)" for x
    using that wanted_alive [OF ok refl refl refl] by (auto simp: expired_list_set old_bound_Some) force
  then show ?thesis by blast
qed

definition carried_out :: "Plan \<Rightarrow> string list \<Rightarrow> string list" where
  "carried_out p existing = filter (\<lambda>n. n \<notin> set (pl_drop p)) existing @ map bd_name (pl_create p)"

text \<open>Carrying a plan out keeps the partitions it truncates; whatever else expires later ends after them.\<close>
lemma truncated_kept:
  assumes d: "distinct existing" and y: "y \<in> set (take k (expired_list spec now existing))"
  shows "bd_name y \<in> set existing" "old_bound spec now (bd_name y) = Some y"
    "bd_name y \<notin> bd_name ` set (drop k (expired_list spec now existing))"
proof -
  let ?e = "expired_list spec now existing"
  show "bd_name y \<in> set existing" "old_bound spec now (bd_name y) = Some y"
    using in_set_takeD [OF y] by (simp_all add: expired_list_set)
  have "distinct (map bd_name (take k ?e) @ map bd_name (drop k ?e))"
    using expired_list_names [OF d, of spec now] by (simp only: map_append [symmetric] append_take_drop_id)
  then show "bd_name y \<notin> bd_name ` set (drop k ?e)" using y by auto
qed

lemma truncated_first:
  assumes ok: "plannable spec now horizon" and le: "now \<le> now'"
    and p: "p = PlanFrom spec existing now horizon hold"
    and y: "y \<in> set (take (nat hold) (expired_list spec now existing))"
    and x: "x \<in> set (expired_list spec now' (carried_out p existing))"
      "x \<notin> set (take (nat hold) (expired_list spec now existing))"
  shows "bd_upper y < bd_upper x"
proof -
  let ?e = "expired_list spec now existing"
  have b: "boundFromName (bd_name x) (sp_granularity spec) = Some x" using x(1) by (simp add: expired_list_set old_bound_Some)
  have "old_bound spec now (bd_name x) = None"
  proof (rule ccontr)
    assume "old_bound spec now (bd_name x) \<noteq> None"
    then have o: "old_bound spec now (bd_name x) = Some x" using b by (auto simp: old_bound_Some)
    have "bd_name x \<notin> set (map bd_name (pl_create p))"
      using o wanted_alive [OF ok refl refl refl, of _ x] by (force simp: p PlanFrom_eq [OF ok] old_bound_Some)
    moreover have "bd_name x \<in> set (carried_out p existing)" using x(1) by (simp add: expired_list_set)
    ultimately have "bd_name x \<in> set existing" "bd_name x \<notin> set (pl_drop p)" by (auto simp: carried_out_def)
    then have "x \<in> set ?e" "x \<notin> set (drop (nat hold) ?e)"
      using o by (auto simp: expired_list_set p PlanFrom_eq [OF ok])
    then show False using x(2) by (metis Un_iff append_take_drop_id set_append)
  qed
  then have "now - sp_retention spec < bd_upper x * nsec" using b by (auto simp: old_bound_def split: if_splits)
  moreover have "bd_upper y * nsec \<le> now - sp_retention spec"
    using in_set_takeD [OF y] by (simp add: expired_list_set old_bound_Some)
  ultimately have "bd_upper y * nsec < bd_upper x * nsec" by linarith
  then show ?thesis by (simp add: nsec_def)
qed

text \<open>C40: truncated partitions stay, and stay expired: once \<open>hold\<close> partitions have been truncated, every later plan
  truncates the same ones again, so no later plan is ever empty.\<close>
theorem truncation_never_settles:
  assumes ok: "plannable spec now horizon" and ok': "plannable spec now' horizon" and le: "now \<le> now'"
    and d: "distinct existing" and hold: "1 \<le> hold"
    and full: "length (pl_truncate (PlanFrom spec existing now horizon hold)) = nat hold"
  shows "pl_truncate (PlanFrom spec (carried_out (PlanFrom spec existing now horizon hold) existing) now' horizon hold)
      = pl_truncate (PlanFrom spec existing now horizon hold)
    \<and> pl_truncate (PlanFrom spec existing now horizon hold) \<noteq> []"
proof -
  define p where "p = PlanFrom spec existing now horizon hold"
  let ?e = "expired_list spec now existing" and ?x = "carried_out p existing"
  let ?e' = "expired_list spec now' ?x" and ?t = "take (nat hold) ?e"
  have p_eq: "pl_truncate p = map bd_name ?t" "pl_drop p = map bd_name (drop (nat hold) ?e)"
    "pl_create p = filter (\<lambda>b. bd_name b \<notin> set existing) (Desired spec now horizon)"
    by (simp_all add: p_def PlanFrom_eq [OF ok])
  have len: "length ?t = nat hold" using full p_eq(1) by (simp add: p_def)
  have later: "old_bound spec now' n = Some b" if "old_bound spec now n = Some b" for n b
    using that le by (auto simp: old_bound_Some)
  have "take (length ?t) ?e' = ?t"
  proof (rule take_least [where f = bd_upper])
    have "distinct ?x"
      using d window_names [OF ok refl refl refl] by (auto simp: carried_out_def p_eq(3) distinct_map_filter)
    then show "sorted_wrt (\<lambda>x y. bd_upper x < bd_upper y) ?e'" by (rule expired_list_sorted)
    show "sorted_wrt (\<lambda>x y. bd_upper x < bd_upper y) ?t" using expired_list_sorted [OF d] by (rule sorted_wrt_take)
    show "set ?t \<subseteq> set ?e'" using truncated_kept [OF d] later by (auto simp: expired_list_set carried_out_def p_eq(2))
    show "bd_upper y < bd_upper x" if "x \<in> set ?e'" "x \<notin> set ?t" "y \<in> set ?t" for x y
      using truncated_first [OF ok le p_def that(3,1,2)] .
  qed
  then have "take (nat hold) ?e' = ?t" by (simp only: len)
  moreover have "?t \<noteq> []" using len hold by auto
  ultimately show ?thesis by (simp only: p_def [symmetric] p_eq PlanFrom_eq [OF ok'] Plan.select_convs) simp
qed

section \<open>Instances\<close>

text \<open>The table of five-minute rows on 14 July 2026.\<close>
definition demo_spec :: Spec where "demo_spec = mk_spec ''device_metric_5m'' GranularityWeek 30"
definition demo_now :: instant where "demo_now = 1784000000 * nsec"

lemma demo_plannable: "plannable demo_spec demo_now 5"
  by (simp add: plannable_def demo_spec_def mk_spec_def demo_now_def nsec_def day_ns_def)

text \<open>Three weeks of January, long beyond the retention.\<close>
definition demo_old :: "string list" where
  "demo_old = map (\<lambda>i. bd_name (pbound GranularityWeek i)) [2922, 2923, 2924]"

lemma nat_dec_num:
  "n < 10 \<Longrightarrow> nat_dec n = [digit_char n]" "10 \<le> n \<Longrightarrow> nat_dec n = nat_dec (n div 10) @ [digit_char (n mod 10)]"
  by (simp_all add: nat_dec.simps [of n])

lemma demo_week: "2922 \<le> i \<Longrightarrow> i \<le> 2924 \<Longrightarrow> iso_week (sow i) = (2026, i - 2921)"
proof -
  assume i: "2922 \<le> i" "i \<le> 2924"
  have "year_of (7 * i) = 2026" by (rule year_of_unique) (use i in \<open>simp_all add: year_start_def\<close>)
  moreover have "year_start 2026 = 20454" by (simp add: year_start_def)
  moreover have "(7 * i - 20454) div 7 = i - 2922" by presburger
  ultimately show ?thesis by (simp add: iso_week_sow)
qed

lemma demo_old_names: "demo_old = [''p_2026_w01'', ''p_2026_w02'', ''p_2026_w03'']"
  by (simp add: demo_old_def pstart_def PartitionName_def demo_week zpad_def Let_def nat_dec_num digit_char_def char_of_def bit_0)

lemma demo_old_bound:
  "old_bound demo_spec demo_now ''p_2026_w01'' = Some (pbound GranularityWeek 2922)"
  "old_bound demo_spec demo_now ''p_2026_w02'' = Some (pbound GranularityWeek 2923)"
  "old_bound demo_spec demo_now ''p_2026_w03'' = Some (pbound GranularityWeek 2924)"
proof -
  have "old_bound demo_spec demo_now (bd_name (pbound GranularityWeek i)) = Some (pbound GranularityWeek i)"
    if "2922 \<le> i" "i \<le> 2924" for i
    using that
    by (simp add: old_bound_Some boundFromName_pbound in_era_def pstart_def sow_def demo_spec_def mk_spec_def
        demo_now_def nsec_def day_ns_def del: pbound_sel(1))
  from this [of 2922] this [of 2923] this [of 2924] demo_old_names
  show "old_bound demo_spec demo_now ''p_2026_w01'' = Some (pbound GranularityWeek 2922)"
    "old_bound demo_spec demo_now ''p_2026_w02'' = Some (pbound GranularityWeek 2923)"
    "old_bound demo_spec demo_now ''p_2026_w03'' = Some (pbound GranularityWeek 2924)"
    unfolding demo_old_def by (simp_all del: pbound_sel)
qed

lemma demo_expired:
  "expired_list demo_spec demo_now [''p_2026_w01'', ''p_2026_w02'', ''p_2026_w03''] =
     map (pbound GranularityWeek) [2922, 2923, 2924]"
  by (simp add: expired_list_def map_filter_simps demo_old_bound pstart_def sow_def)

lemma wanted_partitions_tile_witness:
  "tiles 0 (Desired demo_spec demo_now 5) MaxInt64
   \<and> (\<exists>b\<in>set (butlast (tl (Desired demo_spec demo_now 5))). bd_lower b \<le> 1784000000 \<and> 1784000000 < bd_upper b)"
proof -
  have g: "addPeriod (periodStart demo_now g) g 5 = period_at g (period_of g demo_now + 5)" for g
    by (simp only: periodStart_eq addPeriod_eq)
  have "demo_now < period_at g (period_of g demo_now + 1)" "period_at g (period_of g demo_now + 1) \<le> period_at g (period_of g demo_now + 5)" for g
    by (rule period_holds) simp
  then have "demo_now < addPeriod (periodStart demo_now g) g 5" for g unfolding g by (rule less_le_trans)
  then show ?thesis
    using wanted_partitions_tile [OF demo_plannable] by (auto simp: demo_now_def demo_spec_def mk_spec_def day_ns_def)
qed

lemma wanted_state_settled_witness:
  "PlanFrom demo_spec (rev (map bd_name (Desired demo_spec demo_now 5))) demo_now 5 2 =
     \<lparr>pl_create = [], pl_truncate = [], pl_drop = []\<rparr>"
  by (rule wanted_state_settled [OF demo_plannable]) simp

text \<open>A table with three old weeks, the guard, the sentinel and a partition made by hand.\<close>
lemma reclaim_exact_witness:
  "set (pl_truncate (PlanFrom demo_spec [''p_min'', ''p_2026_w03'', ''p_2026_w01'', ''p_2026_w02'', ''archive'', ''p_max''] demo_now 5 2))
     \<union> set (pl_drop (PlanFrom demo_spec [''p_min'', ''p_2026_w03'', ''p_2026_w01'', ''p_2026_w02'', ''archive'', ''p_max''] demo_now 5 2))
   = {''p_2026_w01'', ''p_2026_w02'', ''p_2026_w03''}
   \<and> length (pl_truncate (PlanFrom demo_spec [''p_min'', ''p_2026_w03'', ''p_2026_w01'', ''p_2026_w02'', ''archive'', ''p_max''] demo_now 5 2)) = 2"
proof -
  have "boundFromName ''archive'' GranularityWeek = None"
    by (simp add: boundFromName_def scan_two_def)
  moreover have "boundFromName ''p_min'' GranularityWeek = None" "boundFromName ''p_max'' GranularityWeek = None"
    using boundFromName_reserved [of GranularityWeek] by (simp_all only: GuardPartitionName_def SentinelPartitionName_def)
  moreover have "\<exists>b. boundFromName n GranularityWeek = Some b \<and> bd_upper b * nsec \<le> demo_now - sp_retention demo_spec"
    if "n \<in> {''p_2026_w01'', ''p_2026_w02'', ''p_2026_w03''}" for n
    using that demo_old_bound by (auto simp: old_bound_Some demo_spec_def mk_spec_def)
  moreover have "sp_granularity demo_spec = GranularityWeek" by (simp add: demo_spec_def mk_spec_def)
  ultimately have P: "{n \<in> set [''p_min'', ''p_2026_w03'', ''p_2026_w01'', ''p_2026_w02'', ''archive'', ''p_max''].
      \<exists>b. boundFromName n (sp_granularity demo_spec) = Some b \<and> bd_upper b * nsec \<le> demo_now - sp_retention demo_spec}
    = {''p_2026_w01'', ''p_2026_w02'', ''p_2026_w03''}"
    by (intro set_eqI iffI) (simp_all, metis option.distinct(1), blast)
  let ?e = "[''p_min'', ''p_2026_w03'', ''p_2026_w01'', ''p_2026_w02'', ''archive'', ''p_max'']"
  let ?old = "\<lambda>n. \<exists>b. boundFromName n (sp_granularity demo_spec) = Some b \<and> bd_upper b * nsec \<le> demo_now - sp_retention demo_spec"
  have "length (filter ?old ?e) = card {n \<in> set ?e. ?old n}"
    by (subst set_filter [symmetric], rule distinct_card [symmetric]) (intro distinct_filter, simp)
  then have "length (filter ?old ?e) = 3" unfolding P by simp
  then show ?thesis
    using reclaim_exact [OF demo_plannable, of ?e 2] unfolding P by simp
qed

lemma truncation_never_settles_witness:
  "pl_truncate (PlanFrom demo_spec
      (carried_out (PlanFrom demo_spec [''p_2026_w01'', ''p_2026_w02'', ''p_2026_w03''] demo_now 5 2)
        [''p_2026_w01'', ''p_2026_w02'', ''p_2026_w03'']) demo_now 5 2)
   = [''p_2026_w01'', ''p_2026_w02'']"
proof -
  have names: "map (\<lambda>i. bd_name (pbound GranularityWeek i)) [2922, 2923] = [''p_2026_w01'', ''p_2026_w02'']"
    using demo_old_names unfolding demo_old_def by simp
  have t: "pl_truncate (PlanFrom demo_spec [''p_2026_w01'', ''p_2026_w02'', ''p_2026_w03''] demo_now 5 2)
      = [''p_2026_w01'', ''p_2026_w02'']"
    using names by (simp add: PlanFrom_eq [OF demo_plannable] demo_expired del: pbound_sel)
  show ?thesis
    using truncation_never_settles [OF demo_plannable demo_plannable, of "[''p_2026_w01'', ''p_2026_w02'', ''p_2026_w03'']" 2]
    by (simp add: t)
qed

lemma worst_case_retention_witness:
  "1768000000 * nsec - 1767225600 * nsec < WorstCaseRetention demo_spec"
proof -
  have ok: "plannable demo_spec (1768000000 * nsec) 5"
    by (simp add: plannable_def demo_spec_def mk_spec_def nsec_def day_ns_def)
  have b: "boundFromName ''p_2026_w01'' GranularityWeek = Some (pbound GranularityWeek 2922)"
    using demo_old_bound(1) by (simp add: old_bound_Some demo_spec_def mk_spec_def)
  have "old_bound demo_spec (1768000000 * nsec) ''p_2026_w01'' = None"
    by (simp add: old_bound_def b demo_spec_def mk_spec_def nsec_def day_ns_def pstart_def sow_def)
  then have "expired_list demo_spec (1768000000 * nsec) [''p_2026_w01''] = []"
    by (simp add: expired_list_def map_filter_simps)
  then have kept: "''p_2026_w01'' \<notin> set (pl_truncate (PlanFrom demo_spec [''p_2026_w01''] (1768000000 * nsec) 5 2))
      \<union> set (pl_drop (PlanFrom demo_spec [''p_2026_w01''] (1768000000 * nsec) 5 2))"
    by (simp add: PlanFrom_eq [OF ok])
  have lo: "bd_lower (pbound GranularityWeek 2922) \<le> 1767225600" by (simp add: pstart_def sow_def)
  have g: "sp_granularity demo_spec = GranularityWeek" by (simp add: demo_spec_def mk_spec_def)
  show ?thesis
    by (rule worst_case_retention [THEN conjunct1, rule_format, where horizon = 5 and hold = 2
          and existing = "[''p_2026_w01'']" and n = "''p_2026_w01''" and b = "pbound GranularityWeek 2922"])
       (intro conjI ok g kept b lo list.set_intros)
qed

end
