(* ===== verification/PartitionService.thy ===== *)
theory PartitionService
  imports MetricSchema PartitionProps
begin

text \<open>
  The partition coordinator of \<open>src/uni_core/internal/service/agent_metrics_partition.go\<close> with the repository that runs its
  statements (\<open>src/uni_core/internal/repository/device_metric_schema.go\<close>), the audit log
  (\<open>src/uni_core/internal/repository/agent_partition_log.go\<close>) and the lock in Redis (\<open>src/uni_core/internal/pkg/redis/lock/redis_locker.go\<close>).

  The database server is a parameter: what a statement does to its catalogue, or that it refuses it, and
  which partitions a table has. Every external call takes an entry of a script: it works, its request or
  its reply is lost, or other processes change the catalogue and the lock first.
\<close>

section \<open>The world\<close>

record PartitionLog =
  pg_table :: string
  pg_name :: string
  pg_action :: string
  pg_lower :: int
  pg_upper :: int
  pg_rows :: "int option"
  pg_retention :: "int option"
  pg_created :: instant
  pg_dropped :: "instant option"

definition PartitionActionAdd :: string where "PartitionActionAdd = ''add''"
definition PartitionActionDrop :: string where "PartitionActionDrop = ''drop''"

datatype 'c p_fault = PWorks | PLostRequest | PLostReply | PMeanwhile "'c \<Rightarrow> 'c" "string option \<Rightarrow> string option"

text \<open>\<open>pw_ran\<close> are the statements the server has carried out, oldest first.\<close>
record 'c pworld =
  pw_cat :: 'c
  pw_ran :: "ddl list"
  pw_log :: "PartitionLog list"
  pw_lock :: "string option"
  pw_faults :: "'c p_fault list"

record 'c pdeps =
  pd_run :: "ddl \<Rightarrow> 'c \<Rightarrow> 'c option"
  pd_parts :: "string \<Rightarrow> 'c \<Rightarrow> string list"
  pd_dialect :: string
  pd_cfg :: "string \<Rightarrow> int \<Rightarrow> int"
  pd_owner :: string
  pd_auditor :: bool
  pd_now :: instant

fun p_settle :: "'c p_fault list \<Rightarrow> 'c pworld \<Rightarrow> 'c pworld" where
  "p_settle (PMeanwhile f l # fs) w = p_settle fs (w\<lparr>pw_cat := f (pw_cat w), pw_lock := l (pw_lock w)\<rparr>)"
| "p_settle fs w = w\<lparr>pw_faults := fs\<rparr>"

definition p_call :: "('c pworld \<Rightarrow> 'c pworld \<times> 'a option) \<Rightarrow> 'c pworld \<Rightarrow> 'c pworld \<times> 'a option" where
  "p_call f w0 =
     (let w1 = p_settle (pw_faults w0) w0; w = w1\<lparr>pw_faults := tl (pw_faults w1)\<rparr>
      in case pw_faults w1 of
           PLostRequest # _ \<Rightarrow> (w, None)
         | PLostReply # _ \<Rightarrow> (fst (f w), None)
         | _ \<Rightarrow> f w)"

section \<open>External calls\<close>

text \<open>\<open>SETNX\<close> and the script that deletes the key of its owner.\<close>
definition TryLock :: "string \<Rightarrow> 'c pworld \<Rightarrow> 'c pworld \<times> bool option" where
  "TryLock owner = p_call (\<lambda>w.
     case pw_lock w of None \<Rightarrow> (w\<lparr>pw_lock := Some owner\<rparr>, Some True) | Some _ \<Rightarrow> (w, Some False))"

definition Unlock :: "string \<Rightarrow> 'c pworld \<Rightarrow> 'c pworld \<times> unit option" where
  "Unlock owner = p_call (\<lambda>w.
     (if pw_lock w = Some owner then w\<lparr>pw_lock := None\<rparr> else w, Some ()))"

definition ExecDDL :: "'c pdeps \<Rightarrow> ddl \<Rightarrow> 'c pworld \<Rightarrow> 'c pworld \<times> unit option" where
  "ExecDDL D d = p_call (\<lambda>w.
     case pd_run D d (pw_cat w) of
       None \<Rightarrow> (w, None)
     | Some c \<Rightarrow> (w\<lparr>pw_cat := c, pw_ran := pw_ran w @ [d]\<rparr>, Some ()))"

text \<open>Only MySQL is asked; for the other dialects the answer is the empty list.\<close>
definition ExistingPartitions :: "'c pdeps \<Rightarrow> string \<Rightarrow> 'c pworld \<Rightarrow> 'c pworld \<times> string list option" where
  "ExistingPartitions D t w =
     (if pd_dialect D \<noteq> ''mysql'' then (w, Some [])
      else p_call (\<lambda>w. (w, Some (pd_parts D t (pw_cat w)))) w)"

definition log_Insert :: "PartitionLog \<Rightarrow> 'c pworld \<Rightarrow> 'c pworld \<times> unit option" where
  "log_Insert row = p_call (\<lambda>w. (w\<lparr>pw_log := pw_log w @ [row]\<rparr>, Some ()))"

text \<open>One statement after the other until one fails.\<close>
fun exec_all :: "'c pdeps \<Rightarrow> ddl list \<Rightarrow> 'c pworld \<Rightarrow> 'c pworld \<times> bool" where
  "exec_all D [] w = (w, True)"
| "exec_all D (d # ds) w = (case ExecDDL D d w of (w, None) \<Rightarrow> (w, False) | (w, Some _) \<Rightarrow> exec_all D ds w)"

definition create_table :: "string \<Rightarrow> Spec \<Rightarrow> string \<Rightarrow> Bound list \<Rightarrow> ddl" where
  "create_table dialect spec cols bounds =
     (if dialect = ''postgres'' then CreateParent (sp_table spec) cols
      else if dialect = ''mysql'' then CreateInline (sp_table spec) cols bounds
      else CreatePlain (sp_table spec) cols)"

fun ensure_tables :: "'c pdeps \<Rightarrow> instant \<Rightarrow> Spec list \<Rightarrow> 'c pworld \<Rightarrow> 'c pworld \<times> bool" where
  "ensure_tables D now [] w = (w, True)"
| "ensure_tables D now (spec # specs) w =
     (case MetricColumnDDL (sp_table spec) of
        None \<Rightarrow> (w, False)
      | Some cols \<Rightarrow>
          (let bounds = Desired spec now 3
           in case exec_all D (create_table (pd_dialect D) spec cols bounds # ChildDDL (pd_dialect D) spec bounds) w of
                (w, False) \<Rightarrow> (w, False)
              | (w, True) \<Rightarrow> ensure_tables D now specs w))"

definition EnsureSchema :: "'c pdeps \<Rightarrow> instant \<Rightarrow> 'c pworld \<Rightarrow> 'c pworld \<times> bool" where
  "EnsureSchema D now w = ensure_tables D now TableSpecs w"

section \<open>Configuration\<close>

definition second :: int where "second = nsec"

definition defaultPartitionLockTTLSec :: int where "defaultPartitionLockTTLSec = 600"
definition defaultPartitionTableTimeoutSec :: int where "defaultPartitionTableTimeoutSec = 60"
definition partitionHold :: int where "partitionHold = 2"
definition partitionHorizonWeeks :: int where "partitionHorizonWeeks = 5"
definition partitionHorizonMonths :: int where "partitionHorizonMonths = 3"
definition partition_history_days :: int where "partition_history_days = 30"
definition defaultAgentMetrics1hRetentionDays :: int where "defaultAgentMetrics1hRetentionDays = 180"

definition withConfiguredRetention :: "(string \<Rightarrow> int \<Rightarrow> int) \<Rightarrow> Spec \<Rightarrow> Spec" where
  "withConfiguredRetention cfg spec =
     (let (key, def) = (if sp_table spec = ''device_metric_1h''
            then (''sys.agent.metrics1hRetentionDays'', defaultAgentMetrics1hRetentionDays)
            else (''sys.agent.historyRetentionDays'', partition_history_days));
          days = cfg key def;
          days = (if days \<le> 0 then def else days)
      in spec\<lparr>sp_retention := wrap64 (days * day_ns)\<rparr>)"

definition horizonFor :: "Spec \<Rightarrow> int" where
  "horizonFor spec =
     (case sp_granularity spec of GranularityMonth \<Rightarrow> partitionHorizonMonths | GranularityWeek \<Rightarrow> partitionHorizonWeeks)"

definition tableTimeout :: "(string \<Rightarrow> int \<Rightarrow> int) \<Rightarrow> int" where
  "tableTimeout cfg =
     (let sec = cfg ''sys.agent.partitionTableTimeout'' defaultPartitionTableTimeoutSec;
          sec = (if sec \<le> 0 then defaultPartitionTableTimeoutSec else sec)
      in wrap64 (sec * second))"

definition lockTTL :: "(string \<Rightarrow> int \<Rightarrow> int) \<Rightarrow> int" where
  "lockTTL cfg =
     (let ttl = wrap64 (cfg ''sys.agent.partitionLockTTL'' defaultPartitionLockTTLSec * second);
          ttl = (if ttl \<le> 0 then defaultPartitionLockTTLSec * second else ttl);
          upper = wrap64 (tableTimeout cfg * (int (length TableSpecs) + 1));
          minTTL = wrap64 (upper + 30 * second)
      in if ttl < minTTL then minTTL else ttl)"

section \<open>One table\<close>

record PartitionStats =
  ps_scanned :: nat
  ps_created :: nat
  ps_truncated :: nat
  ps_dropped :: nat
  ps_skipped :: nat
  ps_audit_failures :: nat

definition zero_pstats :: PartitionStats where
  "zero_pstats = \<lparr>ps_scanned = 0, ps_created = 0, ps_truncated = 0, ps_dropped = 0, ps_skipped = 0, ps_audit_failures = 0\<rparr>"

type_synonym 'c pstate = "PartitionStats \<times> 'c pworld"

definition auditFailure :: "PartitionStats \<Rightarrow> PartitionStats" where
  "auditFailure st = st\<lparr>ps_audit_failures := ps_audit_failures st + 1\<rparr>"

text \<open>The result says whether the row was written.\<close>
definition auditPartitionChange ::
  "'c pdeps \<Rightarrow> string \<Rightarrow> string \<Rightarrow> Bound \<Rightarrow> int \<Rightarrow> instant \<Rightarrow> instant option \<Rightarrow> 'c pstate \<Rightarrow> 'c pstate \<times> bool" where
  "auditPartitionChange D table action b days now dropped s =
     (case s of (st, w) \<Rightarrow>
        (let row = \<lparr>pg_table = table, pg_name = bd_name b, pg_action = action, pg_lower = bd_lower b, pg_upper = bd_upper b,
                    pg_rows = None, pg_retention = Some days, pg_created = now, pg_dropped = dropped\<rparr>
         in if \<not> pd_auditor D then ((auditFailure st, w), False)
            else (case log_Insert row w of
                    (w, None) \<Rightarrow> ((auditFailure st, w), False)
                  | (w, Some _) \<Rightarrow> ((st, w), True))))"

text \<open>The loop that adds partitions: the names that were changed without a trace, and whether a statement
  failed.\<close>
fun add_loop ::
  "'c pdeps \<Rightarrow> Spec \<Rightarrow> int \<Rightarrow> instant \<Rightarrow> ddl list \<Rightarrow> Bound list \<Rightarrow> string list \<Rightarrow> 'c pstate
   \<Rightarrow> 'c pstate \<times> string list \<times> bool" where
  "add_loop D spec days now [] bs errs s = (s, errs, False)"
| "add_loop D spec days now (d # ds) bs errs (st, w) =
     (case ExecDDL D d w of
        (w, None) \<Rightarrow> ((st, w), errs, True)
      | (w, Some _) \<Rightarrow>
          (let s = (st\<lparr>ps_created := ps_created st + 1\<rparr>, w)
           in case bs of
                [] \<Rightarrow> add_loop D spec days now ds [] errs s
              | b # bs \<Rightarrow>
                  (case auditPartitionChange D (sp_table spec) PartitionActionAdd b days now None s of
                     (s, ok) \<Rightarrow> add_loop D spec days now ds bs (if ok then errs else errs @ [bd_name b]) s)))"

text \<open>The loop that reclaims: a statement with the name of its partition and whether it truncates.\<close>
fun reclaim_loop ::
  "'c pdeps \<Rightarrow> Spec \<Rightarrow> int \<Rightarrow> instant \<Rightarrow> (ddl \<times> string \<times> bool) list \<Rightarrow> string list \<Rightarrow> 'c pstate
   \<Rightarrow> 'c pstate \<times> string list" where
  "reclaim_loop D spec days now [] errs s = (s, errs)"
| "reclaim_loop D spec days now ((d, name, trunc) # ds) errs (st, w) =
     (case ExecDDL D d w of
        (w, None) \<Rightarrow> ((st, w), errs)
      | (w, Some _) \<Rightarrow>
          (let st = (if trunc then st\<lparr>ps_truncated := ps_truncated st + 1\<rparr> else st\<lparr>ps_dropped := ps_dropped st + 1\<rparr>)
           in case boundFromName name (sp_granularity spec) of
                None \<Rightarrow> reclaim_loop D spec days now ds (errs @ [name]) (auditFailure st, w)
              | Some b \<Rightarrow>
                  (case auditPartitionChange D (sp_table spec) PartitionActionDrop b days now (Some now) (st, w) of
                     (s, ok) \<Rightarrow> reclaim_loop D spec days now ds (if ok then errs else errs @ [name]) s)))"

text \<open>The statements of the reclamation beside their names: first those that truncate.\<close>
definition reclaim_items :: "Plan \<Rightarrow> ddl list \<Rightarrow> (ddl \<times> string \<times> bool) list" where
  "reclaim_items p ds =
     zip ds (map (\<lambda>n. (n, True)) (pl_truncate p) @ map (\<lambda>n. (n, False)) (pl_drop p))"

datatype table_error = ErrExisting | ErrAdd | ErrAudit "string list"

definition auditErrOrNil :: "string list \<Rightarrow> table_error option" where
  "auditErrOrNil errs = (if errs = [] then None else Some (ErrAudit errs))"

definition reconcileTable :: "'c pdeps \<Rightarrow> Spec \<Rightarrow> instant \<Rightarrow> 'c pstate \<Rightarrow> 'c pstate \<times> table_error option" where
  "reconcileTable D spec0 now s =
     (case s of (st, w) \<Rightarrow>
        (let spec = withConfiguredRetention (pd_cfg D) spec0;
             days = signed_take_bit 31 (quot64 (sp_retention spec) day_ns)
         in case ExistingPartitions D (sp_table spec) w of
              (w, None) \<Rightarrow> ((st, w), Some ErrExisting)
            | (w, Some existing) \<Rightarrow>
                (let plan = PlanFrom spec existing now (horizonFor spec) partitionHold;
                     hasSentinel = SentinelPartitionName \<in> set existing;
                     adds = AddPartitionDDL (pd_dialect D) spec (pl_create plan) hasSentinel
                 in case add_loop D spec days now adds (pl_create plan) [] (st, w) of
                      (s, errs, True) \<Rightarrow> (s, Some ErrAdd)
                    | (s, errs, False) \<Rightarrow>
                        (case ReclaimDDL (pd_dialect D) spec (pl_truncate plan) (pl_drop plan) of
                           None \<Rightarrow> (s, auditErrOrNil errs)
                         | Some ds \<Rightarrow>
                             (case reclaim_loop D spec days now (reclaim_items plan ds) errs s of
                                (s, errs) \<Rightarrow> (s, auditErrOrNil errs))))))"

section \<open>A round\<close>

datatype round_error = ErrLock | ErrPartitionPartial "string list"

fun reconcile_tables :: "'c pdeps \<Rightarrow> instant \<Rightarrow> Spec list \<Rightarrow> string list \<Rightarrow> 'c pstate \<Rightarrow> 'c pstate \<times> string list" where
  "reconcile_tables D now [] fails s = (s, fails)"
| "reconcile_tables D now (spec # specs) fails (st, w) =
     (case reconcileTable D spec now (st\<lparr>ps_scanned := ps_scanned st + 1\<rparr>, w) of
        (s, None) \<Rightarrow> reconcile_tables D now specs fails s
      | (s, Some _) \<Rightarrow> reconcile_tables D now specs (fails @ [sp_table spec]) s)"

text \<open>The round after the lock has been taken, without the unlocking.\<close>
definition reconcile_locked :: "'c pdeps \<Rightarrow> 'c pworld \<Rightarrow> 'c pstate \<times> string list" where
  "reconcile_locked D w =
     (case EnsureSchema D (pd_now D) w of
        (w, ok) \<Rightarrow> reconcile_tables D (pd_now D) TableSpecs (if ok then [] else [''ensure-schema'']) (zero_pstats, w))"

definition Reconcile :: "'c pdeps \<Rightarrow> 'c pworld \<Rightarrow> 'c pworld \<times> PartitionStats \<times> round_error option" where
  "Reconcile D w =
     (case TryLock (pd_owner D) w of
        (w, None) \<Rightarrow> (w, zero_pstats, Some ErrLock)
      | (w, Some False) \<Rightarrow> (w, zero_pstats\<lparr>ps_skipped := 1\<rparr>, None)
      | (w, Some True) \<Rightarrow>
          (case reconcile_locked D w of
             ((st, w), fails) \<Rightarrow>
               (fst (Unlock (pd_owner D) w), st, if fails = [] then None else Some (ErrPartitionPartial fails))))"

end
