(* ===== verification/PartitionSafety.thy ===== *)
theory PartitionSafety
  imports PartitionService
begin

text \<open>
  What a round of the coordinator does to the database whatever fails, and whatever other processes do
  between its calls: it only reclaims what the retention has given up, and its audit log describes what
  was done. Both are carried through the program by one relation between the worlds before and after.
\<close>

section \<open>What a piece of the program adds\<close>

text \<open>A statement that reclaims is aimed at a period of a table that ends before the retention begins; the
  statements of the other dialects that delete rows never run.\<close>
definition reclaim_ok :: "(string \<Rightarrow> int \<Rightarrow> int) \<Rightarrow> instant \<Rightarrow> ddl \<Rightarrow> bool" where
  "reclaim_ok cfg now d =
     (let expired = (\<lambda>t n. list_ex (\<lambda>spec0.
            let spec = withConfiguredRetention cfg spec0
            in t = sp_table spec \<and> (case boundFromName n (sp_granularity spec) of
                 None \<Rightarrow> False | Some b \<Rightarrow> bd_upper b * nsec \<le> now - sp_retention spec)) TableSpecs)
      in case d of
           TruncatePartition t n \<Rightarrow> expired t n
         | DropPartition t n \<Rightarrow> expired t n
         | DeleteChild n \<Rightarrow> False
         | DropChild n \<Rightarrow> False
         | _ \<Rightarrow> True)"

text \<open>A row of the log describes a statement.\<close>
definition describes :: "ddl \<Rightarrow> PartitionLog \<Rightarrow> bool" where
  "describes d r =
     (let adds = (\<lambda>t n up. pg_action r = PartitionActionAdd \<and> pg_table r = t \<and> pg_name r = n \<and> pg_upper r = up);
          drops = (\<lambda>t n. pg_action r = PartitionActionDrop \<and> pg_table r = t \<and> pg_name r = n
                     \<and> (boundFromName n GranularityWeek = Some \<lparr>bd_name = n, bd_lower = pg_lower r, bd_upper = pg_upper r\<rparr>
                        \<or> boundFromName n GranularityMonth = Some \<lparr>bd_name = n, bd_lower = pg_lower r, bd_upper = pg_upper r\<rparr>))
      in case d of
           AddPartition t n up \<Rightarrow> adds t n up
         | SplitSentinel t n up \<Rightarrow> adds t n up
         | CreateChild n t lo up \<Rightarrow> adds t n up \<and> pg_lower r = lo
         | TruncatePartition t n \<Rightarrow> drops t n
         | DropPartition t n \<Rightarrow> drops t n
         | _ \<Rightarrow> False)"

definition adds :: "(ddl \<Rightarrow> bool) \<Rightarrow> 'c pworld \<Rightarrow> 'c pworld \<Rightarrow> nat \<Rightarrow> bool" where
  "adds P w w' k \<longleftrightarrow>
     (\<exists>xs rows. pw_ran w' = pw_ran w @ xs \<and> pw_log w' = pw_log w @ rows \<and> list_all P xs
        \<and> list_all (\<lambda>r. list_ex (\<lambda>d. describes d r) xs) rows \<and> k \<le> length rows)"

lemma adds_refl: "adds P w w 0"
  unfolding adds_def by (intro exI [of _ "[]"]) simp

lemma adds_trans: "adds P w w' j \<Longrightarrow> adds P w' w'' k \<Longrightarrow> adds P w w'' (j + k)"
proof -
  assume a: "adds P w w' j" "adds P w' w'' k"
  obtain xs rows where 1: "pw_ran w' = pw_ran w @ xs" "pw_log w' = pw_log w @ rows" "list_all P xs"
    "list_all (\<lambda>r. list_ex (\<lambda>d. describes d r) xs) rows" "j \<le> length rows"
    using a(1) by (auto simp: adds_def)
  obtain ys rows' where 2: "pw_ran w'' = pw_ran w' @ ys" "pw_log w'' = pw_log w' @ rows'" "list_all P ys"
    "list_all (\<lambda>r. list_ex (\<lambda>d. describes d r) ys) rows'" "k \<le> length rows'"
    using a(2) by (auto simp: adds_def)
  show ?thesis unfolding adds_def
    by (intro exI [of _ "xs @ ys"] exI [of _ "rows @ rows'"])
      (use 1 2 in \<open>auto simp: list_all_iff list_ex_iff\<close>)
qed

lemma adds_weaken: "adds P w w' k \<Longrightarrow> j \<le> k \<Longrightarrow> adds P w w' j"
  unfolding adds_def by (meson order_trans)

lemma adds_same: "pw_ran w' = pw_ran w \<Longrightarrow> pw_log w' = pw_log w \<Longrightarrow> adds P w w' 0"
  unfolding adds_def by (intro exI [of _ "[]"]) simp

lemma p_settle_frame [simp]: "pw_ran (p_settle fs w) = pw_ran w" "pw_log (p_settle fs w) = pw_log w"
  by (induction fs w rule: p_settle.induct) auto

text \<open>A call adds what its operation adds.\<close>
lemma p_call_cases:
  obtains (lost) v where "p_call f w = (v, None)" "pw_ran v = pw_ran w" "pw_log v = pw_log w"
  | (reply) v where "p_call f w = (fst (f v), None)" "pw_ran v = pw_ran w" "pw_log v = pw_log w"
  | (works) v where "p_call f w = f v" "pw_ran v = pw_ran w" "pw_log v = pw_log w"
proof -
  define v where "v = (p_settle (pw_faults w) w)\<lparr>pw_faults := tl (pw_faults (p_settle (pw_faults w) w))\<rparr>"
  have v: "pw_ran v = pw_ran w" "pw_log v = pw_log w" by (simp_all add: v_def)
  have "p_call f w = (v, None) \<or> p_call f w = (fst (f v), None) \<or> p_call f w = f v"
    unfolding p_call_def Let_def v_def [symmetric]
    by (cases "pw_faults (p_settle (pw_faults w) w)"; cases "hd (pw_faults (p_settle (pw_faults w) w))") simp_all
  then consider "p_call f w = (v, None)" | "p_call f w = (fst (f v), None)" | "p_call f w = f v" by blast
  then show thesis using v that by cases blast+
qed

lemma frame_calls:
  "adds P w (fst (TryLock o1 w)) 0" "adds P w (fst (Unlock o1 w)) 0" "adds P w (fst (ExistingPartitions D t w)) 0"
proof -
  have f: "adds P w (fst (p_call f w)) 0" if "\<And>v. pw_ran (fst (f v)) = pw_ran v \<and> pw_log (fst (f v)) = pw_log v" for f
    by (rule p_call_cases [of f w]) (use that in \<open>auto intro: adds_same\<close>)
  show "adds P w (fst (TryLock o1 w)) 0" "adds P w (fst (Unlock o1 w)) 0"
    unfolding TryLock_def Unlock_def by (rule f; auto split: option.splits)+
  show "adds P w (fst (ExistingPartitions D t w)) 0"
    unfolding ExistingPartitions_def by (auto intro: adds_refl f)
qed

lemma exec_adds: "P d \<Longrightarrow> adds P w (fst (ExecDDL D d w)) 0"
proof -
  assume P: "P d"
  let ?f = "\<lambda>w. case pd_run D d (pw_cat w) of None \<Rightarrow> (w, None)
      | Some c \<Rightarrow> (w\<lparr>pw_cat := c, pw_ran := pw_ran w @ [d]\<rparr>, Some ())"
  have "adds P w (fst (?f v)) 0" if "pw_ran v = pw_ran w" "pw_log v = pw_log w" for v
    using that P unfolding adds_def
    by (cases "pd_run D d (pw_cat v)") (auto intro: exI [of _ "[]"] exI [of _ "[d]"])
  then show ?thesis unfolding ExecDDL_def by (rule_tac p_call_cases [of ?f w]) (auto intro: adds_same)
qed

text \<open>A statement that is acknowledged has run, and the row that follows describes it.\<close>
lemma exec_ran: "ExecDDL D d w = (w', Some ()) \<Longrightarrow> pw_ran w' = pw_ran w @ [d] \<and> pw_log w' = pw_log w"
  unfolding ExecDDL_def
  by (rule p_call_cases [of "\<lambda>w. case pd_run D d (pw_cat w) of None \<Rightarrow> (w, None)
      | Some c \<Rightarrow> (w\<lparr>pw_cat := c, pw_ran := pw_ran w @ [d]\<rparr>, Some ())" w]) (auto split: option.splits)

lemma insert_adds:
  "\<exists>rows. pw_ran (fst (log_Insert r w)) = pw_ran w \<and> pw_log (fst (log_Insert r w)) = pw_log w @ rows
     \<and> set rows \<subseteq> {r} \<and> (snd (log_Insert r w) \<noteq> None \<longrightarrow> rows = [r])"
  unfolding log_Insert_def
  by (rule p_call_cases [of "\<lambda>w. (w\<lparr>pw_log := pw_log w @ [r]\<rparr>, Some ())" w]) auto

lemma audit_adds:
  assumes "auditPartitionChange D t action b days now dr (st, w) = ((st', w'), ok)"
  shows "\<exists>rows. pw_ran w' = pw_ran w \<and> pw_log w' = pw_log w @ rows
      \<and> list_all (\<lambda>r. pg_table r = t \<and> pg_name r = bd_name b \<and> pg_action r = action \<and> pg_lower r = bd_lower b \<and> pg_upper r = bd_upper b) rows
      \<and> (ok \<longrightarrow> st' = st \<and> length rows = 1) \<and> (\<not> ok \<longrightarrow> st' = auditFailure st)"
proof (cases "pd_auditor D")
  case True
  let ?r = "\<lparr>pg_table = t, pg_name = bd_name b, pg_action = action, pg_lower = bd_lower b, pg_upper = bd_upper b,
              pg_rows = None, pg_retention = Some days, pg_created = now, pg_dropped = dr\<rparr>"
  obtain rows where "pw_ran (fst (log_Insert ?r w)) = pw_ran w" "pw_log (fst (log_Insert ?r w)) = pw_log w @ rows"
    "set rows \<subseteq> {?r}" "snd (log_Insert ?r w) \<noteq> None \<longrightarrow> rows = [?r]"
    using insert_adds [of ?r w] by blast
  then show ?thesis using assms True
    by (intro exI [of _ rows]) (auto simp: auditPartitionChange_def Let_def list_all_iff split: prod.splits option.splits)
qed (use assms in \<open>auto simp: auditPartitionChange_def Let_def\<close>)

text \<open>A statement together with its row.\<close>
lemma change_adds:
  assumes run: "ExecDDL D d w = (w1, Some ())" and P: "P d"
    and audit: "auditPartitionChange D t action b days now dr (st, w1) = ((st', w'), ok)"
    and desc: "\<And>r. pg_table r = t \<Longrightarrow> pg_name r = bd_name b \<Longrightarrow> pg_action r = action \<Longrightarrow> pg_lower r = bd_lower b
      \<Longrightarrow> pg_upper r = bd_upper b \<Longrightarrow> describes d r"
  shows "adds P w w' (if ok then 1 else 0)"
    and "st' = (if ok then st else auditFailure st)"
proof -
  obtain rows where rows: "pw_ran w' = pw_ran w1" "pw_log w' = pw_log w1 @ rows"
    "list_all (\<lambda>r. pg_table r = t \<and> pg_name r = bd_name b \<and> pg_action r = action \<and> pg_lower r = bd_lower b \<and> pg_upper r = bd_upper b) rows"
    "ok \<longrightarrow> st' = st \<and> length rows = 1" "\<not> ok \<longrightarrow> st' = auditFailure st"
    using audit_adds [OF audit] by blast
  show "adds P w w' (if ok then 1 else 0)"
    unfolding adds_def by (intro exI [of _ "[d]"] exI [of _ rows])
      (use rows P desc exec_ran [OF run] in \<open>auto simp: list_all_iff\<close>)
  show "st' = (if ok then st else auditFailure st)" using rows by auto
qed

section \<open>The loops\<close>

definition changed :: "PartitionStats \<Rightarrow> nat" where
  "changed st = ps_created st + ps_truncated st + ps_dropped st"

text \<open>Every change that was counted is in the log or was counted as an audit failure, and every audit failure
  is among the errors; \<open>e\<close> and \<open>e'\<close> are the numbers of errors before and after.\<close>
definition balanced :: "(ddl \<Rightarrow> bool) \<Rightarrow> 'c pstate \<Rightarrow> nat \<Rightarrow> 'c pstate \<Rightarrow> nat \<Rightarrow> bool" where
  "balanced P s e s' e' \<longleftrightarrow>
     (\<exists>k. adds P (snd s) (snd s') k
        \<and> changed (fst s') + ps_audit_failures (fst s) \<le> changed (fst s) + k + ps_audit_failures (fst s'))
     \<and> ps_audit_failures (fst s') + e = ps_audit_failures (fst s) + e'"

lemma balanced_same: "adds P w w' 0 \<Longrightarrow> balanced P (st, w) e (st, w') e"
  by (auto simp: balanced_def intro: exI [of _ 0])

lemma balanced_trans: "balanced P s e s' e' \<Longrightarrow> balanced P s' e' s'' e'' \<Longrightarrow> balanced P s e s'' e''"
proof -
  assume a: "balanced P s e s' e'" "balanced P s' e' s'' e''"
  obtain j where j: "adds P (snd s) (snd s') j"
    "changed (fst s') + ps_audit_failures (fst s) \<le> changed (fst s) + j + ps_audit_failures (fst s')"
    using a(1) by (auto simp: balanced_def)
  obtain k where k: "adds P (snd s') (snd s'') k"
    "changed (fst s'') + ps_audit_failures (fst s') \<le> changed (fst s') + k + ps_audit_failures (fst s'')"
    using a(2) by (auto simp: balanced_def)
  have "adds P (snd s) (snd s'') (j + k)" using j(1) k(1) by (rule adds_trans)
  moreover have "changed (fst s'') + ps_audit_failures (fst s) \<le> changed (fst s) + (j + k) + ps_audit_failures (fst s'')"
    using j(2) k(2) by linarith
  moreover have "ps_audit_failures (fst s'') + e = ps_audit_failures (fst s) + e''"
    using a by (auto simp: balanced_def)
  ultimately show ?thesis unfolding balanced_def by blast
qed

text \<open>One acknowledged change with its audit.\<close>
lemma balanced_change:
  assumes run: "ExecDDL D d w = (w1, Some ())" and P: "P d"
    and audit: "auditPartitionChange D t action b days now dr (st1, w1) = (s2, ok)"
    and st1: "changed st1 = changed st + 1" "ps_audit_failures st1 = ps_audit_failures st"
    and desc: "\<And>r. pg_table r = t \<Longrightarrow> pg_name r = bd_name b \<Longrightarrow> pg_action r = action \<Longrightarrow> pg_lower r = bd_lower b
      \<Longrightarrow> pg_upper r = bd_upper b \<Longrightarrow> describes d r"
  shows "balanced P (st, w) e s2 (if ok then e else e + 1)"
proof -
  obtain st' w' where s2: "s2 = (st', w')" by (cases s2)
  have ch: "adds P w w' (if ok then 1 else 0)" "st' = (if ok then st1 else auditFailure st1)"
    using change_adds [where P = P, OF run P audit [unfolded s2] desc] by blast+
  have "changed (auditFailure st1) = changed st1" by (simp add: changed_def auditFailure_def)
  then show ?thesis
    using ch st1 s2 by (auto simp: balanced_def auditFailure_def intro!: exI [of _ "if ok then 1 else 0"])
qed

definition adding :: "string \<Rightarrow> (Bound \<Rightarrow> ddl) \<Rightarrow> bool" where
  "adding t f \<longleftrightarrow>
     f = (\<lambda>b. AddPartition t (bd_name b) (bd_upper b)) \<or> f = (\<lambda>b. SplitSentinel t (bd_name b) (bd_upper b)) \<or> f = child_of t"

lemma adding_describes:
  "adding t f \<Longrightarrow> pg_table r = t \<Longrightarrow> pg_name r = bd_name b \<Longrightarrow> pg_action r = PartitionActionAdd
   \<Longrightarrow> pg_lower r = bd_lower b \<Longrightarrow> pg_upper r = bd_upper b \<Longrightarrow> describes (f b) r"
  by (auto simp: adding_def describes_def child_of_def)

lemma adding_ok: "adding t f \<Longrightarrow> reclaim_ok cfg now (f b)"
  by (auto simp: adding_def reclaim_ok_def child_of_def)

lemma AddPartitionDDL_adding:
  "AddPartitionDDL dialect spec bs h = [] \<or> (\<exists>f. adding (sp_table spec) f \<and> AddPartitionDDL dialect spec bs h = map f bs)"
  by (auto simp: AddPartitionDDL_def adding_def)

lemma add_loop_balanced:
  assumes f: "adding (sp_table spec) f"
  shows "add_loop D spec days now (map f bs) bs errs s = (s', errs', failed) \<Longrightarrow>
    balanced (reclaim_ok cfg n) s (length errs) s' (length errs')"
proof (induction bs arbitrary: errs s)
  case Nil
  then show ?case by (cases s) (auto intro: balanced_same adds_refl)
next
  case (Cons b bs)
  obtain st w where s: "s = (st, w)" by (cases s)
  obtain w1 r where run: "ExecDDL D (f b) w = (w1, r)" by (cases "ExecDDL D (f b) w")
  show ?case
  proof (cases r)
    case None
    then have "adds (reclaim_ok cfg n) w w1 0"
      using exec_adds [where P = "reclaim_ok cfg n", OF adding_ok [OF f], of w D b] run by simp
    then show ?thesis using Cons.prems None run s by (auto intro: balanced_same)
  next
    case (Some u)
    define st1 where "st1 = st\<lparr>ps_created := ps_created st + 1\<rparr>"
    obtain s2 ok where au: "auditPartitionChange D (sp_table spec) PartitionActionAdd b days now None (st1, w1) = (s2, ok)"
      by (cases "auditPartitionChange D (sp_table spec) PartitionActionAdd b days now None (st1, w1)")
    have "balanced (reclaim_ok cfg n) (st, w) (length errs) s2 (if ok then length errs else length errs + 1)"
      by (rule balanced_change [where P = "reclaim_ok cfg n" and d = "f b", OF _ adding_ok [OF f] au])
        (use run Some adding_describes [OF f] in \<open>auto simp: changed_def st1_def\<close>)
    moreover have "balanced (reclaim_ok cfg n) s2 (length (if ok then errs else errs @ [bd_name b])) s' (length errs')"
      by (rule Cons.IH) (use Cons.prems run Some s au in \<open>simp add: st1_def\<close>)
    ultimately show ?thesis using s by (cases ok) (auto intro: balanced_trans)
  qed
qed

definition reclaiming :: "string \<Rightarrow> ddl \<times> string \<times> bool \<Rightarrow> bool" where
  "reclaiming t x \<longleftrightarrow> (case x of (d, n, trunc) \<Rightarrow> d = (if trunc then TruncatePartition t n else DropPartition t n))"

lemma reclaim_loop_balanced:
  assumes "list_all (reclaiming (sp_table spec)) items" "list_all (\<lambda>x. P (fst x)) items"
  shows "reclaim_loop D spec days now items errs s = (s', errs') \<Longrightarrow> balanced P s (length errs) s' (length errs')"
  using assms
proof (induction items arbitrary: errs s)
  case Nil
  then show ?case by (cases s) (auto intro: balanced_same adds_refl)
next
  case (Cons x items)
  obtain st w where s: "s = (st, w)" by (cases s)
  obtain d name trunc where x: "x = (d, name, trunc)" by (cases x)
  have d: "d = (if trunc then TruncatePartition (sp_table spec) name else DropPartition (sp_table spec) name)" and P: "P d"
    using Cons.prems by (simp_all add: x reclaiming_def)
  obtain w1 r where run: "ExecDDL D d w = (w1, r)" by (cases "ExecDDL D d w")
  show ?case
  proof (cases r)
    case None
    then have "adds P w w1 0" using exec_adds [where P = P and d = d and w = w and D = D, OF P] run by simp
    then show ?thesis using Cons.prems None run s x by (auto intro: balanced_same)
  next
    case (Some u)
    define st1 where "st1 = (if trunc then st\<lparr>ps_truncated := ps_truncated st + 1\<rparr> else st\<lparr>ps_dropped := ps_dropped st + 1\<rparr>)"
    have st1: "changed st1 = changed st + 1" "ps_audit_failures st1 = ps_audit_failures st"
      by (simp_all add: st1_def changed_def)
    show ?thesis
    proof (cases "boundFromName name (sp_granularity spec)")
      case None
      have "adds P w w1 0" using exec_adds [where P = P and d = d and w = w and D = D, OF P] run by simp
      then have "balanced P (st, w) (length errs) (auditFailure st1, w1) (length errs + 1)"
        using st1 by (auto simp: balanced_def auditFailure_def changed_def intro!: exI [of _ 0])
      moreover have "balanced P (auditFailure st1, w1) (length (errs @ [name])) s' (length errs')"
        by (rule Cons.IH) (use Cons.prems run Some s x None in \<open>simp_all add: st1_def\<close>)
      ultimately show ?thesis using s by (auto intro: balanced_trans)
    next
      case (Some b)
      obtain s2 ok where au: "auditPartitionChange D (sp_table spec) PartitionActionDrop b days now (Some now) (st1, w1) = (s2, ok)"
        by (cases "auditPartitionChange D (sp_table spec) PartitionActionDrop b days now (Some now) (st1, w1)")
      have nm: "bd_name b = name" using Some by (rule boundFromName_name)
      have desc: "describes d r" if "pg_table r = sp_table spec" "pg_name r = bd_name b" "pg_action r = PartitionActionDrop"
        "pg_lower r = bd_lower b" "pg_upper r = bd_upper b" for r
      proof -
        have "b = \<lparr>bd_name = name, bd_lower = pg_lower r, bd_upper = pg_upper r\<rparr>" using that nm by simp
        then have "boundFromName name GranularityWeek = Some \<lparr>bd_name = name, bd_lower = pg_lower r, bd_upper = pg_upper r\<rparr>
            \<or> boundFromName name GranularityMonth = Some \<lparr>bd_name = name, bd_lower = pg_lower r, bd_upper = pg_upper r\<rparr>"
          using Some by (cases "sp_granularity spec") auto
        then show ?thesis using that nm by (auto simp: d describes_def)
      qed
      have "balanced P (st, w) (length errs) s2 (if ok then length errs else length errs + 1)"
        by (rule balanced_change [where P = P and d = d, OF _ P au])
          (use run \<open>r = Some u\<close> st1 desc au in auto)
      moreover have "balanced P s2 (length (if ok then errs else errs @ [name])) s' (length errs')"
        by (rule Cons.IH) (use Cons.prems run \<open>r = Some u\<close> s x Some au in \<open>simp_all add: st1_def\<close>)
      ultimately show ?thesis using s by (cases ok) (auto intro: balanced_trans)
    qed
  qed
qed

section \<open>A table and a round\<close>

definition planned :: "'c pdeps \<Rightarrow> bool" where
  "planned D \<longleftrightarrow>
     list_all (\<lambda>spec. plannable (withConfiguredRetention (pd_cfg D) spec) (pd_now D) (horizonFor spec)) TableSpecs"

lemma configured_sel [simp]:
  "sp_table (withConfiguredRetention cfg spec) = sp_table spec"
  "sp_granularity (withConfiguredRetention cfg spec) = sp_granularity spec"
  "horizonFor (withConfiguredRetention cfg spec) = horizonFor spec"
  by (auto simp: withConfiguredRetention_def horizonFor_def Let_def)

lemma reclaim_ok_expired:
  assumes "spec0 \<in> set TableSpecs" "spec = withConfiguredRetention cfg spec0" "b \<in> set (expired_list spec now existing)"
  shows "reclaim_ok cfg now (TruncatePartition (sp_table spec) (bd_name b))"
    and "reclaim_ok cfg now (DropPartition (sp_table spec) (bd_name b))"
proof -
  have "boundFromName (bd_name b) (sp_granularity spec0) = Some b" "bd_upper b * nsec \<le> now - sp_retention spec"
    using assms by (simp_all add: expired_list_set old_bound_Some)
  then have "list_ex (\<lambda>spec0. let spec = withConfiguredRetention cfg spec0 in
      sp_table (withConfiguredRetention cfg spec0) = sp_table spec
      \<and> (case boundFromName (bd_name b) (sp_granularity spec) of None \<Rightarrow> False | Some b \<Rightarrow> bd_upper b * nsec \<le> now - sp_retention spec)) [spec0]"
    using assms(2) by (simp add: Let_def)
  then show "reclaim_ok cfg now (TruncatePartition (sp_table spec) (bd_name b))"
    and "reclaim_ok cfg now (DropPartition (sp_table spec) (bd_name b))"
    using assms(1,2) by (auto simp: reclaim_ok_def list_ex_iff Let_def intro!: bexI [of _ spec0])
qed

text \<open>The statements a plan reclaims with.\<close>
lemma reclaim_items_ok:
  assumes ok: "plannable spec now (horizonFor spec0)" and spec: "spec0 \<in> set TableSpecs" "spec = withConfiguredRetention cfg spec0"
    and dial: "dialect = ''mysql'' \<or> existing = []"
    and p: "p = PlanFrom spec existing now (horizonFor spec) partitionHold"
    and ds: "ReclaimDDL dialect spec (pl_truncate p) (pl_drop p) = Some ds"
  shows "list_all (reclaiming (sp_table spec)) (reclaim_items p ds) \<and> list_all (\<lambda>x. reclaim_ok cfg now (fst x)) (reclaim_items p ds)"
proof (cases "existing = []")
  case True
  have "pl_truncate p = []" "pl_drop p = []"
    using ok spec by (simp_all add: p True PlanFrom_eq expired_list_def map_filter_simps)
  then show ?thesis by (simp add: reclaim_items_def)
next
  case False
  then have "dialect = ''mysql''" using dial by simp
  then have d: "ds = map (TruncatePartition (sp_table spec)) (pl_truncate p) @ map (DropPartition (sp_table spec)) (pl_drop p)"
    using ds by (simp add: ReclaimDDL_def)
  have items: "reclaim_items p ds = map (\<lambda>n. (TruncatePartition (sp_table spec) n, n, True)) (pl_truncate p)
      @ map (\<lambda>n. (DropPartition (sp_table spec) n, n, False)) (pl_drop p)"
    by (simp add: reclaim_items_def d zip_map_map zip_same_conv_map)
  have "pl_truncate p = map bd_name (take (nat partitionHold) (expired_list spec now existing))"
    "pl_drop p = map bd_name (drop (nat partitionHold) (expired_list spec now existing))"
    using ok spec by (simp_all add: p PlanFrom_eq)
  then show ?thesis
    unfolding items using reclaim_ok_expired [OF spec]
    by (auto simp: list_all_iff reclaiming_def dest: in_set_takeD in_set_dropD)
qed

lemma reconcileTable_balanced:
  assumes D: "planned D" and spec: "spec \<in> set TableSpecs"
    and run: "reconcileTable D spec (pd_now D) s = (s', e)"
  shows "\<exists>k. balanced (reclaim_ok (pd_cfg D) (pd_now D)) s 0 s' k \<and> (k \<noteq> 0 \<longrightarrow> e \<noteq> None)"
proof -
  define cfg where "cfg = pd_cfg D"
  define now where "now = pd_now D"
  define sp where "sp = withConfiguredRetention cfg spec"
  define days where "days = signed_take_bit 31 (quot64 (sp_retention sp) day_ns)"
  obtain st w where s: "s = (st, w)" by (cases s)
  obtain w1 r where ex: "ExistingPartitions D (sp_table sp) w = (w1, r)" by (cases "ExistingPartitions D (sp_table sp) w")
  have "adds (reclaim_ok cfg now) w w1 0"
    using frame_calls(3) [of "reclaim_ok cfg now" w D "sp_table sp"] ex by simp
  then have b1: "balanced (reclaim_ok cfg now) s 0 (st, w1) 0" unfolding s by (rule balanced_same)
  show ?thesis
  proof (cases r)
    case None
    then show ?thesis
      using run b1 ex by (auto simp: reconcileTable_def s sp_def [symmetric] Let_def cfg_def [symmetric] now_def [symmetric])
  next
    case (Some existing)
    have dial: "pd_dialect D = ''mysql'' \<or> existing = []"
      using ex Some by (auto simp: ExistingPartitions_def split: if_splits)
    define p where "p = PlanFrom sp existing now (horizonFor sp) partitionHold"
    define adds where "adds = AddPartitionDDL (pd_dialect D) sp (pl_create p) (SentinelPartitionName \<in> set existing)"
    obtain s2 errs failed where al: "add_loop D sp days now adds (pl_create p) [] (st, w1) = (s2, errs, failed)"
      by (cases "add_loop D sp days now adds (pl_create p) [] (st, w1)") auto
    have b2: "balanced (reclaim_ok cfg now) (st, w1) 0 s2 (length errs)"
    proof (cases "adds = []")
      case True
      then show ?thesis using al by (auto intro: balanced_same adds_refl)
    next
      case False
      then obtain f where f: "adding (sp_table sp) f" "adds = map f (pl_create p)"
        using AddPartitionDDL_adding [of "pd_dialect D" sp "pl_create p" "SentinelPartitionName \<in> set existing"]
        by (auto simp: adds_def)
      show ?thesis using add_loop_balanced [OF f(1), of D days now "pl_create p" "[]" "(st, w1)" s2 errs failed cfg now] al f(2) by simp
    qed
    have body: "reconcileTable D spec now s =
      (if failed then (s2, Some ErrAdd)
       else case ReclaimDDL (pd_dialect D) sp (pl_truncate p) (pl_drop p) of
              None \<Rightarrow> (s2, auditErrOrNil errs)
            | Some ds \<Rightarrow> (case reclaim_loop D sp days now (reclaim_items p ds) errs s2 of
                 (s, errs) \<Rightarrow> (s, auditErrOrNil errs)))"
      using al ex Some unfolding days_def p_def adds_def
      by (simp add: reconcileTable_def s sp_def [symmetric, unfolded cfg_def] Let_def now_def [symmetric])
    have b12: "balanced (reclaim_ok cfg now) s 0 s2 (length errs)" using b1 b2 by (rule balanced_trans)
    show ?thesis
    proof (cases "failed \<or> ReclaimDDL (pd_dialect D) sp (pl_truncate p) (pl_drop p) = None")
      case True
      then show ?thesis using run b12 body
        by (auto simp: auditErrOrNil_def cfg_def [symmetric] now_def [symmetric] split: if_splits option.splits intro!: exI [of _ "length errs"])
    next
      case False
      then obtain ds where ds: "ReclaimDDL (pd_dialect D) sp (pl_truncate p) (pl_drop p) = Some ds" and nf: "\<not> failed" by auto
      obtain s3 errs3 where rl: "reclaim_loop D sp days now (reclaim_items p ds) errs s2 = (s3, errs3)"
        by (cases "reclaim_loop D sp days now (reclaim_items p ds) errs s2")
      have ok: "plannable sp now (horizonFor spec)"
        using D spec by (simp add: planned_def list_all_iff sp_def cfg_def now_def)
      have it: "list_all (reclaiming (sp_table sp)) (reclaim_items p ds) \<and> list_all (\<lambda>x. reclaim_ok cfg now (fst x)) (reclaim_items p ds)"
        by (rule reclaim_items_ok [OF ok spec sp_def dial p_def ds])
      have "balanced (reclaim_ok cfg now) s2 (length errs) s3 (length errs3)"
        by (rule reclaim_loop_balanced [OF conjunct1 [OF it] conjunct2 [OF it] rl])
      then have "balanced (reclaim_ok cfg now) s 0 s3 (length errs3)" using b12 balanced_trans by blast
      moreover have "s' = s3" "e = auditErrOrNil errs3"
        using run body ds nf rl by (simp_all add: now_def [symmetric])
      ultimately show ?thesis
        by (auto simp: auditErrOrNil_def cfg_def [symmetric] now_def [symmetric] intro!: exI [of _ "length errs3"])
    qed
  qed
qed

lemma reconcile_tables_balanced:
  assumes D: "planned D" and specs: "set specs \<subseteq> set TableSpecs"
  shows "reconcile_tables D (pd_now D) specs fails s = (s', fails') \<Longrightarrow>
    \<exists>k. balanced (reclaim_ok (pd_cfg D) (pd_now D)) s 0 s' k \<and> (k \<noteq> 0 \<or> fails \<noteq> [] \<longrightarrow> fails' \<noteq> [])"
  using specs
proof (induction specs arbitrary: fails s)
  case Nil
  then show ?case by (cases s) (auto intro!: exI [of _ 0] balanced_same adds_refl)
next
  case (Cons spec specs)
  obtain st w where s: "s = (st, w)" by (cases s)
  define st1 where "st1 = st\<lparr>ps_scanned := ps_scanned st + 1\<rparr>"
  obtain s2 e where rt: "reconcileTable D spec (pd_now D) (st1, w) = (s2, e)"
    by (cases "reconcileTable D spec (pd_now D) (st1, w)")
  let ?P = "reclaim_ok (pd_cfg D) (pd_now D)"
  obtain k where k: "balanced ?P (st1, w) 0 s2 k" "k \<noteq> 0 \<longrightarrow> e \<noteq> None"
    using reconcileTable_balanced [OF D _ rt] Cons.prems(2) by auto
  have "changed st1 = changed st" "ps_audit_failures st1 = ps_audit_failures st" by (simp_all add: st1_def changed_def)
  then have k1: "balanced ?P s 0 s2 k" using k(1) by (simp only: s balanced_def fst_conv snd_conv)
  define fails1 where "fails1 = (if e = None then fails else fails @ [sp_table spec])"
  have "reconcile_tables D (pd_now D) specs fails1 s2 = (s', fails')"
    using Cons.prems(1) rt by (cases e) (simp_all add: s st1_def fails1_def)
  then obtain j where j: "balanced ?P s2 0 s' j" "j \<noteq> 0 \<or> fails1 \<noteq> [] \<longrightarrow> fails' \<noteq> []"
    using Cons.IH [of fails1 s2] Cons.prems(2) by auto
  have "balanced ?P s2 k s' (j + k)" using j(1) unfolding balanced_def by (elim conjE) (intro conjI, assumption, linarith)
  then have "balanced ?P s 0 s' (j + k)" using k1 by (rule balanced_trans [rotated])
  moreover have "j + k \<noteq> 0 \<or> fails \<noteq> [] \<longrightarrow> fails' \<noteq> []" using j(2) k(2) by (auto simp: fails1_def split: if_splits)
  ultimately show ?case by blast
qed

lemma exec_all_adds: "list_all P ds \<Longrightarrow> adds P w (fst (exec_all D ds w)) 0"
proof (induction ds arbitrary: w)
  case (Cons d ds)
  obtain w1 r where run: "ExecDDL D d w = (w1, r)" by (cases "ExecDDL D d w")
  have 1: "adds P w w1 0" using exec_adds [of P d w D] Cons.prems run by simp
  show ?case using run 1 Cons adds_trans [OF 1, of "fst (exec_all D ds w1)" 0] by (cases r) auto
qed (simp add: adds_refl)

lemma ensure_adds: "adds (reclaim_ok cfg now) w (fst (ensure_tables D n specs w)) 0"
proof (induction specs arbitrary: w)
  case (Cons spec specs)
  show ?case
  proof (cases "MetricColumnDDL (sp_table spec)")
    case (Some cols)
    let ?ds = "create_table (pd_dialect D) spec cols (Desired spec n 3) # ChildDDL (pd_dialect D) spec (Desired spec n 3)"
    have "list_all (reclaim_ok cfg now) ?ds"
      by (auto simp: create_table_def ChildDDL_def reclaim_ok_def child_of_def list_all_iff Let_def)
    then have 1: "adds (reclaim_ok cfg now) w (fst (exec_all D ?ds w)) 0" by (rule exec_all_adds)
    then show ?thesis
      using Some Cons adds_trans [OF 1, of _ 0] by (auto simp: Let_def simp del: exec_all.simps split: prod.splits bool.splits)
  qed (simp add: adds_refl)
qed (simp add: adds_refl)

lemma Reconcile_balanced:
  assumes D: "planned D" and run: "Reconcile D w = (w', st, e)"
  shows "\<exists>k. adds (reclaim_ok (pd_cfg D) (pd_now D)) w w' k \<and> changed st \<le> k + ps_audit_failures st
    \<and> (0 < ps_audit_failures st \<longrightarrow> e \<noteq> None)"
proof -
  let ?P = "reclaim_ok (pd_cfg D) (pd_now D)"
  obtain w1 r where l: "TryLock (pd_owner D) w = (w1, r)" by (cases "TryLock (pd_owner D) w")
  have a1: "adds ?P w w1 0" using frame_calls(1) [of ?P w "pd_owner D"] l by simp
  have zero: "changed zero_pstats = 0" "ps_audit_failures zero_pstats = 0" by (simp_all add: zero_pstats_def changed_def)
  show ?thesis
  proof (cases "r = Some True")
    case False
    then show ?thesis using run l a1 zero
      by (auto simp: Reconcile_def changed_def split: option.splits bool.splits intro!: exI [of _ 0])
  next
    case True
    obtain w2 ok where en: "EnsureSchema D (pd_now D) w1 = (w2, ok)" by (cases "EnsureSchema D (pd_now D) w1")
    obtain st3 w3 fails where rt: "reconcile_tables D (pd_now D) TableSpecs (if ok then [] else [''ensure-schema'']) (zero_pstats, w2)
        = ((st3, w3), fails)"
      by (metis prod.collapse)
    obtain k where k: "balanced ?P (zero_pstats, w2) 0 (st3, w3) k" "k \<noteq> 0 \<longrightarrow> fails \<noteq> []"
      using reconcile_tables_balanced [OF D subset_refl rt] by auto
    have a2: "adds ?P w1 w2 0" using ensure_adds [of "pd_cfg D" "pd_now D" w1 D "pd_now D" TableSpecs] en by (simp add: EnsureSchema_def)
    obtain j where j: "adds ?P w2 w3 j" "changed st3 \<le> j + ps_audit_failures st3" "ps_audit_failures st3 = k"
      using k(1) zero by (auto simp: balanced_def)
    have "adds ?P w (fst (Unlock (pd_owner D) w3)) (0 + 0 + j + 0)"
      by (intro adds_trans [OF adds_trans [OF adds_trans [OF a1 a2] j(1)] frame_calls(2)])
    moreover have "w' = fst (Unlock (pd_owner D) w3)" "st = st3"
      "e = (if fails = [] then None else Some (ErrPartitionPartial fails))"
      using run l True en rt by (simp_all add: Reconcile_def reconcile_locked_def)
    ultimately show ?thesis using j k(2) by (auto intro!: exI [of _ j])
  qed
qed

text \<open>C33: whatever fails, and whatever other processes do in between, a round only truncates and drops
  partitions of its tables that end before the configured retention begins; the statements that would
  empty or drop whole tables never run.\<close>
theorem reconcile_reclaims_only_expired:
  assumes "list_all (\<lambda>spec. plannable (withConfiguredRetention (pd_cfg D) spec) (pd_now D) (horizonFor spec)) TableSpecs"
  shows "\<exists>xs. pw_ran (fst (Reconcile D w)) = pw_ran w @ xs \<and> list_all (reclaim_ok (pd_cfg D) (pd_now D)) xs"
proof -
  obtain w' st e where r: "Reconcile D w = (w', st, e)" by (cases "Reconcile D w")
  then show ?thesis
    using Reconcile_balanced [of D w w' st e] assms by (auto simp: planned_def adds_def)
qed

text \<open>The audit log only grows by rows that describe statements of the round, and it has no silent gap: the
  changes the round counted are at most the new rows and the counted audit failures, and any such
  failure makes the round fail.\<close>
theorem audit_no_silent_gap:
  assumes "list_all (\<lambda>spec. plannable (withConfiguredRetention (pd_cfg D) spec) (pd_now D) (horizonFor spec)) TableSpecs"
    and "Reconcile D w = (w', st, e)"
  shows "\<exists>xs rows. pw_ran w' = pw_ran w @ xs \<and> pw_log w' = pw_log w @ rows
    \<and> list_all (\<lambda>r. list_ex (\<lambda>d. describes d r) xs) rows
    \<and> ps_created st + ps_truncated st + ps_dropped st \<le> length rows + ps_audit_failures st
    \<and> (0 < ps_audit_failures st \<longrightarrow> e \<noteq> None)"
proof -
  obtain k where k: "adds (reclaim_ok (pd_cfg D) (pd_now D)) w w' k" "changed st \<le> k + ps_audit_failures st"
    "0 < ps_audit_failures st \<longrightarrow> e \<noteq> None"
    using Reconcile_balanced [of D w w' st e] assms by (auto simp: planned_def)
  then obtain xs rows where "pw_ran w' = pw_ran w @ xs" "pw_log w' = pw_log w @ rows"
    "list_all (\<lambda>r. list_ex (\<lambda>d. describes d r) xs) rows" "k \<le> length rows"
    by (auto simp: adds_def)
  then show ?thesis using k by (intro exI [of _ xs] exI [of _ rows]) (simp add: changed_def)
qed

end
