(* ===== verification/PartitionCases.thy ===== *)
theory PartitionCases
  imports PartitionSafety
begin

text \<open>
  Rounds of the coordinator against a database whose behaviour is documented: MySQL keeps the bounds of a
  table increasing and splits the last partition; PostgreSQL keeps every partition as a relation of its
  own and skips the creation of a relation that exists. A round that finds a contiguous table carries its
  plan out; raising the retention stops a table; on PostgreSQL only the first table of each granularity
  gets partitions; and a retention beyond the range of a duration reclaims current data.
\<close>

section \<open>Quiet calls\<close>

lemma p_call_quiet [simp]: "pw_faults w = [] \<Longrightarrow> p_call f w = f w"
proof -
  assume q: "pw_faults w = []"
  then have 1: "p_settle (pw_faults w) w = w" and 2: "w\<lparr>pw_faults := tl (pw_faults w)\<rparr> = w"
    by (cases w; simp)+
  show ?thesis unfolding p_call_def Let_def 1 2 by (simp add: q)
qed

lemma exec_quiet:
  "pw_faults w = [] \<Longrightarrow> ExecDDL D d w =
     (case pd_run D d (pw_cat w) of None \<Rightarrow> (w, None)
      | Some c \<Rightarrow> (w\<lparr>pw_cat := c, pw_ran := pw_ran w @ [d]\<rparr>, Some ()))"
  by (simp add: ExecDDL_def)

lemma audit_quiet:
  "pw_faults w = [] \<Longrightarrow> pd_auditor D \<Longrightarrow>
   \<exists>row. auditPartitionChange D t action b days now dr (st, w) = ((st, w\<lparr>pw_log := pw_log w @ [row]\<rparr>), True)"
  by (rule exI) (simp add: auditPartitionChange_def log_Insert_def Let_def)

text \<open>A statement that the server takes, with its row in the audit log.\<close>
lemma change_quiet:
  assumes quiet: "pw_faults w = []" and aud: "pd_auditor D" and run: "pd_run D d (pw_cat w) = Some c'"
  obtains w1 w2 where "ExecDDL D d w = (w1, Some ())"
    "auditPartitionChange D t action b days now dr (st, w1) = ((st, w2), True)" "pw_faults w2 = []" "pw_cat w2 = c'"
proof -
  let ?w1 = "w\<lparr>pw_cat := c', pw_ran := pw_ran w @ [d]\<rparr>"
  have q: "pw_faults ?w1 = []" using quiet by simp
  obtain row where
    "auditPartitionChange D t action b days now dr (st, ?w1) = ((st, ?w1\<lparr>pw_log := pw_log ?w1 @ [row]\<rparr>), True)"
    using audit_quiet [OF q aud] by blast
  moreover have "ExecDDL D d w = (?w1, Some ())" using quiet run by (simp add: exec_quiet)
  ultimately show thesis using q by (intro that [of ?w1 "?w1\<lparr>pw_log := pw_log ?w1 @ [row]\<rparr>"]) simp_all
qed

section \<open>Raising the retention\<close>

text \<open>What MySQL documents: the ranges of a table are strictly increasing, so the last partition cannot be
  split at a bound that another partition reaches. \<open>bound\<close> is the upper bound of a partition.\<close>
definition mysql_refuses :: "'c pdeps \<Rightarrow> (string \<Rightarrow> string \<Rightarrow> 'c \<Rightarrow> int) \<Rightarrow> bool" where
  "mysql_refuses D bound \<longleftrightarrow>
     (\<forall>t n up c m. m \<in> set (pd_parts D t c) \<and> m \<noteq> SentinelPartitionName \<and> up \<le> bound t m c
        \<longrightarrow> pd_run D (SplitSentinel t n up) c = None)"

lemma create_first:
  assumes ok: "plannable spec now horizon" and g: "g = sp_granularity spec"
    and a: "a = period_of g (now - sp_retention spec)"
    and guard: "GuardPartitionName \<in> set existing" and first: "bd_name (pbound g a) \<notin> set existing"
  shows "\<exists>bs. filter (\<lambda>b. bd_name b \<notin> set existing) (Desired spec now horizon) = pbound g a # bs"
proof -
  define b where "b = period_of g now + ahead horizon"
  note win = ok g a b_def
  have "[a..b - 1] = a # [a + 1..b - 1]" using window_order [OF win] by (simp add: upto_rec1)
  then show ?thesis using guard first by (simp add: Desired_window [OF win] del: pbound_sel)
qed

text \<open>C37: a table that was made with a shorter retention has no room below its guard. Once the retention is
  raised, every round fails at its first statement for the table: nothing is added, not even the
  partitions of the future, and nothing is reclaimed, for as long as the wanted window begins before the
  old one did.\<close>
theorem raised_retention_blocks:
  assumes my: "pd_dialect D = ''mysql''" and law: "mysql_refuses D bound" and quiet: "pw_faults w = []"
    and made: "set (pd_parts D (sp_table spec0) (pw_cat w)) = bd_name ` set (Desired old made_at horizon0)"
    and guard: "bound (sp_table spec0) GuardPartitionName (pw_cat w) = bd_upper (hd (Desired old made_at horizon0))"
    and old: "plannable old made_at horizon0" "sp_granularity old = sp_granularity spec0"
    and new: "plannable (withConfiguredRetention (pd_cfg D) spec0) now (horizonFor spec0)"
    and before: "periodStart (now - sp_retention (withConfiguredRetention (pd_cfg D) spec0)) (sp_granularity spec0)
      < periodStart (made_at - sp_retention old) (sp_granularity spec0)"
  shows "reconcileTable D spec0 now (st, w) = ((st, w), Some ErrAdd)"
proof -
  define spec where "spec = withConfiguredRetention (pd_cfg D) spec0"
  define g where "g = sp_granularity spec0"
  define a0 where "a0 = period_of g (made_at - sp_retention old)"
  define b0 where "b0 = period_of g made_at + ahead horizon0"
  define a where "a = period_of g (now - sp_retention spec)"
  define b where "b = period_of g now + ahead (horizonFor spec0)"
  let ?ex = "pd_parts D (sp_table spec0) (pw_cat w)"
  have gold: "g = sp_granularity old" and gnew: "g = sp_granularity spec" using old by (simp_all add: g_def spec_def)
  note wold = old(1) gold a0_def b0_def and wnew = new [folded spec_def] gnew a_def b_def
  have less: "a < a0" using before by (simp add: periodStart_eq g_def [symmetric] spec_def [symmetric] a_def a0_def)
  have D0: "Desired old made_at horizon0 = \<lparr>bd_name = GuardPartitionName, bd_lower = 0, bd_upper = 86400 * pstart g a0\<rparr>
     # map (pbound g) [a0..b0 - 1] @ [\<lparr>bd_name = SentinelPartitionName, bd_lower = 86400 * pstart g b0, bd_upper = MaxInt64\<rparr>]"
    by (rule Desired_window [OF wold])
  have gin: "GuardPartitionName \<in> set ?ex" and sin: "SentinelPartitionName \<in> set ?ex" using made by (simp_all add: D0)
  have era: "in_era (pstart g a)" using window_era [OF wnew, of a] window_order [OF wnew] by simp
  have absent: "bd_name (pbound g a) \<notin> set ?ex"
  proof
    assume "bd_name (pbound g a) \<in> set ?ex"
    then have "\<exists>i\<in>{a0..b0 - 1}. bd_name (pbound g a) = bd_name (pbound g i)"
      using made pbound_not_reserved [OF era] by (auto simp: D0 simp del: pbound_sel)
    then obtain i where i: "i \<in> {a0..b0 - 1}" "bd_name (pbound g a) = bd_name (pbound g i)" by blast
    then have "a = i" using pbound_name_inject [OF era window_era [OF wold, of i]] by simp
    then show False using i less by simp
  qed
  obtain bs where create: "filter (\<lambda>b. bd_name b \<notin> set ?ex) (Desired spec now (horizonFor spec0)) = pbound g a # bs"
    using create_first [OF new [folded spec_def] gnew a_def gin absent] by blast
  have "bd_upper (pbound g a) \<le> bound (sp_table spec0) GuardPartitionName (pw_cat w)"
    using less guard period.start_le_iff [of g "a + 1" a0] by (simp add: D0)
  then have refuse: "pd_run D (SplitSentinel (sp_table spec0) (bd_name (pbound g a)) (bd_upper (pbound g a))) (pw_cat w) = None"
    using law gin reserved_differ unfolding mysql_refuses_def by blast
  have t: "sp_table spec = sp_table spec0" "horizonFor spec = horizonFor spec0" by (simp_all add: spec_def)
  have ex: "ExistingPartitions D (sp_table spec0) w = (w, Some ?ex)"
    using my quiet by (simp add: ExistingPartitions_def)
  have cr: "pl_create (PlanFrom spec ?ex now (horizonFor spec0) partitionHold) = pbound g a # bs"
    using new create by (simp add: PlanFrom_eq spec_def)
  have stop: "ExecDDL D (SplitSentinel (sp_table spec0) (bd_name (pbound g a)) (bd_upper (pbound g a))) w = (w, None)"
    using quiet refuse by (simp add: exec_quiet del: pbound_sel)
  have "add_loop D spec days now (AddPartitionDDL (pd_dialect D) spec (pbound g a # bs) True) (pbound g a # bs) [] (st, w)
      = ((st, w), [], True)" for days
    by (simp add: AddPartitionDDL_def my t stop del: pbound_sel)
  then show ?thesis
    unfolding reconcileTable_def spec_def [symmetric] Let_def
    by (simp only: prod.case t ex option.case cr sin) simp
qed

section \<open>A retention beyond the range\<close>

text \<open>C39: days are multiplied in an int64 of nanoseconds. 200000 days wrap around to a negative retention: the
  window of wanted partitions is empty, and every partition that ends before a date in the far future
  counts as expired, the one that is being written included.\<close>
theorem huge_retention_reclaims_current:
  assumes spec0: "spec0 \<in> set TableSpecs" and cfg: "\<And>key def. cfg key def = 200000"
    and now: "day_ns \<le> now" "now \<le> 2 ^ 61"
    and n: "n \<in> set existing" "boundFromName n (sp_granularity spec0) = Some b" "bd_upper b * nsec \<le> now + 13000 * day_ns"
  shows "n \<in> set (pl_truncate (PlanFrom (withConfiguredRetention cfg spec0) existing now (horizonFor spec0) hold))
    \<union> set (pl_drop (PlanFrom (withConfiguredRetention cfg spec0) existing now (horizonFor spec0) hold))"
proof -
  define spec where "spec = withConfiguredRetention cfg spec0"
  define g where "g = sp_granularity spec0"
  have ret: "sp_retention spec = - 1166744073709551616"
    by (simp add: spec_def withConfiguredRetention_def cfg wrap64_def day_ns_def Let_def
        signed_take_bit_eq_take_bit_shift take_bit_eq_mod)
  have g: "sp_granularity spec = g" by (simp add: g_def spec_def)
  have h: "1 \<le> horizonFor spec" "horizonFor spec \<le> 5"
    by (simp_all add: horizonFor_def partitionHorizonMonths_def partitionHorizonWeeks_def split: Granularity.splits)
  define cutoff where "cutoff = now - sp_retention spec"
  have far: "day_number now + 13000 \<le> day_number cutoff"
  proof -
    have "day_number (now + 13000 * day_ns) \<le> day_number cutoff"
      unfolding day_number_def by (rule zdiv_mono1) (simp_all add: cutoff_def ret day_ns_def)
    then show ?thesis by (simp add: day_number_def day_ns_def)
  qed
  have "period_of g now + horizonFor spec \<le> period_of g cutoff"
  proof -
    have "pstart g (period_of g now + horizonFor spec) \<le> pstart g (period_of g now) + 31 * horizonFor spec"
      using h by (intro pstart_add_le) simp
    also have "\<dots> \<le> day_number cutoff" using period.index_low [of g "day_number now"] h far by linarith
    finally have "pindex g (pstart g (period_of g now + horizonFor spec)) \<le> period_of g cutoff"
      by (rule period.index_mono)
    then show ?thesis by simp
  qed
  then have "periods g (period_at g (period_of g cutoff)) (period_at g (period_of g now + horizonFor spec)) = []"
    by (simp add: periods.simps)
  then have want: "Desired spec now (horizonFor spec) =
      [\<lparr>bd_name = GuardPartitionName, bd_lower = 0, bd_upper = Unix (periodStart cutoff g)\<rparr>,
       \<lparr>bd_name = SentinelPartitionName, bd_lower = Unix (addPeriod (periodStart now g) g (horizonFor spec)), bd_upper = MaxInt64\<rparr>]"
    using h by (simp add: Desired_def Let_def g cutoff_def [symmetric] periodStart_eq addPeriod_eq)
  have nr: "n \<noteq> GuardPartitionName" "n \<noteq> SentinelPartitionName" using n(2) by auto
  then have "map_of (rev (map (\<lambda>b. (bd_name b, b)) (Desired spec now (horizonFor spec)))) n = None"
    by (simp add: want)
  moreover have "bd_upper b * nsec \<le> cutoff" using n(3) by (simp add: cutoff_def ret day_ns_def)
  ultimately have "expired_bound spec (Desired spec now (horizonFor spec)) cutoff n = Some b"
    using n(2) nr by (simp add: expired_bound_def g g_def [symmetric])
  then have "b \<in> set (sort_key bd_upper (List.map_filter (expired_bound spec (Desired spec now (horizonFor spec)) cutoff) existing))"
    using n(1) by (auto simp: map_filter_mem)
  moreover have "bd_name b = n" using n(2) by (rule boundFromName_name)
  moreover have "bd_name x \<in> set (map bd_name (take k xs)) \<union> set (map bd_name (drop k xs))" if "x \<in> set xs" for x k and xs :: "Bound list"
    using that by (metis append_take_drop_id image_eqI map_append set_append set_map)
  ultimately show ?thesis
    unfolding spec_def [symmetric] configured_sel(3) [of cfg spec0, folded spec_def, symmetric]
    by (simp only: PlanFrom_def Let_def Plan.select_convs cutoff_def [symmetric]) blast
qed

section \<open>PostgreSQL\<close>

text \<open>What PostgreSQL documents: a partition is a relation, and its name is unique in the schema, not in the
  table; \<open>CREATE TABLE IF NOT EXISTS\<close> does nothing when the name exists, and else it either fails or makes
  the partition. \<open>rel\<close> are the names in use, \<open>att\<close> the partitions of a table.\<close>
definition postgres_laws :: "'c pdeps \<Rightarrow> ('c \<Rightarrow> string set) \<Rightarrow> (string \<Rightarrow> 'c \<Rightarrow> string set) \<Rightarrow> bool" where
  "postgres_laws D rel att \<longleftrightarrow>
     (\<forall>n t lo up c. n \<in> rel c \<longrightarrow> pd_run D (CreateChild n t lo up) c = Some c)
     \<and> (\<forall>n t lo up c c'. n \<notin> rel c \<and> pd_run D (CreateChild n t lo up) c = Some c' \<longrightarrow>
          rel c' = insert n (rel c) \<and> (\<forall>u. att u c' = (if u = t then insert n (att u c) else att u c)))
     \<and> (\<forall>t cols c c'. pd_run D (CreateParent t cols) c = Some c' \<longrightarrow> rel c \<subseteq> rel c' \<and> (\<forall>u. att u c' = att u c))"

definition nobody :: "'c pworld \<Rightarrow> bool" where
  "nobody w \<longleftrightarrow> list_all (\<lambda>f. case f of PMeanwhile _ _ \<Rightarrow> False | _ \<Rightarrow> True) (pw_faults w)"

lemma exec_alone:
  assumes "nobody w" and "ExecDDL D d w = (w', r)"
  shows "nobody w'" and "pw_cat w' = pw_cat w \<or> pd_run D d (pw_cat w) = Some (pw_cat w')"
    and "r \<noteq> None \<Longrightarrow> pd_run D d (pw_cat w) = Some (pw_cat w')"
proof -
  have "nobody w' \<and> (pw_cat w' = pw_cat w \<or> pd_run D d (pw_cat w) = Some (pw_cat w'))
      \<and> (r \<noteq> None \<longrightarrow> pd_run D d (pw_cat w) = Some (pw_cat w'))"
  proof (cases "pw_faults w")
    case Nil
    then show ?thesis using assms by (auto simp: nobody_def exec_quiet split: option.splits)
  next
    case (Cons x fs)
    then show ?thesis using assms
      by (cases x) (auto simp: nobody_def ExecDDL_def p_call_def Let_def split: option.splits)
  qed
  then show "nobody w'" and "pw_cat w' = pw_cat w \<or> pd_run D d (pw_cat w) = Some (pw_cat w')"
    and "r \<noteq> None \<Longrightarrow> pd_run D d (pw_cat w) = Some (pw_cat w')" by blast+
qed

text \<open>Statements that only make tables and partitions.\<close>
fun makes :: "ddl \<Rightarrow> bool" where
  "makes (CreateChild _ _ _ _) = True"
| "makes (CreateParent _ _) = True"
| "makes _ = False"

lemma makes_run:
  assumes laws: "postgres_laws D rel att" and m: "makes d" and run: "pd_run D d c = Some c'"
  shows "rel c \<subseteq> rel c'" and "\<And>n t lo up. d = CreateChild n t lo up \<Longrightarrow> n \<in> rel c'"
    and "\<And>u. (\<And>n t lo up. d = CreateChild n t lo up \<Longrightarrow> t = u \<Longrightarrow> n \<in> rel c) \<Longrightarrow> att u c' = att u c"
proof -
  consider (old) n t lo up where "d = CreateChild n t lo up" "n \<in> rel c" "c' = c"
    | (new) n t lo up where "d = CreateChild n t lo up" "n \<notin> rel c" "rel c' = insert n (rel c)"
        "\<forall>u. att u c' = (if u = t then insert n (att u c) else att u c)"
    | (parent) t cols where "d = CreateParent t cols" "rel c \<subseteq> rel c'" "\<forall>u. att u c' = att u c"
  proof (cases d)
    case (CreateChild n t lo up)
    show thesis
    proof (cases "n \<in> rel c")
      case True
      then have "c' = c" using laws run CreateChild unfolding postgres_laws_def by (metis option.inject)
      then show thesis using True CreateChild old by blast
    next
      case False
      then have "rel c' = insert n (rel c) \<and> (\<forall>u. att u c' = (if u = t then insert n (att u c) else att u c))"
        using laws run CreateChild unfolding postgres_laws_def by blast
      then show thesis using False CreateChild new by blast
    qed
  next
    case (CreateParent t cols)
    then have "rel c \<subseteq> rel c' \<and> (\<forall>u. att u c' = att u c)"
      using laws run unfolding postgres_laws_def by blast
    then show thesis using CreateParent parent by blast
  qed (use m in simp_all)
  note cs = this
  show "rel c \<subseteq> rel c'" by (cases rule: cs) auto
  show "n \<in> rel c'" if "d = CreateChild n t lo up" for n t lo up using that by (cases rule: cs) auto
  show "att u c' = att u c" if "\<And>n t lo up. d = CreateChild n t lo up \<Longrightarrow> t = u \<Longrightarrow> n \<in> rel c" for u
    using that by (cases rule: cs) auto
qed

lemma exec_all_postgres:
  assumes laws: "postgres_laws D rel att"
  shows "nobody w \<Longrightarrow> list_all makes ds \<Longrightarrow> exec_all D ds w = (w', ok) \<Longrightarrow>
    nobody w' \<and> rel (pw_cat w) \<subseteq> rel (pw_cat w')
    \<and> (ok \<longrightarrow> (\<forall>n t lo up. CreateChild n t lo up \<in> set ds \<longrightarrow> n \<in> rel (pw_cat w')))
    \<and> ((\<forall>n lo up. CreateChild n u lo up \<in> set ds \<longrightarrow> n \<in> rel (pw_cat w)) \<longrightarrow> att u (pw_cat w') = att u (pw_cat w))"
proof (induction ds arbitrary: w)
  case (Cons d ds)
  obtain w1 r where run: "ExecDDL D d w = (w1, r)" by (cases "ExecDDL D d w")
  note alone = exec_alone [OF Cons.prems(1) run]
  have m: "makes d" using Cons.prems(2) by simp
  have step: "rel (pw_cat w) \<subseteq> rel (pw_cat w1)"
    "(\<forall>n lo up. CreateChild n u lo up \<in> set (d # ds) \<longrightarrow> n \<in> rel (pw_cat w)) \<Longrightarrow> att u (pw_cat w1) = att u (pw_cat w)"
    using alone(2) makes_run(1) [OF laws m] makes_run(3) [OF laws m, of "pw_cat w" "pw_cat w1" u] by auto
  show ?case
  proof (cases r)
    case None
    then show ?thesis using Cons.prems run alone(1) step by auto
  next
    case (Some u')
    then have here: "n \<in> rel (pw_cat w1)" if "d = CreateChild n t lo up" for n t lo up
      using makes_run(2) [OF laws m] alone(3) that by blast
    have "exec_all D ds w1 = (w', ok)" using Cons.prems(3) run Some by simp
    then have ih: "nobody w' \<and> rel (pw_cat w1) \<subseteq> rel (pw_cat w')
      \<and> (ok \<longrightarrow> (\<forall>n t lo up. CreateChild n t lo up \<in> set ds \<longrightarrow> n \<in> rel (pw_cat w')))
      \<and> ((\<forall>n lo up. CreateChild n u lo up \<in> set ds \<longrightarrow> n \<in> rel (pw_cat w1)) \<longrightarrow> att u (pw_cat w') = att u (pw_cat w1))"
      using Cons.IH [OF alone(1)] Cons.prems(2) by simp
    show ?thesis
    proof (intro conjI impI)
      show "nobody w'" "rel (pw_cat w) \<subseteq> rel (pw_cat w')" using ih step(1) by auto
      show "\<forall>n t lo up. CreateChild n t lo up \<in> set (d # ds) \<longrightarrow> n \<in> rel (pw_cat w')" if ok
        using ih here that by (metis set_ConsD subsetD)
      show "att u (pw_cat w') = att u (pw_cat w)"
        if h: "\<forall>n lo up. CreateChild n u lo up \<in> set (d # ds) \<longrightarrow> n \<in> rel (pw_cat w)"
      proof -
        have "\<forall>n lo up. CreateChild n u lo up \<in> set ds \<longrightarrow> n \<in> rel (pw_cat w1)" using h step(1) by auto
        then show ?thesis using ih step(2) [OF h] by simp
      qed
    qed
  qed
qed simp

lemma pg_statements:
  assumes "pd_dialect D = ''postgres''"
  shows "list_all makes (create_table (pd_dialect D) spec cols bs # ChildDDL (pd_dialect D) spec bs)"
    and "CreateChild n t lo up \<in> set (create_table (pd_dialect D) spec cols bs # ChildDDL (pd_dialect D) spec bs) \<longleftrightarrow>
      t = sp_table spec \<and> \<lparr>bd_name = n, bd_lower = lo, bd_upper = up\<rparr> \<in> set bs"
proof -
  show "list_all makes (create_table (pd_dialect D) spec cols bs # ChildDDL (pd_dialect D) spec bs)"
    using assms by (auto simp: create_table_def ChildDDL_def child_of_def list_all_iff)
  have "CreateChild n t lo up \<in> child_of (sp_table spec) ` set bs \<longleftrightarrow>
      t = sp_table spec \<and> \<lparr>bd_name = n, bd_lower = lo, bd_upper = up\<rparr> \<in> set bs"
  proof -
    have "CreateChild n t lo up = child_of (sp_table spec) b \<longleftrightarrow> t = sp_table spec \<and> b = \<lparr>bd_name = n, bd_lower = lo, bd_upper = up\<rparr>" for b
      by (cases b) (auto simp: child_of_def)
    then show ?thesis by (auto simp: image_iff)
  qed
  then show "CreateChild n t lo up \<in> set (create_table (pd_dialect D) spec cols bs # ChildDDL (pd_dialect D) spec bs) \<longleftrightarrow>
      t = sp_table spec \<and> \<lparr>bd_name = n, bd_lower = lo, bd_upper = up\<rparr> \<in> set bs"
    using assms by (auto simp: create_table_def ChildDDL_def)
qed

lemma ensure_shadowed:
  assumes pg: "pd_dialect D = ''postgres''" and laws: "postgres_laws D rel att"
  shows "nobody w \<Longrightarrow>
    (\<forall>spec\<in>set specs. sp_table spec = t \<longrightarrow> bd_name ` set (Desired spec now 3) \<subseteq> rel (pw_cat w)) \<Longrightarrow>
    att t (pw_cat (fst (ensure_tables D now specs w))) = att t (pw_cat w)"
proof (induction specs arbitrary: w)
  case (Cons spec specs)
  show ?case
  proof (cases "MetricColumnDDL (sp_table spec)")
    case (Some cols)
    let ?bs = "Desired spec now 3"
    let ?ds = "create_table (pd_dialect D) spec cols ?bs # ChildDDL (pd_dialect D) spec ?bs"
    obtain w1 ok where run: "exec_all D ?ds w = (w1, ok)" by (cases "exec_all D ?ds w")
    have sh: "\<forall>n lo up. CreateChild n t lo up \<in> set ?ds \<longrightarrow> n \<in> rel (pw_cat w)"
      unfolding pg_statements(2) [OF pg] using Cons.prems(2) by (force simp: subset_iff image_iff)
    have one: "nobody w1" "rel (pw_cat w) \<subseteq> rel (pw_cat w1)" "att t (pw_cat w1) = att t (pw_cat w)"
      using exec_all_postgres [OF laws Cons.prems(1) pg_statements(1) [OF pg] run, of t] sh by auto
    have e: "ensure_tables D now (spec # specs) w = (if ok then ensure_tables D now specs w1 else (w1, False))"
      using Some run by (simp add: Let_def del: exec_all.simps)
    have "att t (pw_cat (fst (ensure_tables D now specs w1))) = att t (pw_cat w1)"
      by (rule Cons.IH [OF one(1)]) (use Cons.prems(2) one(2) in auto)
    then show ?thesis using one(3) unfolding e by simp
  qed simp
qed simp

lemma Desired_cong:
  "sp_granularity s = sp_granularity s' \<Longrightarrow> sp_retention s = sp_retention s' \<Longrightarrow> Desired s now h = Desired s' now h"
  by (simp add: Desired_def)

text \<open>C38: the names of the partitions do not name their table. So on PostgreSQL the four resource tables never
  get a partition when the schema is made: the names have been given to the partitions of the first
  table, and the statements for the others do nothing, without an error.\<close>
theorem postgres_only_first_table:
  assumes pg: "pd_dialect D = ''postgres''" and laws: "postgres_laws D rel att" and alone: "nobody w"
    and t: "t \<in> {''device_metric_disk'', ''device_metric_diskio'', ''device_metric_nic'', ''device_metric_sensor''}"
  shows "att t (pw_cat (fst (EnsureSchema D now w))) = att t (pw_cat w)"
proof -
  let ?s = "mk_spec ''device_metric_5m'' GranularityWeek 30"
  have specs: "TableSpecs = ?s # tl TableSpecs" by (simp add: TableSpecs_def)
  let ?bs = "Desired ?s now 3"
  let ?ds = "create_table (pd_dialect D) ?s (ddl_lines wide_ddl) ?bs # ChildDDL (pd_dialect D) ?s ?bs"
  obtain w1 ok where run: "exec_all D ?ds w = (w1, ok)" by (cases "exec_all D ?ds w")
  have sh: "\<forall>n lo up. CreateChild n t lo up \<in> set ?ds \<longrightarrow> n \<in> rel (pw_cat w)"
    unfolding pg_statements(2) [OF pg] using t by (auto simp: mk_spec_def)
  have one: "nobody w1" "att t (pw_cat w1) = att t (pw_cat w)"
    "ok \<longrightarrow> (\<forall>n u lo up. CreateChild n u lo up \<in> set ?ds \<longrightarrow> n \<in> rel (pw_cat w1))"
    using exec_all_postgres [OF laws alone pg_statements(1) [OF pg] run, of t] sh by auto
  have names: "bd_name ` set ?bs \<subseteq> rel (pw_cat w1)" if ok
  proof
    fix n assume "n \<in> bd_name ` set ?bs"
    then obtain b where b: "b \<in> set ?bs" "n = bd_name b" by blast
    then have "CreateChild n ''device_metric_5m'' (bd_lower b) (bd_upper b) \<in> set ?ds"
    proof -
      have "\<lparr>bd_name = n, bd_lower = bd_lower b, bd_upper = bd_upper b\<rparr> = b" using b(2) by (cases b) simp
      then show ?thesis unfolding pg_statements(2) [OF pg] b(2) [symmetric]
        using b(1) by (intro conjI) (simp add: mk_spec_def, simp only:)
    qed
    then show "n \<in> rel (pw_cat w1)" using one(3) that by blast
  qed
  have "EnsureSchema D now w = (if ok then ensure_tables D now (tl TableSpecs) w1 else (w1, False))"
    unfolding EnsureSchema_def by (subst specs) (use run in \<open>simp add: MetricColumnDDL_def mk_spec_def Let_def del: exec_all.simps\<close>)
  moreover have "att t (pw_cat (fst (ensure_tables D now (tl TableSpecs) w1))) = att t (pw_cat w1)" if ok
  proof (rule ensure_shadowed [OF pg laws one(1)])
    have "Desired spec now 3 = ?bs" if "spec \<in> set (tl TableSpecs)" "sp_table spec = t" for spec
      using that t by (intro Desired_cong) (auto simp: TableSpecs_def mk_spec_def)
    then show "\<forall>spec\<in>set (tl TableSpecs). sp_table spec = t \<longrightarrow> bd_name ` set (Desired spec now 3) \<subseteq> rel (pw_cat w1)"
      using names that by auto
  qed
  ultimately show ?thesis using one(2) by simp
qed

section \<open>MySQL\<close>

text \<open>What MySQL documents of the statements of a plan: the last partition can be split at a bound above all
  others, a partition can be truncated, and it can be dropped while the sentinel stays.\<close>
definition mysql_accepts :: "'c pdeps \<Rightarrow> (string \<Rightarrow> string \<Rightarrow> 'c \<Rightarrow> int) \<Rightarrow> bool" where
  "mysql_accepts D bound \<longleftrightarrow>
     (\<forall>t n up c. SentinelPartitionName \<in> set (pd_parts D t c) \<and> n \<notin> set (pd_parts D t c)
          \<and> (\<forall>m\<in>set (pd_parts D t c). m \<noteq> SentinelPartitionName \<longrightarrow> bound t m c < up)
        \<longrightarrow> (\<exists>c'. pd_run D (SplitSentinel t n up) c = Some c' \<and> set (pd_parts D t c') = insert n (set (pd_parts D t c))
              \<and> bound t n c' = up \<and> (\<forall>m\<in>set (pd_parts D t c). m \<noteq> SentinelPartitionName \<longrightarrow> bound t m c' = bound t m c)))
     \<and> (\<forall>t n c. n \<in> set (pd_parts D t c)
        \<longrightarrow> (\<exists>c'. pd_run D (TruncatePartition t n) c = Some c' \<and> set (pd_parts D t c') = set (pd_parts D t c)))
     \<and> (\<forall>t n c. n \<in> set (pd_parts D t c) \<and> n \<noteq> SentinelPartitionName \<and> SentinelPartitionName \<in> set (pd_parts D t c)
        \<longrightarrow> (\<exists>c'. pd_run D (DropPartition t n) c = Some c' \<and> set (pd_parts D t c') = set (pd_parts D t c) - {n}))"

lemma mysql_split:
  assumes "mysql_accepts D bound" "SentinelPartitionName \<in> set (pd_parts D t c)" "n \<notin> set (pd_parts D t c)"
    and "\<forall>m\<in>set (pd_parts D t c). m \<noteq> SentinelPartitionName \<longrightarrow> bound t m c < up"
  shows "\<exists>c'. pd_run D (SplitSentinel t n up) c = Some c' \<and> set (pd_parts D t c') = insert n (set (pd_parts D t c))
      \<and> bound t n c' = up \<and> (\<forall>m\<in>set (pd_parts D t c). m \<noteq> SentinelPartitionName \<longrightarrow> bound t m c' = bound t m c)"
proof -
  have "\<forall>t n up c. SentinelPartitionName \<in> set (pd_parts D t c) \<and> n \<notin> set (pd_parts D t c)
          \<and> (\<forall>m\<in>set (pd_parts D t c). m \<noteq> SentinelPartitionName \<longrightarrow> bound t m c < up)
        \<longrightarrow> (\<exists>c'. pd_run D (SplitSentinel t n up) c = Some c' \<and> set (pd_parts D t c') = insert n (set (pd_parts D t c))
              \<and> bound t n c' = up \<and> (\<forall>m\<in>set (pd_parts D t c). m \<noteq> SentinelPartitionName \<longrightarrow> bound t m c' = bound t m c))"
    using assms(1) unfolding mysql_accepts_def by (rule conjunct1)
  then show ?thesis using assms(2-4) by simp
qed

lemma mysql_truncate:
  assumes "mysql_accepts D bound" "n \<in> set (pd_parts D t c)"
  shows "\<exists>c'. pd_run D (TruncatePartition t n) c = Some c' \<and> set (pd_parts D t c') = set (pd_parts D t c)"
  using assms(1) [unfolded mysql_accepts_def, THEN conjunct2, THEN conjunct1] assms(2) by simp

lemma mysql_drop:
  assumes "mysql_accepts D bound" "n \<in> set (pd_parts D t c)" "n \<noteq> SentinelPartitionName" "SentinelPartitionName \<in> set (pd_parts D t c)"
  shows "\<exists>c'. pd_run D (DropPartition t n) c = Some c' \<and> set (pd_parts D t c') = set (pd_parts D t c) - {n}"
  using assms(1) [unfolded mysql_accepts_def, THEN conjunct2, THEN conjunct2] assms(2-4) by simp

lemma add_loop_mysql:
  assumes laws: "mysql_accepts D bound" and aud: "pd_auditor D"
  shows "pw_faults w = [] \<Longrightarrow> sorted_wrt (\<lambda>x y. bd_upper x < bd_upper y) bs \<Longrightarrow> distinct (map bd_name bs) \<Longrightarrow>
    SentinelPartitionName \<in> set (pd_parts D (sp_table spec) (pw_cat w)) \<Longrightarrow>
    set (map bd_name bs) \<inter> set (pd_parts D (sp_table spec) (pw_cat w)) = {} \<Longrightarrow>
    (\<forall>b\<in>set bs. \<forall>m\<in>set (pd_parts D (sp_table spec) (pw_cat w)).
        m \<noteq> SentinelPartitionName \<longrightarrow> bound (sp_table spec) m (pw_cat w) < bd_upper b) \<Longrightarrow>
    \<exists>st' w'. add_loop D spec days now (map (\<lambda>b. SplitSentinel (sp_table spec) (bd_name b) (bd_upper b)) bs) bs errs (st, w)
        = ((st', w'), errs, False) \<and> pw_faults w' = []
      \<and> set (pd_parts D (sp_table spec) (pw_cat w')) = set (pd_parts D (sp_table spec) (pw_cat w)) \<union> set (map bd_name bs)"
proof (induction bs arbitrary: st w)
  case (Cons b bs)
  let ?t = "sp_table spec" and ?c = "pw_cat w"
  have "bd_name b \<notin> set (pd_parts D ?t ?c)"
    "\<forall>m\<in>set (pd_parts D ?t ?c). m \<noteq> SentinelPartitionName \<longrightarrow> bound ?t m ?c < bd_upper b"
    using Cons.prems(5,6) by auto
  from mysql_split [OF laws Cons.prems(4) this] obtain c' where c': "pd_run D (SplitSentinel ?t (bd_name b) (bd_upper b)) ?c = Some c'"
    "set (pd_parts D ?t c') = insert (bd_name b) (set (pd_parts D ?t ?c))" "bound ?t (bd_name b) c' = bd_upper b"
    "\<forall>m\<in>set (pd_parts D ?t ?c). m \<noteq> SentinelPartitionName \<longrightarrow> bound ?t m c' = bound ?t m ?c" by blast
  define st1 where "st1 = st\<lparr>ps_created := ps_created st + 1\<rparr>"
  obtain w1 w2 where run: "ExecDDL D (SplitSentinel ?t (bd_name b) (bd_upper b)) w = (w1, Some ())"
    "auditPartitionChange D ?t PartitionActionAdd b days now None (st1, w1) = ((st1, w2), True)"
    and q1: "pw_faults w2 = []" "pw_cat w2 = c'"
    by (rule change_quiet [OF Cons.prems(1) aud c'(1)])
  have "\<exists>st' w'. add_loop D spec days now (map (\<lambda>b. SplitSentinel ?t (bd_name b) (bd_upper b)) bs) bs errs (st1, w2)
        = ((st', w'), errs, False) \<and> pw_faults w' = []
      \<and> set (pd_parts D ?t (pw_cat w')) = set (pd_parts D ?t (pw_cat w2)) \<union> set (map bd_name bs)"
  proof (rule Cons.IH)
    show "\<forall>d\<in>set bs. \<forall>m\<in>set (pd_parts D ?t (pw_cat w2)). m \<noteq> SentinelPartitionName \<longrightarrow> bound ?t m (pw_cat w2) < bd_upper d"
    proof (intro ballI impI)
      fix d m assume d: "d \<in> set bs" and m: "m \<in> set (pd_parts D ?t (pw_cat w2))" "m \<noteq> SentinelPartitionName"
      have "m = bd_name b \<or> m \<in> set (pd_parts D ?t ?c)" using m(1) c'(2) q1 by simp
      then show "bound ?t m (pw_cat w2) < bd_upper d"
      proof
        assume "m = bd_name b"
        then show ?thesis using Cons.prems(2) d c'(3) q1 by simp
      next
        assume "m \<in> set (pd_parts D ?t ?c)"
        then show ?thesis using Cons.prems(6) d m(2) c'(4) q1 by simp
      qed
    qed
    show "pw_faults w2 = []" "sorted_wrt (\<lambda>x y. bd_upper x < bd_upper y) bs" "distinct (map bd_name bs)"
      "SentinelPartitionName \<in> set (pd_parts D ?t (pw_cat w2))"
      using Cons.prems(2-4) c'(2) q1 by simp_all
    show "set (map bd_name bs) \<inter> set (pd_parts D ?t (pw_cat w2)) = {}"
      using Cons.prems(3,5) c'(2) q1 by simp
  qed
  then show ?case using run c'(2) q1 by (simp add: st1_def)
qed auto

lemma reclaim_loop_mysql:
  assumes laws: "mysql_accepts D bound" and aud: "pd_auditor D"
  shows "pw_faults w = [] \<Longrightarrow> SentinelPartitionName \<in> set (pd_parts D (sp_table spec) (pw_cat w)) \<Longrightarrow>
    set ts \<union> set ds \<subseteq> set (pd_parts D (sp_table spec) (pw_cat w)) \<Longrightarrow> distinct ds \<Longrightarrow>
    (\<forall>n\<in>set ts \<union> set ds. boundFromName n (sp_granularity spec) \<noteq> None) \<Longrightarrow>
    \<exists>st' w'. reclaim_loop D spec days now (map (\<lambda>n. (TruncatePartition (sp_table spec) n, n, True)) ts
          @ map (\<lambda>n. (DropPartition (sp_table spec) n, n, False)) ds) errs (st, w) = ((st', w'), errs)
      \<and> pw_faults w' = [] \<and> set (pd_parts D (sp_table spec) (pw_cat w')) = set (pd_parts D (sp_table spec) (pw_cat w)) - set ds"
proof (induction ts arbitrary: st w)
  case Nil
  then show ?case
  proof (induction ds arbitrary: st w)
    case (Cons n ds)
    let ?t = "sp_table spec" and ?c = "pw_cat w"
    obtain b where b: "boundFromName n (sp_granularity spec) = Some b" using Cons.prems by auto
    have ns: "n \<noteq> SentinelPartitionName" using b by auto
    then obtain c' where c': "pd_run D (DropPartition ?t n) ?c = Some c'" "set (pd_parts D ?t c') = set (pd_parts D ?t ?c) - {n}"
      using mysql_drop [OF laws, of n ?t ?c] Cons.prems(2,3) by auto
    define st1 where "st1 = st\<lparr>ps_dropped := ps_dropped st + 1\<rparr>"
    obtain w1 w2 where run: "ExecDDL D (DropPartition ?t n) w = (w1, Some ())"
      "auditPartitionChange D ?t PartitionActionDrop b days now (Some now) (st1, w1) = ((st1, w2), True)"
      and q1: "pw_faults w2 = []" "pw_cat w2 = c'"
      by (rule change_quiet [OF Cons.prems(1) aud c'(1)])
    have "\<exists>st' w'. reclaim_loop D spec days now (map (\<lambda>n. (TruncatePartition ?t n, n, True)) []
          @ map (\<lambda>n. (DropPartition ?t n, n, False)) ds) errs (st1, w2) = ((st', w'), errs)
      \<and> pw_faults w' = [] \<and> set (pd_parts D ?t (pw_cat w')) = set (pd_parts D ?t (pw_cat w2)) - set ds"
    proof (rule Cons.IH)
      show "pw_faults w2 = []" "distinct ds" using q1 Cons.prems(4) by simp_all
      show "SentinelPartitionName \<in> set (pd_parts D ?t (pw_cat w2))" using Cons.prems(2) c'(2) q1 ns by simp
      show "set [] \<union> set ds \<subseteq> set (pd_parts D ?t (pw_cat w2))" using Cons.prems(3,4) c'(2) q1 by auto
      show "\<forall>n\<in>set [] \<union> set ds. boundFromName n (sp_granularity spec) \<noteq> None" using Cons.prems(5) by simp
    qed
    then show ?case using run b c'(2) q1 by (auto simp: st1_def)
  qed simp
next
  case (Cons n ts)
  let ?t = "sp_table spec" and ?c = "pw_cat w"
  obtain b where b: "boundFromName n (sp_granularity spec) = Some b" using Cons.prems by auto
  obtain c' where c': "pd_run D (TruncatePartition ?t n) ?c = Some c'" "set (pd_parts D ?t c') = set (pd_parts D ?t ?c)"
    using mysql_truncate [OF laws, of n ?t ?c] Cons.prems(3) by auto
  define st1 where "st1 = st\<lparr>ps_truncated := ps_truncated st + 1\<rparr>"
  obtain w1 w2 where run: "ExecDDL D (TruncatePartition ?t n) w = (w1, Some ())"
    "auditPartitionChange D ?t PartitionActionDrop b days now (Some now) (st1, w1) = ((st1, w2), True)"
    and q1: "pw_faults w2 = []" "pw_cat w2 = c'"
    by (rule change_quiet [OF Cons.prems(1) aud c'(1)])
  have "\<exists>st' w'. reclaim_loop D spec days now (map (\<lambda>n. (TruncatePartition ?t n, n, True)) ts
          @ map (\<lambda>n. (DropPartition ?t n, n, False)) ds) errs (st1, w2) = ((st', w'), errs)
      \<and> pw_faults w' = [] \<and> set (pd_parts D ?t (pw_cat w')) = set (pd_parts D ?t (pw_cat w2)) - set ds"
  proof (rule Cons.IH)
    show "pw_faults w2 = []" "distinct ds" using q1 Cons.prems(4) by simp_all
    show "SentinelPartitionName \<in> set (pd_parts D ?t (pw_cat w2))" using Cons.prems(2) c'(2) q1 by simp
    show "set ts \<union> set ds \<subseteq> set (pd_parts D ?t (pw_cat w2))" using Cons.prems(3) c'(2) q1 by simp
    show "\<forall>n\<in>set ts \<union> set ds. boundFromName n (sp_granularity spec) \<noteq> None" using Cons.prems(5) by simp
  qed
  then show ?case using run b c'(2) q1 by (simp add: st1_def)
qed

text \<open>The missing partitions of a table with a guard and a sentinel, newest last.\<close>
lemma create_sorted:
  assumes ok: "plannable spec now horizon" and rs: "GuardPartitionName \<in> set existing" "SentinelPartitionName \<in> set existing"
  shows "sorted_wrt (\<lambda>x y. bd_upper x < bd_upper y) (filter (\<lambda>b. bd_name b \<notin> set existing) (Desired spec now horizon))"
    and "distinct (map bd_name (filter (\<lambda>b. bd_name b \<notin> set existing) (Desired spec now horizon)))"
proof -
  note D = Desired_window [OF ok refl refl refl]
  have "sorted_wrt (\<lambda>x y. bd_upper x < bd_upper y) (map (pbound g) [i..j])" for g i j
  proof -
    have "sorted_wrt (<) [i..j]" by (simp add: strict_sorted_iff)
    then show ?thesis unfolding sorted_wrt_map by (rule sorted_wrt_mono_rel [rotated]) simp
  qed
  then show "sorted_wrt (\<lambda>x y. bd_upper x < bd_upper y) (filter (\<lambda>b. bd_name b \<notin> set existing) (Desired spec now horizon))"
    using rs by (simp add: D sorted_wrt_filter del: pbound_sel)
  show "distinct (map bd_name (filter (\<lambda>b. bd_name b \<notin> set existing) (Desired spec now horizon)))"
    using window_names [OF ok refl refl refl] by (rule distinct_map_filter)
qed

text \<open>A round in which every statement of the plan is taken.\<close>
lemma reconcileTable_mysql:
  assumes my: "pd_dialect D = ''mysql''" and quiet: "pw_faults w = []"
    and spec: "spec = withConfiguredRetention (pd_cfg D) spec0"
    and p: "p = PlanFrom spec (pd_parts D (sp_table spec0) (pw_cat w)) now (horizonFor spec0) partitionHold"
    and sentinel: "SentinelPartitionName \<in> set (pd_parts D (sp_table spec0) (pw_cat w))"
    and add: "add_loop D spec (signed_take_bit 31 (quot64 (sp_retention spec) day_ns)) now
        (map (\<lambda>b. SplitSentinel (sp_table spec) (bd_name b) (bd_upper b)) (pl_create p)) (pl_create p) [] (st, w) = ((st1, w1), [], False)"
    and reclaim: "reclaim_loop D spec (signed_take_bit 31 (quot64 (sp_retention spec) day_ns)) now
        (map (\<lambda>n. (TruncatePartition (sp_table spec) n, n, True)) (pl_truncate p)
        @ map (\<lambda>n. (DropPartition (sp_table spec) n, n, False)) (pl_drop p)) [] (st1, w1) = ((st2, w2), [])"
  shows "reconcileTable D spec0 now (st, w) = ((st2, w2), None)"
proof -
  have t: "sp_table spec = sp_table spec0" "horizonFor spec = horizonFor spec0" by (simp_all add: spec)
  have ex: "ExistingPartitions D (sp_table spec0) w = (w, Some (pd_parts D (sp_table spec0) (pw_cat w)))"
    using my quiet by (simp add: ExistingPartitions_def)
  have adds: "AddPartitionDDL (pd_dialect D) spec (pl_create p) True
      = map (\<lambda>b. SplitSentinel (sp_table spec) (bd_name b) (bd_upper b)) (pl_create p)"
    by (simp add: AddPartitionDDL_def my)
  have recl: "ReclaimDDL (pd_dialect D) spec (pl_truncate p) (pl_drop p)
      = Some (map (TruncatePartition (sp_table spec)) (pl_truncate p) @ map (DropPartition (sp_table spec)) (pl_drop p))"
    by (simp add: ReclaimDDL_def my)
  have items: "reclaim_items p (map (TruncatePartition (sp_table spec)) (pl_truncate p) @ map (DropPartition (sp_table spec)) (pl_drop p))
      = map (\<lambda>n. (TruncatePartition (sp_table spec) n, n, True)) (pl_truncate p)
        @ map (\<lambda>n. (DropPartition (sp_table spec) n, n, False)) (pl_drop p)"
    by (simp add: reclaim_items_def zip_map_map zip_same_conv_map)
  show ?thesis
    unfolding reconcileTable_def spec [symmetric] Let_def
    by (simp only: prod.case t ex option.case sentinel p [symmetric] adds [unfolded t(1)] add [unfolded t(1)]
          recl [unfolded t(1)] items [unfolded t(1)] reclaim [unfolded t(1)] bool.case)
      (simp add: auditErrOrNil_def)
qed

text \<open>C36: a table whose missing partitions all lie above the ones it has is brought to its plan in one round: no
  error, every wanted partition is there, and of the others only those the plan drops are gone.\<close>
theorem contiguous_table_carried_out:
  assumes my: "pd_dialect D = ''mysql''" and laws: "mysql_accepts D bound" and aud: "pd_auditor D" and quiet: "pw_faults w = []"
    and ok: "plannable (withConfiguredRetention (pd_cfg D) spec0) now (horizonFor spec0)"
    and parts: "distinct (pd_parts D (sp_table spec0) (pw_cat w))"
      "{GuardPartitionName, SentinelPartitionName} \<subseteq> set (pd_parts D (sp_table spec0) (pw_cat w))"
    and above: "\<forall>b\<in>set (Desired (withConfiguredRetention (pd_cfg D) spec0) now (horizonFor spec0)).
      bd_name b \<notin> set (pd_parts D (sp_table spec0) (pw_cat w)) \<longrightarrow>
      (\<forall>m\<in>set (pd_parts D (sp_table spec0) (pw_cat w)). m \<noteq> SentinelPartitionName \<longrightarrow> bound (sp_table spec0) m (pw_cat w) < bd_upper b)"
  shows "\<exists>st' w'. reconcileTable D spec0 now (st, w) = ((st', w'), None)
    \<and> set (pd_parts D (sp_table spec0) (pw_cat w')) =
        set (carried_out (PlanFrom (withConfiguredRetention (pd_cfg D) spec0) (pd_parts D (sp_table spec0) (pw_cat w)) now (horizonFor spec0) partitionHold)
          (pd_parts D (sp_table spec0) (pw_cat w)))
    \<and> bd_name ` set (Desired (withConfiguredRetention (pd_cfg D) spec0) now (horizonFor spec0))
        \<subseteq> set (pd_parts D (sp_table spec0) (pw_cat w'))"
proof -
  define spec where "spec = withConfiguredRetention (pd_cfg D) spec0"
  let ?ex = "pd_parts D (sp_table spec0) (pw_cat w)" and ?want = "Desired spec now (horizonFor spec0)"
  let ?days = "signed_take_bit 31 (quot64 (sp_retention spec) day_ns)"
  define p where "p = PlanFrom spec ?ex now (horizonFor spec0) partitionHold"
  have t: "sp_table spec = sp_table spec0" by (simp add: spec_def)
  note ok' = ok [folded spec_def]
  let ?e = "expired_list spec now ?ex"
  have p_eq: "pl_create p = filter (\<lambda>b. bd_name b \<notin> set ?ex) ?want"
    "pl_truncate p = map bd_name (take (nat partitionHold) ?e)" "pl_drop p = map bd_name (drop (nat partitionHold) ?e)"
    by (simp_all add: p_def PlanFrom_eq [OF ok'])
  have gs: "GuardPartitionName \<in> set ?ex" "SentinelPartitionName \<in> set ?ex" using parts(2) by simp_all
  have "\<exists>st1 w1. add_loop D spec ?days now (map (\<lambda>b. SplitSentinel (sp_table spec) (bd_name b) (bd_upper b)) (pl_create p)) (pl_create p) [] (st, w)
        = ((st1, w1), [], False) \<and> pw_faults w1 = []
      \<and> set (pd_parts D (sp_table spec) (pw_cat w1)) = set ?ex \<union> set (map bd_name (pl_create p))"
    using add_loop_mysql [OF laws aud quiet, of "pl_create p" spec] create_sorted [OF ok' gs] gs above
    by (simp add: p_eq t spec_def [symmetric]) blast
  then obtain st1 w1 where a1: "add_loop D spec ?days now (map (\<lambda>b. SplitSentinel (sp_table spec) (bd_name b) (bd_upper b)) (pl_create p)) (pl_create p) [] (st, w)
        = ((st1, w1), [], False)" "pw_faults w1 = []"
    "set (pd_parts D (sp_table spec) (pw_cat w1)) = set ?ex \<union> set (map bd_name (pl_create p))" by blast
  note old = expired_list_sound [of _ spec now ?ex]
  have both: "set (pl_truncate p) \<union> set (pl_drop p) \<subseteq> bd_name ` set ?e"
    by (auto simp: p_eq dest: in_set_takeD in_set_dropD)
  have "\<exists>st2 w2. reclaim_loop D spec ?days now (map (\<lambda>n. (TruncatePartition (sp_table spec) n, n, True)) (pl_truncate p)
        @ map (\<lambda>n. (DropPartition (sp_table spec) n, n, False)) (pl_drop p)) [] (st1, w1) = ((st2, w2), [])
      \<and> pw_faults w2 = [] \<and> set (pd_parts D (sp_table spec) (pw_cat w2)) = set (pd_parts D (sp_table spec) (pw_cat w1)) - set (pl_drop p)"
  proof (rule reclaim_loop_mysql [OF laws aud a1(2)])
    show "SentinelPartitionName \<in> set (pd_parts D (sp_table spec) (pw_cat w1))" using a1(3) gs by simp
    show "set (pl_truncate p) \<union> set (pl_drop p) \<subseteq> set (pd_parts D (sp_table spec) (pw_cat w1))" using both old a1(3) by auto
    show "distinct (pl_drop p)"
      using expired_list_names [OF parts(1), of spec now] by (simp add: p_eq drop_map [symmetric] distinct_drop)
    show "\<forall>n\<in>set (pl_truncate p) \<union> set (pl_drop p). boundFromName n (sp_granularity spec) \<noteq> None" using both old by auto
  qed
  then obtain st2 w2 where a2: "reclaim_loop D spec ?days now (map (\<lambda>n. (TruncatePartition (sp_table spec) n, n, True)) (pl_truncate p)
        @ map (\<lambda>n. (DropPartition (sp_table spec) n, n, False)) (pl_drop p)) [] (st1, w1) = ((st2, w2), [])"
    "set (pd_parts D (sp_table spec) (pw_cat w2)) = set (pd_parts D (sp_table spec) (pw_cat w1)) - set (pl_drop p)" by blast
  have fin: "set (pd_parts D (sp_table spec0) (pw_cat w2)) = (set ?ex \<union> set (map bd_name (pl_create p))) - set (pl_drop p)"
    using a1(3) a2(2) by (simp add: t)
  have kept: "bd_name ` set ?want \<inter> set (pl_drop p) = {}" using both wanted_not_expired [OF ok', of ?ex] by blast
  then have "set (pd_parts D (sp_table spec0) (pw_cat w2)) = set (carried_out p ?ex)"
    unfolding fin carried_out_def by (auto simp: p_eq(1))
  moreover have "bd_name ` set ?want \<subseteq> set (pd_parts D (sp_table spec0) (pw_cat w2))"
    using kept unfolding fin by (auto simp: p_eq(1))
  ultimately show ?thesis
    using reconcileTable_mysql [OF my quiet spec_def p_def gs(2) a1(1) a2(1)] unfolding p_def spec_def by blast
qed

section \<open>Instances\<close>

text \<open>A catalogue of MySQL: the partitions of each table with their bounds, in order.\<close>
type_synonym my_cat = "string \<Rightarrow> (string \<times> int) list"

definition my_bound :: "string \<Rightarrow> string \<Rightarrow> my_cat \<Rightarrow> int" where
  "my_bound t n c = (case map_of (c t) n of None \<Rightarrow> 0 | Some u \<Rightarrow> u)"

fun my_run :: "ddl \<Rightarrow> my_cat \<Rightarrow> my_cat option" where
  "my_run (CreateInline t cols bs) c = Some (if c t = [] then c(t := map (\<lambda>b. (bd_name b, bd_upper b)) bs) else c)"
| "my_run (SplitSentinel t n up) c =
     (if SentinelPartitionName \<in> fst ` set (c t) \<and> n \<notin> fst ` set (c t)
         \<and> list_all (\<lambda>(m, _). m \<noteq> SentinelPartitionName \<longrightarrow> my_bound t m c < up) (c t)
      then Some (c(t := filter (\<lambda>(m, _). m \<noteq> SentinelPartitionName) (c t) @ [(n, up), (SentinelPartitionName, MaxInt64)]))
      else None)"
| "my_run (TruncatePartition t n) c = (if n \<in> fst ` set (c t) then Some c else None)"
| "my_run (DropPartition t n) c =
     (if n \<in> fst ` set (c t) then Some (c(t := filter (\<lambda>(m, _). m \<noteq> n) (c t))) else None)"
| "my_run _ c = None"

definition my_deps :: "(string \<Rightarrow> int \<Rightarrow> int) \<Rightarrow> my_cat pdeps" where
  "my_deps cfg =
     \<lparr>pd_run = my_run, pd_parts = (\<lambda>t c. map fst (c t)), pd_dialect = ''mysql'', pd_cfg = cfg, pd_owner = ''host:1'',
      pd_auditor = True, pd_now = demo_now\<rparr>"

lemma my_deps_sel [simp]:
  "pd_run (my_deps cfg) = my_run" "pd_parts (my_deps cfg) = (\<lambda>t c. map fst (c t))" "pd_dialect (my_deps cfg) = ''mysql''"
  "pd_cfg (my_deps cfg) = cfg" "pd_auditor (my_deps cfg)" "pd_now (my_deps cfg) = demo_now"
  by (simp_all add: my_deps_def)

definition my_world :: "my_cat \<Rightarrow> my_cat pworld" where
  "my_world c = \<lparr>pw_cat = c, pw_ran = [], pw_log = [], pw_lock = None, pw_faults = []\<rparr>"

lemma my_refuses: "mysql_refuses (my_deps cfg) my_bound"
  unfolding mysql_refuses_def by (auto simp: list_all_iff image_iff)

lemma map_of_filter_key: "m \<noteq> k \<Longrightarrow> map_of (filter (\<lambda>(x, _). x \<noteq> k) xs) m = map_of xs m"
  by (induction xs) auto

lemma my_accepts: "mysql_accepts (my_deps cfg) my_bound"
proof -
  have split: "\<exists>c'. my_run (SplitSentinel t n up) c = Some c' \<and> set (map fst (c' t)) = insert n (set (map fst (c t)))
      \<and> my_bound t n c' = up \<and> (\<forall>m\<in>set (map fst (c t)). m \<noteq> SentinelPartitionName \<longrightarrow> my_bound t m c' = my_bound t m c)"
    if h: "SentinelPartitionName \<in> set (map fst (c t))" "n \<notin> set (map fst (c t))"
      "\<forall>m\<in>set (map fst (c t)). m \<noteq> SentinelPartitionName \<longrightarrow> my_bound t m c < up" for t n up and c :: my_cat
  proof -
    define f where "f = filter (\<lambda>(m, _). m \<noteq> SentinelPartitionName) (c t)"
    define c' where "c' = c(t := f @ [(n, up), (SentinelPartitionName, MaxInt64)])"
    have run: "my_run (SplitSentinel t n up) c = Some c'" using h by (auto simp: c'_def f_def list_all_iff)
    have names: "fst ` set f = fst ` set (c t) - {SentinelPartitionName}" by (force simp: f_def)
    have "map_of f n = None" using h(2) names by (simp add: map_of_eq_None_iff)
    then have 1: "my_bound t n c' = up" by (simp add: my_bound_def c'_def map_add_def)
    have 2: "my_bound t m c' = my_bound t m c" if m: "m \<in> set (map fst (c t))" "m \<noteq> SentinelPartitionName" for m
    proof -
      have "map_of f m = map_of (c t) m" unfolding f_def using m(2) by (rule map_of_filter_key)
      moreover obtain u where "map_of (c t) m = Some u" using m(1) by (cases "map_of (c t) m") (auto simp: map_of_eq_None_iff)
      ultimately show ?thesis by (simp add: my_bound_def c'_def map_add_def)
    qed
    have 3: "set (map fst (c' t)) = insert n (set (map fst (c t)))" using names h(1) by (auto simp: c'_def)
    show ?thesis using run 1 2 3 by blast
  qed
  have drop: "set (map fst (filter (\<lambda>(m, _). m \<noteq> n) xs)) = set (map fst xs) - {n}" for n :: string and xs :: "(string \<times> int) list"
    by force
  show ?thesis
    unfolding mysql_accepts_def my_deps_sel using split drop by (intro conjI allI impI) (auto simp del: my_run.simps(2))
qed

lemma demo_retention: "wrap64 (30 * day_ns) = 30 * day_ns" "wrap64 (60 * day_ns) = 60 * day_ns" "wrap64 (180 * day_ns) = 180 * day_ns"
  by (rule wrap64_id; simp add: day_ns_def)+

definition table_5m :: Spec where "table_5m = mk_spec ''device_metric_5m'' GranularityWeek 30"

lemma demo_table [simp]: "table_5m \<in> set TableSpecs" "sp_table table_5m = ''device_metric_5m''"
  "sp_granularity table_5m = GranularityWeek" "horizonFor table_5m = 5"
  by (simp_all add: table_5m_def TableSpecs_def mk_spec_def horizonFor_def partitionHorizonWeeks_def)

lemma demo_configured:
  "withConfiguredRetention (\<lambda>_ d. d) table_5m = demo_spec"
  "withConfiguredRetention (\<lambda>_ _. 60) table_5m = mk_spec ''device_metric_5m'' GranularityWeek 60"
  by (simp_all add: withConfiguredRetention_def table_5m_def demo_spec_def mk_spec_def partition_history_days_def demo_retention Let_def)

text \<open>A table made in July with thirty days of retention, which is then raised to sixty.\<close>
lemma raised_retention_blocks_witness:
  "reconcileTable (my_deps (\<lambda>_ _. 60)) table_5m (demo_now + day_ns)
     (zero_pstats, my_world (\<lambda>_. map (\<lambda>b. (bd_name b, bd_upper b)) (Desired demo_spec demo_now 5)))
   = ((zero_pstats, my_world (\<lambda>_. map (\<lambda>b. (bd_name b, bd_upper b)) (Desired demo_spec demo_now 5))), Some ErrAdd)"
proof (rule raised_retention_blocks [OF _ my_refuses _ _ _ demo_plannable])
  show "plannable (withConfiguredRetention (pd_cfg (my_deps (\<lambda>_ _. 60))) table_5m) (demo_now + day_ns) (horizonFor table_5m)"
    by (simp add: demo_configured plannable_def mk_spec_def demo_now_def nsec_def day_ns_def)
  show "periodStart (demo_now + day_ns - sp_retention (withConfiguredRetention (pd_cfg (my_deps (\<lambda>_ _. 60))) table_5m)) (sp_granularity table_5m)
      < periodStart (demo_now - sp_retention demo_spec) (sp_granularity table_5m)"
    by (simp add: demo_configured periodStart_eq)
      (simp add: pindex_def week_index_def day_number_def mk_spec_def demo_spec_def demo_now_def nsec_def day_ns_def)
  show "my_bound (sp_table table_5m) GuardPartitionName (pw_cat (my_world (\<lambda>_. map (\<lambda>b. (bd_name b, bd_upper b)) (Desired demo_spec demo_now 5))))
      = bd_upper (hd (Desired demo_spec demo_now 5))"
    by (simp add: my_bound_def my_world_def Desired_def Let_def)
qed (simp_all add: my_world_def comp_def demo_spec_def mk_spec_def)

text \<open>A table with nothing but its guard and its sentinel.\<close>
definition demo_bare :: my_cat where
  "demo_bare t = [(GuardPartitionName, bd_upper (hd (Desired demo_spec demo_now 5))), (SentinelPartitionName, MaxInt64)]"

lemma contiguous_table_carried_out_witness:
  "\<exists>st' w'. reconcileTable (my_deps (\<lambda>_ d. d)) table_5m demo_now (zero_pstats, my_world demo_bare) = ((st', w'), None)
    \<and> bd_name ` set (Desired demo_spec demo_now 5) \<subseteq> fst ` set (pw_cat w' ''device_metric_5m'')"
proof -
  note D = Desired_window [OF demo_plannable refl refl refl]
  have up: "my_bound t m demo_bare < bd_upper b"
    if "b \<in> set (Desired demo_spec demo_now 5)" "bd_name b \<notin> {GuardPartitionName, SentinelPartitionName}"
      "m \<in> {GuardPartitionName, SentinelPartitionName}" "m \<noteq> SentinelPartitionName" for b m t
    using that by (auto simp: D my_bound_def demo_bare_def reserved_differ)
  have "\<exists>st' w'. reconcileTable (my_deps (\<lambda>_ d. d)) table_5m demo_now (zero_pstats, my_world demo_bare) = ((st', w'), None)
    \<and> set (pd_parts (my_deps (\<lambda>_ d. d)) (sp_table table_5m) (pw_cat w')) =
        set (carried_out (PlanFrom (withConfiguredRetention (pd_cfg (my_deps (\<lambda>_ d. d))) table_5m)
          (pd_parts (my_deps (\<lambda>_ d. d)) (sp_table table_5m) (pw_cat (my_world demo_bare))) demo_now (horizonFor table_5m) partitionHold)
          (pd_parts (my_deps (\<lambda>_ d. d)) (sp_table table_5m) (pw_cat (my_world demo_bare))))
    \<and> bd_name ` set (Desired (withConfiguredRetention (pd_cfg (my_deps (\<lambda>_ d. d))) table_5m) demo_now (horizonFor table_5m))
        \<subseteq> set (pd_parts (my_deps (\<lambda>_ d. d)) (sp_table table_5m) (pw_cat w'))"
    by (rule contiguous_table_carried_out [where bound = my_bound])
      (use my_accepts demo_plannable up in \<open>simp_all add: demo_configured my_world_def demo_bare_def [of "''device_metric_5m''"] reserved_differ\<close>)
  then show ?thesis by (simp add: demo_configured) blast
qed

lemma demo_planned:
  "list_all (\<lambda>spec. plannable (withConfiguredRetention (pd_cfg (my_deps (\<lambda>_ d. d))) spec) (pd_now (my_deps (\<lambda>_ d. d))) (horizonFor spec)) TableSpecs"
  by (simp add: TableSpecs_def mk_spec_def withConfiguredRetention_def partition_history_days_def
      defaultAgentMetrics1hRetentionDays_def demo_retention Let_def horizonFor_def partitionHorizonWeeks_def partitionHorizonMonths_def)
    (simp add: plannable_def demo_now_def nsec_def day_ns_def)

text \<open>A world where a request is lost and another process changes the catalogue.\<close>
definition demo_rough :: "my_cat pworld" where
  "demo_rough = (my_world demo_bare)\<lparr>pw_faults := [PWorks, PLostRequest, PMeanwhile (\<lambda>c. c(''device_metric_5m'' := [])) id, PLostReply]\<rparr>"

lemma reconcile_reclaims_only_expired_witness:
  "\<exists>xs. pw_ran (fst (Reconcile (my_deps (\<lambda>_ d. d)) demo_rough)) = xs \<and> list_all (reclaim_ok (\<lambda>_ d. d) demo_now) xs"
  using reconcile_reclaims_only_expired [OF demo_planned, of demo_rough] by (simp add: demo_rough_def my_world_def)

lemma audit_no_silent_gap_witness:
  "\<exists>xs rows. pw_log (fst (Reconcile (my_deps (\<lambda>_ d. d)) demo_rough)) = rows
     \<and> list_all (\<lambda>r. list_ex (\<lambda>d. describes d r) xs) rows \<and> pw_ran (fst (Reconcile (my_deps (\<lambda>_ d. d)) demo_rough)) = xs"
  using audit_no_silent_gap [OF demo_planned, of demo_rough "fst (Reconcile (my_deps (\<lambda>_ d. d)) demo_rough)"
      "fst (snd (Reconcile (my_deps (\<lambda>_ d. d)) demo_rough))" "snd (snd (Reconcile (my_deps (\<lambda>_ d. d)) demo_rough))"]
  by (auto simp: demo_rough_def my_world_def)

text \<open>The week that is being written, under a retention of 200000 days.\<close>
lemma huge_retention_reclaims_current_witness:
  "''p_2026_w01'' \<in> set (pl_truncate (PlanFrom (withConfiguredRetention (\<lambda>_ _. 200000) table_5m) [''p_2026_w01''] (1767225600 * nsec) 5 2))
     \<union> set (pl_drop (PlanFrom (withConfiguredRetention (\<lambda>_ _. 200000) table_5m) [''p_2026_w01''] (1767225600 * nsec) 5 2))"
proof -
  have b: "boundFromName ''p_2026_w01'' GranularityWeek = Some (pbound GranularityWeek 2922)"
    using demo_old_bound(1) by (simp add: old_bound_Some demo_spec_def mk_spec_def)
  have "''p_2026_w01'' \<in> set (pl_truncate (PlanFrom (withConfiguredRetention (\<lambda>_ _. 200000) table_5m) [''p_2026_w01''] (1767225600 * nsec) (horizonFor table_5m) 2))
     \<union> set (pl_drop (PlanFrom (withConfiguredRetention (\<lambda>_ _. 200000) table_5m) [''p_2026_w01''] (1767225600 * nsec) (horizonFor table_5m) 2))"
    by (rule huge_retention_reclaims_current [where b = "pbound GranularityWeek 2922"])
      (simp_all add: b pstart_def sow_def nsec_def day_ns_def)
  then show ?thesis by simp
qed

text \<open>A catalogue of PostgreSQL: the relations, each with the table it is a partition of.\<close>
fun pg_run :: "ddl \<Rightarrow> (string \<times> string option) list \<Rightarrow> (string \<times> string option) list option" where
  "pg_run (CreateParent t cols) c = Some (if t \<in> fst ` set c then c else (t, None) # c)"
| "pg_run (CreateChild n t lo up) c = Some (if n \<in> fst ` set c then c else (n, Some t) # c)"
| "pg_run _ c = None"

definition pg_deps :: "(string \<times> string option) list pdeps" where
  "pg_deps =
     \<lparr>pd_run = pg_run, pd_parts = (\<lambda>t c. []), pd_dialect = ''postgres'', pd_cfg = (\<lambda>_ d. d), pd_owner = ''host:1'',
      pd_auditor = True, pd_now = demo_now\<rparr>"

lemma postgres_only_first_table_witness:
  "{n. (n, Some ''device_metric_disk'') \<in> set (pw_cat (fst (EnsureSchema pg_deps demo_now
     \<lparr>pw_cat = [], pw_ran = [], pw_log = [], pw_lock = None, pw_faults = []\<rparr>)))} = {}"
proof -
  have laws: "postgres_laws pg_deps (\<lambda>c. fst ` set c) (\<lambda>t c. {n. (n, Some t) \<in> set c})"
    by (auto simp: postgres_laws_def pg_deps_def)
  show ?thesis
    using postgres_only_first_table [OF _ laws, of "\<lparr>pw_cat = [], pw_ran = [], pw_log = [], pw_lock = None, pw_faults = []\<rparr>" "''device_metric_disk''" demo_now]
    by (simp add: pg_deps_def nobody_def)
qed

end
