(* ===== verification/Spec2Isabelle.thy ===== *)
theory Spec2Isabelle
  imports RollupMarks Backfill UpgradeWatch HubProps DispatchPlans PartitionCases Semver
begin

text \<open>
  UniCenter monitors machines. An agent on every machine (\<open>src/uni_agent\<close>) keeps a websocket to the core service
  (\<open>src/uni_core\<close>), speaks the protocol of \<open>src/uni_protocol\<close>, sends metrics and upgrades itself on request. The core
  service enrols and authenticates agents, keeps a hot window of raw samples in Redis, condenses it into five-minute and
  hourly rows in SQL tables, and dispatches upgrades. This development models the protocol, the agent's self-upgrade, the
  server side of the agent channel, the metrics pipeline and the upgrade domain. The console (accounts, menus, notices,
  files) and its web client are not modelled.

  \<^bold>\<open>Conventions.\<close> A Go struct is a record, an enumeration a datatype or a number, a map a function into options, a Go string
  a list of bytes. A method that may fail returns a sum with the error on the left, or an option of an error. A method that
  changes state takes the state last and returns it first. State that other processes share (Redis, the SQL tables, the disk
  of an agent) carries a script: an entry decides for each access whether it works, fails, or finds that others wrote first.
  Theorems quantify over the scripts, so they cover every failure and interleaving at that grain. Times are whole numbers in
  the unit of the code, and 64-bit words are used where wrap-around can matter. Third-party code (the JSON library, the
  hashes, the random source, the snowflake identifiers, the pattern match of SQL) is a parameter. Log lines, metrics of the
  process itself and free texts are left out throughout.

  \<^bold>\<open>Protocol\<close> (\<open>src/uni_protocol\<close>). \<open>Semver\<close> has the version parser, printer and comparison of \<open>semver.go\<close>: parsing accepts
  exactly the printed versions, the comparison is a total order. \<open>Envelope\<close> has the envelope codec of \<open>envelope.go\<close>, versions,
  errors and close codes (\<open>closecode.go\<close>). \<open>Payload\<close> has every payload with its validation (\<open>hello.go\<close>, \<open>heartbeat.go\<close>,
  \<open>metrics.go\<close>, \<open>upgrade.go\<close>) and the registry by type and direction (\<open>registry.go\<close>); malformed and misdirected
  payloads stop at the decoder.

  \<^bold>\<open>Rows of metrics.\<close> \<open>Float64\<close> models IEEE doubles as far as \<open>util/round.go\<close> needs them. \<open>Downsample\<close> and \<open>HourRollup\<close>
  (\<open>pkg/agentmetrics/downsample.go\<close>, \<open>rollup.go\<close>) turn samples into five-minute rows and those into hour rows.

  \<^bold>\<open>Stores.\<close> \<open>Store\<close> is Redis with its Lua scripts, \<open>CursorStore\<close> the watermarks, repair sets and rewind markers of
  \<open>cursor.go\<close>, which refine atomic operations on a number, \<open>RawStore\<close> the raw window of \<open>raw.go\<close> with its bucket ranges, \<open>MetricsDB\<close>
  the row tables of \<open>repository/device_metric.go\<close> and \<open>device_resource.go\<close>.

  \<^bold>\<open>Flush.\<close> \<open>Flush\<close> is the round of \<open>service/agent_metrics_flush.go\<close>. \<open>FlushSafety\<close>: a round never undoes a rewind and its
  watermark only passes buckets with their rows. \<open>FlushLive\<close>: what it completes on a quiet connection, and the sample that
  blocks it. The compare-and-set of the watermark script carries the safety.

  \<^bold>\<open>Roll-up.\<close> \<open>Rollup\<close> is the hour round of \<open>service/agent_metrics_rollup.go\<close> with repair set, quota, grace and rewind marker.
  \<open>RollupSafety\<close> and \<open>RollupMarks\<close> show what its watermark and its marks promise, and a false report of having caught up.
  \<open>Backfill\<close> is \<open>service/agent_metrics_backfill.go\<close>: which watermarks a replay lowers, to where.

  \<^bold>\<open>Agent upgrade\<close> (\<open>src/uni_agent/internal/upgrade\<close>). \<open>AgentUpgrade\<close> has the pipeline of \<open>upgrade.go\<close> and the transaction of
  \<open>transaction.go\<close> over an explicit disk where every operation may fail, be denied or be cut by a crash. \<open>UpgradeSafety\<close>: the
  program file always holds a program that was verified or that ran before (or, after a directive during a pending upgrade,
  its beginning), and a program that keeps dying is replaced at its third start. \<open>UpgradeWatch\<close>: when the watchdog rolls back, and where it does so without need.

  \<^bold>\<open>Agent channel\<close> (\<open>pkg/agenthub\<close>). \<open>AgentHub\<close> has the registry and the connections as handlers and as a step relation
  that interleaves them. \<open>HubSafety\<close> is its invariant, \<open>HubProps\<close> the properties: deliveries come from devices that were let
  in, one live connection per device but for a race, one close frame per connection. \<open>AgentIngest\<close> and \<open>Enrolment\<close> have the
  device table and \<open>service/agent_ingest.go\<close>: enrolment refines a map of credentials and keeps the operators' settings.

  \<^bold>\<open>Upgrade domain.\<close> \<open>UpgradeTable\<close> has the attempt, task and release tables (\<open>repository/agent_upgrade.go\<close>,
  \<open>agent_release.go\<close>), \<open>DeviceUpgrade\<close> the hello reconciliation and the reports of \<open>service/device_upgrade.go\<close>, \<open>DeviceDispatch\<close>
  the commands, queries and patrol of \<open>device_upgrade_command.go\<close> and \<open>device_upgrade_query.go\<close>. \<open>DispatchSafety\<close> makes them a
  step relation and carries invariants through it by a locale, which \<open>DispatchProps\<close> interprets for each property: finished
  attempts are final, success needs a hello, one attempt is open, a failed upgrade is not issued again. \<open>DispatchPlans\<close> has
  the console's side: plans, site-wide targets, the patrol, previews, request identifiers and the summary.

  \<^bold>\<open>Partitions.\<close> \<open>Calendar\<close> is what the code uses of Go's calendar (months, ISO weeks), with a grid that weeks and months
  both interpret. \<open>Partition\<close> has names, bounds, wanted lists, plans and statements of \<open>pkg/agentmetrics/partition.go\<close> and
  \<open>types.go\<close>, \<open>MetricSchema\<close> the column definitions and the column lists of \<open>repository/device_metric_schema.go\<close> and
  \<open>device_metric.go\<close>, \<open>PartitionService\<close> the round of \<open>service/agent_metrics_partition.go\<close> with its lock
  (\<open>redis_locker.go\<close>), \<open>EnsureSchema\<close> and the audit log (\<open>agent_partition_log.go\<close>). \<open>PartitionProps\<close>: wanted partitions tile
  the time line, a plan reclaims exactly what has expired. \<open>PartitionSafety\<close>: no failure or interleaving makes a round drop
  more. \<open>PartitionCases\<close>: the table that is brought to its plan, and the settings and servers where it is not.

  \<^bold>\<open>Bounds.\<close> No definition needs fuel: loops recurse over lists or carry a measure. The constants are those of the code
  (720 hours of repair set, three starts, fifteen minutes until an attempt is stale). The calendar has unbounded years; its
  theorems on plans ask that the retention ends after January 1970 and that the horizon fits 64-bit seconds.

  \<^bold>\<open>Not modelled.\<close> The read side of the metrics for charts; the socket loop and the collectors of the agent, which are timers
  and operating-system readings; the console with its accounts, permissions, scheduler, files and notices; migrations, wiring,
  HTTP handlers and the generated API documents. They are input and output, third-party callbacks or tables that the modelled
  parts never read.
\<close>

end
